(* ===== verification/Prelude.thy ===== *)
theory Prelude
  imports Main "HOL-Library.Word" "HOL-Library.Multiset" "HOL-Library.AList"
    "HOL-Library.List_Lexorder" "HOL-Library.Char_ord" "HOL-Library.Product_Lexorder"
begin

text \<open>
  Shared vocabulary of the development: results (\<open>Inl\<close> an error, \<open>Inr\<close> a value), commands over
  a state that keep the state they reached when they fail (a Rust \<open>&mut self\<close> method does the
  same), saturating machine arithmetic, iteration over hash tables whose order the standard
  library leaves open, and the generic lemmas on lists, maps and options the components share.
\<close>

named_theorems result_simps \<open>computation rules of results and commands\<close>
named_theorems result_elims \<open>inversion rules for successful results\<close>

section \<open>Machine words\<close>

type_synonym u8 = "8 word"
type_synonym u32 = "32 word"
type_synonym u64 = "64 word"
type_synonym u128 = "128 word"

text \<open>Rust's \<open>saturating_add\<close> and \<open>saturating_sub\<close> on unsigned integers, and \<open>clamp\<close>.\<close>

definition sat_add :: "'a::len word \<Rightarrow> 'a word \<Rightarrow> 'a word" where
  "sat_add a b = (if unat a + unat b < 2 ^ LENGTH('a) then a + b else - 1)"

definition sat_sub :: "'a::len word \<Rightarrow> 'a word \<Rightarrow> 'a word" where
  "sat_sub a b = (if a < b then 0 else a - b)"

definition clamp_word :: "'a::len word \<Rightarrow> 'a word \<Rightarrow> 'a word \<Rightarrow> 'a word" where
  "clamp_word lo hi x = (if x < lo then lo else if hi < x then hi else x)"

lemma unat_minus_one_max: "unat (- 1 :: 'a::len word) = 2 ^ LENGTH('a) - 1"
  by (simp add: unsigned_minus_1_eq_mask mask_eq_exp_minus_1)

lemma unat_bound: "unat w < 2 ^ LENGTH('a)" for w :: "'a::len word"
  by (rule unsigned_less)

lemma unat_sat_add:
  "unat (sat_add a b) = min (unat a + unat b) (2 ^ LENGTH('a) - 1)" for a b :: "'a::len word"
  by (auto simp: sat_add_def unat_minus_one_max unat_word_ariths min_def)

lemma sat_add_ge: "a \<le> sat_add a b"
proof -
  have "unat a \<le> 2 ^ LENGTH('a) - 1" for a :: "'a::len word"
    using unat_bound [of a] by linarith
  then show ?thesis by (simp add: word_le_nat_alt unat_sat_add)
qed

lemma sat_add_mono: "a \<le> a' \<Longrightarrow> b \<le> b' \<Longrightarrow> sat_add a b \<le> sat_add a' b'"
  by (simp add: word_le_nat_alt unat_sat_add)

lemma unat_sat_sub: "unat (sat_sub a b) = unat a - unat b"
proof (cases "a < b")
  case True
  then show ?thesis by (simp add: sat_sub_def word_less_nat_alt)
next
  case False
  then show ?thesis by (simp add: sat_sub_def unat_sub not_less)
qed

lemma clamp_word_range: "lo \<le> hi \<Longrightarrow> lo \<le> clamp_word lo hi x \<and> clamp_word lo hi x \<le> hi"
  by (auto simp: clamp_word_def)

section \<open>Results\<close>

definition res_bind :: "'e + 'a \<Rightarrow> ('a \<Rightarrow> 'e + 'b) \<Rightarrow> 'e + 'b" where
  "res_bind m f = (case m of Inl e \<Rightarrow> Inl e | Inr x \<Rightarrow> f x)"

definition res_map :: "('a \<Rightarrow> 'b) \<Rightarrow> 'e + 'a \<Rightarrow> 'e + 'b" where
  "res_map f m = (case m of Inl e \<Rightarrow> Inl e | Inr x \<Rightarrow> Inr (f x))"

text \<open>\<open>Option::ok_or\<close>.\<close>

definition ok_or :: "'e \<Rightarrow> 'a option \<Rightarrow> 'e + 'a" where
  "ok_or e x = (case x of None \<Rightarrow> Inl e | Some y \<Rightarrow> Inr y)"

text \<open>A loop whose body may return early with an error, and one that collects its values.\<close>

fun res_each :: "('a \<Rightarrow> 'e + unit) \<Rightarrow> 'a list \<Rightarrow> 'e + unit" where
  "res_each f [] = Inr ()"
| "res_each f (x # xs) = res_bind (f x) (\<lambda>_. res_each f xs)"

fun res_collect :: "('a \<Rightarrow> 'e + 'b) \<Rightarrow> 'a list \<Rightarrow> 'e + 'b list" where
  "res_collect f [] = Inr []"
| "res_collect f (x # xs) = res_bind (f x) (\<lambda>y. res_map ((#) y) (res_collect f xs))"

fun res_fold :: "('a \<Rightarrow> 'b \<Rightarrow> 'e + 'b) \<Rightarrow> 'a list \<Rightarrow> 'b \<Rightarrow> 'e + 'b" where
  "res_fold f [] b = Inr b"
| "res_fold f (x # xs) b = res_bind (f x b) (res_fold f xs)"

lemma res_bind_simps [simp, result_simps]:
  "res_bind (Inl e) f = Inl e" "res_bind (Inr x) f = f x"
  by (simp_all add: res_bind_def)

lemma res_map_simps [simp, result_simps]:
  "res_map f (Inl e) = Inl e" "res_map f (Inr x) = Inr (f x)"
  by (simp_all add: res_map_def)

lemma ok_or_simps [simp, result_simps]:
  "ok_or e None = Inl e" "ok_or e (Some x) = Inr x"
  by (simp_all add: ok_or_def)

lemma res_bind_eq_Inr [result_elims]:
  "res_bind m f = Inr y \<longleftrightarrow> (\<exists>x. m = Inr x \<and> f x = Inr y)"
  by (cases m) auto

lemma res_bind_eq_Inl [result_elims]:
  "res_bind m f = Inl e \<longleftrightarrow> m = Inl e \<or> (\<exists>x. m = Inr x \<and> f x = Inl e)"
  by (cases m) auto

lemma res_map_eq [result_elims]:
  "res_map f m = Inr y \<longleftrightarrow> (\<exists>x. m = Inr x \<and> y = f x)"
  "res_map f m = Inl e \<longleftrightarrow> m = Inl e"
  by (cases m; auto)+

lemma ok_or_eq [result_elims]:
  "ok_or e x = Inr y \<longleftrightarrow> x = Some y" "ok_or e x = Inl e' \<longleftrightarrow> x = None \<and> e' = e"
  by (cases x; auto)+

lemma res_each_Inr [result_elims]:
  "res_each f xs = Inr u \<longleftrightarrow> (\<forall>x\<in>set xs. f x = Inr ())"
  by (induction xs) (auto simp: res_bind_eq_Inr)

text \<open>An early return comes from the first element whose body fails.\<close>

lemma res_each_Inl:
  "res_each f xs = Inl e \<Longrightarrow>
    \<exists>ys x zs. xs = ys @ x # zs \<and> f x = Inl e \<and> (\<forall>y\<in>set ys. f y = Inr ())"
proof (induction xs)
  case Nil
  then show ?case by simp
next
  case (Cons x xs)
  show ?case
  proof (cases "f x")
    case (Inl e')
    with Cons.prems show ?thesis by (intro exI [of _ "[]"]) auto
  next
    case (Inr u)
    with Cons obtain ys y zs where "xs = ys @ y # zs" "f y = Inl e" "\<forall>y\<in>set ys. f y = Inr ()"
      by auto
    with Inr show ?thesis by (intro exI [of _ "x # ys"] exI [of _ y] exI [of _ zs]) auto
  qed
qed

lemma res_collect_Inr:
  "res_collect f xs = Inr ys \<longleftrightarrow> list_all2 (\<lambda>x y. f x = Inr y) xs ys"
  by (induction xs arbitrary: ys)
    (auto simp: res_bind_eq_Inr res_map_eq list_all2_Cons1)

lemma res_collect_map:
  "res_collect f xs = Inr ys \<Longrightarrow> (\<And>x y. x \<in> set xs \<Longrightarrow> f x = Inr y \<Longrightarrow> y = g x) \<Longrightarrow> ys = map g xs"
  by (induction xs arbitrary: ys) (auto simp: res_bind_eq_Inr res_map_eq)

lemma res_collect_each: "res_collect f xs = Inr ys \<Longrightarrow> x \<in> set xs \<Longrightarrow> \<exists>y. f x = Inr y"
  by (induction xs arbitrary: ys) (auto simp: res_bind_eq_Inr res_map_eq)

lemma res_collect_pure: "(\<And>x. x \<in> set xs \<Longrightarrow> f x = Inr (g x)) \<Longrightarrow> res_collect f xs = Inr (map g xs)"
  by (induction xs) auto

lemma res_fold_append:
  "res_fold f (xs @ ys) b = res_bind (res_fold f xs b) (res_fold f ys)"
proof (induction xs arbitrary: b)
  case Nil
  then show ?case by simp
next
  case (Cons x xs)
  then show ?case by (cases "f x b") auto
qed

lemma res_fold_invariant:
  assumes "res_fold f xs b = Inr b'" and "P b"
    and "\<And>x b b'. x \<in> set xs \<Longrightarrow> P b \<Longrightarrow> f x b = Inr b' \<Longrightarrow> P b'"
  shows "P b'"
  using assms by (induction xs arbitrary: b) (auto simp: res_bind_eq_Inr)

text \<open>Two loops in step: each body of the first does on the abstraction what the second's does.\<close>

lemma res_fold_simulation:
  assumes "P b"
    and "\<And>x b. x \<in> set xs \<Longrightarrow> P b \<Longrightarrow> res_map view (f x b) = g x (view b)"
    and "\<And>x b b'. x \<in> set xs \<Longrightarrow> P b \<Longrightarrow> f x b = Inr b' \<Longrightarrow> P b'"
  shows "res_map view (res_fold f xs b) = res_fold g xs (view b)"
  using assms
proof (induction xs arbitrary: b)
  case Nil
  then show ?case by simp
next
  case (Cons x xs)
  have step: "res_map view (f x b) = g x (view b)" using Cons.prems by simp
  show ?case
  proof (cases "f x b")
    case (Inl e)
    with step show ?thesis by (metis res_bind_simps(1) res_fold.simps(2) res_map_simps(1))
  next
    case (Inr b')
    then have "P b'" using Cons.prems by (meson list.set_intros(1))
    then have "res_map view (res_fold f xs b') = res_fold g xs (view b')"
      by (rule Cons.IH) (use Cons.prems in \<open>auto intro: Cons.prems(3)\<close>)
    with Inr step show ?thesis by (metis res_bind_simps(2) res_fold.simps(2) res_map_simps(2))
  qed
qed

section \<open>Commands\<close>

text \<open>
  A command takes a state and returns its result with the state it leaves behind, which an
  error does not roll back.
\<close>

type_synonym ('s, 'e, 'a) cmd = "'s \<Rightarrow> ('e + 'a) \<times> 's"

definition cmd_bind :: "('s, 'e, 'a) cmd \<Rightarrow> ('a \<Rightarrow> ('s, 'e, 'b) cmd) \<Rightarrow> ('s, 'e, 'b) cmd" where
  "cmd_bind m f = (\<lambda>s. case m s of (Inl e, s') \<Rightarrow> (Inl e, s') | (Inr x, s') \<Rightarrow> f x s')"

definition cmd_return :: "'a \<Rightarrow> ('s, 'e, 'a) cmd" where
  "cmd_return x = (\<lambda>s. (Inr x, s))"

definition cmd_fail :: "'e \<Rightarrow> ('s, 'e, 'a) cmd" where
  "cmd_fail e = (\<lambda>s. (Inl e, s))"

text \<open>A read: a fallible query of the state that does not change it.\<close>

definition cmd_read :: "('s \<Rightarrow> 'e + 'a) \<Rightarrow> ('s, 'e, 'a) cmd" where
  "cmd_read g = (\<lambda>s. (g s, s))"

lemma cmd_simps [simp, result_simps]:
  "cmd_return x s = (Inr x, s)" "cmd_fail e s = (Inl e, s)" "cmd_read g s = (g s, s)"
  by (simp_all add: cmd_return_def cmd_fail_def cmd_read_def)

lemma cmd_bind_apply:
  "cmd_bind m f s = (case m s of (Inl e, s') \<Rightarrow> (Inl e, s') | (Inr x, s') \<Rightarrow> f x s')"
  by (simp add: cmd_bind_def)

lemma cmd_bind_run [result_simps]:
  "m s = (Inr x, s') \<Longrightarrow> cmd_bind m f s = f x s'"
  "m s = (Inl e, s') \<Longrightarrow> cmd_bind m f s = (Inl e, s')"
  by (simp_all add: cmd_bind_def)

lemma cmd_bind_read [simp, result_simps]:
  "cmd_bind (cmd_read g) f s = (case g s of Inl e \<Rightarrow> (Inl e, s) | Inr x \<Rightarrow> f x s)"
  by (simp add: cmd_bind_def split: sum.split)

lemma cmd_bind_return [simp, result_simps]: "cmd_bind (cmd_return x) f s = f x s"
  by (simp add: cmd_bind_def)

lemma cmd_bind_eq [result_elims]:
  "cmd_bind m f s = (r, s') \<longleftrightarrow>
    (\<exists>e. m s = (Inl e, s') \<and> r = Inl e) \<or> (\<exists>x t. m s = (Inr x, t) \<and> f x t = (r, s'))"
  by (auto simp: cmd_bind_def split: prod.split sum.split)

text \<open>
  A state predicate every run of a command keeps, whatever its result, and the rule that composes
  it. The components state their invariants with it.
\<close>

definition keeps :: "('s \<Rightarrow> bool) \<Rightarrow> ('s, 'e, 'a) cmd \<Rightarrow> bool" where
  "keeps P m \<longleftrightarrow> (\<forall>s. P s \<longrightarrow> P (snd (m s)))"

lemma keepsI: "(\<And>s r s'. P s \<Longrightarrow> m s = (r, s') \<Longrightarrow> P s') \<Longrightarrow> keeps P m"
  unfolding keeps_def by (metis prod.collapse)

lemma keepsD: "keeps P m \<Longrightarrow> P s \<Longrightarrow> m s = (r, s') \<Longrightarrow> P s'"
  unfolding keeps_def by (metis snd_conv)

lemma keeps_basic [intro, simp]:
  "keeps P (cmd_return x)" "keeps P (cmd_fail e)" "keeps P (cmd_read g)"
  by (simp_all add: keeps_def)

lemma keeps_bind [intro]:
  "keeps P m \<Longrightarrow> (\<And>x. keeps P (f x)) \<Longrightarrow> keeps P (cmd_bind m f)"
  unfolding keeps_def cmd_bind_def by (force split: prod.split sum.split)

text \<open>A loop of commands, stopped by the first error.\<close>

fun cmd_each :: "('b \<Rightarrow> ('s, 'e, unit) cmd) \<Rightarrow> 'b list \<Rightarrow> ('s, 'e, unit) cmd" where
  "cmd_each f [] = cmd_return ()"
| "cmd_each f (x # xs) = cmd_bind (f x) (\<lambda>_. cmd_each f xs)"

lemma keeps_each: "(\<And>x. x \<in> set xs \<Longrightarrow> keeps P (f x)) \<Longrightarrow> keeps P (cmd_each f xs)"
  by (induction xs) auto

section \<open>Hash tables\<close>

text \<open>
  A \<open>HashMap\<close> is an association list with distinct keys. Its iteration order is left open by the
  standard library, so it is a parameter: any function that permutes the keys.
\<close>

typedef 'k hash_order = "{f :: 'k list \<Rightarrow> 'k list. \<forall>ks. mset (f ks) = mset ks}"
  morphisms iter_keys Hash_order
proof
  show "(\<lambda>ks. ks) \<in> {f :: 'k list \<Rightarrow> 'k list. \<forall>ks. mset (f ks) = mset ks}" by simp
qed

setup_lifting type_definition_hash_order

lift_definition insertion_order :: "'k hash_order" is "\<lambda>ks. ks" by simp

lift_definition reverse_order :: "'k hash_order" is rev by simp

lemma mset_iter_keys [simp]: "mset (iter_keys h ks) = mset ks"
  using iter_keys [of h] by simp

lemma set_iter_keys [simp]: "set (iter_keys h ks) = set ks"
  by (metis mset_iter_keys set_mset_mset)

lemma distinct_iter_keys [simp]: "distinct (iter_keys h ks) = distinct ks"
  by (metis mset_iter_keys mset_eq_imp_distinct_iff)

lemma iter_insertion_order [simp]: "iter_keys insertion_order ks = ks"
  by (simp add: insertion_order.rep_eq)

lemma iter_reverse_order [simp]: "iter_keys reverse_order ks = rev ks"
  by (simp add: reverse_order.rep_eq)

definition table_values :: "'k hash_order \<Rightarrow> ('k \<times> 'v) list \<Rightarrow> 'v list" where
  "table_values h t = map (\<lambda>k. the (map_of t k)) (iter_keys h (map fst t))"

lemma set_table_values:
  "distinct (map fst t) \<Longrightarrow> set (table_values h t) = ran (map_of t)"
  by (force simp: table_values_def ran_def image_iff map_of_eq_None_iff
      dest: map_of_SomeD split: option.splits)

lemma distinct_table_values:
  "distinct (map fst t) \<Longrightarrow> inj_on g (set (map fst t)) \<Longrightarrow>
    (\<And>k v. map_of t k = Some v \<Longrightarrow> g k = f v) \<Longrightarrow> distinct (map f (table_values h t))"
proof -
  assume d: "distinct (map fst t)" and i: "inj_on g (set (map fst t))"
    and g: "\<And>k v. map_of t k = Some v \<Longrightarrow> g k = f v"
  have "map f (table_values h t) = map g (iter_keys h (map fst t))"
    using g by (auto simp: table_values_def map_of_eq_None_iff image_iff)
      (metis map_of_eq_None_iff option.exhaust_sel imageI fst_conv)
  then show ?thesis using d i by (simp add: distinct_map)
qed

text \<open>A table with distinct keys whose values carry their key.\<close>

definition keyed_by :: "('v \<Rightarrow> 'k) \<Rightarrow> ('k \<times> 'v) list \<Rightarrow> bool" where
  "keyed_by f t \<longleftrightarrow> distinct (map fst t) \<and> (\<forall>k v. map_of t k = Some v \<longrightarrow> f v = k)"

lemma keyed_by_distinct: "keyed_by f t \<Longrightarrow> distinct (map fst t)"
  by (simp add: keyed_by_def)

lemma keyed_by_key: "keyed_by f t \<Longrightarrow> map_of t k = Some v \<Longrightarrow> f v = k"
  by (simp add: keyed_by_def)

lemma keyed_by_Nil [simp]: "keyed_by f []"
  by (simp add: keyed_by_def)

lemma keyed_by_update: "keyed_by f t \<Longrightarrow> f v = k \<Longrightarrow> keyed_by f (AList.update k v t)"
  by (simp add: keyed_by_def AList.distinct_update AList.update_conv')

lemma keyed_by_replace:
  "keyed_by f t \<Longrightarrow> map_of t k = Some v \<Longrightarrow> f v' = f v \<Longrightarrow> keyed_by f (AList.update k v' t)"
  using keyed_by_key [of f t k v] by (simp add: keyed_by_update)

lemma keyed_by_map_ran:
  "keyed_by f t \<Longrightarrow> (\<And>k v. f (g k v) = f v) \<Longrightarrow> keyed_by f (AList.map_ran g t)"
  by (auto simp: keyed_by_def AList.map_ran_conv)

lemma map_of_map_entry:
  "map_of (AList.map_entry k g t) = (map_of t)(k := map_option g (map_of t k))"
  by (induction t) (auto simp: fun_eq_iff)

lemma keys_map_entry [simp]: "map fst (AList.map_entry k g t) = map fst t"
  by (induction t) auto

lemma keyed_by_map_entry:
  "keyed_by f t \<Longrightarrow> (\<And>v. f (g v) = f v) \<Longrightarrow> keyed_by f (AList.map_entry k g t)"
  by (auto simp: keyed_by_def map_of_map_entry)

lemma map_of_filter_values:
  "distinct (map fst t) \<Longrightarrow>
    map_of (filter (\<lambda>(k, v). P v) t) k =
      (case map_of t k of None \<Rightarrow> None | Some v \<Rightarrow> if P v then Some v else None)"
  by (induction t) (auto simp: map_of_eq_None_iff split: option.splits) 

lemma distinct_keys_filter: "distinct (map fst t) \<Longrightarrow> distinct (map fst (filter P t))"
  by (induction t) (auto simp: image_iff)

text \<open>Every key of one table is a key of the other.\<close>

definition covered_by :: "('k \<times> 'v) list \<Rightarrow> ('k \<times> 'w) list \<Rightarrow> bool" where
  "covered_by t u \<longleftrightarrow> set (map fst t) \<subseteq> set (map fst u)"

lemma covered_by_Nil [simp]: "covered_by [] u"
  by (simp add: covered_by_def)

lemma covered_by_lookup: "covered_by t u \<Longrightarrow> map_of t k = Some v \<Longrightarrow> \<exists>w. map_of u k = Some w"
  by (auto simp: covered_by_def image_iff dest!: map_of_SomeD)
    (metis fst_conv image_eqI in_mono map_of_eq_None_iff not_None_eq)

lemma covered_by_keys:
  "map fst t' = map fst t \<Longrightarrow> map fst u' = map fst u \<Longrightarrow> covered_by t u \<Longrightarrow> covered_by t' u'"
  by (simp add: covered_by_def)

lemma covered_by_grow: "covered_by t u \<Longrightarrow> covered_by t (AList.update k v u)"
  by (auto simp: covered_by_def AList.dom_update)

lemma covered_by_update: "covered_by t u \<Longrightarrow> covered_by (AList.update k v t) (AList.update k w u)"
  by (auto simp: covered_by_def AList.dom_update)

lemma covered_by_filter: "covered_by t u \<Longrightarrow> covered_by (filter P t) u"
  by (auto simp: covered_by_def)

lemma covered_by_delete: "covered_by t u \<Longrightarrow> covered_by (AList.delete k t) u"
  by (auto simp: covered_by_def AList.delete_keys)

lemma table_values_distinct: "keyed_by f t \<Longrightarrow> distinct (map f (table_values h t))"
  by (rule distinct_table_values [where g = "\<lambda>k. k"]) (auto simp: keyed_by_def)

lemma table_values_set: "keyed_by f t \<Longrightarrow> set (table_values h t) = ran (map_of t)"
  by (simp add: set_table_values keyed_by_def)

section \<open>Lists, options and maps\<close>

text \<open>Sorting tagged elements by their tags, and prefix sums.\<close>

lemma sort_key_tagged: "map snd (sort_key fst (map (\<lambda>x. (k x, x)) xs)) = sort_key k xs"
proof -
  have tagged: "sort_key fst (map (\<lambda>x. (k x, x)) xs) = map (\<lambda>x. (k x, x)) (sort_key k xs)"
  proof (induction xs)
    case Nil
    then show ?case by simp
  next
    case (Cons x xs)
    have "insort_key fst (k x, x) (map (\<lambda>x. (k x, x)) ys) = map (\<lambda>x. (k x, x)) (insort_key k x ys)" for ys
      by (induction ys) auto
    with Cons show ?case by simp
  qed
  show ?thesis unfolding tagged by (simp add: comp_def)
qed

lemma sum_list_take_mono: "sum_list (map f (take n xs)) \<le> (sum_list (map f xs) :: nat)"
  by (metis append_take_drop_id le_add1 map_append sum_list_append)

lemma is_some_conv: "x \<noteq> None \<longleftrightarrow> (\<exists>y. x = Some y)"
  by simp

text \<open>\<open>Option::is_some_and\<close>.\<close>

definition is_some_and :: "'a option \<Rightarrow> ('a \<Rightarrow> bool) \<Rightarrow> bool" where
  "is_some_and x p = (case x of None \<Rightarrow> False | Some y \<Rightarrow> p y)"

lemma is_some_and_simps [simp]:
  "is_some_and None p = False" "is_some_and (Some y) p = p y"
  by (simp_all add: is_some_and_def)

lemma is_some_and_iff: "is_some_and x p \<longleftrightarrow> (\<exists>y. x = Some y \<and> p y)"
  by (cases x) auto

end
