(* ===== verification/Text_Format.thy ===== *)
theory Text_Format
  imports Prelude
begin

text \<open>
  The standard library's text operations the source uses: decimal rendering of unsigned integers,
  \<open>str::parse\<close> on them, and \<open>str::rsplit_once\<close>. A \<open>String\<close> is the list of its UTF-8 bytes, so the
  lexicographic order of lists is Rust's order on \<open>str\<close>.
\<close>

section \<open>Rendering\<close>

definition digit_char :: "nat \<Rightarrow> char" where
  "digit_char d = char_of (48 + d)"

fun show_nat :: "nat \<Rightarrow> string" where
  "show_nat n = (if n < 10 then [digit_char n] else show_nat (n div 10) @ [digit_char (n mod 10)])"

declare show_nat.simps [simp del]

section \<open>Parsing\<close>

definition digit_val :: "char \<Rightarrow> nat option" where
  "digit_val c = (let n = of_char c in if 48 \<le> n \<and> n \<le> 57 then Some (n - 48) else None)"

text \<open>The digit loop of \<open>from_str_radix\<close>: an overflow at any digit is an error.\<close>

fun digits_acc :: "nat \<Rightarrow> nat \<Rightarrow> string \<Rightarrow> nat option" where
  "digits_acc bound acc [] = Some acc"
| "digits_acc bound acc (c # cs) =
     (case digit_val c of
        None \<Rightarrow> None
      | Some d \<Rightarrow> if bound < 10 * acc + d then None else digits_acc bound (10 * acc + d) cs)"

text \<open>
  \<open>str::parse\<close> for an unsigned type of the given bound: one leading \<open>+\<close> is accepted, an empty
  digit string is not.
\<close>

definition parse_uint :: "nat \<Rightarrow> string \<Rightarrow> nat option" where
  "parse_uint bound s =
     (let ds = (case s of [] \<Rightarrow> [] | c # cs \<Rightarrow> if c = CHR ''+'' then cs else s)
      in if ds = [] then None else digits_acc bound 0 ds)"

section \<open>Splitting\<close>

text \<open>\<open>rsplit_once\<close>: the text before and after the last occurrence of the separator.\<close>

definition rsplit_once :: "char \<Rightarrow> string \<Rightarrow> (string \<times> string) option" where
  "rsplit_once c s =
     (if c \<in> set s
      then Some (rev (tl (dropWhile (\<lambda>x. x \<noteq> c) (rev s))), rev (takeWhile (\<lambda>x. x \<noteq> c) (rev s)))
      else None)"

text \<open>\<open>[String]::join\<close> and \<open>str::split\<close> with a one-character separator.\<close>

fun join_with :: "string \<Rightarrow> string list \<Rightarrow> string" where
  "join_with sep [] = []"
| "join_with sep [x] = x"
| "join_with sep (x # y # xs) = x @ sep @ join_with sep (y # xs)"

fun split_char :: "char \<Rightarrow> string \<Rightarrow> string list" where
  "split_char c [] = [[]]"
| "split_char c (x # xs) =
     (if x = c then [] # split_char c xs
      else (case split_char c xs of [] \<Rightarrow> [[x]] | p # ps \<Rightarrow> (x # p) # ps))"

section \<open>Round trips\<close>

lemma digit_val_digit_char [simp]: "d < 10 \<Longrightarrow> digit_val (digit_char d) = Some d"
  by (simp add: digit_val_def digit_char_def Let_def)

lemma digit_val_lt: "digit_val c = Some d \<Longrightarrow> d < 10"
  by (auto simp: digit_val_def Let_def split: if_splits)

lemma digit_char_inverse: "digit_val c = Some d \<Longrightarrow> digit_char d = c"
  by (auto simp: digit_val_def digit_char_def Let_def split: if_splits)

lemma show_nat_digits: "c \<in> set (show_nat n) \<Longrightarrow> \<exists>d<10. c = digit_char d"
proof (induction n rule: show_nat.induct)
  case (1 n)
  then show ?case
    by (cases "n < 10") (auto simp: show_nat.simps [of n] intro: exI [of _ "n mod 10"])
qed

lemma show_nat_not_Nil [simp]: "show_nat n \<noteq> []"
  by (simp add: show_nat.simps [of n])

lemma digit_char_neq [simp]:
  "d < 10 \<Longrightarrow> digit_char d \<noteq> CHR '':''" "d < 10 \<Longrightarrow> digit_char d \<noteq> CHR ''+''"
  "d < 10 \<Longrightarrow> digit_char d \<noteq> CHR '',''"
  using digit_val_digit_char [of d] by (auto simp: digit_val_def)

lemma show_nat_no_separator [simp]: "CHR '':'' \<notin> set (show_nat n)"
  using show_nat_digits digit_char_neq(1) by metis

lemma digits_acc_append:
  "digits_acc b a (xs @ ys) = Option.bind (digits_acc b a xs) (\<lambda>v. digits_acc b v ys)"
  by (induction xs arbitrary: a) (auto split: option.split)

lemma digits_acc_show_nat: "digits_acc b 0 (show_nat n) = (if n \<le> b then Some n else None)"
proof (induction n rule: show_nat.induct)
  case (1 n)
  show ?case
  proof (cases "n < 10")
    case True
    then show ?thesis by (simp add: show_nat.simps [of n])
  next
    case False
    have "10 * (n div 10) + n mod 10 = n" by simp
    with 1 False show ?thesis
      by (auto simp: show_nat.simps [of n] digits_acc_append)
  qed
qed

lemma parse_uint_show_nat: "parse_uint b (show_nat n) = (if n \<le> b then Some n else None)"
proof -
  have "hd (show_nat n) \<in> set (show_nat n)" by simp
  then have "hd (show_nat n) \<noteq> CHR ''+''" using show_nat_digits digit_char_neq(2) by metis
  then show ?thesis
    by (cases "show_nat n") (simp_all add: parse_uint_def digits_acc_show_nat flip: digits_acc_show_nat)
qed

lemma show_nat_inject [simp]: "show_nat m = show_nat n \<longleftrightarrow> m = n"
  using parse_uint_show_nat [of "max m n" m] parse_uint_show_nat [of "max m n" n]
  by (metis max.cobounded1 max.cobounded2 option.inject)

lemma rsplit_once_append:
  "c \<notin> set t \<Longrightarrow> rsplit_once c (s @ c # t) = Some (s, t)"
  by (simp add: rsplit_once_def takeWhile_append dropWhile_append)

lemma rsplit_once_SomeD: "rsplit_once c s = Some (a, b) \<Longrightarrow> s = a @ c # b \<and> c \<notin> set b"
proof -
  assume h: "rsplit_once c s = Some (a, b)"
  then have c: "c \<in> set (rev s)"
    and a: "a = rev (tl (dropWhile (\<lambda>x. x \<noteq> c) (rev s)))"
    and b: "b = rev (takeWhile (\<lambda>x. x \<noteq> c) (rev s))"
    by (auto simp: rsplit_once_def split: if_splits)
  from c have "dropWhile (\<lambda>x. x \<noteq> c) (rev s) = c # tl (dropWhile (\<lambda>x. x \<noteq> c) (rev s))"
    by (metis (mono_tags, lifting) dropWhile_eq_Nil_conv hd_dropWhile list.exhaust_sel)
  then have "rev s = rev b @ c # rev a"
    using takeWhile_dropWhile_id [of "\<lambda>x. x \<noteq> c" "rev s"] by (simp add: a b)
  then have "s = a @ c # b" by (metis append.assoc append_Cons append_Nil rev.simps(2) rev_append rev_rev_ident)
  moreover have "c \<notin> set b" using set_takeWhileD by (fastforce simp: b)
  ultimately show ?thesis by simp
qed

lemma split_char_not_Nil [simp]: "split_char c s \<noteq> []"
  by (induction s) (auto split: list.split)

lemma split_char_plain: "c \<notin> set s \<Longrightarrow> split_char c s = [s]"
  by (induction s) auto

lemma split_char_append: "c \<notin> set s \<Longrightarrow> split_char c (s @ c # t) = s # split_char c t"
  by (induction s) auto

lemma split_join:
  "xs \<noteq> [] \<Longrightarrow> \<forall>x\<in>set xs. c \<notin> set x \<Longrightarrow> split_char c (join_with [c] xs) = xs"
  by (induction "[c]" xs rule: join_with.induct) (auto simp: split_char_plain split_char_append)

end
