(* ===== verification/Domain.thy ===== *)
theory Domain
  imports Text_Format
begin

text \<open>
  The plain data of the domain model (crate \<open>txoscope-core\<close>): opaque identifiers
  (\<open>ids.rs\<close>), outpoints (\<open>utxo.rs\<close>), capabilities (\<open>capability.rs\<close>), the state enumerations
  (\<open>state.rs\<close>), operation phases (\<open>operation.rs\<close>), accounts, wallet scopes and the scope preference (\<open>account.rs\<close>, \<open>scope.rs\<close>,
  \<open>policy.rs\<close>), and lock purposes (\<open>lock.rs\<close>).
\<close>

section \<open>Identifiers\<close>

datatype account_id = AccountId (account_id_str: string)
datatype wallet_scope_id = WalletScopeId (wallet_scope_id_str: string)
datatype operation_id = OperationId (operation_id_str: string)

text \<open>The derived orders compare the wrapped text.\<close>

instantiation account_id :: linorder
begin
definition less_eq_account_id :: "account_id \<Rightarrow> account_id \<Rightarrow> bool" where
  "less_eq_account_id a b \<longleftrightarrow> account_id_str a \<le> account_id_str b"
definition less_account_id :: "account_id \<Rightarrow> account_id \<Rightarrow> bool" where
  "less_account_id a b \<longleftrightarrow> account_id_str a < account_id_str b"
instance
  by standard (auto simp: less_eq_account_id_def less_account_id_def account_id.expand)
end

instantiation wallet_scope_id :: linorder
begin
definition less_eq_wallet_scope_id :: "wallet_scope_id \<Rightarrow> wallet_scope_id \<Rightarrow> bool" where
  "less_eq_wallet_scope_id a b \<longleftrightarrow> wallet_scope_id_str a \<le> wallet_scope_id_str b"
definition less_wallet_scope_id :: "wallet_scope_id \<Rightarrow> wallet_scope_id \<Rightarrow> bool" where
  "less_wallet_scope_id a b \<longleftrightarrow> wallet_scope_id_str a < wallet_scope_id_str b"
instance
  by standard
    (auto simp: less_eq_wallet_scope_id_def less_wallet_scope_id_def wallet_scope_id.expand)
end

instantiation operation_id :: linorder
begin
definition less_eq_operation_id :: "operation_id \<Rightarrow> operation_id \<Rightarrow> bool" where
  "less_eq_operation_id a b \<longleftrightarrow> operation_id_str a \<le> operation_id_str b"
definition less_operation_id :: "operation_id \<Rightarrow> operation_id \<Rightarrow> bool" where
  "less_operation_id a b \<longleftrightarrow> operation_id_str a < operation_id_str b"
instance
  by standard (auto simp: less_eq_operation_id_def less_operation_id_def operation_id.expand)
end

section \<open>Outpoints\<close>

datatype outpoint = OutPoint (txid: string) (vout: u32)

instantiation outpoint :: linorder
begin
definition less_eq_outpoint :: "outpoint \<Rightarrow> outpoint \<Rightarrow> bool" where
  "less_eq_outpoint a b \<longleftrightarrow> (txid a, vout a) \<le> (txid b, vout b)"
definition less_outpoint :: "outpoint \<Rightarrow> outpoint \<Rightarrow> bool" where
  "less_outpoint a b \<longleftrightarrow> (txid a, vout a) < (txid b, vout b)"
instance
proof
  fix a b c :: outpoint
  show "a < b \<longleftrightarrow> a \<le> b \<and> \<not> b \<le> a"
    unfolding less_eq_outpoint_def less_outpoint_def by (rule less_le_not_le)
  show "a \<le> a" and "a \<le> b \<or> b \<le> a"
    unfolding less_eq_outpoint_def by (rule order_refl, rule linear)
  show "a \<le> b \<Longrightarrow> b \<le> c \<Longrightarrow> a \<le> c"
    unfolding less_eq_outpoint_def by (rule order_trans)
  assume "a \<le> b" and "b \<le> a"
  then have "(txid a, vout a) = (txid b, vout b)"
    unfolding less_eq_outpoint_def by (rule order_antisym)
  then show "a = b" by (simp add: outpoint.expand)
qed
end

text \<open>\<open>Display for OutPoint\<close>.\<close>

definition outpoint_string :: "outpoint \<Rightarrow> string" where
  "outpoint_string op = txid op @ '':'' @ show_nat (unat (vout op))"

text \<open>
  The part of \<open>FromStr for OutPoint\<close> that computes the value: the last colon separates, the index
  must parse as \<open>u32\<close>. The error value is added in \<open>Errors\<close>.
\<close>

definition parse_outpoint :: "string \<Rightarrow> outpoint option" where
  "parse_outpoint value =
     (case rsplit_once CHR '':'' value of
        None \<Rightarrow> None
      | Some (t, v) \<Rightarrow>
          (case parse_uint (2 ^ 32 - 1) v of
             None \<Rightarrow> None
           | Some n \<Rightarrow> Some (OutPoint t (of_nat n))))"

lemma unat_u32_bound: "unat (w :: u32) \<le> 2 ^ 32 - 1"
  using unat_bound [of w] by simp

lemma parse_outpoint_string [simp]: "parse_outpoint (outpoint_string op) = Some op"
proof (cases op)
  case (OutPoint t v)
  then show ?thesis
    using unat_u32_bound [of v]
    by (simp add: parse_outpoint_def outpoint_string_def rsplit_once_append parse_uint_show_nat)
qed

lemma outpoint_string_inject [simp]: "outpoint_string a = outpoint_string b \<longleftrightarrow> a = b"
  by (metis option.inject parse_outpoint_string)

lemma inj_outpoint_string: "inj_on outpoint_string A"
  by (simp add: inj_on_def)

section \<open>Capabilities\<close>

datatype capability =
    BtcSpend
  | BtcReceive
  | FeeSupport
  | ReserveSupport
  | SingleTargetReserve
  | L2Settlement
  | ConsolidationSource
  | ConsolidationTarget

text \<open>\<open>CapabilitySet\<close> is a \<open>BTreeSet\<close>; only its iteration (for the codec) depends on the order.\<close>

type_synonym capability_set = "capability set"

definition capability_set_new :: "capability list \<Rightarrow> capability_set" where
  "capability_set_new cs = set cs"

definition capability_contains :: "capability_set \<Rightarrow> capability \<Rightarrow> bool" where
  "capability_contains have c \<longleftrightarrow> c \<in> have"

definition capability_insert :: "capability \<Rightarrow> capability_set \<Rightarrow> capability_set" where
  "capability_insert c have = insert c have"

definition contains_all :: "capability_set \<Rightarrow> capability_set \<Rightarrow> bool" where
  "contains_all have required \<longleftrightarrow> required \<subseteq> have"

lemma contains_all_refl [simp]: "contains_all c c"
  by (simp add: contains_all_def)

text \<open>The loop of \<open>contains_all\<close> over the required capabilities, and the builders as one insertion after another.\<close>

lemma contains_all_new:
  "contains_all have (capability_set_new cs) \<longleftrightarrow> list_all (capability_contains have) cs"
  by (auto simp: contains_all_def capability_set_new_def capability_contains_def list_all_iff)

lemma capability_set_fold: "capability_set_new cs = fold capability_insert cs {}"
proof -
  have "fold capability_insert cs A = A \<union> set cs" for A
    by (induction cs arbitrary: A) (auto simp: capability_insert_def)
  then show ?thesis by (simp add: capability_set_new_def)
qed

lemma contains_all_Un:
  "contains_all c (a \<union> b) \<longleftrightarrow> contains_all c a \<and> contains_all c b"
  by (auto simp: contains_all_def)

lemma contains_all_mono: "contains_all c b \<Longrightarrow> a \<subseteq> b \<Longrightarrow> contains_all c a"
  by (auto simp: contains_all_def)

section \<open>State enumerations\<close>

datatype onchain_state =
  OsUnknown | UnconfirmedIncoming | Confirmed | SpendingInFlight | Spent

datatype availability =
  AvUnknown | Selectable | Reserved | Locked | BlockedByPolicy | BlockedByL2 | Recovering

datatype utxo_role =
  RoleUnknown | General | SpendPreferred | Reserve | RecoveryOutput | ConsolidationCandidate

text \<open>The derived \<open>Debug\<close> texts, which error messages embed.\<close>

fun onchain_debug :: "onchain_state \<Rightarrow> string" where
  "onchain_debug OsUnknown = ''Unknown''"
| "onchain_debug UnconfirmedIncoming = ''UnconfirmedIncoming''"
| "onchain_debug Confirmed = ''Confirmed''"
| "onchain_debug SpendingInFlight = ''SpendingInFlight''"
| "onchain_debug Spent = ''Spent''"

fun availability_debug :: "availability \<Rightarrow> string" where
  "availability_debug AvUnknown = ''Unknown''"
| "availability_debug Selectable = ''Selectable''"
| "availability_debug Reserved = ''Reserved''"
| "availability_debug Locked = ''Locked''"
| "availability_debug BlockedByPolicy = ''BlockedByPolicy''"
| "availability_debug BlockedByL2 = ''BlockedByL2''"
| "availability_debug Recovering = ''Recovering''"

text \<open>The lifecycle phases of an operation (\<open>operation.rs\<close>), in their forward order.\<close>

datatype operation_phase =
    PhSelected
  | PhConstructing
  | PhSigned
  | PhBroadcast
  | PhAwaitingConfirmation
  | PhAwaitingL2Finality
  | PhRollingBack

fun phase_debug :: "operation_phase \<Rightarrow> string" where
  "phase_debug PhSelected = ''Selected''"
| "phase_debug PhConstructing = ''Constructing''"
| "phase_debug PhSigned = ''Signed''"
| "phase_debug PhBroadcast = ''Broadcast''"
| "phase_debug PhAwaitingConfirmation = ''AwaitingConfirmation''"
| "phase_debug PhAwaitingL2Finality = ''AwaitingL2Finality''"
| "phase_debug PhRollingBack = ''RollingBack''"

definition bool_debug :: "bool \<Rightarrow> string" where
  "bool_debug b = (if b then ''true'' else ''false'')"

section \<open>Accounts and wallet scopes\<close>

record account =
  ac_id :: account_id
  ac_name :: string
  ac_scopes :: "wallet_scope_id list"
  ac_capabilities :: capability_set

record wallet_scope =
  ws_id :: wallet_scope_id
  ws_account_id :: account_id
  ws_descriptor_ref :: string
  ws_derivation_scope :: string
  ws_capabilities :: capability_set
  ws_priority :: u32

definition account_new ::
  "account_id \<Rightarrow> string \<Rightarrow> wallet_scope_id list \<Rightarrow> capability_set \<Rightarrow> account" where
  "account_new i n scopes caps = \<lparr>ac_id = i, ac_name = n, ac_scopes = scopes, ac_capabilities = caps\<rparr>"

definition wallet_scope_new ::
  "wallet_scope_id \<Rightarrow> account_id \<Rightarrow> string \<Rightarrow> string \<Rightarrow> capability_set \<Rightarrow> u32 \<Rightarrow> wallet_scope" where
  "wallet_scope_new i a descriptor derivation caps priority =
     \<lparr>ws_id = i, ws_account_id = a, ws_descriptor_ref = descriptor, ws_derivation_scope = derivation,
      ws_capabilities = caps, ws_priority = priority\<rparr>"

text \<open>\<open>prefer_scope\<close>: \<open>Iterator::min_by_key\<close> on the priority, the first of equal minima.\<close>

fun prefer_scope :: "wallet_scope list \<Rightarrow> wallet_scope option" where
  "prefer_scope [] = None"
| "prefer_scope (s # ss) =
     (case prefer_scope ss of
        None \<Rightarrow> Some s
      | Some t \<Rightarrow> if ws_priority s \<le> ws_priority t then Some s else Some t)"

lemma prefer_scope_None [simp]: "prefer_scope ss = None \<longleftrightarrow> ss = []"
  by (cases ss) (auto split: option.split)

lemma prefer_scope_in: "prefer_scope ss = Some s \<Longrightarrow> s \<in> set ss"
  by (induction ss arbitrary: s) (auto split: option.splits if_splits)

lemma prefer_scope_min: "prefer_scope ss = Some s \<Longrightarrow> t \<in> set ss \<Longrightarrow> ws_priority s \<le> ws_priority t"
  by (induction ss arbitrary: s) (force split: option.splits if_splits)+

section \<open>Lock purposes\<close>

datatype lock_purpose = ManualReservation | BtcSendLock | FeeSupportLock | PlannedSelectionLock

fun required_capabilities :: "lock_purpose \<Rightarrow> capability_set" where
  "required_capabilities BtcSendLock = {BtcSpend}"
| "required_capabilities PlannedSelectionLock = {ReserveSupport}"
| "required_capabilities FeeSupportLock = {ReserveSupport, FeeSupport}"
| "required_capabilities ManualReservation = {ReserveSupport, SingleTargetReserve}"

text \<open>Fee support is an input role; the change output needs what a planned selection needs.\<close>

fun required_change_capabilities :: "lock_purpose \<Rightarrow> capability_set" where
  "required_change_capabilities FeeSupportLock = required_capabilities PlannedSelectionLock"
| "required_change_capabilities p = required_capabilities p"

lemma required_change_subset: "required_change_capabilities p \<subseteq> required_capabilities p"
  by (cases p) auto

end
