(* ===== verification/Errors.thy ===== *)
theory Errors
  imports Domain
begin

text \<open>
  The error type of every fallible operation (\<open>txoscope-core/src/errors.rs\<close>), its \<open>Display\<close>
  text, and parsing of outpoints with its error (\<open>utxo.rs\<close>).
\<close>

datatype domain_error =
    InvalidRequest string
  | AccountNotFound account_id
  | ScopeNotFound wallet_scope_id
  | MissingAccountCapabilities account_id
  | NoEligibleScope account_id
  | MissingCapabilities wallet_scope_id
  | InsufficientFunds
  | InsufficientAsset u128 u128
  | InsufficientValue u128 u128
  | NoEligibleAssetCandidates "asset_candidate_rejection list"
  | NoCandidateAvailable
  | InvalidScopeOwnership wallet_scope_id account_id
  | UtxoNotFound outpoint
  | UtxoUnavailable outpoint availability
  | UtxoPolicyBlocked outpoint string
  | IntentNotFound operation_id
  | IntentNotPending operation_id
  | IntentNotCommitted operation_id
  | IntentConflict operation_id
  | OperationNotFound operation_id
  | InvalidOperationTransition operation_id operation_phase operation_phase
  | PlannedInputsMismatch operation_id
  | ObservationConflictError outpoint onchain_state
  | CorruptedState string
  | Storage string
and asset_candidate_rejection =
    AssetCandidateRejection (rejected_outpoint: outpoint) (rejection_reason: domain_error)

type_synonym 'a result = "domain_error + 'a"

text \<open>\<open>DomainError::Storage(_)\<close>, the pattern the orchestrator matches on.\<close>

fun is_storage :: "domain_error \<Rightarrow> bool" where
  "is_storage (Storage m) = True"
| "is_storage e = False"

lemma is_storage_iff: "is_storage e \<longleftrightarrow> (\<exists>m. e = Storage m)"
  by (cases e) auto

text \<open>
  \<open>Display for DomainError\<close>. The rejections of \<open>NoEligibleAssetCandidates\<close> are themselves
  displayed, so the text of an error is defined together with that of a rejection.
\<close>

fun error_text :: "domain_error \<Rightarrow> string"
  and rejection_text :: "asset_candidate_rejection \<Rightarrow> string" where
  "error_text (InvalidRequest reason) = ''invalid request: '' @ reason"
| "error_text (AccountNotFound i) = ''account not found: '' @ account_id_str i"
| "error_text (ScopeNotFound i) = ''scope not found: '' @ wallet_scope_id_str i"
| "error_text (MissingAccountCapabilities i) =
     ''account '' @ account_id_str i @ '' lacks required capabilities''"
| "error_text (NoEligibleScope i) = ''no eligible scope for account '' @ account_id_str i"
| "error_text (MissingCapabilities i) =
     ''scope '' @ wallet_scope_id_str i @ '' lacks required capabilities''"
| "error_text InsufficientFunds = ''insufficient funds''"
| "error_text (InsufficientAsset needed have) =
     ''insufficient asset amount: need '' @ show_nat (unat needed) @ '', have '' @
       show_nat (unat have)"
| "error_text (InsufficientValue needed have) =
     ''insufficient bitcoin value: need '' @ show_nat (unat needed) @ '' sats, have '' @
       show_nat (unat have) @ '' sats''"
| "error_text (NoEligibleAssetCandidates rejections) =
     ''none of the supplied asset inputs can be used'' @ concat (map rejection_text rejections)"
| "error_text NoCandidateAvailable = ''no candidate is available''"
| "error_text (InvalidScopeOwnership s a) =
     ''scope '' @ wallet_scope_id_str s @ '' does not belong to account '' @ account_id_str a"
| "error_text (UtxoNotFound op) = ''UTXO not found: '' @ outpoint_string op"
| "error_text (UtxoUnavailable op av) =
     ''UTXO '' @ outpoint_string op @ '' is unavailable ('' @ availability_debug av @ '')''"
| "error_text (UtxoPolicyBlocked op reason) =
     ''UTXO '' @ outpoint_string op @ '' is blocked by policy: '' @ reason"
| "error_text (IntentNotFound i) = ''intent not found for operation '' @ operation_id_str i"
| "error_text (IntentNotPending i) =
     ''intent for operation '' @ operation_id_str i @ '' is not pending''"
| "error_text (IntentNotCommitted i) =
     ''intent for operation '' @ operation_id_str i @ '' is not committed''"
| "error_text (IntentConflict i) =
     ''intent conflicts with the recorded selection for operation '' @ operation_id_str i"
| "error_text (OperationNotFound i) = ''operation not found: '' @ operation_id_str i"
| "error_text (InvalidOperationTransition i from_phase to_phase) =
     ''operation '' @ operation_id_str i @ '' cannot advance from '' @ phase_debug from_phase @
       '' to '' @ phase_debug to_phase"
| "error_text (PlannedInputsMismatch i) =
     ''actual inputs do not match the planned inputs for operation '' @ operation_id_str i"
| "error_text (ObservationConflictError op st) =
     ''observation conflicts with UTXO '' @ outpoint_string op @ '' ('' @ onchain_debug st @ '')''"
| "error_text (CorruptedState reason) = ''corrupted state: '' @ reason"
| "error_text (Storage reason) = ''storage error: '' @ reason"
| "rejection_text (AssetCandidateRejection op reason) =
     ''; '' @ outpoint_string op @ '': '' @ error_text reason"

text \<open>
  \<open>FromStr for OutPoint\<close>. The \<open>Debug\<close> text of the rejected input (with the standard library's
  escapes) only occurs in the message and is a parameter.
\<close>

definition outpoint_from_str :: "(string \<Rightarrow> string) \<Rightarrow> string \<Rightarrow> outpoint result" where
  "outpoint_from_str str_debug value =
     ok_or (InvalidRequest (''invalid outpoint '' @ str_debug value @
        '': expected a transaction ID followed by ':' and a u32 output index''))
       (parse_outpoint value)"

lemma outpoint_from_str_roundtrip: "outpoint_from_str dbg (outpoint_string op) = Inr op"
  by (simp add: outpoint_from_str_def)

end
