(* ===== verification/Observation.thy ===== *)
theory Observation
  imports Errors
begin

text \<open>
  Normalised facts a wallet or an indexer reports (\<open>txoscope-core/src/observation.rs\<close>) and how a
  confirmation status reads as an on-chain state and as an availability.
\<close>

datatype observation_scope = FullScope | Incremental

datatype observed_confirmation =
    ConfUnknown | ConfMempool | ConfConfirmed (conf_height: u64) (conf_timestamp: u64)

datatype observed_spend_status =
    SpendUnknown | SpendUnspent | SpendSpent (spending_txid: string) | SpendMissing

fun onchain_of_confirmation :: "observed_confirmation \<Rightarrow> onchain_state" where
  "onchain_of_confirmation ConfUnknown = OsUnknown"
| "onchain_of_confirmation ConfMempool = UnconfirmedIncoming"
| "onchain_of_confirmation (ConfConfirmed h t) = Confirmed"

fun availability_of_confirmation :: "observed_confirmation \<Rightarrow> availability" where
  "availability_of_confirmation (ConfConfirmed h t) = Selectable"
| "availability_of_confirmation c = BlockedByPolicy"

record observed_utxo =
  ob_outpoint :: outpoint
  ob_account_id :: account_id
  ob_scope_id :: wallet_scope_id
  ob_value_sats :: u64
  ob_confirmation :: observed_confirmation
  ob_spend_status :: observed_spend_status

record observation_snapshot =
  sn_timestamp :: u64
  sn_scope :: observation_scope
  sn_utxos :: "observed_utxo list"

text \<open>Constructors and builder methods.\<close>

definition observation_snapshot_new :: "u64 \<Rightarrow> observation_scope \<Rightarrow> observation_snapshot" where
  "observation_snapshot_new t sc = \<lparr>sn_timestamp = t, sn_scope = sc, sn_utxos = []\<rparr>"

definition add_observed :: "observed_utxo \<Rightarrow> observation_snapshot \<Rightarrow> observation_snapshot" where
  "add_observed ob sn = sn\<lparr>sn_utxos := sn_utxos sn @ [ob]\<rparr>"

definition observed_utxo_new ::
  "outpoint \<Rightarrow> account_id \<Rightarrow> wallet_scope_id \<Rightarrow> u64 \<Rightarrow> observed_utxo" where
  "observed_utxo_new op a sc v =
     \<lparr>ob_outpoint = op, ob_account_id = a, ob_scope_id = sc, ob_value_sats = v,
      ob_confirmation = ConfUnknown, ob_spend_status = SpendUnspent\<rparr>"

definition observed_confirmed :: "u64 \<Rightarrow> u64 \<Rightarrow> observed_utxo \<Rightarrow> observed_utxo" where
  "observed_confirmed height t ob = ob\<lparr>ob_confirmation := ConfConfirmed height t\<rparr>"

definition observed_mempool :: "observed_utxo \<Rightarrow> observed_utxo" where
  "observed_mempool ob = ob\<lparr>ob_confirmation := ConfMempool\<rparr>"

definition observed_spent :: "string \<Rightarrow> observed_utxo \<Rightarrow> observed_utxo" where
  "observed_spent tx ob = ob\<lparr>ob_spend_status := SpendSpent tx\<rparr>"

text \<open>Only a confirmation makes an output selectable, and it then is confirmed on chain.\<close>

lemma selectable_confirmation:
  "availability_of_confirmation c = Selectable \<longleftrightarrow> onchain_of_confirmation c = Confirmed"
  by (cases c) auto

lemma availability_of_confirmation_cases:
  "availability_of_confirmation c = Selectable \<or> availability_of_confirmation c = BlockedByPolicy"
  by (cases c) auto

lemma onchain_of_confirmation_neq [simp]:
  "onchain_of_confirmation c \<noteq> Spent" "onchain_of_confirmation c \<noteq> SpendingInFlight"
  by (cases c; simp)+

end
