(* ===== verification/Utxo.thy ===== *)
theory Utxo
  imports Observation
begin

text \<open>
  The managed output and its state changes (\<open>txoscope-core/src/utxo.rs\<close>): discovery, reservation,
  binding advance and release, observed spends and disappearance.
\<close>

section \<open>Data\<close>

record operation_binding =
  bd_operation_id :: operation_id
  bd_phase :: operation_phase

record observation_conflict =
  oc_message :: string
  oc_recorded_at :: u64

record managed_utxo =
  mu_outpoint :: outpoint
  mu_account_id :: account_id
  mu_scope_id :: wallet_scope_id
  mu_value_sats :: u64
  mu_onchain_state :: onchain_state
  mu_availability :: availability
  mu_role :: utxo_role
  mu_operation_binding :: "operation_binding option"
  mu_observation_conflict :: "observation_conflict option"

section \<open>Operations\<close>

definition managed_utxo_new ::
  "outpoint \<Rightarrow> account_id \<Rightarrow> wallet_scope_id \<Rightarrow> u64 \<Rightarrow> managed_utxo" where
  "managed_utxo_new op a sc v =
     \<lparr>mu_outpoint = op, mu_account_id = a, mu_scope_id = sc, mu_value_sats = v,
      mu_onchain_state = Confirmed, mu_availability = Selectable, mu_role = General,
      mu_operation_binding = None, mu_observation_conflict = None\<rparr>"

definition is_policy_spendable :: "managed_utxo \<Rightarrow> bool" where
  "is_policy_spendable u \<longleftrightarrow>
     mu_availability u = Selectable \<and> mu_onchain_state u = Confirmed \<and>
     mu_operation_binding u = None \<and> mu_observation_conflict u = None"

definition can_be_locked :: "managed_utxo \<Rightarrow> bool \<Rightarrow> bool" where
  "can_be_locked u lock_present \<longleftrightarrow> is_policy_spendable u \<and> \<not> lock_present"

definition reserve_utxo :: "operation_id \<Rightarrow> operation_phase \<Rightarrow> managed_utxo \<Rightarrow> managed_utxo" where
  "reserve_utxo i ph u =
     u\<lparr>mu_availability := Reserved,
       mu_operation_binding := Some \<lparr>bd_operation_id = i, bd_phase = ph\<rparr>\<rparr>"

definition discover_from_observed ::
  "outpoint \<Rightarrow> account_id \<Rightarrow> wallet_scope_id \<Rightarrow> u64 \<Rightarrow> observed_confirmation \<Rightarrow> managed_utxo" where
  "discover_from_observed op a sc v c =
     \<lparr>mu_outpoint = op, mu_account_id = a, mu_scope_id = sc, mu_value_sats = v,
      mu_onchain_state = onchain_of_confirmation c,
      mu_availability = availability_of_confirmation c, mu_role = General,
      mu_operation_binding = None, mu_observation_conflict = None\<rparr>"

definition mark_spent :: "managed_utxo \<Rightarrow> managed_utxo" where
  "mark_spent u =
     u\<lparr>mu_onchain_state := Spent, mu_availability := BlockedByL2, mu_operation_binding := None\<rparr>"

definition mark_missing :: "managed_utxo \<Rightarrow> managed_utxo" where
  "mark_missing u = u\<lparr>mu_availability := Recovering\<rparr>"

definition release_binding :: "managed_utxo \<Rightarrow> managed_utxo" where
  "release_binding u =
     (let u' =
        (if mu_onchain_state u \<in> {Spent, SpendingInFlight}
         then u\<lparr>mu_availability := BlockedByL2\<rparr>
         else if mu_availability u \<noteq> Recovering
         then u\<lparr>mu_availability :=
                 (if mu_onchain_state u = Confirmed \<and> mu_observation_conflict u = None
                  then Selectable else BlockedByPolicy)\<rparr>
         else u)
      in u'\<lparr>mu_operation_binding := None\<rparr>)"

text \<open>The phases that start on-chain spending.\<close>

definition spending_phase :: "operation_phase \<Rightarrow> bool" where
  "spending_phase ph \<longleftrightarrow> ph \<in> {PhBroadcast, PhAwaitingConfirmation, PhAwaitingL2Finality}"

definition advance_binding :: "operation_phase \<Rightarrow> managed_utxo \<Rightarrow> managed_utxo" where
  "advance_binding ph u =
     (case mu_operation_binding u of
        None \<Rightarrow> u
      | Some b \<Rightarrow>
          let u' = u\<lparr>mu_operation_binding := Some (b\<lparr>bd_phase := ph\<rparr>)\<rparr>
          in if spending_phase ph
             then (if mu_onchain_state u' \<noteq> Spent
                   then u'\<lparr>mu_onchain_state := SpendingInFlight\<rparr> else u')
                  \<lparr>mu_availability := BlockedByL2\<rparr>
             else u')"

section \<open>Ownership\<close>

text \<open>The output is bound to the given operation.\<close>

definition bound_to :: "operation_id \<Rightarrow> managed_utxo \<Rightarrow> bool" where
  "bound_to i u \<longleftrightarrow> is_some_and (mu_operation_binding u) (\<lambda>b. bd_operation_id b = i)"

definition bound_in_phase :: "operation_id \<Rightarrow> operation_phase \<Rightarrow> managed_utxo \<Rightarrow> bool" where
  "bound_in_phase i ph u \<longleftrightarrow>
     is_some_and (mu_operation_binding u) (\<lambda>b. bd_operation_id b = i \<and> bd_phase b = ph)"

lemmas utxo_op_defs =
  managed_utxo_new_def is_policy_spendable_def can_be_locked_def reserve_utxo_def
  discover_from_observed_def mark_spent_def mark_missing_def release_binding_def
  advance_binding_def bound_to_def bound_in_phase_def

lemma bound_in_phase_bound_to: "bound_in_phase i ph u \<Longrightarrow> bound_to i u"
  by (auto simp: utxo_op_defs is_some_and_iff)

lemma spendable_not_bound: "is_policy_spendable u \<Longrightarrow> \<not> bound_to i u"
  by (simp add: utxo_op_defs)

section \<open>Identity of an output\<close>

text \<open>Outpoint, owner, scope and value of an output never change after discovery.\<close>

definition utxo_identity :: "managed_utxo \<Rightarrow> outpoint \<times> account_id \<times> wallet_scope_id \<times> u64 \<times> utxo_role"
  where "utxo_identity u = (mu_outpoint u, mu_account_id u, mu_scope_id u, mu_value_sats u, mu_role u)"

lemma utxo_identity_ops [simp]:
  "utxo_identity (reserve_utxo i ph u) = utxo_identity u"
  "utxo_identity (mark_spent u) = utxo_identity u"
  "utxo_identity (mark_missing u) = utxo_identity u"
  "utxo_identity (release_binding u) = utxo_identity u"
  "utxo_identity (advance_binding ph u) = utxo_identity u"
  by (auto simp: utxo_identity_def utxo_op_defs Let_def split: option.split)

lemma mu_outpoint_ops [simp]:
  "mu_outpoint (reserve_utxo i ph u) = mu_outpoint u"
  "mu_outpoint (mark_spent u) = mu_outpoint u"
  "mu_outpoint (mark_missing u) = mu_outpoint u"
  "mu_outpoint (release_binding u) = mu_outpoint u"
  "mu_outpoint (advance_binding ph u) = mu_outpoint u"
  by (auto simp: utxo_op_defs Let_def split: option.split)

section \<open>The local invariants of an output\<close>

text \<open>What custody rests on: a spent output belongs to nobody.\<close>

definition utxo_ok :: "managed_utxo \<Rightarrow> bool" where
  "utxo_ok u \<longleftrightarrow> (mu_onchain_state u = Spent \<longrightarrow> mu_operation_binding u = None)"

lemma utxo_ok_new: "utxo_ok (managed_utxo_new op a sc v)"
  by (simp add: utxo_ok_def utxo_op_defs)

lemma utxo_ok_discover: "utxo_ok (discover_from_observed op a sc v c)"
  by (cases c) (simp_all add: utxo_ok_def utxo_op_defs)

lemma utxo_ok_reserve: "is_policy_spendable u \<Longrightarrow> utxo_ok (reserve_utxo i ph u)"
  by (simp add: utxo_ok_def utxo_op_defs)

lemma utxo_ok_mark_spent: "utxo_ok (mark_spent u)"
  by (simp add: utxo_ok_def utxo_op_defs)

lemma utxo_ok_mark_missing: "utxo_ok u \<Longrightarrow> utxo_ok (mark_missing u)"
  by (simp add: utxo_ok_def utxo_op_defs)

lemma utxo_ok_release: "utxo_ok (release_binding u)"
  by (simp add: utxo_ok_def utxo_op_defs Let_def)

lemma utxo_ok_advance: "utxo_ok u \<Longrightarrow> utxo_ok (advance_binding ph u)"
  by (auto simp: utxo_ok_def utxo_op_defs Let_def split: option.split)

lemmas utxo_ok_intros [intro] =
  utxo_ok_new utxo_ok_discover utxo_ok_reserve utxo_ok_mark_spent utxo_ok_mark_missing
  utxo_ok_release utxo_ok_advance

text \<open>
  The availability that is recorded says what it should: a selectable output is confirmed, unbound and free of
  conflicts, a reserved one is bound and not spent. A store keeps this as long as the snapshots it
  reconciles name every output once; a snapshot that names an output twice can break it.
\<close>

definition availability_ok :: "managed_utxo \<Rightarrow> bool" where
  "availability_ok u \<longleftrightarrow>
     (mu_availability u = Selectable \<longrightarrow> is_policy_spendable u) \<and>
     (mu_availability u = Reserved \<longrightarrow>
        mu_operation_binding u \<noteq> None \<and> mu_onchain_state u \<noteq> Spent)"

lemma availability_ok_discover: "availability_ok (discover_from_observed op a sc v c)"
  by (cases c) (simp_all add: availability_ok_def utxo_op_defs)

lemma availability_ok_reserve: "is_policy_spendable u \<Longrightarrow> availability_ok (reserve_utxo i ph u)"
  by (simp add: availability_ok_def utxo_op_defs)

lemma availability_ok_release: "availability_ok (release_binding u)"
  by (simp add: availability_ok_def utxo_op_defs Let_def)

lemma availability_ok_advance: "availability_ok u \<Longrightarrow> availability_ok (advance_binding ph u)"
  by (auto simp: availability_ok_def utxo_op_defs Let_def split: option.split)

lemmas availability_ok_intros [intro] =
  availability_ok_discover availability_ok_reserve availability_ok_release availability_ok_advance

section \<open>Bindings after an operation\<close>

lemma binding_reserve [simp]:
  "mu_operation_binding (reserve_utxo i ph u) = Some \<lparr>bd_operation_id = i, bd_phase = ph\<rparr>"
  by (simp add: reserve_utxo_def)

lemma binding_mark_spent [simp]: "mu_operation_binding (mark_spent u) = None"
  by (simp add: mark_spent_def)

lemma binding_mark_missing [simp]:
  "mu_operation_binding (mark_missing u) = mu_operation_binding u"
  by (simp add: mark_missing_def)

lemma binding_release [simp]: "mu_operation_binding (release_binding u) = None"
  by (simp add: release_binding_def Let_def)

lemma binding_advance [simp]:
  "mu_operation_binding (advance_binding ph u) =
     map_option (\<lambda>b. b\<lparr>bd_phase := ph\<rparr>) (mu_operation_binding u)"
  by (auto simp: advance_binding_def Let_def split: option.split)

lemma release_spendable_iff:
  "is_policy_spendable (release_binding u) \<longleftrightarrow>
     mu_onchain_state u = Confirmed \<and> mu_observation_conflict u = None \<and>
     mu_availability u \<noteq> Recovering"
  by (auto simp: utxo_op_defs Let_def)

lemma not_spendable_after [simp]:
  "\<not> is_policy_spendable (reserve_utxo i ph u)"
  "\<not> is_policy_spendable (mark_spent u)"
  "\<not> is_policy_spendable (mark_missing u)"
  by (simp_all add: utxo_op_defs)

end
