(* ===== verification/Operation.thy ===== *)
theory Operation
  imports Utxo
begin

text \<open>
  Operations, their lifecycle, selections and intents (\<open>txoscope-core/src/operation.rs\<close>), and the
  locks selections create (\<open>lock.rs\<close>).
\<close>

section \<open>Data\<close>

record operation_lock =
  lk_operation_id :: operation_id
  lk_account_id :: account_id
  lk_scope_id :: wallet_scope_id
  lk_purpose :: lock_purpose
  lk_owner :: string
  lk_created_at :: u64
  lk_expires_at :: "u64 option"

datatype input_selection_spec =
    TargetValue u64
  | ExactOutpoints "outpoint list"
  | FirstSelectable "outpoint list"

datatype operation_purpose = BtcSend | PlannedSelection | ManualReservationPurpose

fun lock_purpose_of :: "operation_purpose \<Rightarrow> lock_purpose" where
  "lock_purpose_of BtcSend = BtcSendLock"
| "lock_purpose_of PlannedSelection = PlannedSelectionLock"
| "lock_purpose_of ManualReservationPurpose = ManualReservation"

record input_selection_request =
  isr_account_id :: account_id
  isr_spec :: input_selection_spec
  isr_required_capabilities :: capability_set

record selection_lock_policy =
  slp_purpose :: operation_purpose
  slp_expires_at :: "u64 option"

datatype intent_status = Pending | Committed | Failed

record persisted_operation =
  po_operation_id :: operation_id
  po_phase :: operation_phase
  po_updated_at :: u64
  po_expires_at :: "u64 option"

datatype selection_effect = LockUtxo (effect_outpoint: outpoint) (effect_purpose: lock_purpose)

record operation_selection =
  os_operation_id :: operation_id
  os_selected_outpoints :: "outpoint list"
  os_change_scope_id :: wallet_scope_id
  os_effects :: "selection_effect list"
  os_expires_at :: "u64 option"

record operation_intent =
  oi_selection :: operation_selection
  oi_status :: intent_status
  oi_recorded_at :: u64

record operation_request =
  or_operation_id :: operation_id
  or_selection :: input_selection_request
  or_locking :: selection_lock_policy

record selected_inputs =
  si_outpoints :: "outpoint list"
  si_change_scope_id :: wallet_scope_id

definition selection_from_request ::
  "operation_request \<Rightarrow> selected_inputs \<Rightarrow> operation_selection" where
  "selection_from_request req inp =
     (let purpose = lock_purpose_of (slp_purpose (or_locking req))
      in \<lparr>os_operation_id = or_operation_id req,
          os_selected_outpoints = si_outpoints inp,
          os_change_scope_id = si_change_scope_id inp,
          os_effects = map (\<lambda>op. LockUtxo op purpose) (si_outpoints inp),
          os_expires_at = slp_expires_at (or_locking req)\<rparr>)"

section \<open>Lifecycle\<close>

text \<open>
  \<open>validate_advance\<close>: the transitions listed in the source; \<open>Inr False\<close> for an idempotent call.
\<close>

definition valid_transition :: "operation_phase \<Rightarrow> operation_phase \<Rightarrow> bool" where
  "valid_transition from_phase to_phase =
     (case from_phase of
        PhSelected \<Rightarrow>
          to_phase \<in> {PhConstructing, PhSigned, PhBroadcast, PhAwaitingConfirmation,
                      PhAwaitingL2Finality}
      | PhConstructing \<Rightarrow>
          to_phase \<in> {PhSigned, PhBroadcast, PhAwaitingConfirmation, PhAwaitingL2Finality}
      | PhSigned \<Rightarrow> to_phase \<in> {PhBroadcast, PhAwaitingConfirmation, PhAwaitingL2Finality}
      | PhBroadcast \<Rightarrow> to_phase \<in> {PhAwaitingConfirmation, PhAwaitingL2Finality}
      | PhAwaitingConfirmation \<Rightarrow> to_phase = PhAwaitingL2Finality
      | _ \<Rightarrow> False)"

definition validate_advance :: "persisted_operation \<Rightarrow> operation_phase \<Rightarrow> bool result" where
  "validate_advance po completed =
     (if po_phase po = completed then Inr False
      else if \<not> valid_transition (po_phase po) completed
      then Inl (InvalidOperationTransition (po_operation_id po) (po_phase po) completed)
      else Inr True)"

text \<open>The forward order of the phases; rolling back is outside it.\<close>

fun phase_rank :: "operation_phase \<Rightarrow> nat" where
  "phase_rank PhSelected = 0"
| "phase_rank PhConstructing = 1"
| "phase_rank PhSigned = 2"
| "phase_rank PhBroadcast = 3"
| "phase_rank PhAwaitingConfirmation = 4"
| "phase_rank PhAwaitingL2Finality = 5"
| "phase_rank PhRollingBack = 6"

lemma valid_transition_iff:
  "valid_transition p q \<longleftrightarrow> phase_rank p < phase_rank q \<and> q \<noteq> PhRollingBack"
  by (cases p; cases q) (simp_all add: valid_transition_def)

lemma valid_transition_trans:
  "valid_transition p q \<Longrightarrow> valid_transition q r \<Longrightarrow> valid_transition p r"
  by (simp add: valid_transition_iff)

lemma validate_advance_cases:
  "validate_advance po ph =
     (if po_phase po = ph then Inr False
      else if valid_transition (po_phase po) ph then Inr True
      else Inl (InvalidOperationTransition (po_operation_id po) (po_phase po) ph))"
  by (simp add: validate_advance_def)

lemma validate_advance_True [simp]:
  "validate_advance po ph = Inr True \<longleftrightarrow> valid_transition (po_phase po) ph"
  by (auto simp: validate_advance_cases valid_transition_iff)

lemma validate_advance_False [simp]:
  "validate_advance po ph = Inr False \<longleftrightarrow> po_phase po = ph"
  by (auto simp: validate_advance_cases)

lemma valid_transition_no_rollback [simp]:
  "\<not> valid_transition PhRollingBack q" "\<not> valid_transition p PhRollingBack"
  "\<not> valid_transition p p"
  by (simp add: valid_transition_def, simp_all add: valid_transition_iff)

lemma spending_phase_upward: "valid_transition p q \<Longrightarrow> spending_phase p \<Longrightarrow> spending_phase q"
  by (cases p; cases q) (simp_all add: valid_transition_def spending_phase_def)

section \<open>Validating a selection\<close>

text \<open>
  \<open>validate_capabilities\<close> reads accounts, scopes and outputs through functions its caller binds to
  one snapshot.
\<close>

definition validate_scope ::
  "(account_id \<Rightarrow> account option result) \<Rightarrow> (wallet_scope_id \<Rightarrow> wallet_scope option result) \<Rightarrow>
   account_id \<Rightarrow> wallet_scope_id \<Rightarrow> capability_set \<Rightarrow> unit result" where
  "validate_scope get_account get_scope aid sid required =
     res_bind (get_account aid) (\<lambda>account_opt.
     res_bind (ok_or (AccountNotFound aid) account_opt) (\<lambda>account.
     if \<not> contains_all (ac_capabilities account) required
     then Inl (MissingAccountCapabilities aid)
     else
     res_bind (get_scope sid) (\<lambda>scope_opt.
     res_bind (ok_or (ScopeNotFound sid) scope_opt) (\<lambda>scope.
     if ws_account_id scope \<noteq> aid \<or> sid \<notin> set (ac_scopes account) then Inl (ScopeNotFound sid)
     else if \<not> contains_all (ws_capabilities scope) required then Inl (MissingCapabilities sid)
     else Inr ()))))"

definition validate_structure :: "operation_selection \<Rightarrow> unit result" where
  "validate_structure sel =
     (let outpoints = os_selected_outpoints sel; effects = map effect_outpoint (os_effects sel) in
      if \<not> distinct effects then Inl (CorruptedState ''duplicate selection effect'')
      else if outpoints = [] \<or> \<not> distinct outpoints \<or> set outpoints \<noteq> set effects
      then Inl (CorruptedState
        ''selection inputs and lock effects must match and be non-empty and unique'')
      else Inr ())"

definition change_required :: "operation_selection \<Rightarrow> capability_set" where
  "change_required sel = (\<Union>e\<in>set (os_effects sel). required_change_capabilities (effect_purpose e))"

definition validate_effect ::
  "(account_id \<Rightarrow> account option result) \<Rightarrow> (wallet_scope_id \<Rightarrow> wallet_scope option result) \<Rightarrow>
   (outpoint \<Rightarrow> managed_utxo option result) \<Rightarrow> selection_effect \<Rightarrow> unit result" where
  "validate_effect get_account get_scope get_utxo e =
     res_bind (get_utxo (effect_outpoint e)) (\<lambda>utxo_opt.
     res_bind (ok_or (UtxoNotFound (effect_outpoint e)) utxo_opt) (\<lambda>utxo.
     validate_scope get_account get_scope (mu_account_id utxo) (mu_scope_id utxo)
       (required_capabilities (effect_purpose e))))"

definition validate_capabilities ::
  "(account_id \<Rightarrow> account option result) \<Rightarrow> (wallet_scope_id \<Rightarrow> wallet_scope option result) \<Rightarrow>
   (outpoint \<Rightarrow> managed_utxo option result) \<Rightarrow> operation_selection \<Rightarrow> unit result" where
  "validate_capabilities get_account get_scope get_utxo sel =
     res_bind (validate_structure sel) (\<lambda>_.
     res_bind (res_each (validate_effect get_account get_scope get_utxo) (os_effects sel)) (\<lambda>_.
     res_bind (get_scope (os_change_scope_id sel)) (\<lambda>change_opt.
     res_bind (ok_or (ScopeNotFound (os_change_scope_id sel)) change_opt) (\<lambda>change_scope.
     validate_scope get_account get_scope (ws_account_id change_scope) (ws_id change_scope)
       (change_required sel)))))"

text \<open>What acceptance means.\<close>

definition scope_grants ::
  "(account_id \<rightharpoonup> account) \<Rightarrow> (wallet_scope_id \<rightharpoonup> wallet_scope) \<Rightarrow>
   account_id \<Rightarrow> wallet_scope_id \<Rightarrow> capability_set \<Rightarrow> bool" where
  "scope_grants accounts scopes aid sid required \<longleftrightarrow>
     (\<exists>a sc. accounts aid = Some a \<and> scopes sid = Some sc \<and> ws_account_id sc = aid \<and>
        sid \<in> set (ac_scopes a) \<and> contains_all (ac_capabilities a) required \<and>
        contains_all (ws_capabilities sc) required)"

lemma validate_structure_ok:
  "validate_structure sel = Inr u \<longleftrightarrow>
     os_selected_outpoints sel \<noteq> [] \<and> distinct (os_selected_outpoints sel) \<and>
     distinct (map effect_outpoint (os_effects sel)) \<and>
     set (os_selected_outpoints sel) = effect_outpoint ` set (os_effects sel)"
  by (auto simp: validate_structure_def Let_def)

lemma validate_scope_ok:
  "validate_scope (\<lambda>a. Inr (accounts a)) (\<lambda>s. Inr (scopes s)) aid sid required = Inr u \<longleftrightarrow>
     scope_grants accounts scopes aid sid required"
  by (auto simp: validate_scope_def scope_grants_def res_bind_eq_Inr ok_or_eq)

lemma validate_effect_ok:
  "validate_effect (\<lambda>a. Inr (accounts a)) (\<lambda>s. Inr (scopes s)) (\<lambda>p. Inr (utxos p)) e = Inr u \<longleftrightarrow>
     (\<exists>x. utxos (effect_outpoint e) = Some x \<and>
        scope_grants accounts scopes (mu_account_id x) (mu_scope_id x)
          (required_capabilities (effect_purpose e)))"
  by (auto simp: validate_effect_def validate_scope_ok res_bind_eq_Inr ok_or_eq)

lemma validate_capabilities_ok:
  "validate_capabilities (\<lambda>a. Inr (accounts a)) (\<lambda>s. Inr (scopes s)) (\<lambda>p. Inr (utxos p)) sel = Inr u
   \<longleftrightarrow>
     validate_structure sel = Inr () \<and>
     (\<forall>e\<in>set (os_effects sel). \<exists>x. utxos (effect_outpoint e) = Some x \<and>
        scope_grants accounts scopes (mu_account_id x) (mu_scope_id x)
          (required_capabilities (effect_purpose e))) \<and>
     (\<exists>sc. scopes (os_change_scope_id sel) = Some sc \<and>
        scope_grants accounts scopes (ws_account_id sc) (ws_id sc) (change_required sel))"
  by (auto simp: validate_capabilities_def res_bind_eq_Inr ok_or_eq res_each_Inr
      validate_effect_ok validate_scope_ok)

end
