(* ===== verification/Store_Interface.thy ===== *)
theory Store_Interface
  imports Operation
begin

text \<open>
  The storage boundary (\<open>txoscope-core/src/store.rs\<close>). The traits \<open>StateRead\<close> and \<open>StateStore\<close> are
  records of operations over a backend state, the second extending the first; code generic in the
  trait takes such a record. The contract a backend promises is stated over an abstract ledger of
  finite maps: \<open>ledger\<close>, the effect of every operation on it (\<open>ledger_\<dots>\<close>), and the locales
  \<open>state_read_contract\<close> and \<open>state_store_contract\<close>. A backend may fail with \<open>Storage\<close>, but then
  leaves the ledger as it was; a \<open>reliable_store\<close> never fails that way.
\<close>

section \<open>Reconciliation plans\<close>

text \<open>The actions a reconciliation plan hands to the store (\<open>reconciliation.rs\<close>).\<close>

datatype reconciliation_action =
    DiscoverNew observed_utxo
  | RefreshObserved observed_utxo
  | UpdateOnchainState outpoint onchain_state
  | MarkSpent outpoint string
  | ReportConflict outpoint string u64
  | ClearConflict outpoint
  | UpdateAvailability outpoint availability
  | MarkMissing outpoint

record reconcile_plan =
  rp_actions :: "reconciliation_action list"

record state_batch =
  sb_selection :: operation_selection
  sb_phase :: operation_phase
  sb_owner :: string

section \<open>The traits\<close>

record 's state_read =
  get_account :: "'s \<Rightarrow> account_id \<Rightarrow> account option result"
  get_scope :: "'s \<Rightarrow> wallet_scope_id \<Rightarrow> wallet_scope option result"
  get_utxo :: "'s \<Rightarrow> outpoint \<Rightarrow> managed_utxo option result"
  get_lock :: "'s \<Rightarrow> outpoint \<Rightarrow> operation_lock option result"
  get_operation :: "'s \<Rightarrow> operation_id \<Rightarrow> persisted_operation option result"
  get_intent :: "'s \<Rightarrow> operation_id \<Rightarrow> operation_intent option result"
  list_utxos :: "'s \<Rightarrow> managed_utxo list result"
  list_operations :: "'s \<Rightarrow> persisted_operation list result"
  list_pending_intents :: "'s \<Rightarrow> operation_intent list result"
  current_tick :: "'s \<Rightarrow> u64 result"

type_synonym ('s, 'a) command = "('s, domain_error, 'a) cmd"

record 's state_store = "'s state_read" +
  put_account :: "account \<Rightarrow> ('s, unit) command"
  put_scope :: "wallet_scope \<Rightarrow> ('s, unit) command"
  put_utxo :: "managed_utxo \<Rightarrow> ('s, unit) command"
  advance_tick :: "u64 \<Rightarrow> ('s, unit) command"
  persist_intent :: "operation_selection \<Rightarrow> ('s, operation_intent) command"
  mark_intent_committed :: "operation_id \<Rightarrow> ('s, unit) command"
  mark_intent_failed :: "operation_id \<Rightarrow> ('s, unit) command"
  apply_batch :: "state_batch \<Rightarrow> ('s, unit) command"
  apply_reconciliation :: "reconcile_plan \<Rightarrow> ('s, unit) command"
  release_selected_operation :: "operation_id \<Rightarrow> ('s, outpoint list option) command"
  release_operation :: "operation_id \<Rightarrow> operation_phase \<Rightarrow> ('s, outpoint list) command"
  complete_operation :: "operation_id \<Rightarrow> operation_phase \<Rightarrow> ('s, outpoint list) command"

section \<open>The ledger\<close>

record ledger =
  lg_accounts :: "account_id \<rightharpoonup> account"
  lg_scopes :: "wallet_scope_id \<rightharpoonup> wallet_scope"
  lg_utxos :: "outpoint \<rightharpoonup> managed_utxo"
  lg_locks :: "outpoint \<rightharpoonup> operation_lock"
  lg_operations :: "operation_id \<rightharpoonup> persisted_operation"
  lg_intents :: "operation_id \<rightharpoonup> operation_intent"
  lg_tick :: u64

definition ledger_wf :: "ledger \<Rightarrow> bool" where
  "ledger_wf L \<longleftrightarrow>
     (\<forall>p u. lg_utxos L p = Some u \<longrightarrow> mu_outpoint u = p) \<and>
     (\<forall>i x. lg_operations L i = Some x \<longrightarrow> po_operation_id x = i) \<and>
     (\<forall>i n. lg_intents L i = Some n \<longrightarrow> os_operation_id (oi_selection n) = i) \<and>
     (\<forall>i a. lg_accounts L i = Some a \<longrightarrow> ac_id a = i) \<and>
     (\<forall>i s. lg_scopes L i = Some s \<longrightarrow> ws_id s = i) \<and>
     dom (lg_locks L) \<subseteq> dom (lg_utxos L)"

lemma ledger_wfD:
  assumes "ledger_wf L"
  shows "lg_utxos L p = Some u \<Longrightarrow> mu_outpoint u = p"
    and "lg_operations L i = Some x \<Longrightarrow> po_operation_id x = i"
    and "lg_intents L i = Some n \<Longrightarrow> os_operation_id (oi_selection n) = i"
    and "lg_scopes L sid = Some sc \<Longrightarrow> ws_id sc = sid"
    and "lg_locks L p = Some l \<Longrightarrow> \<exists>u. lg_utxos L p = Some u"
  using assms by (auto simp: ledger_wf_def)

subsection \<open>Effects of the operations\<close>

definition bump_tick :: "ledger \<Rightarrow> ledger" where
  "bump_tick L = L\<lparr>lg_tick := sat_add (lg_tick L) 1\<rparr>"

definition ledger_persist_intent :: "operation_selection \<Rightarrow> (ledger, operation_intent) command" where
  "ledger_persist_intent sel L =
     (let i = os_operation_id sel in
      case lg_intents L i of
        Some existing \<Rightarrow>
          if oi_selection existing \<noteq> sel then (Inl (IntentConflict i), L) else (Inr existing, L)
      | None \<Rightarrow>
          let L' = bump_tick L;
              intent = \<lparr>oi_selection = sel, oi_status = Pending, oi_recorded_at = lg_tick L'\<rparr>
          in (Inr intent, L'\<lparr>lg_intents := (lg_intents L)(i \<mapsto> intent)\<rparr>))"

definition set_intent_status :: "operation_id \<Rightarrow> intent_status \<Rightarrow> ledger \<Rightarrow> ledger" where
  "set_intent_status i st L =
     L\<lparr>lg_intents := (lg_intents L)(i := map_option (oi_status_update (\<lambda>_. st)) (lg_intents L i))\<rparr>"

definition ledger_mark_committed :: "operation_id \<Rightarrow> (ledger, unit) command" where
  "ledger_mark_committed i L =
     (case lg_intents L i of
        None \<Rightarrow> (Inl (IntentNotFound i), L)
      | Some n \<Rightarrow>
          if oi_status n = Failed then (Inl (IntentNotPending i), L)
          else (Inr (), bump_tick (set_intent_status i Committed L)))"

definition bound_outpoints :: "ledger \<Rightarrow> operation_id \<Rightarrow> outpoint set" where
  "bound_outpoints L i = {p. \<exists>u. lg_utxos L p = Some u \<and> bound_to i u}"

text \<open>Applies a change to the outputs an operation owns.\<close>

definition on_owned ::
  "operation_id \<Rightarrow> (managed_utxo \<Rightarrow> managed_utxo) \<Rightarrow> (outpoint \<rightharpoonup> managed_utxo) \<Rightarrow> outpoint \<rightharpoonup> managed_utxo"
  where "on_owned i f m = (\<lambda>p. map_option (\<lambda>u. if bound_to i u then f u else u) (m p))"

definition released_ledger :: "operation_id \<Rightarrow> operation_phase \<Rightarrow> ledger \<Rightarrow> ledger" where
  "released_ledger i ph L =
     (let t = sat_add (lg_tick L) 1 in
      L\<lparr>lg_utxos := on_owned i release_binding (lg_utxos L),
        lg_locks := (\<lambda>p. case lg_locks L p of
                            None \<Rightarrow> None
                          | Some l \<Rightarrow> if lk_operation_id l = i then None else Some l),
        lg_tick := t,
        lg_operations := (lg_operations L)(i \<mapsto>
          \<lparr>po_operation_id = i, po_phase = ph, po_updated_at = t, po_expires_at = None\<rparr>)\<rparr>)"

definition ledger_release :: "operation_id \<Rightarrow> operation_phase \<Rightarrow> (ledger, outpoint set) command" where
  "ledger_release i ph L = (Inr (bound_outpoints L i), released_ledger i ph L)"

definition ledger_release_selected :: "operation_id \<Rightarrow> (ledger, outpoint set option) command" where
  "ledger_release_selected i L =
     (if is_some_and (lg_operations L i) (\<lambda>x. po_phase x = PhSelected)
      then (Inr (Some (bound_outpoints L i)), released_ledger i PhRollingBack L)
      else (Inr None, L))"

definition ledger_mark_failed :: "operation_id \<Rightarrow> (ledger, unit) command" where
  "ledger_mark_failed i L =
     (case lg_intents L i of
        None \<Rightarrow> (Inl (IntentNotFound i), L)
      | Some n \<Rightarrow>
          (case oi_status n of
             Committed \<Rightarrow> (Inl (IntentNotPending i), L)
           | Failed \<Rightarrow> (Inr (), L)
           | Pending \<Rightarrow>
               (case lg_operations L i of
                  None \<Rightarrow> (Inr (), bump_tick (set_intent_status i Failed L))
                | Some x \<Rightarrow>
                    if po_phase x = PhSelected
                    then (Inr (), bump_tick (set_intent_status i Failed
                            (released_ledger i PhRollingBack L)))
                    else if po_phase x = PhRollingBack
                    then (Inr (), bump_tick (set_intent_status i Failed L))
                    else (Inl (InvalidOperationTransition i (po_phase x) PhRollingBack), L))))"

definition completed_ledger :: "operation_id \<Rightarrow> operation_phase \<Rightarrow> ledger \<Rightarrow> ledger" where
  "completed_ledger i ph L =
     (let t = sat_add (lg_tick L) 1 in
      L\<lparr>lg_utxos := on_owned i (advance_binding ph) (lg_utxos L),
        lg_locks := (\<lambda>p. map_option
          (\<lambda>l. if lk_operation_id l = i then l\<lparr>lk_expires_at := None\<rparr> else l) (lg_locks L p)),
        lg_tick := t,
        lg_operations := (lg_operations L)(i \<mapsto>
          \<lparr>po_operation_id = i, po_phase = ph, po_updated_at = t, po_expires_at = None\<rparr>)\<rparr>)"

definition ledger_complete :: "operation_id \<Rightarrow> operation_phase \<Rightarrow> (ledger, outpoint set) command" where
  "ledger_complete i ph L =
     (case lg_operations L i of
        None \<Rightarrow> (Inl (OperationNotFound i), L)
      | Some x \<Rightarrow>
          (case lg_intents L i of
             None \<Rightarrow> (Inl (IntentNotFound i), L)
           | Some n \<Rightarrow>
               if oi_status n \<noteq> Committed then (Inl (IntentNotCommitted i), L)
               else (case validate_advance x ph of
                       Inl e \<Rightarrow> (Inl e, L)
                     | Inr advances \<Rightarrow>
                         if \<not> advances then (Inr {}, L)
                         else (Inr (bound_outpoints L i), completed_ledger i ph L))))"

subsection \<open>Applying a batch\<close>

text \<open>
  Whether an output can take a lock: it is free, or the same operation already holds it; otherwise
  the error names the first obstacle.
\<close>

definition held_by :: "operation_selection \<Rightarrow> operation_phase \<Rightarrow> managed_utxo \<Rightarrow> operation_lock option \<Rightarrow> bool"
  where
  "held_by sel ph u lock \<longleftrightarrow>
     bound_in_phase (os_operation_id sel) ph u \<and>
     is_some_and lock (\<lambda>l. lk_operation_id l = os_operation_id sel)"

definition unsafe_reason :: "managed_utxo \<Rightarrow> operation_lock option \<Rightarrow> string" where
  "unsafe_reason u lock =
     ''utxo is not safely spendable: onchain_state='' @ onchain_debug (mu_onchain_state u) @
     '', lock_present='' @ bool_debug (lock \<noteq> None)"

definition lock_effect_verdict ::
  "operation_selection \<Rightarrow> operation_phase \<Rightarrow> outpoint \<Rightarrow> managed_utxo option \<Rightarrow>
   operation_lock option \<Rightarrow> unit result" where
  "lock_effect_verdict sel ph p utxo lock =
     (case utxo of
        None \<Rightarrow> Inl (UtxoNotFound p)
      | Some u \<Rightarrow>
          if can_be_locked u (lock \<noteq> None) then Inr ()
          else if held_by sel ph u lock then Inr ()
          else if mu_availability u \<noteq> Selectable then Inl (UtxoUnavailable p (mu_availability u))
          else if mu_observation_conflict u \<noteq> None
          then Inl (ObservationConflictError p (mu_onchain_state u))
          else Inl (UtxoPolicyBlocked p (unsafe_reason u lock)))"

text \<open>The lock a batch writes for an output.\<close>

definition batch_lock :: "state_batch \<Rightarrow> u64 \<Rightarrow> lock_purpose \<Rightarrow> managed_utxo \<Rightarrow> operation_lock" where
  "batch_lock b tick purpose u =
     \<lparr>lk_operation_id = os_operation_id (sb_selection b),
      lk_account_id = mu_account_id u, lk_scope_id = mu_scope_id u,
      lk_purpose = purpose, lk_owner = sb_owner b, lk_created_at = sat_add tick 1,
      lk_expires_at = os_expires_at (sb_selection b)\<rparr>"

definition lock_mismatch :: "state_batch \<Rightarrow> lock_purpose \<Rightarrow> managed_utxo \<Rightarrow> operation_lock \<Rightarrow> bool" where
  "lock_mismatch b purpose u l \<longleftrightarrow>
     lk_purpose l \<noteq> purpose \<or> lk_expires_at l \<noteq> os_expires_at (sb_selection b) \<or>
     lk_account_id l \<noteq> mu_account_id u \<or> lk_scope_id l \<noteq> mu_scope_id u"

type_synonym holdings = "(outpoint \<rightharpoonup> managed_utxo) \<times> (outpoint \<rightharpoonup> operation_lock)"

definition ledger_apply_effect ::
  "state_batch \<Rightarrow> u64 \<Rightarrow> selection_effect \<Rightarrow> holdings \<Rightarrow> holdings result" where
  "ledger_apply_effect b tick e h =
     (let utxos = fst h; locks = snd h; sel = sb_selection b; p = effect_outpoint e in
      res_bind (lock_effect_verdict sel (sb_phase b) p (utxos p) (locks p)) (\<lambda>_.
      case utxos p of
        None \<Rightarrow> Inl (UtxoNotFound p)
      | Some u \<Rightarrow>
          if held_by sel (sb_phase b) u (locks p)
          then (if is_some_and (locks p) (lock_mismatch b (effect_purpose e) u)
                then Inl (IntentConflict (os_operation_id sel)) else Inr h)
          else Inr (utxos(p \<mapsto> reserve_utxo (os_operation_id sel) (sb_phase b) u),
                    locks(p \<mapsto> batch_lock b tick (effect_purpose e) u))))"

definition batch_precheck ::
  "state_batch \<Rightarrow> operation_intent option \<Rightarrow> persisted_operation option \<Rightarrow> unit result" where
  "batch_precheck b intent operation =
     (let sel = sb_selection b; i = os_operation_id sel in
      if is_some_and intent (\<lambda>n. oi_status n = Failed) then Inl (IntentNotPending i)
      else if is_some_and intent (\<lambda>n. oi_selection n \<noteq> sel) then Inl (IntentConflict i)
      else (case operation of
              None \<Rightarrow> Inr ()
            | Some x \<Rightarrow>
                if po_phase x \<noteq> sb_phase b \<or> po_phase x = PhRollingBack
                then Inl (InvalidOperationTransition i (po_phase x) (sb_phase b)) else Inr ()))"

definition ledger_validate :: "ledger \<Rightarrow> operation_selection \<Rightarrow> unit result" where
  "ledger_validate L sel =
     validate_capabilities (\<lambda>a. Inr (lg_accounts L a)) (\<lambda>s. Inr (lg_scopes L s))
       (\<lambda>p. Inr (lg_utxos L p)) sel"

definition batch_operation :: "state_batch \<Rightarrow> u64 \<Rightarrow> persisted_operation" where
  "batch_operation b t =
     \<lparr>po_operation_id = os_operation_id (sb_selection b), po_phase = sb_phase b,
      po_updated_at = t, po_expires_at = os_expires_at (sb_selection b)\<rparr>"

definition ledger_apply_batch :: "state_batch \<Rightarrow> (ledger, unit) command" where
  "ledger_apply_batch b L =
     (let sel = sb_selection b; i = os_operation_id sel in
      case res_bind (batch_precheck b (lg_intents L i) (lg_operations L i)) (\<lambda>_.
           res_bind (ledger_validate L sel) (\<lambda>_.
           res_fold (ledger_apply_effect b (lg_tick L)) (os_effects sel)
             (lg_utxos L, lg_locks L))) of
        Inl e \<Rightarrow> (Inl e, L)
      | Inr (utxos, locks) \<Rightarrow>
          let t = sat_add (lg_tick L) 1 in
          (Inr (), L\<lparr>lg_utxos := utxos, lg_locks := locks, lg_tick := t,
                     lg_operations := (lg_operations L)(i \<mapsto> batch_operation b t)\<rparr>))"

subsection \<open>Applying a reconciliation\<close>

fun action_outpoint :: "reconciliation_action \<Rightarrow> outpoint" where
  "action_outpoint (DiscoverNew ob) = ob_outpoint ob"
| "action_outpoint (RefreshObserved ob) = ob_outpoint ob"
| "action_outpoint (UpdateOnchainState p st) = p"
| "action_outpoint (MarkSpent p tx) = p"
| "action_outpoint (ReportConflict p m t) = p"
| "action_outpoint (ClearConflict p) = p"
| "action_outpoint (UpdateAvailability p av) = p"
| "action_outpoint (MarkMissing p) = p"

definition discovered :: "observed_utxo \<Rightarrow> managed_utxo" where
  "discovered ob =
     discover_from_observed (ob_outpoint ob) (ob_account_id ob) (ob_scope_id ob)
       (ob_value_sats ob) (ob_confirmation ob)"

text \<open>What an action does to the managed output it names.\<close>

fun update_managed :: "reconciliation_action \<Rightarrow> managed_utxo \<Rightarrow> managed_utxo" where
  "update_managed (UpdateOnchainState p st) u =
     (if mu_onchain_state u \<in> {Spent, SpendingInFlight} then u else u\<lparr>mu_onchain_state := st\<rparr>)"
| "update_managed (MarkSpent p tx) u = mark_spent u"
| "update_managed (ReportConflict p m t) u =
     u\<lparr>mu_observation_conflict := Some \<lparr>oc_message = m, oc_recorded_at = t\<rparr>\<rparr>"
| "update_managed (ClearConflict p) u = u\<lparr>mu_observation_conflict := None\<rparr>"
| "update_managed (UpdateAvailability p av) u = u\<lparr>mu_availability := av\<rparr>"
| "update_managed (MarkMissing p) u = mark_missing u"
| "update_managed a u = u"

fun action_effect :: "reconciliation_action \<Rightarrow> managed_utxo option \<Rightarrow> managed_utxo option" where
  "action_effect (DiscoverNew ob) None = Some (discovered ob)"
| "action_effect a None = None"
| "action_effect a (Some u) = Some (update_managed a u)"

fun clears_lock :: "reconciliation_action \<Rightarrow> bool" where
  "clears_lock (MarkSpent p tx) = True"
| "clears_lock a = False"

definition ledger_apply_action :: "reconciliation_action \<Rightarrow> holdings \<Rightarrow> holdings" where
  "ledger_apply_action a h =
     (let p = action_outpoint a in
      ((fst h)(p := action_effect a (fst h p)),
       if clears_lock a then (snd h)(p := None) else snd h))"

definition ledger_apply_reconciliation :: "reconcile_plan \<Rightarrow> (ledger, unit) command" where
  "ledger_apply_reconciliation plan L =
     (let h = fold ledger_apply_action (rp_actions plan) (lg_utxos L, lg_locks L)
      in (Inr (), bump_tick (L\<lparr>lg_utxos := fst h, lg_locks := snd h\<rparr>)))"

definition ledger_put_utxo :: "managed_utxo \<Rightarrow> (ledger, unit) command" where
  "ledger_put_utxo u L =
     (Inr (), bump_tick (L\<lparr>lg_utxos := (lg_utxos L)(mu_outpoint u \<mapsto> u)\<rparr>))"

definition ledger_advance_tick :: "u64 \<Rightarrow> (ledger, unit) command" where
  "ledger_advance_tick d L = (Inr (), L\<lparr>lg_tick := sat_add (lg_tick L) (max d 1)\<rparr>)"

section \<open>Contracts\<close>

text \<open>A read returns the ledger's value, or fails in the storage layer.\<close>

definition reads_as :: "'a result \<Rightarrow> 'a \<Rightarrow> bool" where
  "reads_as r v \<longleftrightarrow> r = Inr v \<or> (\<exists>m. r = Inl (Storage m))"

text \<open>A listing enumerates a set without repetition, in any order.\<close>

definition lists_as :: "'a list result \<Rightarrow> 'a set \<Rightarrow> bool" where
  "lists_as r A \<longleftrightarrow> (\<exists>xs. r = Inr xs \<and> set xs = A \<and> distinct xs) \<or> (\<exists>m. r = Inl (Storage m))"

text \<open>
  A command does to the ledger what the specification says, up to a view of its result, or fails
  in the storage layer without changing the ledger.
\<close>

definition implements ::
  "('s \<Rightarrow> bool) \<Rightarrow> ('s \<Rightarrow> ledger) \<Rightarrow> ('a \<Rightarrow> 'b) \<Rightarrow> ('s, 'a) command \<Rightarrow> (ledger, 'b) command \<Rightarrow> bool"
  where
  "implements sinv ledger_of view m spec \<longleftrightarrow>
     (\<forall>s r s'. sinv s \<longrightarrow> m s = (r, s') \<longrightarrow> sinv s' \<and>
        ((res_map view r, ledger_of s') = spec (ledger_of s) \<or>
         (\<exists>msg. r = Inl (Storage msg)) \<and> ledger_of s' = ledger_of s))"

lemma implementsD:
  assumes "implements sinv ledger_of view m spec" and "sinv s" and "m s = (r, s')"
  shows "sinv s'"
    and "(res_map view r, ledger_of s') = spec (ledger_of s) \<or> (\<exists>msg. r = Inl (Storage msg)) \<and> ledger_of s' = ledger_of s"
  using assms unfolding implements_def by blast+

lemma implements_Inr:
  assumes "implements sinv ledger_of view m spec" and "sinv s" and "m s = (Inr x, s')"
  shows "sinv s'" and "spec (ledger_of s) = (Inr (view x), ledger_of s')"
  using implementsD [OF assms] by auto

lemma implements_Inl:
  assumes "implements sinv ledger_of view m spec" and "sinv s" and "m s = (Inl e, s')"
    and "\<And>L L' e'. spec L = (Inl e', L') \<Longrightarrow> L' = L"
  shows "sinv s'" and "ledger_of s' = ledger_of s" and "is_storage e \<or> spec (ledger_of s) = (Inl e, ledger_of s)"
proof -
  show "sinv s'" using assms(1-3) by (rule implementsD(1))
  consider "spec (ledger_of s) = (Inl e, ledger_of s')" | "is_storage e" "ledger_of s' = ledger_of s"
    using implementsD(2) [OF assms(1-3)] by auto
  then show "ledger_of s' = ledger_of s" and "is_storage e \<or> spec (ledger_of s) = (Inl e, ledger_of s)"
    using assms(4) by (cases; force)+
qed

text \<open>No specified command changes the ledger when it fails.\<close>

lemma ledger_commands_atomic:
  "ledger_persist_intent sel L = (Inl e, L') \<Longrightarrow> L' = L"
  "ledger_mark_committed i L = (Inl e, L') \<Longrightarrow> L' = L"
  "ledger_mark_failed i L = (Inl e, L') \<Longrightarrow> L' = L"
  "ledger_apply_batch b L = (Inl e, L') \<Longrightarrow> L' = L"
  "ledger_complete i ph L = (Inl e, L') \<Longrightarrow> L' = L"
  by (auto simp: ledger_persist_intent_def ledger_mark_committed_def ledger_mark_failed_def
      ledger_apply_batch_def ledger_complete_def Let_def
      split: option.splits if_splits sum.splits intent_status.splits prod.splits)

text \<open>Registering accounts and scopes leaves outputs, locks, operations and intents alone.\<close>

definition same_holdings :: "ledger \<Rightarrow> ledger \<Rightarrow> bool" where
  "same_holdings L L' \<longleftrightarrow>
     lg_utxos L' = lg_utxos L \<and> lg_locks L' = lg_locks L \<and>
     lg_operations L' = lg_operations L \<and> lg_intents L' = lg_intents L"

locale state_read_contract =
  fixes ops :: "('s, 'z) state_read_scheme"
    and sinv :: "'s \<Rightarrow> bool"
    and ledger_of :: "'s \<Rightarrow> ledger"
  assumes abs_wf: "sinv s \<Longrightarrow> ledger_wf (ledger_of s)"
    and get_account_law: "sinv s \<Longrightarrow> reads_as (get_account ops s aid) (lg_accounts (ledger_of s) aid)"
    and get_scope_law: "sinv s \<Longrightarrow> reads_as (get_scope ops s sid) (lg_scopes (ledger_of s) sid)"
    and get_utxo_law: "sinv s \<Longrightarrow> reads_as (get_utxo ops s p) (lg_utxos (ledger_of s) p)"
    and get_lock_law: "sinv s \<Longrightarrow> reads_as (get_lock ops s p) (lg_locks (ledger_of s) p)"
    and get_operation_law: "sinv s \<Longrightarrow> reads_as (get_operation ops s i) (lg_operations (ledger_of s) i)"
    and get_intent_law: "sinv s \<Longrightarrow> reads_as (get_intent ops s i) (lg_intents (ledger_of s) i)"
    and list_utxos_law: "sinv s \<Longrightarrow> lists_as (list_utxos ops s) (ran (lg_utxos (ledger_of s)))"
    and list_operations_law:
      "sinv s \<Longrightarrow> lists_as (list_operations ops s) (ran (lg_operations (ledger_of s)))"
    and list_pending_law:
      "sinv s \<Longrightarrow> lists_as (list_pending_intents ops s)
         {n \<in> ran (lg_intents (ledger_of s)). oi_status n = Pending}"
    and current_tick_law: "sinv s \<Longrightarrow> reads_as (current_tick ops s) (lg_tick (ledger_of s))"

locale state_store_contract = state_read_contract ops sinv ledger_of
  for ops :: "'s state_store" and sinv :: "'s \<Rightarrow> bool" and ledger_of :: "'s \<Rightarrow> ledger" +
  assumes put_account_law:
      "sinv s \<Longrightarrow> put_account ops a s = (r, s') \<Longrightarrow> sinv s' \<and> same_holdings (ledger_of s) (ledger_of s')"
    and put_scope_law:
      "sinv s \<Longrightarrow> put_scope ops sc s = (r, s') \<Longrightarrow> sinv s' \<and> same_holdings (ledger_of s) (ledger_of s')"
    and put_utxo_law: "implements sinv ledger_of id (put_utxo ops u) (ledger_put_utxo u)"
    and advance_tick_law: "implements sinv ledger_of id (advance_tick ops d) (ledger_advance_tick d)"
    and persist_intent_law:
      "implements sinv ledger_of id (persist_intent ops sel) (ledger_persist_intent sel)"
    and mark_committed_law:
      "implements sinv ledger_of id (mark_intent_committed ops i) (ledger_mark_committed i)"
    and mark_failed_law:
      "implements sinv ledger_of id (mark_intent_failed ops i) (ledger_mark_failed i)"
    and apply_batch_law: "implements sinv ledger_of id (apply_batch ops b) (ledger_apply_batch b)"
    and apply_reconciliation_law:
      "implements sinv ledger_of id (apply_reconciliation ops plan) (ledger_apply_reconciliation plan)"
    and release_selected_law:
      "implements sinv ledger_of (map_option set) (release_selected_operation ops i)
         (ledger_release_selected i)"
    and release_law:
      "implements sinv ledger_of set (release_operation ops i ph) (ledger_release i ph)"
    and complete_law:
      "implements sinv ledger_of set (complete_operation ops i ph) (ledger_complete i ph)"

text \<open>A store that never fails in the storage layer.\<close>

definition no_storage_error :: "'a result \<Rightarrow> bool" where
  "no_storage_error r \<longleftrightarrow> (\<forall>m. r \<noteq> Inl (Storage m))"

locale reliable_store = state_store_contract ops sinv ledger_of
  for ops :: "'s state_store" and sinv :: "'s \<Rightarrow> bool" and ledger_of :: "'s \<Rightarrow> ledger" +
  assumes reliable_reads:
      "sinv s \<Longrightarrow> no_storage_error (get_account ops s aid)"
      "sinv s \<Longrightarrow> no_storage_error (get_scope ops s sid)"
      "sinv s \<Longrightarrow> no_storage_error (get_utxo ops s p)"
      "sinv s \<Longrightarrow> no_storage_error (get_lock ops s p)"
      "sinv s \<Longrightarrow> no_storage_error (get_operation ops s i)"
      "sinv s \<Longrightarrow> no_storage_error (get_intent ops s i)"
      "sinv s \<Longrightarrow> no_storage_error (list_utxos ops s)"
      "sinv s \<Longrightarrow> no_storage_error (list_operations ops s)"
      "sinv s \<Longrightarrow> no_storage_error (list_pending_intents ops s)"
      "sinv s \<Longrightarrow> no_storage_error (current_tick ops s)"
    and reliable_commands:
      "sinv s \<Longrightarrow> no_storage_error (fst (persist_intent ops sel s))"
      "sinv s \<Longrightarrow> no_storage_error (fst (mark_intent_committed ops i s))"
      "sinv s \<Longrightarrow> no_storage_error (fst (mark_intent_failed ops i s))"
      "sinv s \<Longrightarrow> no_storage_error (fst (apply_batch ops b s))"
      "sinv s \<Longrightarrow> no_storage_error (fst (apply_reconciliation ops plan s))"
      "sinv s \<Longrightarrow> no_storage_error (fst (release_selected_operation ops i s))"
      "sinv s \<Longrightarrow> no_storage_error (fst (release_operation ops i ph s))"
      "sinv s \<Longrightarrow> no_storage_error (fst (complete_operation ops i ph s))"
      "sinv s \<Longrightarrow> no_storage_error (fst (advance_tick ops d s))"
begin

lemma reliable_read_eqs:
  assumes "sinv s"
  shows "get_account ops s aid = Inr (lg_accounts (ledger_of s) aid)"
    and "get_scope ops s sid = Inr (lg_scopes (ledger_of s) sid)"
    and "get_utxo ops s p = Inr (lg_utxos (ledger_of s) p)"
    and "get_lock ops s p = Inr (lg_locks (ledger_of s) p)"
    and "get_operation ops s i = Inr (lg_operations (ledger_of s) i)"
    and "get_intent ops s i = Inr (lg_intents (ledger_of s) i)"
    and "current_tick ops s = Inr (lg_tick (ledger_of s))"
  using assms reliable_reads get_account_law get_scope_law get_utxo_law get_lock_law
    get_operation_law get_intent_law current_tick_law
  unfolding reads_as_def no_storage_error_def by metis+

end

end
