(* ===== verification/Ledger_Invariants.thy ===== *)
theory Ledger_Invariants
  imports Store_Interface
begin

text \<open>
  What the ledger's operations keep: every bound output has a lock, an operation in the binding's
  phase and a live intent that names it, and every lock has such an output. The invariant is
  stated slot by slot (an outpoint with its output and its lock), so an operation is
  checked on the slots it touches.
\<close>

section \<open>The invariant\<close>

text \<open>Custody: what a binding promises.\<close>

definition custody_ok ::
  "ledger \<Rightarrow> outpoint \<Rightarrow> managed_utxo \<Rightarrow> operation_binding \<Rightarrow> operation_lock option \<Rightarrow> bool" where
  "custody_ok L p u b lock \<longleftrightarrow>
     (\<exists>l. lock = Some l \<and> lk_operation_id l = bd_operation_id b \<and>
          lk_account_id l = mu_account_id u \<and> lk_scope_id l = mu_scope_id u) \<and>
     (\<exists>x. lg_operations L (bd_operation_id b) = Some x \<and> po_phase x = bd_phase b) \<and>
     bd_phase b \<noteq> PhRollingBack \<and>
     (\<exists>n. lg_intents L (bd_operation_id b) = Some n \<and> oi_status n \<noteq> Failed \<and>
          p \<in> set (os_selected_outpoints (oi_selection n))) \<and>
     (spending_phase (bd_phase b) \<longrightarrow> mu_onchain_state u = SpendingInFlight)"

definition slot_ok :: "ledger \<Rightarrow> outpoint \<Rightarrow> managed_utxo option \<Rightarrow> operation_lock option \<Rightarrow> bool" where
  "slot_ok L p utxo lock \<longleftrightarrow>
     (case utxo of
        None \<Rightarrow> lock = None
      | Some u \<Rightarrow> utxo_ok u \<and>
          (case mu_operation_binding u of
             None \<Rightarrow> lock = None
           | Some b \<Rightarrow> custody_ok L p u b lock))"

definition failed_intents_rolled_back :: "ledger \<Rightarrow> bool" where
  "failed_intents_rolled_back L \<longleftrightarrow>
     (\<forall>i n x. lg_intents L i = Some n \<longrightarrow> oi_status n = Failed \<longrightarrow> lg_operations L i = Some x \<longrightarrow>
        po_phase x = PhRollingBack)"

definition holdings_ok :: "ledger \<Rightarrow> bool" where
  "holdings_ok L \<longleftrightarrow>
     (\<forall>p. slot_ok L p (lg_utxos L p) (lg_locks L p)) \<and> failed_intents_rolled_back L"

text \<open>Every output's availability says what it should (not part of the invariant, see \<open>availability_ok\<close>).\<close>

definition records_ok :: "ledger \<Rightarrow> bool" where
  "records_ok L \<longleftrightarrow> (\<forall>u\<in>ran (lg_utxos L). availability_ok u)"

section \<open>Consequences\<close>

lemma slot_okD: "holdings_ok L \<Longrightarrow> slot_ok L p (lg_utxos L p) (lg_locks L p)"
  by (simp add: holdings_ok_def)

lemma slot_ok_Some:
  assumes "holdings_ok L" and "lg_utxos L p = Some u"
  shows "utxo_ok u" and "mu_operation_binding u = None \<Longrightarrow> lg_locks L p = None"
    and "mu_operation_binding u = Some b \<Longrightarrow> custody_ok L p u b (lg_locks L p)"
  using slot_okD [OF assms(1), of p] assms(2) by (auto simp: slot_ok_def)

text \<open>A lock protects exactly the outputs bound to its operation.\<close>

lemma lock_iff_bound:
  assumes "holdings_ok L"
  shows "(\<exists>l. lg_locks L p = Some l \<and> lk_operation_id l = i) \<longleftrightarrow>
         (\<exists>u. lg_utxos L p = Some u \<and> bound_to i u)"
  using slot_okD [OF assms, of p]
  by (auto simp: slot_ok_def custody_ok_def bound_to_def is_some_and_iff split: option.splits)

text \<open>A spendable output is free: nobody else holds it.\<close>

lemma spendable_unlocked:
  "holdings_ok L \<Longrightarrow> lg_utxos L p = Some u \<Longrightarrow> is_policy_spendable u \<Longrightarrow> lg_locks L p = None"
  using slot_ok_Some(2) by (simp add: is_policy_spendable_def)

text \<open>An operation that owns outputs exists, is not rolling back, and its intent is live.\<close>

lemma owner_live:
  assumes "holdings_ok L" and "lg_utxos L p = Some u" and "bound_to i u"
  obtains x n where "lg_operations L i = Some x" and "po_phase x \<noteq> PhRollingBack"
    and "bound_in_phase i (po_phase x) u" and "lg_intents L i = Some n" and "oi_status n \<noteq> Failed"
    and "p \<in> set (os_selected_outpoints (oi_selection n))"
  using slot_okD [OF assms(1), of p] assms(2,3) that
  by (auto simp: slot_ok_def custody_ok_def bound_to_def bound_in_phase_def is_some_and_iff)

lemma no_owner_without_operation:
  "holdings_ok L \<Longrightarrow> lg_utxos L p = Some u \<Longrightarrow>
    (\<And>x. lg_operations L i = Some x \<Longrightarrow> po_phase x = PhRollingBack) \<Longrightarrow> \<not> bound_to i u"
  by (meson owner_live)

text \<open>A slot depends on the ledger only through its owner's operation and intent.\<close>

lemma slot_ok_cong:
  assumes "slot_ok L p utxo lock"
    and "\<And>i u. utxo = Some u \<Longrightarrow> bound_to i u \<Longrightarrow>
      lg_operations L' i = lg_operations L i \<and> lg_intents L' i = lg_intents L i"
  shows "slot_ok L' p utxo lock"
  using assms
  by (cases utxo)
    (auto simp: slot_ok_def custody_ok_def bound_to_def split: option.splits)

lemma slot_ok_unbound:
  "utxo_ok u \<Longrightarrow> mu_operation_binding u = None \<Longrightarrow> slot_ok L p (Some u) None"
  by (simp add: slot_ok_def)

lemma slot_ok_cases:
  assumes "slot_ok L p utxo lock"
  obtains (absent) "utxo = None" "lock = None"
    | (free) u where "utxo = Some u" "lock = None" "utxo_ok u" "mu_operation_binding u = None"
    | (owned) u b l where "utxo = Some u" "lock = Some l" "utxo_ok u"
        "mu_operation_binding u = Some b" "custody_ok L p u b (Some l)"
        "lk_operation_id l = bd_operation_id b"
  using assms that
  by (cases utxo; cases "mu_operation_binding (the utxo)") (auto simp: slot_ok_def custody_ok_def)

section \<open>Preservation: intents\<close>

lemma bump_tick_simps [simp]:
  "lg_utxos (bump_tick L) = lg_utxos L" "lg_locks (bump_tick L) = lg_locks L"
  "lg_operations (bump_tick L) = lg_operations L" "lg_intents (bump_tick L) = lg_intents L"
  "lg_accounts (bump_tick L) = lg_accounts L" "lg_scopes (bump_tick L) = lg_scopes L"
  by (simp_all add: bump_tick_def)

lemma set_intent_status_simps [simp]:
  "lg_utxos (set_intent_status i st L) = lg_utxos L" "lg_locks (set_intent_status i st L) = lg_locks L"
  "lg_operations (set_intent_status i st L) = lg_operations L"
  "lg_intents (set_intent_status i st L) =
     (lg_intents L)(i := map_option (oi_status_update (\<lambda>_. st)) (lg_intents L i))"
  by (simp_all add: set_intent_status_def)

lemma holdings_ok_same:
  assumes "same_holdings L L'" and "holdings_ok L"
  shows "holdings_ok L'"
  using assms
  by (auto simp: holdings_ok_def same_holdings_def failed_intents_rolled_back_def intro: slot_ok_cong)

lemma holdings_ok_bump_tick [simp]: "holdings_ok (bump_tick L) = holdings_ok L"
  using holdings_ok_same [of L "bump_tick L"] holdings_ok_same [of "bump_tick L" L]
  by (auto simp: same_holdings_def)

lemma holdings_ok_advance_tick: "holdings_ok L \<Longrightarrow> ledger_advance_tick d L = (r, L') \<Longrightarrow> holdings_ok L'"
  by (rule holdings_ok_same [of L]) (auto simp: ledger_advance_tick_def same_holdings_def)

lemma holdings_ok_persist:
  assumes "holdings_ok L" and "ledger_persist_intent sel L = (r, L')"
  shows "holdings_ok L'"
proof (cases "lg_intents L (os_operation_id sel)")
  case None
  let ?n = "\<lparr>oi_selection = sel, oi_status = Pending, oi_recorded_at = lg_tick (bump_tick L)\<rparr>"
  have L': "L' = (bump_tick L)\<lparr>lg_intents := (lg_intents L)(os_operation_id sel \<mapsto> ?n)\<rparr>"
    using assms(2) None by (simp add: ledger_persist_intent_def Let_def)
  have "slot_ok L' p (lg_utxos L p) (lg_locks L p)" for p
    using slot_okD [OF assms(1)]
  proof (rule slot_ok_cong)
    fix i u
    assume "lg_utxos L p = Some u" and "bound_to i u"
    then have "lg_intents L i \<noteq> None" using owner_live [OF assms(1)] by blast
    then show "lg_operations L' i = lg_operations L i \<and> lg_intents L' i = lg_intents L i"
      using None by (auto simp: L')
  qed
  then show ?thesis
    using assms(1) by (auto simp: holdings_ok_def failed_intents_rolled_back_def L')
next
  case (Some n)
  then have "L' = L"
    using assms(2) by (auto simp: ledger_persist_intent_def Let_def split: if_splits)
  with assms(1) show ?thesis by simp
qed

lemma custody_intent_status:
  assumes "custody_ok L p u b lock" and "bd_operation_id b = i \<Longrightarrow> st \<noteq> Failed"
  shows "custody_ok (set_intent_status i st L) p u b lock"
  using assms by (auto simp: custody_ok_def)

lemma holdings_ok_status:
  assumes "holdings_ok L"
    and "st = Failed \<Longrightarrow> (\<And>x. lg_operations L i = Some x \<Longrightarrow> po_phase x = PhRollingBack)"
  shows "holdings_ok (set_intent_status i st L)"
proof -
  have "slot_ok (set_intent_status i st L) p (lg_utxos L p) (lg_locks L p)" for p
    using slot_okD [OF assms(1), of p]
  proof (cases rule: slot_ok_cases)
    case (owned u b l)
    have "st \<noteq> Failed" if "bd_operation_id b = i"
      using owned(5) that assms(2) by (auto simp: custody_ok_def)
    then have "custody_ok (set_intent_status i st L) p u b (Some l)"
      using owned(5) by (rule custody_intent_status [rotated])
    with owned show ?thesis by (simp add: slot_ok_def)
  qed (auto simp: slot_ok_def)
  moreover have "failed_intents_rolled_back (set_intent_status i st L)"
    using assms by (auto simp: holdings_ok_def failed_intents_rolled_back_def split: if_splits)
  ultimately show ?thesis by (simp add: holdings_ok_def)
qed

lemma holdings_ok_status_failed:
  "holdings_ok L \<Longrightarrow> \<forall>x. lg_operations L i = Some x \<longrightarrow> po_phase x = PhRollingBack \<Longrightarrow>
    holdings_ok (set_intent_status i Failed L)"
  by (rule holdings_ok_status) auto

lemma holdings_ok_committed:
  "holdings_ok L \<Longrightarrow> ledger_mark_committed i L = (r, L') \<Longrightarrow> holdings_ok L'"
  using holdings_ok_status [of L Committed i]
  by (auto simp: ledger_mark_committed_def split: option.splits if_splits)

section \<open>Preservation: releasing\<close>

lemma released_simps [simp]:
  "lg_intents (released_ledger i ph L) = lg_intents L"
  "lg_utxos (released_ledger i ph L) p =
     map_option (\<lambda>u. if bound_to i u then release_binding u else u) (lg_utxos L p)"
  "lg_locks (released_ledger i ph L) p =
     (case lg_locks L p of None \<Rightarrow> None | Some l \<Rightarrow> if lk_operation_id l = i then None else Some l)"
  "j \<noteq> i \<Longrightarrow> lg_operations (released_ledger i ph L) j = lg_operations L j"
  "map_option po_phase (lg_operations (released_ledger i ph L) i) = Some ph"
  by (simp_all add: released_ledger_def Let_def on_owned_def)

lemma released_phase: "lg_operations (released_ledger i ph L) i = Some x \<Longrightarrow> po_phase x = ph"
  by (auto simp: released_ledger_def Let_def)

text \<open>After a release the operation owns nothing.\<close>

lemma released_unbound: "bound_outpoints (released_ledger i ph L) i = {}"
  by (auto simp: bound_outpoints_def bound_to_def)

lemma holdings_ok_released:
  assumes "holdings_ok L"
    and "\<And>n. lg_intents L i = Some n \<Longrightarrow> oi_status n = Failed \<Longrightarrow> ph = PhRollingBack"
  shows "holdings_ok (released_ledger i ph L)"
proof -
  let ?L = "released_ledger i ph L"
  have "slot_ok ?L p (lg_utxos ?L p) (lg_locks ?L p)" for p
    using slot_okD [OF assms(1), of p]
  proof (cases rule: slot_ok_cases)
    case absent
    then show ?thesis by (simp add: slot_ok_def)
  next
    case (free u)
    then show ?thesis by (simp add: slot_ok_def bound_to_def)
  next
    case (owned u b l)
    show ?thesis
    proof (cases "bd_operation_id b = i")
      case True
      with owned show ?thesis by (auto simp: slot_ok_def bound_to_def)
    next
      case False
      with owned show ?thesis by (simp add: slot_ok_def bound_to_def custody_ok_def)
    qed
  qed
  moreover have "failed_intents_rolled_back ?L"
    unfolding failed_intents_rolled_back_def
  proof (intro allI impI)
    fix j n x
    assume *: "lg_intents ?L j = Some n" "oi_status n = Failed" "lg_operations ?L j = Some x"
    show "po_phase x = PhRollingBack"
    proof (cases "j = i")
      case True
      with * assms(2) released_simps(5) [of i ph L] show ?thesis by simp
    next
      case False
      with * assms(1) show ?thesis by (auto simp: holdings_ok_def failed_intents_rolled_back_def)
    qed
  qed
  ultimately show ?thesis by (simp add: holdings_ok_def)
qed

lemma holdings_ok_release:
  "holdings_ok L \<Longrightarrow> ledger_release i PhRollingBack L = (r, L') \<Longrightarrow> holdings_ok L'"
  by (auto simp: ledger_release_def intro: holdings_ok_released)

lemma holdings_ok_release_selected:
  "holdings_ok L \<Longrightarrow> ledger_release_selected i L = (r, L') \<Longrightarrow> holdings_ok L'"
  by (auto simp: ledger_release_selected_def intro: holdings_ok_released split: if_splits)

lemma holdings_ok_mark_failed:
  assumes "holdings_ok L" and "ledger_mark_failed i L = (r, L')"
  shows "holdings_ok L'"
proof -
  have rolled: "holdings_ok (set_intent_status i Failed (released_ledger i PhRollingBack L))"
    by (intro holdings_ok_status_failed holdings_ok_released assms(1)) (auto dest: released_phase)
  show ?thesis
    using assms rolled holdings_ok_status_failed [OF assms(1), of i]
    by (auto simp: ledger_mark_failed_def
        split: option.splits intent_status.splits if_splits)
qed

section \<open>Preservation: completing\<close>

lemma completed_simps [simp]:
  "lg_intents (completed_ledger i ph L) = lg_intents L"
  "lg_utxos (completed_ledger i ph L) p =
     map_option (\<lambda>u. if bound_to i u then advance_binding ph u else u) (lg_utxos L p)"
  "lg_locks (completed_ledger i ph L) p =
     map_option (\<lambda>l. if lk_operation_id l = i then l\<lparr>lk_expires_at := None\<rparr> else l) (lg_locks L p)"
  "j \<noteq> i \<Longrightarrow> lg_operations (completed_ledger i ph L) j = lg_operations L j"
  by (simp_all add: completed_ledger_def Let_def on_owned_def)

lemma completed_phase:
  "\<exists>x. lg_operations (completed_ledger i ph L) i = Some x \<and> po_phase x = ph \<and> po_operation_id x = i"
  by (simp add: completed_ledger_def Let_def)

lemma onchain_advance:
  "mu_operation_binding u = Some b \<Longrightarrow>
    mu_onchain_state (advance_binding ph u) =
      (if spending_phase ph \<and> mu_onchain_state u \<noteq> Spent then SpendingInFlight
       else mu_onchain_state u)"
  by (simp add: advance_binding_def Let_def)

lemma custody_advance:
  assumes "custody_ok L p u b (Some l)" and "bd_operation_id b = i" and "ph \<noteq> PhRollingBack"
    and "utxo_ok u" and "mu_operation_binding u = Some b"
  shows "custody_ok (completed_ledger i ph L) p (advance_binding ph u) (b\<lparr>bd_phase := ph\<rparr>)
    (Some (l\<lparr>lk_expires_at := None\<rparr>))"
proof -
  have "utxo_identity (advance_binding ph u) = utxo_identity u" by simp
  then have "mu_account_id (advance_binding ph u) = mu_account_id u"
    and "mu_scope_id (advance_binding ph u) = mu_scope_id u"
    by (simp_all add: utxo_identity_def)
  moreover have "mu_onchain_state u \<noteq> Spent" using assms(4,5) by (auto simp: utxo_ok_def)
  ultimately show ?thesis
    using assms completed_phase [of i ph L] by (auto simp: custody_ok_def onchain_advance)
qed

lemma holdings_ok_completed:
  assumes "holdings_ok L" and "ph \<noteq> PhRollingBack"
    and "\<And>n. lg_intents L i = Some n \<Longrightarrow> oi_status n \<noteq> Failed"
  shows "holdings_ok (completed_ledger i ph L)"
proof -
  let ?L = "completed_ledger i ph L"
  have "slot_ok ?L p (lg_utxos ?L p) (lg_locks ?L p)" for p
    using slot_okD [OF assms(1), of p]
  proof (cases rule: slot_ok_cases)
    case absent
    then show ?thesis by (simp add: slot_ok_def)
  next
    case (free u)
    then show ?thesis by (simp add: slot_ok_def bound_to_def)
  next
    case (owned u b l)
    show ?thesis
    proof (cases "bd_operation_id b = i")
      case True
      then have "custody_ok ?L p (advance_binding ph u) (b\<lparr>bd_phase := ph\<rparr>)
          (Some (l\<lparr>lk_expires_at := None\<rparr>))"
        using custody_advance owned assms(2) by blast
      with owned True show ?thesis by (simp add: slot_ok_def bound_to_def utxo_ok_advance)
    next
      case False
      with owned show ?thesis by (simp add: slot_ok_def bound_to_def custody_ok_def)
    qed
  qed
  moreover have "failed_intents_rolled_back ?L"
    unfolding failed_intents_rolled_back_def
  proof (intro allI impI)
    fix j n x
    assume *: "lg_intents ?L j = Some n" "oi_status n = Failed" "lg_operations ?L j = Some x"
    with assms(3) have "j \<noteq> i" by auto
    with * assms(1) show "po_phase x = PhRollingBack"
      by (auto simp: holdings_ok_def failed_intents_rolled_back_def)
  qed
  ultimately show ?thesis by (simp add: holdings_ok_def)
qed

lemma holdings_ok_complete:
  assumes "holdings_ok L" and "ledger_complete i ph L = (r, L')"
  shows "holdings_ok L'"
proof (cases "L' = L")
  case False
  then obtain x n where "lg_operations L i = Some x" and n: "lg_intents L i = Some n"
      "oi_status n = Committed" and "valid_transition (po_phase x) ph"
      and L': "L' = completed_ledger i ph L"
    using assms(2) by (auto simp: ledger_complete_def split: option.splits if_splits sum.splits)
  then have "ph \<noteq> PhRollingBack" by auto
  with assms(1) n show ?thesis unfolding L' by (auto intro: holdings_ok_completed)
qed (use assms(1) in simp)

section \<open>Applying a batch\<close>

text \<open>
  What one effect does to the slot it names: a slot the operation holds already stays as it is, a
  free one is reserved and locked.
\<close>

definition effect_outcome ::
  "state_batch \<Rightarrow> u64 \<Rightarrow> selection_effect \<Rightarrow> holdings \<Rightarrow> holdings \<Rightarrow> bool" where
  "effect_outcome b tick e h h' \<longleftrightarrow>
     (let sel = sb_selection b; p = effect_outpoint e in
      \<exists>u. fst h p = Some u \<and>
        ((held_by sel (sb_phase b) u (snd h p) \<and>
            \<not> is_some_and (snd h p) (lock_mismatch b (effect_purpose e) u) \<and>
            fst h' p = fst h p \<and> snd h' p = snd h p) \<or>
         (is_policy_spendable u \<and> snd h p = None \<and>
            fst h' p = Some (reserve_utxo (os_operation_id sel) (sb_phase b) u) \<and>
            snd h' p = Some (batch_lock b tick (effect_purpose e) u))))"

lemma held_not_spendable: "held_by sel ph u lock \<Longrightarrow> \<not> is_policy_spendable u"
  by (auto simp: held_by_def bound_in_phase_def is_policy_spendable_def)

lemma apply_effect_outcome:
  assumes "ledger_apply_effect b tick e h = Inr h'"
  shows "effect_outcome b tick e h h'"
    and "p \<noteq> effect_outpoint e \<Longrightarrow> fst h' p = fst h p \<and> snd h' p = snd h p"
  using assms
  by (auto simp: ledger_apply_effect_def effect_outcome_def lock_effect_verdict_def Let_def
      res_bind_eq_Inr can_be_locked_def split: option.splits if_splits)

lemma apply_effects_other:
  "res_fold (ledger_apply_effect b tick) es h = Inr h' \<Longrightarrow> p \<notin> effect_outpoint ` set es \<Longrightarrow>
    fst h' p = fst h p \<and> snd h' p = snd h p"
proof (induction es arbitrary: h)
  case Nil
  then show ?case by simp
next
  case (Cons e es)
  then obtain g where "ledger_apply_effect b tick e h = Inr g"
      and "res_fold (ledger_apply_effect b tick) es g = Inr h'"
    by (auto simp: res_bind_eq_Inr)
  with Cons apply_effect_outcome(2) [of b tick e h g p] show ?case by simp
qed

lemma effect_outcome_cong:
  assumes "effect_outcome b tick e h h'"
    and "fst g (effect_outpoint e) = fst h (effect_outpoint e)"
    and "snd g (effect_outpoint e) = snd h (effect_outpoint e)"
    and "fst g' (effect_outpoint e) = fst h' (effect_outpoint e)"
    and "snd g' (effect_outpoint e) = snd h' (effect_outpoint e)"
  shows "effect_outcome b tick e g g'"
  using assms unfolding effect_outcome_def Let_def by simp

lemma apply_effects_outcome:
  assumes "res_fold (ledger_apply_effect b tick) es h = Inr h'"
    and "distinct (map effect_outpoint es)" and "e \<in> set es"
  shows "effect_outcome b tick e h h'"
  using assms
proof (induction es arbitrary: h)
  case Nil
  then show ?case by simp
next
  case (Cons e' es)
  then obtain g where g: "ledger_apply_effect b tick e' h = Inr g"
      and rest: "res_fold (ledger_apply_effect b tick) es g = Inr h'"
    by (auto simp: res_bind_eq_Inr)
  show ?case
  proof (cases "e = e'")
    case True
    have "fst h' (effect_outpoint e) = fst g (effect_outpoint e) \<and>
        snd h' (effect_outpoint e) = snd g (effect_outpoint e)"
      using rest Cons.prems(2) True by (auto intro!: apply_effects_other)
    with apply_effect_outcome(1) [OF g] True show ?thesis by (auto elim: effect_outcome_cong)
  next
    case False
    with Cons have "effect_outcome b tick e g h'" using rest by simp
    moreover have "effect_outpoint e \<noteq> effect_outpoint e'"
      using False Cons.prems(2,3) by (metis distinct.simps(2) image_eqI list.simps(9) set_ConsD set_map)
    ultimately show ?thesis
      using apply_effect_outcome(2) [OF g] by (auto elim: effect_outcome_cong)
  qed
qed

text \<open>Success of a batch, taken apart.\<close>

lemma apply_batch_Inr:
  assumes "ledger_apply_batch b L = (Inr (), L')"
  obtains utxos locks where
    "batch_precheck b (lg_intents L (os_operation_id (sb_selection b)))
       (lg_operations L (os_operation_id (sb_selection b))) = Inr ()"
    and "ledger_validate L (sb_selection b) = Inr ()"
    and "res_fold (ledger_apply_effect b (lg_tick L)) (os_effects (sb_selection b))
       (lg_utxos L, lg_locks L) = Inr (utxos, locks)"
    and "lg_utxos L' = utxos" and "lg_locks L' = locks"
    and "lg_operations L' = (lg_operations L)(os_operation_id (sb_selection b) \<mapsto>
       batch_operation b (sat_add (lg_tick L) 1))"
    and "lg_intents L' = lg_intents L"
  using assms that
  by (auto simp: ledger_apply_batch_def Let_def res_bind_eq_Inr split: sum.splits prod.splits)

lemma ledger_validate_structure:
  "ledger_validate L sel = Inr () \<Longrightarrow>
    distinct (map effect_outpoint (os_effects sel)) \<and>
    set (os_selected_outpoints sel) = effect_outpoint ` set (os_effects sel)"
  by (simp add: ledger_validate_def validate_capabilities_ok validate_structure_ok)

text \<open>
  Acceptance is all or nothing: every input is reserved for the operation, no slot outside the
  selection changes.
\<close>

lemma apply_batch_outcome:
  assumes "ledger_apply_batch b L = (Inr (), L')"
  shows "\<And>e. e \<in> set (os_effects (sb_selection b)) \<Longrightarrow>
      effect_outcome b (lg_tick L) e (lg_utxos L, lg_locks L) (lg_utxos L', lg_locks L')"
    and "\<And>p. p \<notin> set (os_selected_outpoints (sb_selection b)) \<Longrightarrow>
      lg_utxos L' p = lg_utxos L p \<and> lg_locks L' p = lg_locks L p"
proof -
  obtain utxos locks where valid: "ledger_validate L (sb_selection b) = Inr ()"
    and run: "res_fold (ledger_apply_effect b (lg_tick L)) (os_effects (sb_selection b))
       (lg_utxos L, lg_locks L) = Inr (utxos, locks)"
    and [simp]: "lg_utxos L' = utxos" "lg_locks L' = locks"
    by (rule apply_batch_Inr [OF assms])
  note st = ledger_validate_structure [OF valid]
  show "effect_outcome b (lg_tick L) e (lg_utxos L, lg_locks L) (lg_utxos L', lg_locks L')"
    if "e \<in> set (os_effects (sb_selection b))" for e
    using apply_effects_outcome [OF run _ that] st by simp
  show "lg_utxos L' p = lg_utxos L p \<and> lg_locks L' p = lg_locks L p"
    if "p \<notin> set (os_selected_outpoints (sb_selection b))" for p
    using apply_effects_other [OF run, of p] st that by simp
qed

lemma slot_ok_batch:
  assumes "slot_ok L p (lg_utxos L p) (lg_locks L p)"
    and "effect_outcome b (lg_tick L) e (lg_utxos L, lg_locks L) (lg_utxos L', lg_locks L')"
    and "p = effect_outpoint e" and "sb_phase b = PhSelected"
    and op: "lg_operations L' (os_operation_id (sb_selection b)) = Some x" "po_phase x = PhSelected"
    and n: "lg_intents L' = lg_intents L" "lg_intents L (os_operation_id (sb_selection b)) = Some n"
      "oi_status n \<noteq> Failed" "p \<in> set (os_selected_outpoints (oi_selection n))"
  shows "slot_ok L' p (lg_utxos L' p) (lg_locks L' p)"
proof -
  let ?i = "os_operation_id (sb_selection b)"
  obtain u where u: "lg_utxos L p = Some u"
    and cases: "held_by (sb_selection b) PhSelected u (lg_locks L p) \<and>
        lg_utxos L' p = lg_utxos L p \<and> lg_locks L' p = lg_locks L p \<or>
      is_policy_spendable u \<and> lg_utxos L' p = Some (reserve_utxo ?i PhSelected u) \<and>
        lg_locks L' p = Some (batch_lock b (lg_tick L) (effect_purpose e) u)"
    using assms(2-4) by (auto simp: effect_outcome_def Let_def)
  from cases show ?thesis
  proof
    assume held: "held_by (sb_selection b) PhSelected u (lg_locks L p) \<and>
        lg_utxos L' p = lg_utxos L p \<and> lg_locks L' p = lg_locks L p"
    then obtain bd where bd: "mu_operation_binding u = Some bd" "bd_operation_id bd = ?i"
        "bd_phase bd = PhSelected"
      by (auto simp: held_by_def bound_in_phase_def is_some_and_iff)
    have "utxo_ok u" and "custody_ok L p u bd (lg_locks L p)"
      using assms(1) u bd by (simp_all add: slot_ok_def)
    then have "custody_ok L' p u bd (lg_locks L p)"
      using bd op n by (simp add: custody_ok_def)
    with held u bd \<open>utxo_ok u\<close> show ?thesis by (simp add: slot_ok_def)
  next
    assume new: "is_policy_spendable u \<and> lg_utxos L' p = Some (reserve_utxo ?i PhSelected u) \<and>
        lg_locks L' p = Some (batch_lock b (lg_tick L) (effect_purpose e) u)"
    have "custody_ok L' p (reserve_utxo ?i PhSelected u)
        \<lparr>bd_operation_id = ?i, bd_phase = PhSelected\<rparr>
        (Some (batch_lock b (lg_tick L) (effect_purpose e) u))"
      using op n by (auto simp: custody_ok_def batch_lock_def reserve_utxo_def spending_phase_def)
    with new show ?thesis by (auto simp: slot_ok_def utxo_ok_reserve)
  qed
qed

lemma holdings_ok_batch:
  assumes "holdings_ok L" and "ledger_apply_batch b L = (r, L')"
    and "sb_phase b = PhSelected" and "lg_intents L (os_operation_id (sb_selection b)) \<noteq> None"
  shows "holdings_ok L'"
proof (cases r)
  case (Inl e)
  with assms(1,2) ledger_commands_atomic(4) show ?thesis by blast
next
  case (Inr unit)
  let ?sel = "sb_selection b"
  let ?i = "os_operation_id ?sel"
  have run: "ledger_apply_batch b L = (Inr (), L')" using assms(2) Inr by simp
  obtain n where n: "lg_intents L ?i = Some n" using assms(4) by auto
  have pre: "batch_precheck b (lg_intents L ?i) (lg_operations L ?i) = Inr ()"
    and valid: "ledger_validate L ?sel = Inr ()"
    and ops: "lg_operations L' = (lg_operations L)(?i \<mapsto> batch_operation b (sat_add (lg_tick L) 1))"
    and ints: "lg_intents L' = lg_intents L"
    by (rule apply_batch_Inr [OF run], assumption)+
  have live: "oi_status n \<noteq> Failed" "oi_selection n = ?sel"
    using pre n by (auto simp: batch_precheck_def Let_def split: if_splits)
  have op: "lg_operations L' ?i = Some (batch_operation b (sat_add (lg_tick L) 1))"
    "po_phase (batch_operation b (sat_add (lg_tick L) 1)) = PhSelected"
    using assms(3) by (simp_all add: ops batch_operation_def)
  have old: "po_phase x = PhSelected" if "lg_operations L ?i = Some x" for x
    using pre that assms(3) by (auto simp: batch_precheck_def Let_def split: if_splits)
  have "slot_ok L' p (lg_utxos L' p) (lg_locks L' p)" for p
  proof (cases "p \<in> set (os_selected_outpoints ?sel)")
    case True
    then obtain e where e: "e \<in> set (os_effects ?sel)" "p = effect_outpoint e"
      using ledger_validate_structure [OF valid] by auto
    show ?thesis
      using slot_ok_batch [OF slot_okD [OF assms(1)] apply_batch_outcome(1) [OF run e(1)] e(2)
          assms(3) op ints n live(1)] True live(2) by simp
  next
    case False
    have "slot_ok L' p (lg_utxos L p) (lg_locks L p)"
      using slot_okD [OF assms(1), of p]
    proof (cases rule: slot_ok_cases)
      case (owned u bd l)
      have "custody_ok L' p u bd (Some l)"
        using owned(5) op old by (auto simp: custody_ok_def ops ints)
      with owned show ?thesis by (simp add: slot_ok_def)
    qed (auto simp: slot_ok_def)
    with apply_batch_outcome(2) [OF run False] show ?thesis by simp
  qed
  moreover have "failed_intents_rolled_back L'"
    using assms(1) n live
    by (auto simp: holdings_ok_def failed_intents_rolled_back_def ops ints split: if_splits)
  ultimately show ?thesis by (simp add: holdings_ok_def)
qed

text \<open>Applying an applied batch again changes only ticks: recovery may replay it after a crash.\<close>

lemma effect_outcome_held:
  assumes "effect_outcome b tick e h h'"
  shows "\<exists>u. fst h' (effect_outpoint e) = Some u \<and>
    held_by (sb_selection b) (sb_phase b) u (snd h' (effect_outpoint e)) \<and>
    \<not> is_some_and (snd h' (effect_outpoint e)) (lock_mismatch b (effect_purpose e) u)"
  using assms
  by (auto simp: effect_outcome_def Let_def held_by_def bound_in_phase_def batch_lock_def
      lock_mismatch_def reserve_utxo_def)

lemma held_effect_skips:
  assumes "fst h (effect_outpoint e) = Some u"
    and "held_by (sb_selection b) (sb_phase b) u (snd h (effect_outpoint e))"
    and "\<not> is_some_and (snd h (effect_outpoint e)) (lock_mismatch b (effect_purpose e) u)"
  shows "ledger_apply_effect b tick e h = Inr h"
  using assms held_not_spendable [OF assms(2)]
  by (simp add: ledger_apply_effect_def lock_effect_verdict_def Let_def can_be_locked_def)

lemma held_effects_skip:
  assumes "\<And>e. e \<in> set es \<Longrightarrow> ledger_apply_effect b tick e h = Inr h"
  shows "res_fold (ledger_apply_effect b tick) es h = Inr h"
  using assms by (induction es) auto

lemma effect_outcome_owner:
  assumes "effect_outcome b tick e h h'" and "fst h (effect_outpoint e) = Some u"
  shows "\<exists>u'. fst h' (effect_outpoint e) = Some u' \<and> utxo_identity u' = utxo_identity u"
  using assms by (auto simp: effect_outcome_def Let_def)

lemma apply_batch_idempotent:
  assumes run: "ledger_apply_batch b L = (Inr (), L')" and phase: "sb_phase b \<noteq> PhRollingBack"
  shows "\<exists>L''. ledger_apply_batch b L' = (Inr (), L'') \<and> lg_utxos L'' = lg_utxos L' \<and>
    lg_locks L'' = lg_locks L' \<and> lg_intents L'' = lg_intents L' \<and>
    (\<forall>i. map_option po_phase (lg_operations L'' i) = map_option po_phase (lg_operations L' i))"
proof -
  let ?sel = "sb_selection b"
  let ?i = "os_operation_id ?sel"
  have pre: "batch_precheck b (lg_intents L ?i) (lg_operations L ?i) = Inr ()"
    and valid: "ledger_validate L ?sel = Inr ()"
    and ops: "lg_operations L' = (lg_operations L)(?i \<mapsto> batch_operation b (sat_add (lg_tick L) 1))"
    and ints: "lg_intents L' = lg_intents L"
    by (rule apply_batch_Inr [OF run], assumption)+
  have same: "lg_accounts L' = lg_accounts L" "lg_scopes L' = lg_scopes L"
    using run by (auto simp: ledger_apply_batch_def Let_def split: sum.splits prod.splits)
  have pre': "batch_precheck b (lg_intents L' ?i) (lg_operations L' ?i) = Inr ()"
    using pre phase
    by (auto simp: ops ints batch_precheck_def batch_operation_def Let_def split: if_splits)
  have "\<exists>u'. lg_utxos L' (effect_outpoint e) = Some u' \<and>
      mu_account_id u' = mu_account_id u \<and> mu_scope_id u' = mu_scope_id u"
    if "e \<in> set (os_effects ?sel)" "lg_utxos L (effect_outpoint e) = Some u" for e u
    using effect_outcome_owner [OF apply_batch_outcome(1) [OF run that(1)]] that(2)
    by (auto simp: utxo_identity_def)
  then have valid': "ledger_validate L' ?sel = Inr ()"
    using valid unfolding ledger_validate_def validate_capabilities_ok same by (metis (no_types))
  have "ledger_apply_effect b (lg_tick L') e (lg_utxos L', lg_locks L') = Inr (lg_utxos L', lg_locks L')"
    if "e \<in> set (os_effects ?sel)" for e
    using effect_outcome_held [OF apply_batch_outcome(1) [OF run that]] held_effect_skips by blast
  then have "res_fold (ledger_apply_effect b (lg_tick L')) (os_effects ?sel) (lg_utxos L', lg_locks L') =
      Inr (lg_utxos L', lg_locks L')"
    by (rule held_effects_skip)
  then have "ledger_apply_batch b L' = (Inr (), L'\<lparr>lg_tick := sat_add (lg_tick L') 1,
      lg_operations := (lg_operations L')(?i \<mapsto> batch_operation b (sat_add (lg_tick L') 1))\<rparr>)"
    using pre' valid' by (simp add: ledger_apply_batch_def Let_def)
  then show ?thesis by (auto simp: ops batch_operation_def)
qed

section \<open>Registering an output\<close>

lemma holdings_ok_put:
  assumes "holdings_ok L" and "ledger_put_utxo u L = (r, L')"
    and "utxo_ok u" and "mu_operation_binding u = None" and "lg_locks L (mu_outpoint u) = None"
  shows "holdings_ok L'"
proof -
  have L': "L' = bump_tick (L\<lparr>lg_utxos := (lg_utxos L)(mu_outpoint u \<mapsto> u)\<rparr>)"
    using assms(2) by (simp add: ledger_put_utxo_def)
  have "slot_ok L' p (lg_utxos L p) (lg_locks L p)" for p
    using slot_okD [OF assms(1)] by (rule slot_ok_cong) (simp add: L')
  then show ?thesis
    using assms(1,3-5) slot_ok_unbound [of u L' "mu_outpoint u"]
    by (auto simp: holdings_ok_def failed_intents_rolled_back_def L')
qed

section \<open>History\<close>

text \<open>
  An output keeps its identity for ever, and once its spending has started on chain it never again
  counts as unspent.
\<close>

definition utxo_advances :: "managed_utxo \<Rightarrow> managed_utxo \<Rightarrow> bool" where
  "utxo_advances u u' \<longleftrightarrow>
     utxo_identity u' = utxo_identity u \<and>
     (mu_onchain_state u = Spent \<longrightarrow> mu_onchain_state u' = Spent) \<and>
     (mu_onchain_state u = SpendingInFlight \<longrightarrow> mu_onchain_state u' \<in> {SpendingInFlight, Spent})"

definition history_extends :: "ledger \<Rightarrow> ledger \<Rightarrow> bool" where
  "history_extends L L' \<longleftrightarrow>
     (\<forall>p u. lg_utxos L p = Some u \<longrightarrow> (\<exists>u'. lg_utxos L' p = Some u' \<and> utxo_advances u u'))"

lemma utxo_advances_refl [simp]: "utxo_advances u u"
  by (simp add: utxo_advances_def)

lemma utxo_advances_trans: "utxo_advances u v \<Longrightarrow> utxo_advances v w \<Longrightarrow> utxo_advances u w"
  by (auto simp: utxo_advances_def)

lemma history_extends_refl [simp]: "history_extends L L"
  by (simp add: history_extends_def)

lemma history_extends_trans: "history_extends L M \<Longrightarrow> history_extends M N \<Longrightarrow> history_extends L N"
  unfolding history_extends_def using utxo_advances_trans by meson

lemma onchain_state_ops [simp]:
  "mu_onchain_state (reserve_utxo i ph u) = mu_onchain_state u"
  "mu_onchain_state (release_binding u) = mu_onchain_state u"
  "mu_onchain_state (mark_missing u) = mu_onchain_state u"
  "mu_onchain_state (mark_spent u) = Spent"
  by (simp_all add: utxo_op_defs Let_def)

lemma utxo_advances_ops [simp]:
  "utxo_advances u (reserve_utxo i ph u)" "utxo_advances u (release_binding u)"
  "utxo_advances u (mark_missing u)" "utxo_advances u (mark_spent u)"
  "utxo_advances u (advance_binding ph u)"
  by (auto simp: utxo_advances_def utxo_op_defs Let_def utxo_identity_def split: option.split)

lemma utxo_advances_update_managed [simp]: "utxo_advances u (update_managed a u)"
  by (cases a) (auto simp: utxo_advances_def utxo_identity_def utxo_op_defs)

lemma history_extends_same: "lg_utxos L' = lg_utxos L \<Longrightarrow> history_extends L L'"
  by (simp add: history_extends_def)

lemma history_extends_pointwise:
  assumes "\<And>p. lg_utxos L' p = map_option f (lg_utxos L p)" and "\<And>u. utxo_advances u (f u)"
  shows "history_extends L L'"
  using assms by (auto simp: history_extends_def)

lemma history_released: "history_extends L (released_ledger i ph L)"
  by (rule history_extends_pointwise [OF released_simps(2)]) simp

lemma history_completed: "history_extends L (completed_ledger i ph L)"
  by (rule history_extends_pointwise [OF completed_simps(2)]) simp

lemma history_batch:
  assumes "ledger_apply_batch b L = (r, L')"
  shows "history_extends L L'"
proof (cases r)
  case (Inl e)
  with assms have "L' = L" using ledger_commands_atomic(4) by blast
  then show ?thesis by simp
next
  case (Inr unit)
  then have run: "ledger_apply_batch b L = (Inr (), L')" using assms by simp
  have valid: "ledger_validate L (sb_selection b) = Inr ()"
    by (rule apply_batch_Inr [OF run], assumption)
  have "\<exists>u'. lg_utxos L' p = Some u' \<and> utxo_advances u u'" if "lg_utxos L p = Some u" for p u
  proof (cases "p \<in> set (os_selected_outpoints (sb_selection b))")
    case True
    then obtain e where "e \<in> set (os_effects (sb_selection b))" "p = effect_outpoint e"
      using ledger_validate_structure [OF valid] by auto
    with that apply_batch_outcome(1) [OF run, of e] show ?thesis
      by (auto simp: effect_outcome_def Let_def)
  next
    case False
    with that apply_batch_outcome(2) [OF run] show ?thesis by simp
  qed
  then show ?thesis by (simp add: history_extends_def)
qed

lemma history_reconciliation:
  assumes "ledger_apply_reconciliation plan L = (r, L')"
  shows "history_extends L L'"
proof -
  have step: "\<exists>u'. fst (ledger_apply_action a h) p = Some u' \<and> utxo_advances u u'"
    if "fst h p = Some u" for a h p u
    using that
    by (cases a) (auto simp: ledger_apply_action_def Let_def
        intro: utxo_advances_update_managed simp del: update_managed.simps)
  have "\<exists>u'. fst (fold ledger_apply_action as h) p = Some u' \<and> utxo_advances u u'"
    if "fst h p = Some u" for as h p u
    using that
  proof (induction as arbitrary: h u)
    case Nil
    then show ?case by simp
  next
    case (Cons a as)
    then show ?case using step utxo_advances_trans by (simp, meson)
  qed
  then show ?thesis
    using assms by (auto simp: ledger_apply_reconciliation_def history_extends_def Let_def)
qed

lemma history_commands:
  "ledger_persist_intent sel L = (r1, L') \<Longrightarrow> history_extends L L'"
  "ledger_mark_committed i L = (r2, L') \<Longrightarrow> history_extends L L'"
  "ledger_mark_failed i L = (r3, L') \<Longrightarrow> history_extends L L'"
  "ledger_release i ph L = (r4, L') \<Longrightarrow> history_extends L L'"
  "ledger_release_selected i L = (r5, L') \<Longrightarrow> history_extends L L'"
  "ledger_complete i ph L = (r6, L') \<Longrightarrow> history_extends L L'"
  "ledger_advance_tick d L = (r7, L') \<Longrightarrow> history_extends L L'"
  using history_released history_completed
  by (auto simp: ledger_persist_intent_def ledger_mark_committed_def ledger_mark_failed_def
      ledger_release_def ledger_release_selected_def ledger_complete_def ledger_advance_tick_def
      Let_def history_extends_same history_extends_def
      split: option.splits intent_status.splits if_splits sum.splits)

section \<open>Claims\<close>

text \<open>
  A live operation exists and is not rolling back; it claims the inputs of its recorded selection.
  Live operations have an intent, own what they claim until it is spent, and never claim the same
  output.
\<close>

definition live :: "ledger \<Rightarrow> operation_id \<Rightarrow> bool" where
  "live L i \<longleftrightarrow> is_some_and (lg_operations L i) (\<lambda>x. po_phase x \<noteq> PhRollingBack)"

definition claims :: "ledger \<Rightarrow> operation_id \<Rightarrow> outpoint \<Rightarrow> bool" where
  "claims L i p \<longleftrightarrow>
     is_some_and (lg_intents L i) (\<lambda>n. p \<in> set (os_selected_outpoints (oi_selection n)))"

definition claims_ok :: "ledger \<Rightarrow> bool" where
  "claims_ok L \<longleftrightarrow>
     (\<forall>i. live L i \<longrightarrow> lg_intents L i \<noteq> None) \<and>
     (\<forall>i p. live L i \<longrightarrow> claims L i p \<longrightarrow>
        (\<exists>u. lg_utxos L p = Some u \<and> (bound_to i u \<or> mu_onchain_state u = Spent))) \<and>
     (\<forall>i j p. live L i \<longrightarrow> live L j \<longrightarrow> claims L i p \<longrightarrow> claims L j p \<longrightarrow> i = j)"

text \<open>An operation advances only once its intent is committed.\<close>

definition pending_ok :: "ledger \<Rightarrow> bool" where
  "pending_ok L \<longleftrightarrow>
     (\<forall>i n x. lg_intents L i = Some n \<longrightarrow> oi_status n = Pending \<longrightarrow> lg_operations L i = Some x \<longrightarrow>
        po_phase x = PhSelected \<or> po_phase x = PhRollingBack)"

definition ledger_ok :: "ledger \<Rightarrow> bool" where
  "ledger_ok L \<longleftrightarrow> ledger_wf L \<and> holdings_ok L \<and> claims_ok L \<and> pending_ok L"

lemma claims_okD:
  assumes "claims_ok L"
  shows "live L i \<Longrightarrow> lg_intents L i \<noteq> None"
    and "live L i \<Longrightarrow> claims L i p \<Longrightarrow>
      \<exists>u. lg_utxos L p = Some u \<and> (bound_to i u \<or> mu_onchain_state u = Spent)"
    and "live L i \<Longrightarrow> live L j \<Longrightarrow> claims L i p \<Longrightarrow> claims L j p \<Longrightarrow> i = j"
  using assms unfolding claims_ok_def by blast+

text \<open>
  A step keeps the claims when it makes no operation live, leaves the selections of live ones, and
  takes an output from a live owner only when it is spent.
\<close>

definition claims_step :: "ledger \<Rightarrow> ledger \<Rightarrow> bool" where
  "claims_step L L' \<longleftrightarrow>
     (\<forall>i. live L' i \<longrightarrow> live L i \<and>
        map_option oi_selection (lg_intents L' i) = map_option oi_selection (lg_intents L i)) \<and>
     (\<forall>p u. lg_utxos L p = Some u \<longrightarrow> (\<exists>u'. lg_utxos L' p = Some u' \<and>
        (mu_onchain_state u = Spent \<longrightarrow> mu_onchain_state u' = Spent) \<and>
        (\<forall>i. live L' i \<longrightarrow> bound_to i u \<longrightarrow> bound_to i u' \<or> mu_onchain_state u' = Spent)))"

lemma claims_ok_step:
  assumes "claims_ok L" and "claims_step L L'"
  shows "claims_ok L'"
proof -
  have prev: "live L i" "claims L' i p \<Longrightarrow> claims L i p" "lg_intents L i \<noteq> None \<Longrightarrow> lg_intents L' i \<noteq> None"
    if "live L' i" for i p
  proof -
    have "live L i" and eq: "map_option oi_selection (lg_intents L' i) = map_option oi_selection (lg_intents L i)"
      using assms(2) that unfolding claims_step_def by blast+
    then show "live L i" and "claims L' i p \<Longrightarrow> claims L i p"
      and "lg_intents L i \<noteq> None \<Longrightarrow> lg_intents L' i \<noteq> None"
      by (cases "lg_intents L i"; cases "lg_intents L' i"; simp add: claims_def)+
  qed
  have "\<exists>u. lg_utxos L' p = Some u \<and> (bound_to i u \<or> mu_onchain_state u = Spent)"
    if i: "live L' i" "claims L' i p" for i p
  proof -
    obtain u where "lg_utxos L p = Some u" "bound_to i u \<or> mu_onchain_state u = Spent"
      using claims_okD(2) [OF assms(1) prev(1) [OF i(1)] prev(2) [OF i]] by blast
    with assms(2) i(1) show ?thesis unfolding claims_step_def by blast
  qed
  moreover have "i = j" if "live L' i" "live L' j" "claims L' i p" "claims L' j p" for i j p
    using claims_okD(3) [OF assms(1)] prev that by meson
  ultimately show ?thesis
    using claims_okD(1) [OF assms(1)] prev(1,3) unfolding claims_ok_def by blast
qed

lemma claims_step_refl [simp]: "claims_step L L"
  by (auto simp: claims_step_def)

lemma live_bump_tick [simp]: "live (bump_tick L) i = live L i"
  by (simp add: live_def)

lemma claims_step_same:
  assumes "lg_utxos L' = lg_utxos L" and "lg_operations L' = lg_operations L"
    and "\<And>i. live L i \<Longrightarrow> map_option oi_selection (lg_intents L' i) = map_option oi_selection (lg_intents L i)"
  shows "claims_step L L'"
  using assms by (auto simp: claims_step_def live_def)

lemma claims_ok_same: "same_holdings L L' \<Longrightarrow> claims_ok L \<Longrightarrow> claims_ok L'"
  by (erule claims_ok_step) (auto simp: same_holdings_def intro: claims_step_same)

lemma claims_ok_persist:
  assumes "claims_ok L" and "ledger_persist_intent sel L = (r, L')"
  shows "claims_ok L'"
proof (rule claims_ok_step [OF assms(1)], rule claims_step_same)
  show "map_option oi_selection (lg_intents L' i) = map_option oi_selection (lg_intents L i)"
    if "live L i" for i
    using claims_okD(1) [OF assms(1) that] assms(2)
    by (auto simp: ledger_persist_intent_def Let_def split: option.splits if_splits)
qed (use assms(2) in \<open>auto simp: ledger_persist_intent_def Let_def split: option.splits if_splits\<close>)

lemma claims_step_status: "claims_step L (set_intent_status i st L)"
  by (rule claims_step_same) (auto simp: option.map_comp comp_def)

lemma claims_step_bump [simp]: "claims_step L (bump_tick L') = claims_step L L'"
  by (simp add: claims_step_def)

lemma claims_step_released: "claims_step L (released_ledger i PhRollingBack L)"
proof -
  let ?L = "released_ledger i PhRollingBack L"
  have "\<not> live ?L i" using released_phase by (auto simp: live_def is_some_and_iff)
  then have "live L j \<and> j \<noteq> i" if "live ?L j" for j
    using that by (cases "j = i") (auto simp: live_def)
  moreover have "bound_to j u \<Longrightarrow> j \<noteq> i \<Longrightarrow> \<not> bound_to i u" for j u
    by (auto simp: bound_to_def is_some_and_iff)
  ultimately show ?thesis by (auto simp: claims_step_def)
qed

lemma claims_step_completed:
  assumes "live L i"
  shows "claims_step L (completed_ledger i ph L)"
proof -
  let ?L = "completed_ledger i ph L"
  have "live L j" if "live ?L j" for j
    using that assms by (cases "j = i") (auto simp: live_def)
  moreover have "bound_to j (advance_binding ph u) \<longleftrightarrow> bound_to j u" for j u
    by (auto simp: bound_to_def is_some_and_iff)
  moreover have "utxo_advances u (advance_binding ph u)" for u by simp
  ultimately show ?thesis by (auto simp: claims_step_def utxo_advances_def)
qed

lemma claims_ok_commands:
  assumes "claims_ok L"
  shows "ledger_mark_committed i L = (r1, L') \<Longrightarrow> claims_ok L'"
    and "ledger_release i PhRollingBack L = (r2, L') \<Longrightarrow> claims_ok L'"
    and "ledger_release_selected i L = (r3, L') \<Longrightarrow> claims_ok L'"
    and "ledger_advance_tick d L = (r4, L') \<Longrightarrow> claims_ok L'"
proof -
  have "claims_ok (bump_tick (set_intent_status i Committed L))"
    by (rule claims_ok_step [OF assms]) (simp add: claims_step_status)
  then show "claims_ok L'" if "ledger_mark_committed i L = (r1, L')"
    using that assms by (auto simp: ledger_mark_committed_def split: option.splits if_splits)
  note released = claims_ok_step [OF assms claims_step_released [of L i]]
  show "claims_ok L'" if "ledger_release i PhRollingBack L = (r2, L')"
    using that released by (auto simp: ledger_release_def)
  show "claims_ok L'" if "ledger_release_selected i L = (r3, L')"
    using that released assms by (auto simp: ledger_release_selected_def split: if_splits)
  show "claims_ok L'" if "ledger_advance_tick d L = (r4, L')"
    by (rule claims_ok_same [OF _ assms])
      (use that in \<open>auto simp: ledger_advance_tick_def same_holdings_def\<close>)
qed

lemma claims_ok_mark_failed:
  assumes "claims_ok L" and "ledger_mark_failed i L = (r, L')"
  shows "claims_ok L'"
proof -
  have status: "claims_ok (bump_tick (set_intent_status i Failed M))" if "claims_ok M" for M
    by (rule claims_ok_step [OF that]) (simp add: claims_step_status)
  show ?thesis
    using assms status [OF assms(1)]
      status [OF claims_ok_step [OF assms(1) claims_step_released [of L i]]]
    by (auto simp: ledger_mark_failed_def split: option.splits intent_status.splits if_splits)
qed

lemma claims_ok_complete:
  assumes "claims_ok L" and "ledger_complete i ph L = (r, L')"
  shows "claims_ok L'"
proof (cases "L' = L")
  case False
  then obtain x where x: "lg_operations L i = Some x" "valid_transition (po_phase x) ph"
      and L': "L' = completed_ledger i ph L"
    using assms(2) by (auto simp: ledger_complete_def split: option.splits if_splits sum.splits)
  then have "live L i" by (auto simp: live_def)
  then show ?thesis unfolding L' by (rule claims_ok_step [OF assms(1) claims_step_completed])
qed (use assms(1) in simp)

text \<open>A batch makes its operation live; nobody else claims an input it could take.\<close>

lemma claims_ok_batch:
  assumes claims: "claims_ok L" and holdings: "holdings_ok L"
    and "ledger_apply_batch b L = (r, L')"
    and "lg_intents L (os_operation_id (sb_selection b)) \<noteq> None"
  shows "claims_ok L'"
proof (cases r)
  case (Inl e)
  with assms(1,3) ledger_commands_atomic(4) show ?thesis by blast
next
  case (Inr unit)
  let ?sel = "sb_selection b"
  let ?i = "os_operation_id ?sel"
  have run: "ledger_apply_batch b L = (Inr (), L')" using assms(3) Inr by simp
  obtain n where n: "lg_intents L ?i = Some n" using assms(4) by auto
  have pre: "batch_precheck b (lg_intents L ?i) (lg_operations L ?i) = Inr ()"
    and valid: "ledger_validate L ?sel = Inr ()"
    and ops: "lg_operations L' = (lg_operations L)(?i \<mapsto> batch_operation b (sat_add (lg_tick L) 1))"
    and ints: "lg_intents L' = lg_intents L"
    by (rule apply_batch_Inr [OF run], assumption)+
  have n_sel: "oi_selection n = ?sel"
    using pre n by (auto simp: batch_precheck_def Let_def split: if_splits)
  have live_other: "live L' j = live L j" if "j \<noteq> ?i" for j
    using that by (simp add: live_def ops)
  have claims_same: "claims L' j p = claims L j p" for j p by (simp add: claims_def ints)
  have claims_i: "claims L ?i p \<longleftrightarrow> p \<in> set (os_selected_outpoints ?sel)" for p
    by (simp add: claims_def n n_sel)
  have taken: "\<exists>u u'. lg_utxos L p = Some u \<and> mu_onchain_state u \<noteq> Spent \<and>
      (bound_to ?i u \<or> mu_operation_binding u = None) \<and> lg_utxos L' p = Some u' \<and> bound_to ?i u'"
    if p: "p \<in> set (os_selected_outpoints ?sel)" for p
  proof -
    obtain e where e: "e \<in> set (os_effects ?sel)" "p = effect_outpoint e"
      using ledger_validate_structure [OF valid] p by auto
    obtain u where u: "lg_utxos L p = Some u"
      and outcome: "held_by ?sel (sb_phase b) u (lg_locks L p) \<and> lg_utxos L' p = Some u \<or>
        is_policy_spendable u \<and> lg_utxos L' p = Some (reserve_utxo ?i (sb_phase b) u)"
      using apply_batch_outcome(1) [OF run e(1)] e(2) by (auto simp: effect_outcome_def Let_def)
    have "utxo_ok u" using slot_ok_Some(1) [OF holdings u] .
    with u outcome show ?thesis
      by (auto simp: held_by_def bound_in_phase_def bound_to_def is_some_and_iff
          is_policy_spendable_def utxo_ok_def)
  qed
  have other: "\<not> claims L j p"
    if j: "live L j" "j \<noteq> ?i" "p \<in> set (os_selected_outpoints ?sel)" for j p
  proof
    assume "claims L j p"
    then obtain u where "lg_utxos L p = Some u" "bound_to j u \<or> mu_onchain_state u = Spent"
      using claims_okD(2) [OF claims j(1)] by blast
    with taken [OF j(3)] j(2) show False
      by (auto simp: bound_to_def is_some_and_iff)
  qed
  have "\<exists>u. lg_utxos L' p = Some u \<and> (bound_to j u \<or> mu_onchain_state u = Spent)"
    if "live L' j" "claims L' j p" for j p
  proof (cases "j = ?i")
    case True
    with that taken claims_i claims_same show ?thesis by blast
  next
    case False
    then have j: "live L j" "claims L j p" using that live_other claims_same by simp_all
    then have "p \<notin> set (os_selected_outpoints ?sel)" using other False by blast
    then have "lg_utxos L' p = lg_utxos L p" using apply_batch_outcome(2) [OF run] by blast
    with claims_okD(2) [OF claims j] show ?thesis by simp
  qed
  moreover have "j = k" if "live L' j" "live L' k" "claims L' j p" "claims L' k p" for j k p
    using that claims_okD(3) [OF claims] other claims_i claims_same live_other by metis
  moreover have "lg_intents L' j \<noteq> None" if "live L' j" for j
    using that claims_okD(1) [OF claims] live_other n ints by (cases "j = ?i") auto
  ultimately show ?thesis unfolding claims_ok_def by blast
qed

lemma claims_ok_put:
  assumes "claims_ok L" and "ledger_put_utxo u L = (r, L')" and "lg_utxos L (mu_outpoint u) = None"
  shows "claims_ok L'"
  by (rule claims_ok_step [OF assms(1)])
    (use assms(2,3) in \<open>auto simp: ledger_put_utxo_def claims_step_def live_def\<close>)

section \<open>Pending operations\<close>

lemma pending_ok_same: "same_holdings L L' \<Longrightarrow> pending_ok L \<Longrightarrow> pending_ok L'"
  by (simp add: pending_ok_def same_holdings_def)

lemma pending_ok_cong:
  "lg_intents L' = lg_intents L \<Longrightarrow> lg_operations L' = lg_operations L \<Longrightarrow> pending_ok L' = pending_ok L"
  by (simp add: pending_ok_def)

lemma pending_ok_bump [simp]: "pending_ok (bump_tick L) = pending_ok L"
  by (rule pending_ok_cong) simp_all

lemma pending_ok_status: "pending_ok L \<Longrightarrow> st \<noteq> Pending \<Longrightarrow> pending_ok (set_intent_status i st L)"
  by (auto simp: pending_ok_def)

lemma pending_ok_released: "pending_ok L \<Longrightarrow> pending_ok (released_ledger i PhRollingBack L)"
  unfolding pending_ok_def released_simps(1)
  using released_phase released_simps(4) by metis

lemma pending_ok_persist:
  assumes "pending_ok L" and "claims_ok L" and "ledger_persist_intent sel L = (r, L')"
  shows "pending_ok L'"
proof -
  have "po_phase x = PhRollingBack" if "lg_intents L i = None" "lg_operations L i = Some x" for i x
    using claims_okD(1) [OF assms(2), of i] that by (auto simp: live_def)
  then have new: "pending_ok ((bump_tick L)\<lparr>lg_intents := (lg_intents L)(os_operation_id sel \<mapsto> n)\<rparr>)"
    if "lg_intents L (os_operation_id sel) = None" for n
    using assms(1) that unfolding pending_ok_def by auto
  then show ?thesis
    using assms(1,3)
    by (auto simp: ledger_persist_intent_def Let_def split: option.splits if_splits)
qed

lemma pending_ok_commands:
  assumes "pending_ok L"
  shows "ledger_mark_committed i L = (r1, L') \<Longrightarrow> pending_ok L'"
    and "ledger_mark_failed i L = (r2, L') \<Longrightarrow> pending_ok L'"
    and "ledger_release i PhRollingBack L = (r3, L') \<Longrightarrow> pending_ok L'"
    and "ledger_release_selected i L = (r4, L') \<Longrightarrow> pending_ok L'"
    and "ledger_advance_tick d L = (r5, L') \<Longrightarrow> pending_ok L'"
    and "ledger_apply_reconciliation plan L = (r6, L') \<Longrightarrow> pending_ok L'"
    and "ledger_put_utxo u L = (r7, L') \<Longrightarrow> pending_ok L'"
proof -
  note released = pending_ok_released [OF assms, of i]
  show "pending_ok L'" if "ledger_mark_committed i L = (r1, L')"
    using that assms pending_ok_status [of L Committed i]
    by (auto simp: ledger_mark_committed_def split: option.splits if_splits)
  show "pending_ok L'" if "ledger_mark_failed i L = (r2, L')"
    using that assms pending_ok_status [OF assms, of Failed i] pending_ok_status [OF released, of Failed i]
    by (auto simp: ledger_mark_failed_def split: option.splits intent_status.splits if_splits)
  show "pending_ok L'" if "ledger_release i PhRollingBack L = (r3, L')"
    using that released by (auto simp: ledger_release_def)
  show "pending_ok L'" if "ledger_release_selected i L = (r4, L')"
    using that released assms by (auto simp: ledger_release_selected_def split: if_splits)
  show "pending_ok L'" if "ledger_advance_tick d L = (r5, L')"
    using that assms pending_ok_cong [of L' L] by (auto simp: ledger_advance_tick_def)
  show "pending_ok L'" if "ledger_apply_reconciliation plan L = (r6, L')"
    using that assms pending_ok_cong [of L' L] by (auto simp: ledger_apply_reconciliation_def Let_def)
  show "pending_ok L'" if "ledger_put_utxo u L = (r7, L')"
    using that assms pending_ok_cong [of L' L] by (auto simp: ledger_put_utxo_def)
qed

lemma pending_ok_complete:
  assumes "pending_ok L" and "ledger_complete i ph L = (r, L')"
  shows "pending_ok L'"
proof (cases "L' = L")
  case False
  then obtain n where n: "lg_intents L i = Some n" "oi_status n = Committed"
      and L': "L' = completed_ledger i ph L"
    using assms(2) by (auto simp: ledger_complete_def split: option.splits if_splits sum.splits)
  show ?thesis
    unfolding L' pending_ok_def completed_simps(1)
  proof (intro allI impI)
    fix j m x
    assume "lg_intents L j = Some m" "oi_status m = Pending"
      and "lg_operations (completed_ledger i ph L) j = Some x"
    moreover from this n have "j \<noteq> i" by auto
    ultimately show "po_phase x = PhSelected \<or> po_phase x = PhRollingBack"
      using assms(1) by (simp add: pending_ok_def)
  qed
qed (use assms(1) in simp)

lemma pending_ok_batch:
  assumes "pending_ok L" and "ledger_apply_batch b L = (r, L')" and "sb_phase b = PhSelected"
  shows "pending_ok L'"
proof (cases r)
  case (Inl e)
  with assms(1,2) ledger_commands_atomic(4) show ?thesis by blast
next
  case (Inr unit)
  then have run: "ledger_apply_batch b L = (Inr (), L')" using assms(2) by simp
  have "lg_operations L' = (lg_operations L)(os_operation_id (sb_selection b) \<mapsto>
      batch_operation b (sat_add (lg_tick L) 1))" and "lg_intents L' = lg_intents L"
    by (rule apply_batch_Inr [OF run], assumption)+
  with assms(1,3) show ?thesis by (auto simp: pending_ok_def batch_operation_def)
qed

end
