(* ===== verification/Memory_Store.thy ===== *)
theory Memory_Store
  imports Store_Interface
begin

text \<open>
  The in-memory backend (\<open>txoscope-store-memory/src/memory.rs\<close>): hash tables keyed by the text of
  an outpoint or by an identifier, every operation of \<open>StateRead\<close> and \<open>StateStore\<close>, and the
  proof that it implements the ledger. The hash orders are parameters.
\<close>

section \<open>State and operations\<close>

record memory_store =
  ms_accounts :: "(account_id \<times> account) list"
  ms_scopes :: "(wallet_scope_id \<times> wallet_scope) list"
  ms_utxos :: "(string \<times> managed_utxo) list"
  ms_locks :: "(string \<times> operation_lock) list"
  ms_operations :: "(operation_id \<times> persisted_operation) list"
  ms_intents :: "(operation_id \<times> operation_intent) list"
  ms_tick :: u64

definition memory_default :: memory_store where
  "memory_default =
     \<lparr>ms_accounts = [], ms_scopes = [], ms_utxos = [], ms_locks = [], ms_operations = [],
      ms_intents = [], ms_tick = 0\<rparr>"

definition next_tick :: "memory_store \<Rightarrow> memory_store" where
  "next_tick s = s\<lparr>ms_tick := sat_add (ms_tick s) 1\<rparr>"

definition validate_lock_effect ::
  "(string \<times> managed_utxo) list \<Rightarrow> (string \<times> operation_lock) list \<Rightarrow> operation_selection \<Rightarrow>
   operation_phase \<Rightarrow> outpoint \<Rightarrow> unit result" where
  "validate_lock_effect utxos locks sel ph p =
     (case map_of utxos (outpoint_string p) of
        None \<Rightarrow> Inl (UtxoNotFound p)
      | Some u \<Rightarrow>
          let lock = map_of locks (outpoint_string p); lock_present = (lock \<noteq> None) in
          if can_be_locked u lock_present then Inr ()
          else if is_some_and (mu_operation_binding u)
                    (\<lambda>b. bd_operation_id b = os_operation_id sel \<and> bd_phase b = ph) \<and>
                  is_some_and lock (\<lambda>l. lk_operation_id l = os_operation_id sel)
          then Inr ()
          else if mu_availability u \<noteq> Selectable then Inl (UtxoUnavailable p (mu_availability u))
          else if mu_observation_conflict u \<noteq> None
          then Inl (ObservationConflictError p (mu_onchain_state u))
          else Inl (UtxoPolicyBlocked p
                 (''utxo is not safely spendable: onchain_state='' @
                  onchain_debug (mu_onchain_state u) @
                  '', lock_present='' @ bool_debug lock_present)))"

subsection \<open>Reads\<close>

definition mem_get_account :: "memory_store \<Rightarrow> account_id \<Rightarrow> account option result" where
  "mem_get_account s i = Inr (map_of (ms_accounts s) i)"

definition mem_get_scope :: "memory_store \<Rightarrow> wallet_scope_id \<Rightarrow> wallet_scope option result" where
  "mem_get_scope s i = Inr (map_of (ms_scopes s) i)"

definition mem_get_utxo :: "memory_store \<Rightarrow> outpoint \<Rightarrow> managed_utxo option result" where
  "mem_get_utxo s p = Inr (map_of (ms_utxos s) (outpoint_string p))"

definition mem_get_lock :: "memory_store \<Rightarrow> outpoint \<Rightarrow> operation_lock option result" where
  "mem_get_lock s p = Inr (map_of (ms_locks s) (outpoint_string p))"

definition mem_get_operation ::
  "memory_store \<Rightarrow> operation_id \<Rightarrow> persisted_operation option result" where
  "mem_get_operation s i = Inr (map_of (ms_operations s) i)"

definition mem_get_intent :: "memory_store \<Rightarrow> operation_id \<Rightarrow> operation_intent option result" where
  "mem_get_intent s i = Inr (map_of (ms_intents s) i)"

definition mem_list_utxos :: "string hash_order \<Rightarrow> memory_store \<Rightarrow> managed_utxo list result" where
  "mem_list_utxos h s = Inr (table_values h (ms_utxos s))"

definition mem_list_operations ::
  "operation_id hash_order \<Rightarrow> memory_store \<Rightarrow> persisted_operation list result" where
  "mem_list_operations h s = Inr (table_values h (ms_operations s))"

definition mem_list_pending_intents ::
  "operation_id hash_order \<Rightarrow> memory_store \<Rightarrow> operation_intent list result" where
  "mem_list_pending_intents h s =
     Inr (filter (\<lambda>n. oi_status n = Pending) (table_values h (ms_intents s)))"

definition mem_current_tick :: "memory_store \<Rightarrow> u64 result" where
  "mem_current_tick s = Inr (ms_tick s)"

subsection \<open>Writes\<close>

definition mem_put_account :: "account \<Rightarrow> (memory_store, unit) command" where
  "mem_put_account a s =
     (Inr (), next_tick (s\<lparr>ms_accounts := AList.update (ac_id a) a (ms_accounts s)\<rparr>))"

definition mem_put_scope :: "wallet_scope \<Rightarrow> (memory_store, unit) command" where
  "mem_put_scope sc s =
     (case map_of (ms_accounts s) (ws_account_id sc) of
        None \<Rightarrow> (Inl (AccountNotFound (ws_account_id sc)), s)
      | Some a \<Rightarrow>
          (Inr (), next_tick (s\<lparr>
             ms_accounts := AList.update (ws_account_id sc)
               (a\<lparr>ac_scopes := ac_scopes a @ [ws_id sc]\<rparr>) (ms_accounts s),
             ms_scopes := AList.update (ws_id sc) sc (ms_scopes s)\<rparr>)))"

definition mem_put_utxo :: "managed_utxo \<Rightarrow> (memory_store, unit) command" where
  "mem_put_utxo u s =
     (Inr (), next_tick (s\<lparr>ms_utxos :=
        AList.update (outpoint_string (mu_outpoint u)) u (ms_utxos s)\<rparr>))"

definition mem_advance_tick :: "u64 \<Rightarrow> (memory_store, unit) command" where
  "mem_advance_tick d s = (Inr (), s\<lparr>ms_tick := sat_add (ms_tick s) (max d 1)\<rparr>)"

definition mem_persist_intent ::
  "operation_selection \<Rightarrow> (memory_store, operation_intent) command" where
  "mem_persist_intent sel s =
     (case map_of (ms_intents s) (os_operation_id sel) of
        Some existing \<Rightarrow>
          if oi_selection existing \<noteq> sel then (Inl (IntentConflict (os_operation_id sel)), s)
          else (Inr existing, s)
      | None \<Rightarrow>
          let s1 = next_tick s;
              intent = \<lparr>oi_selection = sel, oi_status = Pending, oi_recorded_at = ms_tick s1\<rparr>
          in (Inr intent,
              s1\<lparr>ms_intents := AList.update (os_operation_id sel) intent (ms_intents s1)\<rparr>))"

definition mem_mark_intent_committed :: "operation_id \<Rightarrow> (memory_store, unit) command" where
  "mem_mark_intent_committed i s =
     (case map_of (ms_intents s) i of
        None \<Rightarrow> (Inl (IntentNotFound i), s)
      | Some n \<Rightarrow>
          if oi_status n = Failed then (Inl (IntentNotPending i), s)
          else (Inr (), next_tick (s\<lparr>ms_intents :=
                  AList.update i (n\<lparr>oi_status := Committed\<rparr>) (ms_intents s)\<rparr>)))"

text \<open>The outputs of a table an operation owns, in iteration order.\<close>

definition owned_values ::
  "string hash_order \<Rightarrow> operation_id \<Rightarrow> (string \<times> managed_utxo) list \<Rightarrow> managed_utxo list" where
  "owned_values h i utxos =
     filter (\<lambda>u. is_some_and (mu_operation_binding u) (\<lambda>b. bd_operation_id b = i))
       (table_values h utxos)"

definition update_owned ::
  "operation_id \<Rightarrow> (managed_utxo \<Rightarrow> managed_utxo) \<Rightarrow> (string \<times> managed_utxo) list \<Rightarrow>
   (string \<times> managed_utxo) list" where
  "update_owned i f utxos =
     AList.map_ran (\<lambda>_ u.
       if is_some_and (mu_operation_binding u) (\<lambda>b. bd_operation_id b = i) then f u else u) utxos"

definition mem_release_operation ::
  "string hash_order \<Rightarrow> operation_id \<Rightarrow> operation_phase \<Rightarrow> (memory_store, outpoint list) command"
  where
  "mem_release_operation h i released_phase s =
     (let next_utxos = update_owned i release_binding (ms_utxos s);
          released = map mu_outpoint (owned_values h i (ms_utxos s));
          next_locks = filter (\<lambda>(k, l). lk_operation_id l \<noteq> i) (ms_locks s);
          s1 = next_tick s
      in (Inr released, s1\<lparr>ms_utxos := next_utxos, ms_locks := next_locks,
            ms_operations := AList.update i
              \<lparr>po_operation_id = i, po_phase = released_phase, po_updated_at = ms_tick s1,
               po_expires_at = None\<rparr> (ms_operations s1)\<rparr>))"

definition mem_release_selected_operation ::
  "string hash_order \<Rightarrow> operation_id \<Rightarrow> (memory_store, outpoint list option) command" where
  "mem_release_selected_operation h i s =
     (if \<not> is_some_and (map_of (ms_operations s) i) (\<lambda>x. po_phase x = PhSelected)
      then (Inr None, s)
      else cmd_bind (mem_release_operation h i PhRollingBack) (\<lambda>r. cmd_return (Some r)) s)"

definition mem_mark_intent_failed ::
  "string hash_order \<Rightarrow> operation_id \<Rightarrow> (memory_store, unit) command" where
  "mem_mark_intent_failed h i s =
     (case map_of (ms_intents s) i of
        None \<Rightarrow> (Inl (IntentNotFound i), s)
      | Some n \<Rightarrow>
          (case oi_status n of
             Committed \<Rightarrow> (Inl (IntentNotPending i), s)
           | Failed \<Rightarrow> (Inr (), s)
           | Pending \<Rightarrow>
               cmd_bind
                 (case map_of (ms_operations s) i of
                    None \<Rightarrow> cmd_return ()
                  | Some x \<Rightarrow>
                      (case po_phase x of
                         PhSelected \<Rightarrow>
                           cmd_bind (mem_release_operation h i PhRollingBack) (\<lambda>_. cmd_return ())
                       | PhRollingBack \<Rightarrow> cmd_return ()
                       | ph \<Rightarrow> cmd_fail (InvalidOperationTransition i ph PhRollingBack)))
                 (\<lambda>_ s1. (Inr (), next_tick (s1\<lparr>ms_intents :=
                    AList.map_entry i (\<lambda>m. m\<lparr>oi_status := Failed\<rparr>) (ms_intents s1)\<rparr>)))
                 s))"

definition mem_apply_effect ::
  "state_batch \<Rightarrow> u64 \<Rightarrow> selection_effect \<Rightarrow>
   (string \<times> managed_utxo) list \<times> (string \<times> operation_lock) list \<Rightarrow>
   ((string \<times> managed_utxo) list \<times> (string \<times> operation_lock) list) result" where
  "mem_apply_effect b tick e next =
     (let next_utxos = fst next; next_locks = snd next; sel = sb_selection b;
          p = effect_outpoint e; key = outpoint_string p in
      res_bind (validate_lock_effect next_utxos next_locks sel (sb_phase b) p) (\<lambda>_.
      res_bind (ok_or (UtxoNotFound p) (map_of next_utxos key)) (\<lambda>utxo.
      let already_applied =
            (is_some_and (mu_operation_binding utxo)
               (\<lambda>bd. bd_operation_id bd = os_operation_id sel \<and> bd_phase bd = sb_phase b) \<and>
             is_some_and (map_of next_locks key) (\<lambda>l. lk_operation_id l = os_operation_id sel))
      in if already_applied
         then (if is_some_and (map_of next_locks key)
                    (\<lambda>lock. lk_purpose lock \<noteq> effect_purpose e \<or>
                       lk_expires_at lock \<noteq> os_expires_at sel \<or>
                       lk_account_id lock \<noteq> mu_account_id utxo \<or>
                       lk_scope_id lock \<noteq> mu_scope_id utxo)
               then Inl (IntentConflict (os_operation_id sel))
               else Inr next)
         else Inr (AList.update key (reserve_utxo (os_operation_id sel) (sb_phase b) utxo) next_utxos,
                   AList.update key
                     \<lparr>lk_operation_id = os_operation_id sel, lk_account_id = mu_account_id utxo,
                      lk_scope_id = mu_scope_id utxo, lk_purpose = effect_purpose e,
                      lk_owner = sb_owner b, lk_created_at = sat_add tick 1,
                      lk_expires_at = os_expires_at sel\<rparr> next_locks))))"

definition mem_apply_batch :: "state_batch \<Rightarrow> (memory_store, unit) command" where
  "mem_apply_batch b s =
     (let sel = sb_selection b; i = os_operation_id sel;
          intent = map_of (ms_intents s) i; operation = map_of (ms_operations s) i in
      if is_some_and intent (\<lambda>n. oi_status n = Failed) then (Inl (IntentNotPending i), s)
      else if is_some_and intent (\<lambda>n. oi_selection n \<noteq> sel) then (Inl (IntentConflict i), s)
      else if is_some_and operation (\<lambda>x. po_phase x \<noteq> sb_phase b \<or> po_phase x = PhRollingBack)
      then (Inl (InvalidOperationTransition i (po_phase (the operation)) (sb_phase b)), s)
      else
        (case res_bind
                (validate_capabilities (mem_get_account s) (mem_get_scope s) (mem_get_utxo s) sel)
                (\<lambda>_. res_fold (mem_apply_effect b (ms_tick s)) (os_effects sel)
                       (ms_utxos s, ms_locks s)) of
           Inl e \<Rightarrow> (Inl e, s)
         | Inr (next_utxos, next_locks) \<Rightarrow>
             let s1 = next_tick s in
             (Inr (), s1\<lparr>ms_utxos := next_utxos, ms_locks := next_locks,
                ms_operations := AList.update i
                  \<lparr>po_operation_id = i, po_phase = sb_phase b, po_updated_at = ms_tick s1,
                   po_expires_at = os_expires_at sel\<rparr> (ms_operations s)\<rparr>)))"

fun mem_apply_action :: "reconciliation_action \<Rightarrow> memory_store \<Rightarrow> memory_store" where
  "mem_apply_action (DiscoverNew ob) s =
     (if map_of (ms_utxos s) (outpoint_string (ob_outpoint ob)) \<noteq> None then s
      else let utxo = discover_from_observed (ob_outpoint ob) (ob_account_id ob) (ob_scope_id ob)
                        (ob_value_sats ob) (ob_confirmation ob)
           in s\<lparr>ms_utxos := AList.update (outpoint_string (mu_outpoint utxo)) utxo (ms_utxos s)\<rparr>)"
| "mem_apply_action (RefreshObserved ob) s = s"
| "mem_apply_action (UpdateOnchainState p new_state) s =
     s\<lparr>ms_utxos := AList.map_entry (outpoint_string p)
         (\<lambda>u. if mu_onchain_state u \<in> {Spent, SpendingInFlight} then u
              else u\<lparr>mu_onchain_state := new_state\<rparr>) (ms_utxos s)\<rparr>"
| "mem_apply_action (MarkSpent p tx) s =
     s\<lparr>ms_utxos := AList.map_entry (outpoint_string p) mark_spent (ms_utxos s),
       ms_locks := AList.delete (outpoint_string p) (ms_locks s)\<rparr>"
| "mem_apply_action (ReportConflict p m t) s =
     s\<lparr>ms_utxos := AList.map_entry (outpoint_string p)
         (\<lambda>u. u\<lparr>mu_observation_conflict := Some \<lparr>oc_message = m, oc_recorded_at = t\<rparr>\<rparr>) (ms_utxos s)\<rparr>"
| "mem_apply_action (ClearConflict p) s =
     s\<lparr>ms_utxos := AList.map_entry (outpoint_string p)
         (\<lambda>u. u\<lparr>mu_observation_conflict := None\<rparr>) (ms_utxos s)\<rparr>"
| "mem_apply_action (UpdateAvailability p av) s =
     s\<lparr>ms_utxos := AList.map_entry (outpoint_string p)
         (\<lambda>u. u\<lparr>mu_availability := av\<rparr>) (ms_utxos s)\<rparr>"
| "mem_apply_action (MarkMissing p) s =
     s\<lparr>ms_utxos := AList.map_entry (outpoint_string p) mark_missing (ms_utxos s)\<rparr>"

definition mem_apply_reconciliation :: "reconcile_plan \<Rightarrow> (memory_store, unit) command" where
  "mem_apply_reconciliation plan s =
     (Inr (), next_tick (fold mem_apply_action (rp_actions plan) s))"

definition mem_complete_operation ::
  "string hash_order \<Rightarrow> operation_id \<Rightarrow> operation_phase \<Rightarrow> (memory_store, outpoint list) command"
  where
  "mem_complete_operation h i completed_phase s =
     (case map_of (ms_operations s) i of
        None \<Rightarrow> (Inl (OperationNotFound i), s)
      | Some operation \<Rightarrow>
          (case map_of (ms_intents s) i of
             None \<Rightarrow> (Inl (IntentNotFound i), s)
           | Some intent \<Rightarrow>
               if oi_status intent \<noteq> Committed then (Inl (IntentNotCommitted i), s)
               else (case validate_advance operation completed_phase of
                       Inl e \<Rightarrow> (Inl e, s)
                     | Inr False \<Rightarrow> (Inr [], s)
                     | Inr True \<Rightarrow>
                         let next_utxos = update_owned i (advance_binding completed_phase) (ms_utxos s);
                             completed = map mu_outpoint (owned_values h i (ms_utxos s));
                             next_locks = AList.map_ran (\<lambda>_ l.
                               if lk_operation_id l = i then l\<lparr>lk_expires_at := None\<rparr> else l)
                               (ms_locks s);
                             s1 = next_tick s
                         in (Inr completed, s1\<lparr>ms_utxos := next_utxos, ms_locks := next_locks,
                               ms_operations := AList.update i
                                 \<lparr>po_operation_id = i, po_phase = completed_phase,
                                  po_updated_at = ms_tick s1, po_expires_at = None\<rparr>
                                 (ms_operations s1)\<rparr>))))"

text \<open>The trait implementation, for hash orders of the output, operation and intent tables.\<close>

definition memory_ops ::
  "string hash_order \<Rightarrow> operation_id hash_order \<Rightarrow> operation_id hash_order \<Rightarrow> memory_store state_store"
  where
  "memory_ops hu ho hi =
     \<lparr>get_account = mem_get_account, get_scope = mem_get_scope, get_utxo = mem_get_utxo,
      get_lock = mem_get_lock, get_operation = mem_get_operation, get_intent = mem_get_intent,
      list_utxos = mem_list_utxos hu, list_operations = mem_list_operations ho,
      list_pending_intents = mem_list_pending_intents hi, current_tick = mem_current_tick,
      put_account = mem_put_account, put_scope = mem_put_scope, put_utxo = mem_put_utxo,
      advance_tick = mem_advance_tick, persist_intent = mem_persist_intent,
      mark_intent_committed = mem_mark_intent_committed,
      mark_intent_failed = mem_mark_intent_failed hu, apply_batch = mem_apply_batch,
      apply_reconciliation = mem_apply_reconciliation,
      release_selected_operation = mem_release_selected_operation hu,
      release_operation = mem_release_operation hu,
      complete_operation = mem_complete_operation hu\<rparr>"

section \<open>The ledger of a memory store\<close>

definition mem_inv :: "memory_store \<Rightarrow> bool" where
  "mem_inv s \<longleftrightarrow>
     keyed_by ac_id (ms_accounts s) \<and> keyed_by ws_id (ms_scopes s) \<and>
     keyed_by (\<lambda>u. outpoint_string (mu_outpoint u)) (ms_utxos s) \<and>
     distinct (map fst (ms_locks s)) \<and> covered_by (ms_locks s) (ms_utxos s) \<and>
     keyed_by po_operation_id (ms_operations s) \<and>
     keyed_by (\<lambda>n. os_operation_id (oi_selection n)) (ms_intents s)"

text \<open>Tables keyed by the text of an outpoint, read as maps from outpoints.\<close>

definition by_outpoint :: "(string \<times> 'v) list \<Rightarrow> outpoint \<rightharpoonup> 'v" where
  "by_outpoint t = (\<lambda>p. map_of t (outpoint_string p))"

definition mem_ledger :: "memory_store \<Rightarrow> ledger" where
  "mem_ledger s =
     \<lparr>lg_accounts = map_of (ms_accounts s), lg_scopes = map_of (ms_scopes s),
      lg_utxos = by_outpoint (ms_utxos s), lg_locks = by_outpoint (ms_locks s),
      lg_operations = map_of (ms_operations s), lg_intents = map_of (ms_intents s),
      lg_tick = ms_tick s\<rparr>"

lemma by_outpoint_update [simp]:
  "by_outpoint (AList.update (outpoint_string p) v t) = (by_outpoint t)(p \<mapsto> v)"
  by (auto simp: by_outpoint_def AList.update_conv' fun_eq_iff)

lemma by_outpoint_map_entry [simp]:
  "by_outpoint (AList.map_entry (outpoint_string p) f t) =
     (by_outpoint t)(p := map_option f (by_outpoint t p))"
  by (auto simp: by_outpoint_def map_of_map_entry fun_eq_iff)

lemma by_outpoint_delete [simp]:
  "by_outpoint (AList.delete (outpoint_string p) t) = (by_outpoint t)(p := None)"
  by (auto simp: by_outpoint_def AList.delete_conv' fun_eq_iff)

lemma by_outpoint_map_ran [simp]:
  "by_outpoint (AList.map_ran (\<lambda>_. f) t) = (\<lambda>p. map_option f (by_outpoint t p))"
  by (simp add: by_outpoint_def AList.map_ran_conv)

lemma by_outpoint_filter:
  "distinct (map fst t) \<Longrightarrow>
    by_outpoint (filter (\<lambda>(k, v). P v) t) =
      (\<lambda>p. case by_outpoint t p of None \<Rightarrow> None | Some v \<Rightarrow> if P v then Some v else None)"
  by (simp add: by_outpoint_def map_of_filter_values)

abbreviation utxo_key :: "managed_utxo \<Rightarrow> string" where
  "utxo_key u \<equiv> outpoint_string (mu_outpoint u)"

lemma ran_by_outpoint:
  assumes "keyed_by utxo_key t"
  shows "ran (by_outpoint t) = ran (map_of t)"
proof -
  have "\<exists>p. map_of t (outpoint_string p) = Some u" if "map_of t k = Some u" for k u
    using that keyed_by_key [OF assms that] by auto
  then show ?thesis by (fastforce simp: ran_def by_outpoint_def)
qed

lemma by_outpoint_key:
  "keyed_by utxo_key t \<Longrightarrow> by_outpoint t p = Some u \<Longrightarrow> mu_outpoint u = p"
  using keyed_by_key by (fastforce simp: by_outpoint_def)

lemma covered_by_outpoint: "covered_by t u \<Longrightarrow> dom (by_outpoint t) \<subseteq> dom (by_outpoint u)"
  using covered_by_lookup unfolding by_outpoint_def dom_def by fastforce

lemma mem_ledger_wf: "mem_inv s \<Longrightarrow> ledger_wf (mem_ledger s)"
  unfolding ledger_wf_def mem_ledger_def mem_inv_def ledger.simps
  by (intro conjI allI impI; elim conjE)
    (erule (1) by_outpoint_key keyed_by_key | erule covered_by_outpoint)+

text \<open>The values an owner's scan returns are the outputs the ledger binds to it.\<close>

lemma owned_values_outpoints:
  assumes "mem_inv s"
  shows "set (map mu_outpoint (owned_values h i (ms_utxos s))) = bound_outpoints (mem_ledger s) i"
    and "distinct (map mu_outpoint (owned_values h i (ms_utxos s)))"
proof -
  from assms have k: "keyed_by utxo_key (ms_utxos s)" by (simp add: mem_inv_def)
  have "set (owned_values h i (ms_utxos s)) = {u \<in> ran (by_outpoint (ms_utxos s)). bound_to i u}"
    by (auto simp: owned_values_def table_values_set [OF k] ran_by_outpoint [OF k] bound_to_def)
  then show "set (map mu_outpoint (owned_values h i (ms_utxos s))) = bound_outpoints (mem_ledger s) i"
    using by_outpoint_key [OF k] by (force simp: bound_outpoints_def mem_ledger_def ran_def image_iff)
  have "distinct (map utxo_key (table_values h (ms_utxos s)))"
    using k by (rule table_values_distinct)
  then have "distinct (map mu_outpoint (table_values h (ms_utxos s)))"
    by (auto simp: distinct_map inj_on_def)
  then show "distinct (map mu_outpoint (owned_values h i (ms_utxos s)))"
    by (simp add: owned_values_def distinct_map_filter)
qed

lemma by_outpoint_update_owned:
  "by_outpoint (update_owned i f t) = on_owned i f (by_outpoint t)"
  by (simp add: update_owned_def on_owned_def bound_to_def)

lemma keyed_update_owned:
  "keyed_by utxo_key t \<Longrightarrow> (\<And>u. mu_outpoint (f u) = mu_outpoint u) \<Longrightarrow>
    keyed_by utxo_key (update_owned i f t)"
  unfolding update_owned_def by (rule keyed_by_map_ran) auto

lemma keys_update_owned [simp]: "map fst (update_owned i f t) = map fst t"
  by (simp add: update_owned_def)

lemma covered_update_owned [simp]: "covered_by t (update_owned i f u) = covered_by t u"
  unfolding covered_by_def keys_update_owned ..

lemma covered_map_entry [simp]: "covered_by t (AList.map_entry k f u) = covered_by t u"
  unfolding covered_by_def keys_map_entry ..

lemma covered_map_ran [simp]: "covered_by (AList.map_ran f t) u = covered_by t u"
  by (simp add: covered_by_def AList.dom_map_ran)

section \<open>Every operation implements the ledger\<close>

lemma implementsI:
  assumes "\<And>s r s'. mem_inv s \<Longrightarrow> m s = (r, s') \<Longrightarrow>
    mem_inv s' \<and> (res_map view r, mem_ledger s') = spec (mem_ledger s)"
  shows "implements mem_inv mem_ledger view m spec"
  using assms unfolding implements_def by blast

lemma mem_inv_next_tick [simp]: "mem_inv (next_tick s) = mem_inv s"
  by (simp add: mem_inv_def next_tick_def)

lemma mem_ledger_next_tick [simp]: "mem_ledger (next_tick s) = bump_tick (mem_ledger s)"
  by (simp add: mem_ledger_def next_tick_def bump_tick_def)

lemmas mem_defs = mem_inv_def mem_ledger_def next_tick_def bump_tick_def Let_def

lemma mem_put_account_holdings:
  "mem_inv s \<Longrightarrow> mem_put_account a s = (r, s') \<Longrightarrow>
    mem_inv s' \<and> same_holdings (mem_ledger s) (mem_ledger s')"
  by (auto simp: mem_put_account_def mem_defs same_holdings_def keyed_by_update)

lemma mem_put_scope_holdings:
  "mem_inv s \<Longrightarrow> mem_put_scope sc s = (r, s') \<Longrightarrow>
    mem_inv s' \<and> same_holdings (mem_ledger s) (mem_ledger s')"
  by (auto simp: mem_put_scope_def mem_defs same_holdings_def keyed_by_update keyed_by_replace
      split: option.splits)

lemma mem_put_utxo_implements:
  "implements mem_inv mem_ledger id (mem_put_utxo u) (ledger_put_utxo u)"
  by (rule implementsI)
    (auto simp: mem_put_utxo_def ledger_put_utxo_def mem_defs keyed_by_update covered_by_grow)

lemma mem_advance_tick_implements:
  "implements mem_inv mem_ledger id (mem_advance_tick d) (ledger_advance_tick d)"
  by (rule implementsI) (auto simp: mem_advance_tick_def ledger_advance_tick_def mem_defs)

lemma mem_persist_intent_implements:
  "implements mem_inv mem_ledger id (mem_persist_intent sel) (ledger_persist_intent sel)"
  by (rule implementsI)
    (auto simp: mem_persist_intent_def ledger_persist_intent_def mem_defs keyed_by_update
      AList.update_conv' split: option.splits if_splits)

lemma mem_mark_committed_implements:
  "implements mem_inv mem_ledger id (mem_mark_intent_committed i) (ledger_mark_committed i)"
  by (rule implementsI)
    (auto simp: mem_mark_intent_committed_def ledger_mark_committed_def set_intent_status_def
      mem_defs keyed_by_replace AList.update_conv' split: option.splits if_splits)

text \<open>Releasing and completing scan the outputs the operation owns.\<close>

lemma mem_release_run:
  assumes "mem_inv s" and "mem_release_operation h i ph s = (r, s')"
  shows "mem_inv s'" and "mem_ledger s' = released_ledger i ph (mem_ledger s)"
    and "r = Inr (map mu_outpoint (owned_values h i (ms_utxos s)))"
  using assms
  by (auto simp: mem_release_operation_def mem_defs released_ledger_def keyed_by_update
      keyed_update_owned distinct_keys_filter AList.update_conv' by_outpoint_update_owned
      by_outpoint_filter fun_eq_iff split: option.split intro!: covered_by_filter)

lemma mem_release_implements:
  "implements mem_inv mem_ledger set (mem_release_operation h i ph) (ledger_release i ph)"
proof (rule implementsI)
  fix s r s'
  assume "mem_inv s" and "mem_release_operation h i ph s = (r, s')"
  note run = mem_release_run [OF this] owned_values_outpoints(1) [OF \<open>mem_inv s\<close>, of h i]
  then show "mem_inv s' \<and> (res_map set r, mem_ledger s') = ledger_release i ph (mem_ledger s)"
    by (simp add: ledger_release_def)
qed

lemma mem_release_selected_implements:
  "implements mem_inv mem_ledger (map_option set) (mem_release_selected_operation h i)
     (ledger_release_selected i)"
proof (rule implementsI)
  fix s r s'
  assume inv: "mem_inv s" and run: "mem_release_selected_operation h i s = (r, s')"
  have op: "lg_operations (mem_ledger s) i = map_of (ms_operations s) i"
    by (simp add: mem_ledger_def)
  obtain q t where rel: "mem_release_operation h i PhRollingBack s = (q, t)" by fastforce
  show "mem_inv s' \<and>
    (res_map (map_option set) r, mem_ledger s') = ledger_release_selected i (mem_ledger s)"
    using run inv mem_release_run [OF inv rel] owned_values_outpoints(1) [OF inv, of h i]
    by (auto simp: mem_release_selected_operation_def ledger_release_selected_def op rel
        cmd_bind_apply split: if_splits)
qed

lemma mem_fail_status:
  assumes "mem_inv s"
  shows "mem_inv (next_tick (s\<lparr>ms_intents :=
           AList.map_entry i (\<lambda>m. m\<lparr>oi_status := Failed\<rparr>) (ms_intents s)\<rparr>))"
    and "mem_ledger (next_tick (s\<lparr>ms_intents :=
           AList.map_entry i (\<lambda>m. m\<lparr>oi_status := Failed\<rparr>) (ms_intents s)\<rparr>)) =
         bump_tick (set_intent_status i Failed (mem_ledger s))"
  using assms
  by (simp_all add: mem_defs set_intent_status_def keyed_by_map_entry map_of_map_entry)

lemma mem_mark_failed_implements:
  "implements mem_inv mem_ledger id (mem_mark_intent_failed h i) (ledger_mark_failed i)"
proof (rule implementsI)
  fix s r s'
  assume inv: "mem_inv s" and run: "mem_mark_intent_failed h i s = (r, s')"
  have L: "lg_operations (mem_ledger s) i = map_of (ms_operations s) i"
    "lg_intents (mem_ledger s) i = map_of (ms_intents s) i"
    by (simp_all add: mem_ledger_def)
  obtain q t where rel: "mem_release_operation h i PhRollingBack s = (q, t)" by fastforce
  note released = mem_release_run [OF inv rel]
  show "mem_inv s' \<and> (res_map id r, mem_ledger s') = ledger_mark_failed i (mem_ledger s)"
    using run inv released mem_fail_status [OF inv, of i] mem_fail_status [OF released(1), of i]
    by (auto simp: mem_mark_intent_failed_def ledger_mark_failed_def L rel cmd_bind_apply
        split: option.splits intent_status.splits operation_phase.splits)
qed

lemma mem_complete_implements:
  "implements mem_inv mem_ledger set (mem_complete_operation h i ph) (ledger_complete i ph)"
proof (rule implementsI)
  fix s r s'
  assume inv: "mem_inv s" and run: "mem_complete_operation h i ph s = (r, s')"
  have L: "lg_operations (mem_ledger s) i = map_of (ms_operations s) i"
    "lg_intents (mem_ledger s) i = map_of (ms_intents s) i"
    by (simp_all add: mem_ledger_def)
  show "mem_inv s' \<and> (res_map set r, mem_ledger s') = ledger_complete i ph (mem_ledger s)"
  proof (cases "\<exists>x n. map_of (ms_operations s) i = Some x \<and> map_of (ms_intents s) i = Some n \<and>
      oi_status n = Committed \<and> valid_transition (po_phase x) ph")
    case False
    then show ?thesis
      using run inv
      by (auto simp: mem_complete_operation_def ledger_complete_def L validate_advance_cases
          split: option.splits if_splits)
  next
    case True
    then obtain x n where x: "map_of (ms_operations s) i = Some x" "map_of (ms_intents s) i = Some n"
        "oi_status n = Committed" and adv: "validate_advance x ph = Inr True"
      by auto
    have "mem_ledger s' = completed_ledger i ph (mem_ledger s)"
      and "r = Inr (map mu_outpoint (owned_values h i (ms_utxos s)))" and "mem_inv s'"
      using run inv x adv
      by (auto simp del: validate_advance_True simp: mem_complete_operation_def
          completed_ledger_def mem_defs keyed_by_update
          keyed_update_owned AList.update_conv' by_outpoint_update_owned)
    then show ?thesis
      using x adv owned_values_outpoints(1) [OF inv, of h i]
      by (simp del: validate_advance_True add: ledger_complete_def L)
  qed
qed

text \<open>
  A batch works on copies of the output and lock tables; on their abstraction each effect is the
  ledger's.
\<close>

type_synonym tables = "(string \<times> managed_utxo) list \<times> (string \<times> operation_lock) list"

definition tables_ok :: "tables \<Rightarrow> bool" where
  "tables_ok t \<longleftrightarrow>
     keyed_by utxo_key (fst t) \<and> distinct (map fst (snd t)) \<and> covered_by (snd t) (fst t)"

definition holdings_of :: "tables \<Rightarrow> holdings" where
  "holdings_of t = (by_outpoint (fst t), by_outpoint (snd t))"

lemma validate_lock_effect_verdict:
  "validate_lock_effect utxos locks sel ph p =
     lock_effect_verdict sel ph p (by_outpoint utxos p) (by_outpoint locks p)"
  by (simp add: validate_lock_effect_def lock_effect_verdict_def by_outpoint_def held_by_def
      bound_in_phase_def unsafe_reason_def Let_def split: option.split)

lemma mem_apply_effect_step:
  assumes "tables_ok t"
  shows "res_map holdings_of (mem_apply_effect b tick e t) =
      ledger_apply_effect b tick e (holdings_of t)"
    and "mem_apply_effect b tick e t = Inr t' \<Longrightarrow> tables_ok t'"
proof -
  let ?p = "effect_outpoint e" and ?sel = "sb_selection b"
  let ?v = "lock_effect_verdict ?sel (sb_phase b) ?p (by_outpoint (fst t) ?p) (by_outpoint (snd t) ?p)"
  have lookup: "map_of x (outpoint_string ?p) = by_outpoint x ?p" for x :: "(string \<times> 'v) list"
    by (simp add: by_outpoint_def)
  show "res_map holdings_of (mem_apply_effect b tick e t) =
      ledger_apply_effect b tick e (holdings_of t)"
    by (cases ?v; cases "by_outpoint (fst t) ?p")
      (simp_all add: mem_apply_effect_def ledger_apply_effect_def holdings_of_def Let_def
        validate_lock_effect_verdict lookup held_by_def bound_in_phase_def lock_mismatch_def
        [abs_def] batch_lock_def)
  show "tables_ok t'" if "mem_apply_effect b tick e t = Inr t'"
    using that assms
    by (auto simp: mem_apply_effect_def Let_def lookup res_bind_eq_Inr ok_or_eq tables_ok_def
        keyed_by_update covered_by_update AList.distinct_update by_outpoint_key
        split: if_splits)
qed

lemma mem_inv_tables: "mem_inv s \<Longrightarrow> tables_ok (ms_utxos s, ms_locks s)"
  by (simp add: mem_inv_def tables_ok_def)

lemma mem_inv_set_tables:
  "mem_inv s \<Longrightarrow> tables_ok (u, l) \<Longrightarrow> mem_inv (s\<lparr>ms_utxos := u, ms_locks := l\<rparr>)"
  by (simp add: mem_inv_def tables_ok_def)

lemma mem_apply_effects:
  assumes "mem_inv s"
  shows "res_map holdings_of (res_fold (mem_apply_effect b tick) es (ms_utxos s, ms_locks s)) =
      res_fold (ledger_apply_effect b tick) es (lg_utxos (mem_ledger s), lg_locks (mem_ledger s))"
    and "res_fold (mem_apply_effect b tick) es (ms_utxos s, ms_locks s) = Inr t \<Longrightarrow> tables_ok t"
proof -
  have "(lg_utxos (mem_ledger s), lg_locks (mem_ledger s)) = holdings_of (ms_utxos s, ms_locks s)"
    by (simp add: holdings_of_def mem_ledger_def)
  then show "res_map holdings_of (res_fold (mem_apply_effect b tick) es (ms_utxos s, ms_locks s)) =
      res_fold (ledger_apply_effect b tick) es (lg_utxos (mem_ledger s), lg_locks (mem_ledger s))"
    by (simp only: res_fold_simulation [where P = tables_ok and view = holdings_of and
        f = "mem_apply_effect b tick" and g = "ledger_apply_effect b tick",
        OF mem_inv_tables [OF assms] mem_apply_effect_step])
  show "tables_ok t" if "res_fold (mem_apply_effect b tick) es (ms_utxos s, ms_locks s) = Inr t"
    using that mem_inv_tables [OF assms] mem_apply_effect_step(2)
    by (rule res_fold_invariant)
qed

lemma mem_validate:
  "validate_capabilities (mem_get_account s) (mem_get_scope s) (mem_get_utxo s) sel =
     ledger_validate (mem_ledger s) sel"
  by (simp add: ledger_validate_def mem_ledger_def mem_get_account_def [abs_def]
      mem_get_scope_def [abs_def] mem_get_utxo_def [abs_def] by_outpoint_def)

lemma mem_batch_result:
  assumes "mem_inv s"
  shows "res_map holdings_of
      (res_bind (validate_capabilities (mem_get_account s) (mem_get_scope s) (mem_get_utxo s) sel)
        (\<lambda>_. res_fold (mem_apply_effect b (ms_tick s)) es (ms_utxos s, ms_locks s))) =
    res_bind (ledger_validate (mem_ledger s) sel)
      (\<lambda>_. res_fold (ledger_apply_effect b (lg_tick (mem_ledger s))) es
        (lg_utxos (mem_ledger s), lg_locks (mem_ledger s)))"
proof -
  have "lg_tick (mem_ledger s) = ms_tick s" by (simp add: mem_ledger_def)
  then show ?thesis
    using mem_apply_effects(1) [OF assms, of b "ms_tick s" es]
    by (cases "ledger_validate (mem_ledger s) sel") (simp_all add: mem_validate)
qed

lemma mem_apply_batch_implements:
  "implements mem_inv mem_ledger id (mem_apply_batch b) (ledger_apply_batch b)"
proof (rule implementsI)
  fix s r s'
  assume inv: "mem_inv s" and run: "mem_apply_batch b s = (r, s')"
  let ?sel = "sb_selection b"
  let ?i = "os_operation_id ?sel"
  let ?res = "res_bind (validate_capabilities (mem_get_account s) (mem_get_scope s) (mem_get_utxo s) ?sel)
    (\<lambda>_. res_fold (mem_apply_effect b (ms_tick s)) (os_effects ?sel) (ms_utxos s, ms_locks s))"
  have L: "lg_operations (mem_ledger s) ?i = map_of (ms_operations s) ?i"
    "lg_intents (mem_ledger s) ?i = map_of (ms_intents s) ?i"
    by (simp_all add: mem_ledger_def)
  note result = mem_batch_result [OF inv, of ?sel b "os_effects ?sel"]
  show "mem_inv s' \<and> (res_map id r, mem_ledger s') = ledger_apply_batch b (mem_ledger s)"
  proof (cases "batch_precheck b (map_of (ms_intents s) ?i) (map_of (ms_operations s) ?i)")
    case (Inl e)
    then have "r = Inl e \<and> s' = s"
      using run
      by (auto simp: mem_apply_batch_def batch_precheck_def Let_def
          split: if_splits option.splits)
    with inv Inl show ?thesis by (simp add: ledger_apply_batch_def L)
  next
    case pre: (Inr u)
    then have guards: "\<not> is_some_and (map_of (ms_intents s) ?i) (\<lambda>n. oi_status n = Failed)"
      "\<not> is_some_and (map_of (ms_intents s) ?i) (\<lambda>n. oi_selection n \<noteq> ?sel)"
      "\<not> is_some_and (map_of (ms_operations s) ?i)
         (\<lambda>x. po_phase x \<noteq> sb_phase b \<or> po_phase x = PhRollingBack)"
      by (auto simp: batch_precheck_def Let_def split: if_splits option.splits)
    show ?thesis
    proof (cases ?res)
      case (Inl e)
      with run guards have "r = Inl e" and "s' = s" by (simp_all add: mem_apply_batch_def Let_def)
      with inv Inl pre result show ?thesis by (simp add: ledger_apply_batch_def L flip: result)
    next
      case (Inr t)
      obtain ut lt where t: "t = (ut, lt)" by fastforce
      have ok: "tables_ok (ut, lt)"
        using Inr t mem_apply_effects(2) [OF inv] by (auto simp: res_bind_eq_Inr)
      have "r = Inr ()" and s': "s' = (next_tick s)\<lparr>ms_utxos := ut, ms_locks := lt,
          ms_operations := AList.update ?i (batch_operation b (ms_tick (next_tick s)))
            (ms_operations s)\<rparr>"
        using run guards Inr t by (simp_all add: mem_apply_batch_def batch_operation_def Let_def)
      moreover have "mem_inv s'"
        using inv ok
        by (auto simp: s' mem_defs tables_ok_def keyed_by_update batch_operation_def)
      moreover have "(Inr (), mem_ledger s') = ledger_apply_batch b (mem_ledger s)"
        using pre Inr t result
        by (simp add: ledger_apply_batch_def L flip: result)
          (simp add: s' mem_defs holdings_of_def AList.update_conv')
      ultimately show ?thesis by simp
    qed
  qed
qed

text \<open>Reconciliation actions, one by one and in sequence.\<close>

lemma mem_apply_action_step:
  assumes "mem_inv s"
  shows "mem_inv (mem_apply_action a s)"
    and "mem_ledger (mem_apply_action a s) =
      (let h = ledger_apply_action a (lg_utxos (mem_ledger s), lg_locks (mem_ledger s))
       in (mem_ledger s)\<lparr>lg_utxos := fst h, lg_locks := snd h\<rparr>)"
proof -
  have found: "map_of (ms_utxos s) (outpoint_string p) = by_outpoint (ms_utxos s) p" for p
    by (simp add: by_outpoint_def)
  show "mem_inv (mem_apply_action a s)"
    using assms
    by (cases a)
      (auto simp: mem_inv_def discover_from_observed_def covered_by_grow covered_by_delete
        AList.distinct_delete intro!: keyed_by_update keyed_by_map_entry)
  show "mem_ledger (mem_apply_action a s) =
      (let h = ledger_apply_action a (lg_utxos (mem_ledger s), lg_locks (mem_ledger s))
       in (mem_ledger s)\<lparr>lg_utxos := fst h, lg_locks := snd h\<rparr>)"
  proof (cases "\<exists>ob. a = DiscoverNew ob")
    case True
    then show ?thesis
      by (cases "by_outpoint (ms_utxos s) (action_outpoint a)")
        (auto simp: found mem_ledger_def ledger_apply_action_def discovered_def
          discover_from_observed_def Let_def)
  next
    case False
    then show ?thesis
      by (cases a; cases "by_outpoint (ms_utxos s) (action_outpoint a)")
        (auto simp: mem_ledger_def ledger_apply_action_def Let_def fun_eq_iff)
  qed
qed

lemma mem_apply_actions:
  "mem_inv s \<Longrightarrow> mem_inv (fold mem_apply_action as s) \<and>
    mem_ledger (fold mem_apply_action as s) =
      (let h = fold ledger_apply_action as (lg_utxos (mem_ledger s), lg_locks (mem_ledger s))
       in (mem_ledger s)\<lparr>lg_utxos := fst h, lg_locks := snd h\<rparr>)"
proof (induction as arbitrary: s)
  case Nil
  then show ?case by simp
next
  case (Cons a as)
  note step = mem_apply_action_step [OF Cons.prems, of a]
  show ?case using Cons.IH [OF step(1)] by (simp add: step(2) Let_def)
qed

lemma mem_apply_reconciliation_implements:
  "implements mem_inv mem_ledger id (mem_apply_reconciliation plan) (ledger_apply_reconciliation plan)"
  by (rule implementsI)
    (auto simp: mem_apply_reconciliation_def ledger_apply_reconciliation_def mem_apply_actions Let_def)

section \<open>The contract\<close>

lemma table_lists_as:
  assumes "keyed_by f t"
  shows "set (table_values h t) = ran (map_of t)" and "distinct (table_values h t)"
  using table_values_set [OF assms, of h] table_values_distinct [OF assms, of h]
  by (simp_all add: distinct_map)

lemma mem_list_utxos_set:
  assumes "mem_inv s"
  shows "lists_as (mem_list_utxos h s) (ran (lg_utxos (mem_ledger s)))"
proof -
  have k: "keyed_by utxo_key (ms_utxos s)" using assms by (simp add: mem_inv_def)
  show ?thesis
    by (simp add: lists_as_def mem_list_utxos_def mem_ledger_def table_lists_as [OF k]
        ran_by_outpoint [OF k])
qed

lemma mem_list_operations_set:
  assumes "mem_inv s"
  shows "lists_as (mem_list_operations h s) (ran (lg_operations (mem_ledger s)))"
proof -
  have k: "keyed_by po_operation_id (ms_operations s)" using assms by (simp add: mem_inv_def)
  show ?thesis
    by (simp add: lists_as_def mem_list_operations_def mem_ledger_def table_lists_as [OF k])
qed

lemma mem_list_pending_set:
  assumes "mem_inv s"
  shows "lists_as (mem_list_pending_intents h s)
     {n \<in> ran (lg_intents (mem_ledger s)). oi_status n = Pending}"
proof -
  have k: "keyed_by (\<lambda>n. os_operation_id (oi_selection n)) (ms_intents s)"
    using assms by (simp add: mem_inv_def)
  show ?thesis
    by (simp add: lists_as_def mem_list_pending_intents_def mem_ledger_def table_lists_as [OF k])
qed

lemmas mem_read_defs =
  reads_as_def mem_get_account_def mem_get_scope_def mem_get_utxo_def mem_get_lock_def
  mem_get_operation_def mem_get_intent_def mem_current_tick_def mem_ledger_def by_outpoint_def

lemma mem_reads_as:
  "reads_as (mem_get_account s aid) (lg_accounts (mem_ledger s) aid)"
  "reads_as (mem_get_scope s sid) (lg_scopes (mem_ledger s) sid)"
  "reads_as (mem_get_utxo s p) (lg_utxos (mem_ledger s) p)"
  "reads_as (mem_get_lock s p) (lg_locks (mem_ledger s) p)"
  "reads_as (mem_get_operation s i) (lg_operations (mem_ledger s) i)"
  "reads_as (mem_get_intent s i) (lg_intents (mem_ledger s) i)"
  "reads_as (mem_current_tick s) (lg_tick (mem_ledger s))"
  by (simp_all add: mem_read_defs)

lemma mem_reads_reliable:
  "no_storage_error (mem_get_account s aid)" "no_storage_error (mem_get_scope s sid)"
  "no_storage_error (mem_get_utxo s p)" "no_storage_error (mem_get_lock s p)"
  "no_storage_error (mem_get_operation s i)" "no_storage_error (mem_get_intent s i)"
  "no_storage_error (mem_current_tick s)" "no_storage_error (mem_list_utxos hu s)"
  "no_storage_error (mem_list_operations ho s)" "no_storage_error (mem_list_pending_intents ho s)"
  by (simp_all add: mem_read_defs no_storage_error_def mem_list_utxos_def
      mem_list_operations_def mem_list_pending_intents_def)

lemma mem_apply_batch_reliable: "no_storage_error (fst (mem_apply_batch b s))"
proof -
  have scope: "validate_scope (mem_get_account s) (mem_get_scope s) aid sid required \<noteq> Inl (Storage m)"
    for aid sid required m
    by (auto simp: validate_scope_def mem_get_account_def mem_get_scope_def ok_or_def res_bind_eq_Inl
        split: option.splits)
  then have validated: "validate_capabilities (mem_get_account s) (mem_get_scope s) (mem_get_utxo s) sel
      \<noteq> Inl (Storage m)" for sel m
    by (auto simp: validate_capabilities_def validate_structure_def validate_effect_def Let_def
        mem_get_scope_def mem_get_utxo_def res_bind_eq_Inl ok_or_eq dest!: res_each_Inl)
  have effect: "mem_apply_effect b t e n \<noteq> Inl (Storage m)" for t e n m
    by (auto simp: mem_apply_effect_def validate_lock_effect_def Let_def res_bind_eq_Inl ok_or_eq
        split: if_splits option.splits)
  have "res_fold (mem_apply_effect b t) es n \<noteq> Inl (Storage m)" for t es n m
    by (induction es arbitrary: n) (auto simp: res_bind_eq_Inl effect)
  with validated show ?thesis
    by (auto simp: mem_apply_batch_def Let_def no_storage_error_def res_bind_eq_Inl
        split: sum.splits)
qed

lemma mem_commands_reliable:
  "no_storage_error (fst (mem_persist_intent sel s))"
  "no_storage_error (fst (mem_mark_intent_committed i s))"
  "no_storage_error (fst (mem_mark_intent_failed hu i s))"
  "no_storage_error (fst (mem_apply_reconciliation plan s))"
  "no_storage_error (fst (mem_release_selected_operation hu i s))"
  "no_storage_error (fst (mem_release_operation hu i ph s))"
  "no_storage_error (fst (mem_advance_tick d s))"
  by (auto simp: no_storage_error_def mem_persist_intent_def mem_mark_intent_committed_def
      mem_mark_intent_failed_def mem_apply_reconciliation_def mem_release_selected_operation_def
      mem_release_operation_def mem_advance_tick_def cmd_bind_apply Let_def
      split: option.splits intent_status.splits operation_phase.splits)

lemma mem_complete_reliable: "no_storage_error (fst (mem_complete_operation hu i ph s))"
  by (auto simp: no_storage_error_def mem_complete_operation_def validate_advance_cases Let_def
      split: option.splits if_splits)

interpretation mem: reliable_store "memory_ops hu ho hi" mem_inv mem_ledger for hu ho hi
  by unfold_locales
    (auto simp: memory_ops_def mem_ledger_wf mem_reads_as mem_reads_reliable mem_list_utxos_set
      mem_list_operations_set mem_list_pending_set mem_put_utxo_implements
      mem_advance_tick_implements mem_persist_intent_implements mem_mark_committed_implements
      mem_mark_failed_implements mem_apply_batch_implements mem_apply_reconciliation_implements
      mem_release_selected_implements mem_release_implements mem_complete_implements
      mem_apply_batch_reliable mem_commands_reliable mem_complete_reliable
      dest: mem_put_account_holdings mem_put_scope_holdings)

end
