(* ===== verification/Selector.thy ===== *)
theory Selector
  imports Ledger_Invariants Memory_Store
begin

text \<open>
  Choosing inputs (\<open>txoscope-core/src/selector.rs\<close>): the selection context, the two selectors and the
  sorting policy, generic in the state they read. The lemmas state what a selection promises of
  the ledger a contract-abiding state shows.
\<close>

section \<open>The selection context\<close>

record ('s, 'z) selection_context =
  cx_read :: "('s, 'z) state_read_scheme"
  cx_state :: 's
  cx_account_id :: account_id
  cx_account_scope_ids :: "wallet_scope_id list"
  cx_eligible_scope_ids :: "wallet_scope_id list"

definition cx_is_policy_spendable ::
  "('s, 'z) selection_context \<Rightarrow> managed_utxo \<Rightarrow> bool result" where
  "cx_is_policy_spendable cx u =
     (if is_policy_spendable u
      then res_map (\<lambda>lock. lock = None) (get_lock (cx_read cx) (cx_state cx) (mu_outpoint u))
      else Inr False)"

fun collect_selectable ::
  "('s, 'z) selection_context \<Rightarrow> managed_utxo list \<Rightarrow> outpoint list result" where
  "collect_selectable cx [] = Inr []"
| "collect_selectable cx (u # us) =
     (if mu_account_id u \<noteq> cx_account_id cx then collect_selectable cx us
      else if mu_scope_id u \<notin> set (cx_eligible_scope_ids cx) then collect_selectable cx us
      else res_bind (cx_is_policy_spendable cx u) (\<lambda>spendable.
             if spendable then res_map ((#) (mu_outpoint u)) (collect_selectable cx us)
             else collect_selectable cx us))"

definition selectable_utxos :: "('s, 'z) selection_context \<Rightarrow> outpoint list result" where
  "selectable_utxos cx = res_bind (list_utxos (cx_read cx) (cx_state cx)) (collect_selectable cx)"

definition preferred_scope :: "('s, 'z) selection_context \<Rightarrow> wallet_scope result" where
  "preferred_scope cx =
     res_bind (res_collect (get_scope (cx_read cx) (cx_state cx)) (cx_eligible_scope_ids cx)) (\<lambda>found.
       ok_or (NoEligibleScope (cx_account_id cx)) (prefer_scope (List.map_filter id found)))"

definition is_selectable_candidate ::
  "('s, 'z) selection_context \<Rightarrow> outpoint \<Rightarrow> bool result" where
  "is_selectable_candidate cx p =
     res_bind (get_utxo (cx_read cx) (cx_state cx) p) (\<lambda>found.
       case found of
         None \<Rightarrow> Inr False
       | Some u \<Rightarrow>
           if mu_account_id u = cx_account_id cx \<and> mu_scope_id u \<in> set (cx_eligible_scope_ids cx)
           then cx_is_policy_spendable cx u else Inr False)"

definition require_selectable_candidate ::
  "('s, 'z) selection_context \<Rightarrow> outpoint \<Rightarrow> unit result" where
  "require_selectable_candidate cx p =
     res_bind (get_utxo (cx_read cx) (cx_state cx) p) (\<lambda>found.
     res_bind (ok_or (UtxoNotFound p) found) (\<lambda>u.
     if mu_account_id u \<noteq> cx_account_id cx then Inl (AccountNotFound (cx_account_id cx))
     else if mu_scope_id u \<notin> set (cx_eligible_scope_ids cx)
     then (if mu_scope_id u \<in> set (cx_account_scope_ids cx)
           then res_bind (get_scope (cx_read cx) (cx_state cx) (mu_scope_id u)) (\<lambda>sc.
                  if is_some_and sc (\<lambda>scope. ws_account_id scope = cx_account_id cx)
                  then Inl (MissingCapabilities (mu_scope_id u))
                  else Inl (ScopeNotFound (mu_scope_id u)))
           else Inl (ScopeNotFound (mu_scope_id u)))
     else if mu_availability u \<noteq> Selectable then Inl (UtxoUnavailable p (mu_availability u))
     else res_bind (cx_is_policy_spendable cx u) (\<lambda>spendable.
            if spendable then Inr ()
            else res_bind (get_lock (cx_read cx) (cx_state cx) p) (\<lambda>lock.
              Inl (UtxoPolicyBlocked p
                (''utxo is not safely spendable: onchain_state='' @
                 onchain_debug (mu_onchain_state u) @ '', conflict='' @
                 bool_debug (mu_observation_conflict u \<noteq> None) @ '', lock_present='' @
                 bool_debug (lock \<noteq> None)))))))"

section \<open>The sorting policy\<close>

fun role_weight :: "utxo_role \<Rightarrow> u8" where
  "role_weight SpendPreferred = 0"
| "role_weight General = 1"
| "role_weight ConsolidationCandidate = 2"
| "role_weight role = 10"

fun selection_sort_key :: "input_selection_spec \<Rightarrow> managed_utxo \<Rightarrow> u8 \<times> u64 \<times> u8 \<times> u64" where
  "selection_sort_key (TargetValue amount) u = (0, mu_value_sats u, role_weight (mu_role u), 0)"
| "selection_sort_key spec u = (0, 0, 0, 0)"

definition sort_candidate_ids ::
  "('s, 'z) state_read_scheme \<Rightarrow> 's \<Rightarrow> input_selection_spec \<Rightarrow> outpoint list \<Rightarrow>
   outpoint list result" where
  "sort_candidate_ids ops s spec candidates =
     res_map (\<lambda>keyed. map snd (sort_key fst keyed))
       (res_collect (\<lambda>p.
          res_bind (get_utxo ops s p) (\<lambda>found.
          case found of
            None \<Rightarrow> Inl (CorruptedState
              (''selector candidate missing managed utxo: '' @ outpoint_string p))
          | Some u \<Rightarrow> Inr (selection_sort_key spec u, p))) candidates)"

fun accumulate_loop ::
  "('s, 'z) state_read_scheme \<Rightarrow> 's \<Rightarrow> u64 \<Rightarrow> u64 \<Rightarrow> outpoint list \<Rightarrow> outpoint list \<Rightarrow>
   outpoint list option result" where
  "accumulate_loop ops s target acc selected [] = Inr None"
| "accumulate_loop ops s target acc selected (p # ps) =
     res_bind (get_utxo ops s p) (\<lambda>found.
     case found of
       None \<Rightarrow> Inl (CorruptedState
         (''candidate disappeared during accumulation: '' @ outpoint_string p))
     | Some u \<Rightarrow>
         let acc' = sat_add acc (mu_value_sats u); selected' = selected @ [p] in
         if target \<le> acc' then Inr (Some selected')
         else accumulate_loop ops s target acc' selected' ps)"

definition accumulate_by_value ::
  "('s, 'z) state_read_scheme \<Rightarrow> 's \<Rightarrow> outpoint list \<Rightarrow> u64 \<Rightarrow> outpoint list option result" where
  "accumulate_by_value ops s utxos target = accumulate_loop ops s target 0 [] utxos"

section \<open>The selectors\<close>

definition target_value_select ::
  "('s, 'z) selection_context \<Rightarrow> u64 \<Rightarrow> selected_inputs result" where
  "target_value_select cx amount =
     res_bind (preferred_scope cx) (\<lambda>change_scope.
     res_bind (selectable_utxos cx) (\<lambda>candidates.
     res_bind (sort_candidate_ids (cx_read cx) (cx_state cx) (TargetValue amount) candidates) (\<lambda>sorted.
     res_bind (accumulate_by_value (cx_read cx) (cx_state cx) sorted amount) (\<lambda>picked.
     res_bind (ok_or InsufficientFunds picked) (\<lambda>selected.
     Inr \<lparr>si_outpoints = selected, si_change_scope_id = ws_id change_scope\<rparr>)))))"

fun first_selectable ::
  "('s, 'z) selection_context \<Rightarrow> outpoint list \<Rightarrow> outpoint option result" where
  "first_selectable cx [] = Inr None"
| "first_selectable cx (p # ps) =
     res_bind (is_selectable_candidate cx p) (\<lambda>ok. if ok then Inr (Some p) else first_selectable cx ps)"

definition candidate_inputs_finish ::
  "('s, 'z) selection_context \<Rightarrow> outpoint list \<Rightarrow> selected_inputs result" where
  "candidate_inputs_finish cx outpoints =
     res_bind (ok_or (CorruptedState ''selector returned no inputs'')
       (case outpoints of [] \<Rightarrow> None | p # ps \<Rightarrow> Some p)) (\<lambda>first.
     res_bind (get_utxo (cx_read cx) (cx_state cx) first) (\<lambda>found.
     res_bind (ok_or (UtxoNotFound first) found) (\<lambda>u.
     Inr \<lparr>si_outpoints = outpoints, si_change_scope_id = mu_scope_id u\<rparr>)))"

definition exact_select ::
  "('s, 'z) selection_context \<Rightarrow> outpoint list \<Rightarrow> selected_inputs result" where
  "exact_select cx outpoints =
     res_bind (res_each (require_selectable_candidate cx) outpoints) (\<lambda>_.
     candidate_inputs_finish cx outpoints)"

definition first_selectable_select ::
  "('s, 'z) selection_context \<Rightarrow> outpoint list \<Rightarrow> selected_inputs result" where
  "first_selectable_select cx candidates =
     res_bind (first_selectable cx candidates) (\<lambda>picked.
     res_bind (ok_or NoCandidateAvailable picked) (\<lambda>selected.
     candidate_inputs_finish cx [selected]))"

text \<open>\<open>SelectorRegistry::selector_for\<close> followed by \<open>select\<close>.\<close>

fun select_inputs ::
  "('s, 'z) selection_context \<Rightarrow> input_selection_spec \<Rightarrow> selected_inputs result" where
  "select_inputs cx (TargetValue amount) = target_value_select cx amount"
| "select_inputs cx (ExactOutpoints outpoints) = exact_select cx outpoints"
| "select_inputs cx (FirstSelectable candidates) = first_selectable_select cx candidates"

text \<open>
  The dispatch as the registry does it: the selector is chosen from the specification, and each selector
  ends in \<open>unreachable!\<close> (here \<open>None\<close>) on the specifications of the other. It never gets there.
\<close>

datatype selector_kind = TargetValueSelector | CandidateInputSelector

fun selector_for :: "input_selection_spec \<Rightarrow> selector_kind" where
  "selector_for (TargetValue amount) = TargetValueSelector"
| "selector_for (ExactOutpoints outpoints) = CandidateInputSelector"
| "selector_for (FirstSelectable candidates) = CandidateInputSelector"

fun target_value_selector ::
  "('s, 'z) selection_context \<Rightarrow> input_selection_spec \<Rightarrow> selected_inputs result option" where
  "target_value_selector cx (TargetValue amount) = Some (target_value_select cx amount)"
| "target_value_selector cx spec = None"

fun candidate_input_selector ::
  "('s, 'z) selection_context \<Rightarrow> input_selection_spec \<Rightarrow> selected_inputs result option" where
  "candidate_input_selector cx (ExactOutpoints outpoints) = Some (exact_select cx outpoints)"
| "candidate_input_selector cx (FirstSelectable candidates) = Some (first_selectable_select cx candidates)"
| "candidate_input_selector cx (TargetValue amount) = None"

lemma selector_never_unreachable:
  "(case selector_for spec of
      TargetValueSelector \<Rightarrow> target_value_selector cx spec
    | CandidateInputSelector \<Rightarrow> candidate_input_selector cx spec) = Some (select_inputs cx spec)"
  by (cases spec) simp_all

section \<open>What a selection promises\<close>

text \<open>An outpoint a context may select, read off the ledger.\<close>

definition selectable_in ::
  "ledger \<Rightarrow> account_id \<Rightarrow> wallet_scope_id list \<Rightarrow> outpoint \<Rightarrow> bool" where
  "selectable_in L aid eligible p \<longleftrightarrow>
     (\<exists>u. lg_utxos L p = Some u \<and> mu_account_id u = aid \<and> mu_scope_id u \<in> set eligible \<and>
          is_policy_spendable u \<and> lg_locks L p = None)"

definition ledger_value :: "ledger \<Rightarrow> outpoint \<Rightarrow> nat" where
  "ledger_value L p = (case lg_utxos L p of None \<Rightarrow> 0 | Some u \<Rightarrow> unat (mu_value_sats u))"

text \<open>
  The contract of a selector: a successful selection is not empty and only has outputs its
  context may select.
\<close>

locale utxo_selector = state_read_contract ops sinv ledger_of
  for ops :: "('s, 'z) state_read_scheme" and sinv :: "'s \<Rightarrow> bool" and ledger_of :: "'s \<Rightarrow> ledger" +
  fixes select :: "('s, 'z) selection_context \<Rightarrow> 'spec \<Rightarrow> selected_inputs result"
  assumes select_sound:
    "cx_read cx = ops \<Longrightarrow> sinv (cx_state cx) \<Longrightarrow> select cx spec = Inr si \<Longrightarrow>
      si_outpoints si \<noteq> [] \<and>
      (\<forall>p\<in>set (si_outpoints si).
        selectable_in (ledger_of (cx_state cx)) (cx_account_id cx) (cx_eligible_scope_ids cx) p)"
begin

lemma selected_free:
  assumes "cx_read cx = ops" and "sinv (cx_state cx)" and "select cx spec = Inr si"
    and "p \<in> set (si_outpoints si)"
  shows "lg_locks (ledger_of (cx_state cx)) p = None"
    and "\<exists>u. lg_utxos (ledger_of (cx_state cx)) p = Some u \<and> is_policy_spendable u"
  using select_sound [OF assms(1-3)] assms(4) by (auto simp: selectable_in_def)

end

context state_read_contract
begin

lemma read_Inr:
  assumes "sinv s"
  shows "get_account ops s aid = Inr a \<Longrightarrow> a = lg_accounts (ledger_of s) aid"
    and "get_scope ops s sid = Inr sc \<Longrightarrow> sc = lg_scopes (ledger_of s) sid"
    and "get_utxo ops s p = Inr u \<Longrightarrow> u = lg_utxos (ledger_of s) p"
    and "get_lock ops s p = Inr l \<Longrightarrow> l = lg_locks (ledger_of s) p"
    and "get_operation ops s i = Inr x \<Longrightarrow> x = lg_operations (ledger_of s) i"
    and "get_intent ops s i = Inr n \<Longrightarrow> n = lg_intents (ledger_of s) i"
    and "current_tick ops s = Inr t \<Longrightarrow> t = lg_tick (ledger_of s)"
  using get_account_law get_scope_law get_utxo_law get_lock_law get_operation_law get_intent_law
    current_tick_law assms unfolding reads_as_def by (metis Inl_Inr_False sum.inject(2))+

lemma list_utxos_Inr:
  "sinv s \<Longrightarrow> list_utxos ops s = Inr us \<Longrightarrow> set us = ran (lg_utxos (ledger_of s)) \<and> distinct us"
  using list_utxos_law [of s] by (auto simp: lists_as_def)

lemma cx_spendable_Inr:
  "cx_read cx = ops \<Longrightarrow> sinv (cx_state cx) \<Longrightarrow> cx_is_policy_spendable cx u = Inr b \<Longrightarrow>
    b \<longleftrightarrow> is_policy_spendable u \<and> lg_locks (ledger_of (cx_state cx)) (mu_outpoint u) = None"
  by (auto simp: cx_is_policy_spendable_def res_map_eq split: if_splits dest!: read_Inr(4))

lemma is_selectable_Inr:
  assumes "cx_read cx = ops" and "sinv (cx_state cx)" and "is_selectable_candidate cx p = Inr b"
  shows "b \<longleftrightarrow> selectable_in (ledger_of (cx_state cx)) (cx_account_id cx) (cx_eligible_scope_ids cx) p"
proof -
  let ?L = "ledger_of (cx_state cx)"
  have "get_utxo (cx_read cx) (cx_state cx) p = Inr (lg_utxos ?L p)"
    using assms read_Inr(3) [OF assms(2)]
    by (auto simp: is_selectable_candidate_def res_bind_eq_Inr)
  then show ?thesis
    using assms(3) ledger_wfD(1) [OF abs_wf [OF assms(2)], of p] cx_spendable_Inr [OF assms(1,2)]
    by (cases "lg_utxos ?L p")
      (fastforce simp: is_selectable_candidate_def selectable_in_def split: if_splits)+
qed

lemma require_selectable_Inr:
  assumes "cx_read cx = ops" and "sinv (cx_state cx)"
    and "require_selectable_candidate cx p = Inr ()"
  shows "selectable_in (ledger_of (cx_state cx)) (cx_account_id cx) (cx_eligible_scope_ids cx) p"
proof -
  let ?L = "ledger_of (cx_state cx)"
  obtain u where get: "get_utxo (cx_read cx) (cx_state cx) p = Inr (Some u)"
    using assms(3) by (auto simp: require_selectable_candidate_def res_bind_eq_Inr ok_or_eq)
  then have u: "lg_utxos ?L p = Some u"
    using read_Inr(3) [OF assms(2)] assms(1) by metis
  then show ?thesis
    using assms(3) get ledger_wfD(1) [OF abs_wf [OF assms(2)], of p]
      cx_spendable_Inr [OF assms(1,2), of u True]
    by (auto simp: require_selectable_candidate_def selectable_in_def res_bind_eq_Inr
        split: if_splits)
qed

lemma collect_selectable_Inr:
  assumes "cx_read cx = ops" and "sinv (cx_state cx)" and "collect_selectable cx us = Inr ps"
  shows "ps = map mu_outpoint (filter (\<lambda>u. mu_account_id u = cx_account_id cx \<and>
      mu_scope_id u \<in> set (cx_eligible_scope_ids cx) \<and> is_policy_spendable u \<and>
      lg_locks (ledger_of (cx_state cx)) (mu_outpoint u) = None) us)"
  using assms(3)
proof (induction us arbitrary: ps)
  case Nil
  then show ?case by simp
next
  case (Cons u us)
  then show ?case
    using cx_spendable_Inr [OF assms(1,2), of u]
    by (auto simp: res_bind_eq_Inr res_map_eq split: if_splits)
qed

lemma selectable_utxos_Inr:
  assumes "cx_read cx = ops" and "sinv (cx_state cx)" and "selectable_utxos cx = Inr ps"
  shows "set ps = {p. selectable_in (ledger_of (cx_state cx)) (cx_account_id cx)
      (cx_eligible_scope_ids cx) p}"
    and "distinct ps"
proof -
  obtain us where us: "list_utxos ops (cx_state cx) = Inr us" "collect_selectable cx us = Inr ps"
    using assms by (auto simp: selectable_utxos_def res_bind_eq_Inr)
  note wf = abs_wf [OF assms(2)]
  note ps = collect_selectable_Inr [OF assms(1,2) us(2)]
  note listed = list_utxos_Inr [OF assms(2) us(1)]
  show "set ps = {p. selectable_in (ledger_of (cx_state cx)) (cx_account_id cx)
      (cx_eligible_scope_ids cx) p}"
    using listed ledger_wfD(1) [OF wf]
    by (auto simp: ps selectable_in_def ran_def image_iff)
  have "inj_on mu_outpoint (set us)"
    using listed ledger_wfD(1) [OF wf] by (auto simp: inj_on_def ran_def)
  then show "distinct ps"
    using listed by (auto simp: ps distinct_map inj_on_subset)
qed

text \<open>The candidates in the order of the policy: ascending value, then role.\<close>

lemma sort_candidates_Inr:
  assumes "sinv s" and "sort_candidate_ids ops s spec ps = Inr qs"
  shows "qs = sort_key (\<lambda>p. selection_sort_key spec (the (lg_utxos (ledger_of s) p))) ps"
    and "\<And>p. p \<in> set ps \<Longrightarrow> lg_utxos (ledger_of s) p \<noteq> None"
proof -
  let ?key = "\<lambda>p. selection_sort_key spec (the (lg_utxos (ledger_of s) p))"
  let ?f = "\<lambda>p. res_bind (get_utxo ops s p) (\<lambda>found.
      case found of None \<Rightarrow> Inl (CorruptedState
          (''selector candidate missing managed utxo: '' @ outpoint_string p))
      | Some u \<Rightarrow> Inr (selection_sort_key spec u, p))"
  obtain keyed where keyed: "res_collect ?f ps = Inr keyed" and qs: "qs = map snd (sort_key fst keyed)"
    using assms(2) by (auto simp: sort_candidate_ids_def res_map_eq)
  have f: "y = (?key p, p) \<and> lg_utxos (ledger_of s) p \<noteq> None" if "?f p = Inr y" for p y
    using that read_Inr(3) [OF assms(1)] by (fastforce simp: res_bind_eq_Inr split: option.splits)
  have "keyed = map (\<lambda>p. (?key p, p)) ps"
    by (rule res_collect_map [OF keyed]) (use f in blast)
  then show "qs = sort_key ?key ps" by (simp add: qs sort_key_tagged)
  show "lg_utxos (ledger_of s) p \<noteq> None" if "p \<in> set ps" for p
    using res_collect_each [OF keyed that] f by blast
qed

text \<open>Accumulation stops at the first prefix whose value reaches the target.\<close>

lemma accumulate_loop_Inr:
  assumes "sinv s" and "accumulate_loop ops s target acc sel ps = Inr r"
  defines "prefix \<equiv> \<lambda>n. unat acc + sum_list (map (ledger_value (ledger_of s)) (take (Suc n) ps))"
  shows "case r of
      None \<Rightarrow> \<forall>n<length ps. prefix n < unat target
    | Some q \<Rightarrow> \<exists>n<length ps. q = sel @ take (Suc n) ps \<and> unat target \<le> prefix n \<and>
        (\<forall>m<n. prefix m < unat target)"
  using assms(2) unfolding prefix_def
proof (induction ps arbitrary: acc sel)
  case Nil
  then show ?case by auto
next
  case (Cons p ps)
  obtain u where get: "get_utxo ops s p = Inr (Some u)"
    using Cons.prems by (auto simp: res_bind_eq_Inr split: option.splits)
  then have "lg_utxos (ledger_of s) p = Some u" using read_Inr(3) [OF assms(1)] by metis
  then have v: "ledger_value (ledger_of s) p = unat (mu_value_sats u)" by (simp add: ledger_value_def)
  let ?acc = "sat_add acc (mu_value_sats u)"
  have max: "unat target \<le> 2 ^ 64 - 1" using unat_bound [of target] by simp
  have reached: "target \<le> ?acc \<longleftrightarrow> unat target \<le> unat acc + ledger_value (ledger_of s) p"
    using max by (simp add: v word_le_nat_alt unat_sat_add)
  show ?case
  proof (cases "target \<le> ?acc")
    case True
    then have "r = Some (sel @ [p])" using Cons.prems get by simp
    with True reached show ?thesis by (auto intro!: exI [of _ 0])
  next
    case False
    then have run: "accumulate_loop ops s target ?acc (sel @ [p]) ps = Inr r"
      using Cons.prems get by simp
    have acc: "unat ?acc = unat acc + ledger_value (ledger_of s) p"
      using False reached max by (simp add: v unat_sat_add)
    have first: "unat acc + ledger_value (ledger_of s) p < unat target"
      using False reached by simp
    show ?thesis
    proof (cases r)
      case None
      show ?thesis
        using Cons.IH [OF run] first unfolding None acc
        by (auto simp: less_Suc_eq_0_disj add.assoc)
    next
      case (Some q)
      then obtain n where n: "n < length ps" "q = (sel @ [p]) @ take (Suc n) ps"
          "unat target \<le> unat ?acc + sum_list (map (ledger_value (ledger_of s)) (take (Suc n) ps))"
          "\<forall>m<n. unat ?acc + sum_list (map (ledger_value (ledger_of s)) (take (Suc m) ps)) < unat target"
        using Cons.IH [OF run] by auto
      have "\<forall>m<Suc n. unat acc + sum_list (map (ledger_value (ledger_of s)) (take (Suc m) (p # ps)))
          < unat target"
        using n(4) first unfolding acc by (auto simp: less_Suc_eq_0_disj add.assoc)
      with n Some show ?thesis by (auto simp: acc add.assoc intro!: exI [of _ "Suc n"])
    qed
  qed
qed

text \<open>The outcome of the target-value selector.\<close>

lemma target_value_outcome:
  assumes "cx_read cx = ops" and "sinv (cx_state cx)" and "target_value_select cx amount = Inr si"
  defines "L \<equiv> ledger_of (cx_state cx)"
  defines "in_order \<equiv> \<lambda>ps. sort_key (\<lambda>p. selection_sort_key (TargetValue amount) (the (lg_utxos L p))) ps"
  obtains ps n where "set ps = {p. selectable_in L (cx_account_id cx) (cx_eligible_scope_ids cx) p}"
    and "distinct ps" and "n < length ps" and "si_outpoints si = take (Suc n) (in_order ps)"
    and "unat amount \<le> sum_list (map (ledger_value L) (take (Suc n) (in_order ps)))"
    and "\<forall>m<n. sum_list (map (ledger_value L) (take (Suc m) (in_order ps))) < unat amount"
proof -
  obtain ps qs where ps: "selectable_utxos cx = Inr ps"
    and qs: "sort_candidate_ids (cx_read cx) (cx_state cx) (TargetValue amount) ps = Inr qs"
    and acc: "accumulate_by_value (cx_read cx) (cx_state cx) qs amount = Inr (Some (si_outpoints si))"
    using assms(3) by (auto simp: target_value_select_def res_bind_eq_Inr ok_or_eq)
  have qs_eq: "qs = in_order ps"
    using sort_candidates_Inr(1) [OF assms(2)] qs assms(1) unfolding in_order_def L_def by metis
  obtain n where "n < length qs" and "si_outpoints si = take (Suc n) qs"
    and "unat amount \<le> sum_list (map (ledger_value L) (take (Suc n) qs))"
    and "\<forall>m<n. sum_list (map (ledger_value L) (take (Suc m) qs)) < unat amount"
    using accumulate_loop_Inr [OF assms(2), of amount 0 "[]" qs] acc assms(1)
    unfolding accumulate_by_value_def L_def by auto
  then show ?thesis
    using that [of ps n] selectable_utxos_Inr [OF assms(1,2) ps]
    unfolding qs_eq L_def by (simp add: in_order_def)
qed

text \<open>Every selector keeps the contract.\<close>

abbreviation selectable_for :: "('s, 'z) selection_context \<Rightarrow> outpoint \<Rightarrow> bool" where
  "selectable_for cx \<equiv>
     selectable_in (ledger_of (cx_state cx)) (cx_account_id cx) (cx_eligible_scope_ids cx)"

lemma target_value_sound:
  assumes "cx_read cx = ops" and "sinv (cx_state cx)" and "target_value_select cx amount = Inr si"
  shows "si_outpoints si \<noteq> []" and "distinct (si_outpoints si)"
    and "\<forall>p\<in>set (si_outpoints si). selectable_for cx p"
    and "unat amount \<le> sum_list (map (ledger_value (ledger_of (cx_state cx))) (si_outpoints si))"
proof -
  obtain ps n where ps: "set ps = {p. selectable_for cx p}" "distinct ps" "n < length ps"
    and si: "si_outpoints si = take (Suc n) (sort_key (\<lambda>p. selection_sort_key (TargetValue amount)
        (the (lg_utxos (ledger_of (cx_state cx)) p))) ps)"
    and reach: "unat amount \<le> sum_list (map (ledger_value (ledger_of (cx_state cx))) (si_outpoints si))"
    using target_value_outcome [OF assms] by metis
  have "length (si_outpoints si) = Suc n" using ps(3) by (simp add: si)
  then show "si_outpoints si \<noteq> []" by auto
  show "distinct (si_outpoints si)" unfolding si by (rule distinct_take) (simp add: ps(2))
  show "\<forall>p\<in>set (si_outpoints si). selectable_for cx p"
    unfolding si using ps(1) by (auto dest!: in_set_takeD)
  show "unat amount \<le> sum_list (map (ledger_value (ledger_of (cx_state cx))) (si_outpoints si))"
    by (rule reach)
qed

lemma candidate_finish_Inr:
  "candidate_inputs_finish cx ps = Inr si \<Longrightarrow> si_outpoints si = ps \<and> ps \<noteq> []"
  by (auto simp: candidate_inputs_finish_def res_bind_eq_Inr ok_or_eq split: list.splits)

lemma candidate_finish_scope:
  assumes "cx_read cx = ops" and "sinv (cx_state cx)" and "candidate_inputs_finish cx ps = Inr si"
  shows "\<exists>u. lg_utxos (ledger_of (cx_state cx)) (hd ps) = Some u \<and> si_change_scope_id si = mu_scope_id u"
  using assms read_Inr(3) [OF assms(2)]
  by (fastforce simp: candidate_inputs_finish_def res_bind_eq_Inr ok_or_eq split: list.splits)

lemma exact_sound:
  assumes "cx_read cx = ops" and "sinv (cx_state cx)" and "exact_select cx ps = Inr si"
  shows "si_outpoints si = ps" and "ps \<noteq> []" and "\<forall>p\<in>set ps. selectable_for cx p"
  using assms require_selectable_Inr [OF assms(1,2)] candidate_finish_Inr
  by (auto simp: exact_select_def res_bind_eq_Inr res_each_Inr)

lemma first_selectable_Inr:
  assumes "cx_read cx = ops" and "sinv (cx_state cx)" and "first_selectable cx ps = Inr r"
  shows "case r of
      None \<Rightarrow> \<forall>p\<in>set ps. \<not> selectable_for cx p
    | Some q \<Rightarrow> selectable_for cx q \<and> (\<exists>ys zs. ps = ys @ q # zs \<and> (\<forall>y\<in>set ys. \<not> selectable_for cx y))"
  using assms(3)
proof (induction ps)
  case Nil
  then show ?case by auto
next
  case (Cons p ps)
  then obtain ok where ok: "is_selectable_candidate cx p = Inr ok"
    by (auto simp: res_bind_eq_Inr)
  note iff = is_selectable_Inr [OF assms(1,2) ok]
  show ?case
  proof (cases ok)
    case True
    with Cons.prems ok iff show ?thesis by (fastforce intro: exI [of _ "[]"])
  next
    case False
    with Cons ok have IH: "case r of
        None \<Rightarrow> \<forall>p\<in>set ps. \<not> selectable_for cx p
      | Some q \<Rightarrow> selectable_for cx q \<and> (\<exists>ys zs. ps = ys @ q # zs \<and> (\<forall>y\<in>set ys. \<not> selectable_for cx y))"
      by simp
    show ?thesis
    proof (cases r)
      case None
      with IH False iff show ?thesis by simp
    next
      case (Some q)
      with IH obtain ys zs where "ps = ys @ q # zs" "\<forall>y\<in>set ys. \<not> selectable_for cx y" by auto
      then have "p # ps = (p # ys) @ q # zs" and "\<forall>y\<in>set (p # ys). \<not> selectable_for cx y"
        using False iff by simp_all
      moreover have "selectable_for cx q" using IH Some by simp
      ultimately show ?thesis unfolding Some option.case by blast
    qed
  qed
qed

lemma first_selectable_sound:
  assumes "cx_read cx = ops" and "sinv (cx_state cx)" and "first_selectable_select cx ps = Inr si"
  shows "\<exists>p ys zs. si_outpoints si = [p] \<and> selectable_for cx p \<and> ps = ys @ p # zs \<and>
    (\<forall>y\<in>set ys. \<not> selectable_for cx y)"
proof -
  obtain p where p: "first_selectable cx ps = Inr (Some p)"
    and fin: "candidate_inputs_finish cx [p] = Inr si"
    using assms(3) by (auto simp: first_selectable_select_def res_bind_eq_Inr ok_or_eq)
  show ?thesis
    using first_selectable_Inr [OF assms(1,2) p] candidate_finish_Inr [OF fin] by auto
qed

lemma select_inputs_sound:
  assumes "cx_read cx = ops" and "sinv (cx_state cx)" and "select_inputs cx spec = Inr si"
  shows "si_outpoints si \<noteq> [] \<and> (\<forall>p\<in>set (si_outpoints si). selectable_for cx p)"
proof (cases spec)
  case (TargetValue amount)
  with assms target_value_sound [OF assms(1,2)] show ?thesis by simp
next
  case (ExactOutpoints ps)
  with assms exact_sound [OF assms(1,2)] show ?thesis by simp
next
  case (FirstSelectable ps)
  with assms first_selectable_sound [OF assms(1,2), of ps si] show ?thesis by auto
qed

end

sublocale state_read_contract \<subseteq> selectors: utxo_selector ops sinv ledger_of select_inputs
  by unfold_locales (rule select_inputs_sound)

context reliable_store
begin

lemma reliable_list_utxos:
  assumes "sinv s"
  obtains us where "list_utxos ops s = Inr us"
  using list_utxos_law [OF assms] reliable_reads(7) [OF assms]
  by (auto simp: lists_as_def no_storage_error_def)

lemma reliable_collect_selectable:
  assumes "cx_read cx = ops" and "sinv (cx_state cx)"
  shows "\<exists>ps. collect_selectable cx us = Inr ps"
  using assms
  by (induction us) (auto simp: cx_is_policy_spendable_def reliable_read_eqs)

lemma reliable_selectable_utxos:
  assumes "cx_read cx = ops" and "sinv (cx_state cx)"
  obtains ps where "selectable_utxos cx = Inr ps"
  using reliable_list_utxos [OF assms(2)] reliable_collect_selectable [OF assms] assms(1)
  unfolding selectable_utxos_def by (metis res_bind_simps(2))

lemma reliable_accumulate:
  assumes "sinv s" and "\<forall>p\<in>set ps. lg_utxos (ledger_of s) p \<noteq> None"
  shows "\<exists>r. accumulate_loop ops s target acc sel ps = Inr r"
  using assms(2)
  by (induction ps arbitrary: acc sel) (auto simp: reliable_read_eqs [OF assms(1)] Let_def)

lemma reliable_sort:
  assumes "sinv s" and "\<forall>p\<in>set ps. lg_utxos (ledger_of s) p \<noteq> None"
  shows "\<exists>qs. sort_candidate_ids ops s spec ps = Inr qs"
proof -
  let ?f = "\<lambda>p. res_bind (get_utxo ops s p) (\<lambda>found.
      case found of None \<Rightarrow> Inl (CorruptedState
          (''selector candidate missing managed utxo: '' @ outpoint_string p))
      | Some u \<Rightarrow> Inr (selection_sort_key spec u, p))"
  let ?g = "\<lambda>p. (selection_sort_key spec (the (lg_utxos (ledger_of s) p)), p)"
  have "?f p = Inr (?g p)" if "p \<in> set ps" for p
    using assms that by (auto simp: reliable_read_eqs)
  then have "res_collect ?f ps = Inr (map ?g ps)" by (rule res_collect_pure)
  then show ?thesis by (auto simp: sort_candidate_ids_def)
qed

text \<open>
  The target-value selector finds a selection whenever the selectable outputs are worth enough.
\<close>

lemma target_value_complete:
  assumes cx: "cx_read cx = ops" "sinv (cx_state cx)"
    and scope: "preferred_scope cx = Inr sc"
    and P: "set P = {p. selectable_for cx p}" "distinct P" "P \<noteq> []"
    and enough: "unat amount \<le> sum_list (map (ledger_value (ledger_of (cx_state cx))) P)"
  shows "\<exists>si. target_value_select cx amount = Inr si"
proof -
  let ?L = "ledger_of (cx_state cx)"
  obtain ps where ps: "selectable_utxos cx = Inr ps" using reliable_selectable_utxos [OF cx] .
  note sel = selectable_utxos_Inr [OF cx ps]
  have known: "\<forall>p\<in>set ps. lg_utxos ?L p \<noteq> None" using sel(1) by (auto simp: selectable_in_def)
  obtain qs where qs: "sort_candidate_ids ops (cx_state cx) (TargetValue amount) ps = Inr qs"
    using reliable_sort [OF cx(2) known] by blast
  have qs_set: "set qs = set ps" "mset qs = mset ps"
    using sort_candidates_Inr(1) [OF cx(2) qs] by simp_all
  obtain r where r: "accumulate_loop ops (cx_state cx) amount 0 [] qs = Inr r"
    using reliable_accumulate [OF cx(2)] known qs_set by metis
  have "mset qs = mset P"
    using qs_set(2) sel P(1,2) by (metis set_eq_iff_mset_eq_distinct)
  then have "mset (map (ledger_value ?L) qs) = mset (map (ledger_value ?L) P)" by simp
  then have total: "unat amount \<le> sum_list (map (ledger_value ?L) qs)" and "qs \<noteq> []"
    using enough P(3) \<open>mset qs = mset P\<close> by (metis sum_mset_sum_list, auto)
  have "r \<noteq> None"
  proof
    assume "r = None"
    then have "sum_list (map (ledger_value ?L) (take (Suc (length qs - 1)) qs)) < unat amount"
      using accumulate_loop_Inr [OF cx(2) r] \<open>qs \<noteq> []\<close>
      by (auto dest!: spec [of _ "length qs - 1"])
    with total \<open>qs \<noteq> []\<close> show False by (cases qs) auto
  qed
  then show ?thesis
    using scope ps qs r cx(1) by (auto simp: target_value_select_def accumulate_by_value_def)
qed

end

end
