(* ===== verification/Selection_Request.thy ===== *)
theory Selection_Request
  imports Operation
begin

text \<open>
  The requests callers make and their translation into operation requests
  (\<open>txoscope-core/src/selection_request.rs\<close>).
\<close>

record btc_send_request =
  bs_operation_id :: operation_id
  bs_account_id :: account_id
  bs_amount_sats :: u64

record planned_exact_outpoints_request =
  pe_operation_id :: operation_id
  pe_account_id :: account_id
  pe_outpoints :: "outpoint list"

record planned_specific_outpoint_request =
  ps_operation_id :: operation_id
  ps_account_id :: account_id
  ps_outpoint :: outpoint
  ps_expires_at :: "u64 option"

record manual_reservation_exact_request =
  mx_reservation_id :: operation_id
  mx_account_id :: account_id
  mx_outpoint :: outpoint
  mx_expires_at :: u64

record manual_reservation_first_available_request =
  mf_reservation_id :: operation_id
  mf_account_id :: account_id
  mf_candidate_outpoints :: "outpoint list"
  mf_expires_at :: u64

datatype selection_request =
    BtcSendReq btc_send_request
  | PlannedExactOutpoints planned_exact_outpoints_request
  | PlannedSpecificOutpoint planned_specific_outpoint_request
  | ManualReservationExact manual_reservation_exact_request
  | ManualReservationFirstAvailable manual_reservation_first_available_request

text \<open>The constructors of the requests, and the builder method of the specific one.\<close>

definition btc_send_new :: "operation_id \<Rightarrow> account_id \<Rightarrow> u64 \<Rightarrow> btc_send_request" where
  "btc_send_new i a amount = \<lparr>bs_operation_id = i, bs_account_id = a, bs_amount_sats = amount\<rparr>"

definition planned_exact_outpoints_new ::
  "operation_id \<Rightarrow> account_id \<Rightarrow> outpoint list \<Rightarrow> planned_exact_outpoints_request" where
  "planned_exact_outpoints_new i a ps = \<lparr>pe_operation_id = i, pe_account_id = a, pe_outpoints = ps\<rparr>"

definition manual_reservation_exact_new ::
  "operation_id \<Rightarrow> account_id \<Rightarrow> outpoint \<Rightarrow> u64 \<Rightarrow> manual_reservation_exact_request" where
  "manual_reservation_exact_new i a p t =
     \<lparr>mx_reservation_id = i, mx_account_id = a, mx_outpoint = p, mx_expires_at = t\<rparr>"

definition manual_reservation_first_available_new ::
  "operation_id \<Rightarrow> account_id \<Rightarrow> outpoint list \<Rightarrow> u64 \<Rightarrow> manual_reservation_first_available_request" where
  "manual_reservation_first_available_new i a ps t =
     \<lparr>mf_reservation_id = i, mf_account_id = a, mf_candidate_outpoints = ps, mf_expires_at = t\<rparr>"

definition planned_specific_outpoint_new ::
  "operation_id \<Rightarrow> account_id \<Rightarrow> outpoint \<Rightarrow> planned_specific_outpoint_request" where
  "planned_specific_outpoint_new i a p =
     \<lparr>ps_operation_id = i, ps_account_id = a, ps_outpoint = p, ps_expires_at = None\<rparr>"

definition planned_specific_expires_at ::
  "u64 \<Rightarrow> planned_specific_outpoint_request \<Rightarrow> planned_specific_outpoint_request" where
  "planned_specific_expires_at t req = req\<lparr>ps_expires_at := Some t\<rparr>"

definition operation_request_new ::
  "operation_id \<Rightarrow> account_id \<Rightarrow> input_selection_spec \<Rightarrow> capability_set \<Rightarrow> operation_purpose \<Rightarrow>
   u64 option \<Rightarrow> operation_request" where
  "operation_request_new i a spec caps purpose expires =
     \<lparr>or_operation_id = i,
      or_selection = \<lparr>isr_account_id = a, isr_spec = spec, isr_required_capabilities = caps\<rparr>,
      or_locking = \<lparr>slp_purpose = purpose, slp_expires_at = expires\<rparr>\<rparr>"

fun into_operation_request :: "selection_request \<Rightarrow> operation_request" where
  "into_operation_request (BtcSendReq req) =
     operation_request_new (bs_operation_id req) (bs_account_id req)
       (TargetValue (bs_amount_sats req)) (required_capabilities BtcSendLock) BtcSend None"
| "into_operation_request (PlannedExactOutpoints req) =
     operation_request_new (pe_operation_id req) (pe_account_id req)
       (ExactOutpoints (pe_outpoints req)) (required_capabilities PlannedSelectionLock)
       PlannedSelection None"
| "into_operation_request (PlannedSpecificOutpoint req) =
     operation_request_new (ps_operation_id req) (ps_account_id req)
       (ExactOutpoints [ps_outpoint req]) (required_capabilities PlannedSelectionLock)
       PlannedSelection (ps_expires_at req)"
| "into_operation_request (ManualReservationExact req) =
     operation_request_new (mx_reservation_id req) (mx_account_id req)
       (ExactOutpoints [mx_outpoint req]) (required_capabilities ManualReservation)
       ManualReservationPurpose (Some (mx_expires_at req))"
| "into_operation_request (ManualReservationFirstAvailable req) =
     operation_request_new (mf_reservation_id req) (mf_account_id req)
       (FirstSelectable (sort_key outpoint_string (mf_candidate_outpoints req)))
       (required_capabilities ManualReservation) ManualReservationPurpose (Some (mf_expires_at req))"

text \<open>
  Every request asks of the account and scope exactly what its locks will require, so a proposal
  that passes the eligibility check passes the capability check of its effects.
\<close>

lemma request_capabilities:
  "isr_required_capabilities (or_selection (into_operation_request req)) =
     required_capabilities (lock_purpose_of (slp_purpose (or_locking (into_operation_request req))))"
  by (cases req) (simp_all add: operation_request_new_def)

text \<open>The order in which manual candidates are tried does not depend on the order they came in.\<close>

lemma manual_candidates_order:
  assumes "mset ps = mset qs"
  shows "sort_key outpoint_string ps = sort_key outpoint_string qs"
proof (rule properties_for_sort_key)
  show "mset (sort_key outpoint_string qs) = mset ps" using assms by simp
  have one: "filter (\<lambda>x. outpoint_string x = k) xs = replicate (count (mset xs) p) p"
    if "outpoint_string p = k" for k p and xs :: "outpoint list"
    using that by (induction xs) auto
  show "filter (\<lambda>x. outpoint_string p = outpoint_string x) (sort_key outpoint_string qs) =
      filter (\<lambda>x. outpoint_string p = outpoint_string x) ps"
    if "p \<in> set (sort_key outpoint_string qs)" for p
    using one [of p "outpoint_string p"] assms by (simp add: eq_commute)
qed simp

end
