(* ===== verification/Utxo_Status.thy ===== *)
theory Utxo_Status
  imports Operation
begin

text \<open>
  Read-only diagnostics of a managed output (\<open>txoscope-core/src/utxo_status.rs\<close>).
\<close>

record utxo_lock_status =
  uls_operation_id :: operation_id
  uls_purpose :: lock_purpose
  uls_expires_at :: "u64 option"

record utxo_status =
  us_outpoint :: outpoint
  us_account_id :: account_id
  us_scope_id :: wallet_scope_id
  us_value_sats :: u64
  us_onchain_state :: onchain_state
  us_availability :: availability
  us_operation :: "operation_binding option"
  us_lock :: "utxo_lock_status option"
  us_unavailable_reason :: "domain_error option"

definition status_is_selectable :: "utxo_status \<Rightarrow> bool" where
  "status_is_selectable st \<longleftrightarrow> us_unavailable_reason st = None"

definition unavailable_text :: "managed_utxo \<Rightarrow> operation_lock option \<Rightarrow> string" where
  "unavailable_text utxo lock =
     (case mu_operation_binding utxo of
        Some binding \<Rightarrow>
          ''input is owned by operation '' @ operation_id_str (bd_operation_id binding) @ '' ('' @
          phase_debug (bd_phase binding) @ '')''
      | None \<Rightarrow>
          if lock \<noteq> None then ''input has an active lock''
          else (case mu_observation_conflict utxo of
                  Some conflict \<Rightarrow> ''input has conflicting observations: '' @ oc_message conflict
                | None \<Rightarrow>
                    ''input is not spendable (availability: '' @
                    availability_debug (mu_availability utxo) @ '', on-chain state: '' @
                    onchain_debug (mu_onchain_state utxo) @ '')''))"

definition status_from_records :: "managed_utxo \<Rightarrow> operation_lock option \<Rightarrow> utxo_status" where
  "status_from_records utxo lock =
     \<lparr>us_outpoint = mu_outpoint utxo, us_account_id = mu_account_id utxo,
      us_scope_id = mu_scope_id utxo, us_value_sats = mu_value_sats utxo,
      us_onchain_state = mu_onchain_state utxo, us_availability = mu_availability utxo,
      us_operation = mu_operation_binding utxo,
      us_lock = map_option (\<lambda>l. \<lparr>uls_operation_id = lk_operation_id l, uls_purpose = lk_purpose l,
        uls_expires_at = lk_expires_at l\<rparr>) lock,
      us_unavailable_reason =
        (if can_be_locked utxo (lock \<noteq> None) then None
         else Some (UtxoPolicyBlocked (mu_outpoint utxo) (unavailable_text utxo lock)))\<rparr>"

lemma status_selectable_iff:
  "status_is_selectable (status_from_records u lock) \<longleftrightarrow> is_policy_spendable u \<and> lock = None"
  by (simp add: status_is_selectable_def status_from_records_def can_be_locked_def)

lemma status_fields [simp]:
  "us_outpoint (status_from_records u lock) = mu_outpoint u"
  "us_account_id (status_from_records u lock) = mu_account_id u"
  "us_scope_id (status_from_records u lock) = mu_scope_id u"
  "us_value_sats (status_from_records u lock) = mu_value_sats u"
  by (simp_all add: status_from_records_def)

text \<open>
  When an output is not selectable, the reason names the first obstacle: an owner before a lock, a
  lock before conflicting observations, and those before its own state.
\<close>

lemma unavailable_reason_priority:
  assumes "\<not> status_is_selectable (status_from_records u lock)"
  shows "us_unavailable_reason (status_from_records u lock) =
    Some (UtxoPolicyBlocked (mu_outpoint u) (unavailable_text u lock))"
  using assms by (simp add: status_is_selectable_def status_from_records_def split: if_splits)

end
