(* ===== verification/Reconciliation.thy ===== *)
theory Reconciliation
  imports Ledger_Invariants
begin

text \<open>
  The reconciliation planner (\<open>txoscope-core/src/reconciliation.rs\<close>): from the stored outputs and
  an observation snapshot it computes the actions a store applies. What keeps custody and what makes an output
  spendable is read off the actions, for every snapshot, also one that reports an outpoint several times
  (\<open>plan_warranted\<close>, \<open>slot_custody\<close>). When no outpoint is reported twice, the plan moreover acts on every
  slot on its own (\<open>plan_by_slot\<close>), which keeps the availabilities consistent and makes reconciling converge.
\<close>

section \<open>The planner\<close>

definition observed_mismatch_message :: "managed_utxo \<Rightarrow> observed_utxo \<Rightarrow> string option" where
  "observed_mismatch_message managed observed =
     (let mismatches =
        (if mu_value_sats managed \<noteq> ob_value_sats observed
         then [''value_sats(local='' @ show_nat (unat (mu_value_sats managed)) @ '', observed='' @
               show_nat (unat (ob_value_sats observed)) @ '')''] else []) @
        (if mu_account_id managed \<noteq> ob_account_id observed
         then [''account_id(local='' @ account_id_str (mu_account_id managed) @ '', observed='' @
               account_id_str (ob_account_id observed) @ '')''] else []) @
        (if mu_scope_id managed \<noteq> ob_scope_id observed
         then [''scope_id(local='' @ wallet_scope_id_str (mu_scope_id managed) @ '', observed='' @
               wallet_scope_id_str (ob_scope_id observed) @ '')''] else [])
      in if mismatches = [] then None
         else Some (''Observed metadata mismatch: '' @ join_with '', '' mismatches))"

text \<open>\<open>bool::then_some\<close>.\<close>

definition then_some :: "bool \<Rightarrow> 'a \<Rightarrow> 'a option" where
  "then_some c x = (if c then Some x else None)"

definition restored_unspent_availability ::
  "managed_utxo \<Rightarrow> observed_utxo \<Rightarrow> bool \<Rightarrow> availability option" where
  "restored_unspent_availability managed observed has_mismatch =
     (if mu_onchain_state managed = Spent then None
      else if mu_onchain_state managed = SpendingInFlight
      then then_some (mu_availability managed \<noteq> BlockedByL2) BlockedByL2
      else if mu_operation_binding managed \<noteq> None
      then then_some (mu_availability managed = Recovering) Reserved
      else if has_mismatch
      then then_some (mu_availability managed \<noteq> BlockedByPolicy) BlockedByPolicy
      else
        let desired = availability_of_confirmation (ob_confirmation observed);
            can_restore = (mu_availability managed = Recovering \<or>
              mu_availability managed = BlockedByPolicy \<or> mu_availability managed = Selectable)
        in then_some (can_restore \<and> mu_availability managed \<noteq> desired) desired)"

text \<open>The body of the loop over the observations, given the stored output it matched.\<close>

definition unspent_actions :: "u64 \<Rightarrow> managed_utxo \<Rightarrow> observed_utxo \<Rightarrow> reconciliation_action list" where
  "unspent_actions timestamp managed observed =
     (if mu_onchain_state managed = Spent then []
      else
        let p = mu_outpoint managed;
            mismatch = observed_mismatch_message managed observed;
            new_state = onchain_of_confirmation (ob_confirmation observed)
        in (case mismatch of Some message \<Rightarrow> [ReportConflict p message timestamp] | None \<Rightarrow> []) @
           (case restored_unspent_availability managed observed (mismatch \<noteq> None) of
              Some av \<Rightarrow> [UpdateAvailability p av] | None \<Rightarrow> []) @
           (if mu_observation_conflict managed \<noteq> None \<and> mismatch = None
            then [ClearConflict p] else []) @
           (if mu_onchain_state managed \<noteq> SpendingInFlight \<and> mu_onchain_state managed \<noteq> new_state
            then [UpdateOnchainState p new_state] else []))"

definition observation_actions ::
  "u64 \<Rightarrow> managed_utxo option \<Rightarrow> observed_utxo \<Rightarrow> reconciliation_action list" where
  "observation_actions timestamp found observed =
     (case found of
        None \<Rightarrow>
          (case ob_spend_status observed of
             SpendUnspent \<Rightarrow> [DiscoverNew observed] | _ \<Rightarrow> [])
      | Some managed \<Rightarrow>
          (case ob_spend_status observed of
             SpendSpent tx \<Rightarrow>
               if mu_onchain_state managed \<noteq> Spent
               then (if mu_availability managed = Reserved
                     then [ReportConflict (mu_outpoint managed)
                             (''Reserved UTXO spent by '' @ tx) timestamp] else []) @
                    [MarkSpent (mu_outpoint managed) tx]
               else []
           | SpendMissing \<Rightarrow>
               if mu_onchain_state managed \<noteq> Spent
               then (if mu_availability managed = Reserved
                     then [ReportConflict (mu_outpoint managed)
                             ''Reserved UTXO explicitly reported as missing'' timestamp] else []) @
                    [MarkMissing (mu_outpoint managed)]
               else []
           | SpendUnspent \<Rightarrow> unspent_actions timestamp managed observed
           | SpendUnknown \<Rightarrow> []))"

definition missing_actions ::
  "observation_snapshot \<Rightarrow> managed_utxo \<Rightarrow> reconciliation_action list" where
  "missing_actions snapshot managed =
     (if mu_onchain_state managed \<noteq> Spent \<and> mu_availability managed \<noteq> Recovering \<and>
         mu_onchain_state managed \<noteq> SpendingInFlight
      then let in_snapshot =
             list_ex (\<lambda>ob. ob_outpoint ob = mu_outpoint managed) (sn_utxos snapshot)
           in if \<not> in_snapshot
              then (if mu_availability managed = Reserved
                    then [ReportConflict (mu_outpoint managed)
                            ''Reserved UTXO missing from full snapshot'' (sn_timestamp snapshot)]
                    else []) @ [MarkMissing (mu_outpoint managed)]
              else []
      else [])"

definition plan_actions ::
  "managed_utxo list \<Rightarrow> observation_snapshot \<Rightarrow> reconciliation_action list" where
  "plan_actions managed_utxos snapshot =
     concat (map (\<lambda>ob. observation_actions (sn_timestamp snapshot)
               (find (\<lambda>u. mu_outpoint u = ob_outpoint ob) managed_utxos) ob) (sn_utxos snapshot)) @
     (if sn_scope snapshot = FullScope
      then concat (map (missing_actions snapshot) managed_utxos) else [])"

definition plan_reconciliation ::
  "('s, 'z) state_read_scheme \<Rightarrow> 's \<Rightarrow> observation_snapshot \<Rightarrow> reconcile_plan result" where
  "plan_reconciliation ops s snapshot =
     res_bind (list_utxos ops s) (\<lambda>managed_utxos.
       Inr \<lparr>rp_actions = plan_actions managed_utxos snapshot\<rparr>)"

section \<open>One slot at a time\<close>

definition slot_action ::
  "reconciliation_action \<Rightarrow> managed_utxo option \<times> operation_lock option \<Rightarrow>
   managed_utxo option \<times> operation_lock option" where
  "slot_action a x = (action_effect a (fst x), if clears_lock a then None else snd x)"

lemma slot_action_Some:
  "slot_action a (Some u, lk) = (Some (update_managed a u), if clears_lock a then None else lk)"
  by (simp add: slot_action_def)

lemma fold_actions_slot:
  "(fst (fold ledger_apply_action as h) p, snd (fold ledger_apply_action as h) p) =
     fold slot_action (filter (\<lambda>a. action_outpoint a = p) as) (fst h p, snd h p)"
proof (induction as arbitrary: h)
  case Nil
  then show ?case by simp
next
  case (Cons a as)
  show ?case using Cons.IH [of "ledger_apply_action a h"]
    by (auto simp: ledger_apply_action_def slot_action_def Let_def)
qed

text \<open>What the planner does to the slot of an outpoint.\<close>

definition slot_plan ::
  "observation_snapshot \<Rightarrow> outpoint \<Rightarrow> managed_utxo option \<Rightarrow> reconciliation_action list" where
  "slot_plan snapshot p found =
     (case find (\<lambda>ob. ob_outpoint ob = p) (sn_utxos snapshot) of
        Some ob \<Rightarrow> observation_actions (sn_timestamp snapshot) found ob
      | None \<Rightarrow>
          (case found of
             None \<Rightarrow> []
           | Some u \<Rightarrow> if sn_scope snapshot = FullScope then missing_actions snapshot u else []))"

definition reconciled_slot ::
  "observation_snapshot \<Rightarrow> outpoint \<Rightarrow> managed_utxo option \<times> operation_lock option \<Rightarrow>
   managed_utxo option \<times> operation_lock option" where
  "reconciled_slot snapshot p x = fold slot_action (slot_plan snapshot p (fst x)) x"

lemma observation_actions_outpoint:
  "(\<And>u. found = Some u \<Longrightarrow> mu_outpoint u = ob_outpoint ob) \<Longrightarrow>
    a \<in> set (observation_actions t found ob) \<Longrightarrow> action_outpoint a = ob_outpoint ob"
  by (auto simp: observation_actions_def unspent_actions_def Let_def
      split: option.splits observed_spend_status.splits if_splits)

lemma missing_actions_outpoint:
  "a \<in> set (missing_actions sn u) \<Longrightarrow> action_outpoint a = mu_outpoint u"
  by (auto simp: missing_actions_def Let_def split: if_splits)

text \<open>In a concatenation over distinct keys, the elements of one key are its own list.\<close>

lemma filter_concat_key:
  assumes "distinct (map key xs)" and "\<And>x a. x \<in> set xs \<Longrightarrow> a \<in> set (f x) \<Longrightarrow> tag a = key x"
  shows "filter (\<lambda>a. tag a = k) (concat (map f xs)) =
    (case find (\<lambda>x. key x = k) xs of None \<Rightarrow> [] | Some x \<Rightarrow> f x)"
  using assms
proof (induction xs)
  case Nil
  then show ?case by simp
next
  case (Cons x xs)
  have own: "filter (\<lambda>a. tag a = k) (f x) = (if key x = k then f x else [])"
    using Cons.prems(2) [of x] by (auto simp: filter_id_conv filter_empty_conv)
  have rest: "filter (\<lambda>a. tag a = k) (concat (map f xs)) =
      (case find (\<lambda>x. key x = k) xs of None \<Rightarrow> [] | Some x \<Rightarrow> f x)"
    by (rule Cons.IH) (use Cons.prems in auto)
  have none: "find (\<lambda>y. key y = k) xs = None" if "key x = k"
    using Cons.prems(1) that unfolding find_None_iff by (metis distinct.simps(2) image_eqI list.simps(9) set_map)
  show ?case
    unfolding list.map concat.simps filter_append own rest by (auto simp: none)
qed

text \<open>A listing of a ledger's outputs, searched by outpoint.\<close>

definition lists_utxos :: "managed_utxo list \<Rightarrow> ledger \<Rightarrow> bool" where
  "lists_utxos us L \<longleftrightarrow> distinct us \<and> set us = ran (lg_utxos L)"

lemma lists_utxos_distinct:
  assumes "ledger_wf L" and "lists_utxos us L"
  shows "distinct (map mu_outpoint us)"
  using assms by (auto simp: lists_utxos_def ledger_wf_def distinct_map inj_on_def ran_def)

lemma lists_utxos_find:
  assumes "ledger_wf L" and "lists_utxos us L"
  shows "find (\<lambda>u. mu_outpoint u = p) us = lg_utxos L p"
proof (cases "lg_utxos L p")
  case None
  then show ?thesis
    using assms by (auto simp: find_None_iff lists_utxos_def ledger_wf_def ran_def)
next
  case (Some u)
  then have "u \<in> set us" and "mu_outpoint u = p"
    using assms by (auto simp: lists_utxos_def ledger_wf_def intro: ranI)
  moreover have "v = u" if "v \<in> set us" "mu_outpoint v = p" for v
    using that assms Some by (auto simp: lists_utxos_def ledger_wf_def ran_def)
  ultimately obtain v where "find (\<lambda>u. mu_outpoint u = p) us = Some v"
    using find_None_iff [of "\<lambda>u. mu_outpoint u = p" us] by blast
  with \<open>\<And>v. v \<in> set us \<Longrightarrow> mu_outpoint v = p \<Longrightarrow> v = u\<close> Some show ?thesis
    by (metis (mono_tags, lifting) find_Some_iff nth_mem)
qed

lemma plan_by_slot:
  assumes "ledger_wf L" and "lists_utxos us L" and "distinct (map ob_outpoint (sn_utxos sn))"
  shows "filter (\<lambda>a. action_outpoint a = p) (plan_actions us sn) = slot_plan sn p (lg_utxos L p)"
proof -
  note found = lists_utxos_find [OF assms(1,2)]
  have seen: "filter (\<lambda>a. action_outpoint a = p)
      (concat (map (\<lambda>ob. observation_actions (sn_timestamp sn) (lg_utxos L (ob_outpoint ob)) ob)
        (sn_utxos sn))) =
    (case find (\<lambda>ob. ob_outpoint ob = p) (sn_utxos sn) of None \<Rightarrow> []
     | Some ob \<Rightarrow> observation_actions (sn_timestamp sn) (lg_utxos L (ob_outpoint ob)) ob)"
    by (rule filter_concat_key [OF assms(3)])
      (rule observation_actions_outpoint, use assms(1) in \<open>auto simp: ledger_wf_def\<close>)
  have unseen: "filter (\<lambda>a. action_outpoint a = p) (concat (map (missing_actions sn) us)) =
    (case lg_utxos L p of None \<Rightarrow> [] | Some u \<Rightarrow> missing_actions sn u)"
    using filter_concat_key [OF lists_utxos_distinct [OF assms(1,2)], of "missing_actions sn"
        action_outpoint p] missing_actions_outpoint by (auto simp: found)
  have hit: "ob_outpoint ob = p \<and> ob \<in> set (sn_utxos sn)"
    if "find (\<lambda>ob. ob_outpoint ob = p) (sn_utxos sn) = Some ob" for ob
    using that by (auto simp: find_Some_iff)
  have skip: "missing_actions sn u = []"
    if "find (\<lambda>ob. ob_outpoint ob = p) (sn_utxos sn) = Some ob" "lg_utxos L p = Some u" for ob u
    using hit [OF that(1)] that(2) assms(1)
    by (auto simp: missing_actions_def list_ex_iff ledger_wf_def)
  have plan: "filter (\<lambda>a. action_outpoint a = p) (plan_actions us sn) =
    (case find (\<lambda>ob. ob_outpoint ob = p) (sn_utxos sn) of None \<Rightarrow> []
     | Some ob \<Rightarrow> observation_actions (sn_timestamp sn) (lg_utxos L (ob_outpoint ob)) ob) @
    (if sn_scope sn = FullScope
     then case lg_utxos L p of None \<Rightarrow> [] | Some u \<Rightarrow> missing_actions sn u else [])"
    by (simp only: plan_actions_def found filter_append seen)
      (simp only: unseen filter.simps split: if_split, simp)
  show ?thesis
  proof (cases "find (\<lambda>ob. ob_outpoint ob = p) (sn_utxos sn)")
    case None
    then show ?thesis by (simp add: plan slot_plan_def split: option.split)
  next
    case (Some ob)
    then show ?thesis
      using hit [OF Some] skip [OF Some]
      by (cases "lg_utxos L p") (simp_all add: plan slot_plan_def)
  qed
qed

lemma reconciled_by_slot:
  assumes "ledger_wf L" and "lists_utxos us L" and "distinct (map ob_outpoint (sn_utxos sn))"
    and "ledger_apply_reconciliation \<lparr>rp_actions = plan_actions us sn\<rparr> L = (r, L')"
  shows "(lg_utxos L' p, lg_locks L' p) = reconciled_slot sn p (lg_utxos L p, lg_locks L p)"
  using assms(4) fold_actions_slot [of "plan_actions us sn" "(lg_utxos L, lg_locks L)" p]
  by (auto simp: ledger_apply_reconciliation_def reconciled_slot_def Let_def
      plan_by_slot [OF assms(1-3)])

section \<open>The slot after a reconciliation\<close>

text \<open>The output an unspent observation leaves, in closed form.\<close>

definition report_conflict :: "string \<Rightarrow> u64 \<Rightarrow> managed_utxo \<Rightarrow> managed_utxo" where
  "report_conflict m t u = u\<lparr>mu_observation_conflict := Some \<lparr>oc_message = m, oc_recorded_at = t\<rparr>\<rparr>"

definition observed_conflict ::
  "u64 \<Rightarrow> managed_utxo \<Rightarrow> observed_utxo \<Rightarrow> observation_conflict option" where
  "observed_conflict t u ob =
     map_option (\<lambda>m. \<lparr>oc_message = m, oc_recorded_at = t\<rparr>) (observed_mismatch_message u ob)"

definition unspent_result :: "u64 \<Rightarrow> managed_utxo \<Rightarrow> observed_utxo \<Rightarrow> managed_utxo" where
  "unspent_result t u ob =
     (if mu_onchain_state u = Spent then u
      else u\<lparr>mu_observation_conflict := observed_conflict t u ob,
             mu_availability :=
               (case restored_unspent_availability u ob (observed_mismatch_message u ob \<noteq> None) of
                  None \<Rightarrow> mu_availability u | Some av \<Rightarrow> av),
             mu_onchain_state :=
               (if mu_onchain_state u = SpendingInFlight then SpendingInFlight
                else onchain_of_confirmation (ob_confirmation ob))\<rparr>)"

definition missed_result :: "string \<Rightarrow> u64 \<Rightarrow> managed_utxo \<Rightarrow> managed_utxo" where
  "missed_result m t u =
     mark_missing (if mu_availability u = Reserved then report_conflict m t u else u)"

definition spent_result :: "string \<Rightarrow> u64 \<Rightarrow> managed_utxo \<Rightarrow> managed_utxo" where
  "spent_result tx t u =
     mark_spent (if mu_availability u = Reserved
       then report_conflict (''Reserved UTXO spent by '' @ tx) t u else u)"

lemma fold_unspent_actions:
  "fold slot_action (unspent_actions t u ob) (Some u, lk) = (Some (unspent_result t u ob), lk)"
proof (cases "mu_onchain_state u = Spent")
  case True
  then show ?thesis by (simp add: unspent_actions_def unspent_result_def)
next
  case False
  then show ?thesis
    by (cases "observed_mismatch_message u ob"; cases "mu_observation_conflict u")
      (auto simp: unspent_actions_def unspent_result_def slot_action_def Let_def
        observed_conflict_def split: option.split)
qed

lemma reconciled_unspent:
  "find (\<lambda>ob. ob_outpoint ob = p) (sn_utxos sn) = Some ob \<Longrightarrow> ob_spend_status ob = SpendUnspent \<Longrightarrow>
    reconciled_slot sn p (Some u, lk) = (Some (unspent_result (sn_timestamp sn) u ob), lk)"
  by (simp add: reconciled_slot_def slot_plan_def observation_actions_def fold_unspent_actions)

lemma reconciled_spent:
  "find (\<lambda>ob. ob_outpoint ob = p) (sn_utxos sn) = Some ob \<Longrightarrow> ob_spend_status ob = SpendSpent tx \<Longrightarrow>
    reconciled_slot sn p (Some u, lk) =
      (if mu_onchain_state u = Spent then (Some u, lk)
       else (Some (spent_result tx (sn_timestamp sn) u), None))"
  by (simp add: reconciled_slot_def slot_plan_def observation_actions_def slot_action_def
      spent_result_def report_conflict_def)

lemma reconciled_reported_missing:
  "find (\<lambda>ob. ob_outpoint ob = p) (sn_utxos sn) = Some ob \<Longrightarrow> ob_spend_status ob = SpendMissing \<Longrightarrow>
    reconciled_slot sn p (Some u, lk) =
      (if mu_onchain_state u = Spent then (Some u, lk)
       else (Some (missed_result ''Reserved UTXO explicitly reported as missing''
               (sn_timestamp sn) u), lk))"
  by (simp add: reconciled_slot_def slot_plan_def observation_actions_def slot_action_def
      missed_result_def report_conflict_def)

lemma reconciled_unknown:
  "find (\<lambda>ob. ob_outpoint ob = p) (sn_utxos sn) = Some ob \<Longrightarrow> ob_spend_status ob = SpendUnknown \<Longrightarrow>
    reconciled_slot sn p (x, lk) = (x, lk)"
  by (cases x) (simp_all add: reconciled_slot_def slot_plan_def observation_actions_def)

lemma reconciled_discovered:
  "find (\<lambda>ob. ob_outpoint ob = p) (sn_utxos sn) = Some ob \<Longrightarrow>
    reconciled_slot sn p (None, lk) =
      (if ob_spend_status ob = SpendUnspent then (Some (discovered ob), lk) else (None, lk))"
  by (cases "ob_spend_status ob")
    (simp_all add: reconciled_slot_def slot_plan_def observation_actions_def slot_action_def)

lemma reconciled_absent:
  assumes "find (\<lambda>ob. ob_outpoint ob = p) (sn_utxos sn) = None" and "mu_outpoint u = p"
  shows "reconciled_slot sn p (Some u, lk) =
      (if sn_scope sn = FullScope \<and> mu_onchain_state u \<notin> {Spent, SpendingInFlight} \<and>
          mu_availability u \<noteq> Recovering
       then (Some (missed_result ''Reserved UTXO missing from full snapshot'' (sn_timestamp sn) u), lk)
       else (Some u, lk))"
proof -
  have "\<not> list_ex (\<lambda>ob. ob_outpoint ob = mu_outpoint u) (sn_utxos sn)"
    using assms by (auto simp: find_None_iff list_ex_iff)
  with assms(1) show ?thesis
    by (simp add: reconciled_slot_def slot_plan_def missing_actions_def slot_action_def
        missed_result_def report_conflict_def Let_def)
qed

lemma reconciled_unknown_absent:
  "find (\<lambda>ob. ob_outpoint ob = p) (sn_utxos sn) = None \<Longrightarrow>
    reconciled_slot sn p (None, lk) = (None, lk)"
  by (simp add: reconciled_slot_def slot_plan_def)

text \<open>The cases of a slot, for proofs about every snapshot.\<close>

lemmas reconciled_cases =
  reconciled_unspent reconciled_spent reconciled_reported_missing reconciled_unknown
  reconciled_discovered reconciled_absent reconciled_unknown_absent

section \<open>Reconciling keeps the invariant\<close>

text \<open>
  What follows holds for every snapshot, one that names an output several times included: it is read off
  the actions of the plan one by one.
\<close>

text \<open>What the planner never asks for, and what it asks for only on evidence.\<close>

definition warranted :: "observation_snapshot \<Rightarrow> reconciliation_action \<Rightarrow> bool" where
  "warranted sn a \<longleftrightarrow>
     (\<forall>p st. a = UpdateOnchainState p st \<longrightarrow> st \<noteq> Spent) \<and>
     (\<forall>p tx. a = MarkSpent p tx \<longrightarrow>
        (\<exists>ob\<in>set (sn_utxos sn). ob_outpoint ob = p \<and> ob_spend_status ob = SpendSpent tx))"

lemma observation_actions_warranted:
  assumes "a \<in> set (observation_actions t found ob)" and "ob \<in> set (sn_utxos sn)"
    and "\<And>u. found = Some u \<Longrightarrow> mu_outpoint u = ob_outpoint ob"
  shows "warranted sn a"
  using assms
  by (cases "ob_confirmation ob")
    (auto simp: observation_actions_def unspent_actions_def warranted_def Let_def
      split: option.splits observed_spend_status.splits if_splits)

lemma missing_actions_warranted: "a \<in> set (missing_actions sn u) \<Longrightarrow> warranted sn' a"
  by (auto simp: missing_actions_def warranted_def Let_def split: if_splits)

lemma find_outpoint: "find (\<lambda>u. mu_outpoint u = p) us = Some u \<Longrightarrow> mu_outpoint u = p"
  by (auto simp: find_Some_iff)

lemma plan_warranted:
  assumes "a \<in> set (plan_actions us sn)"
  shows "warranted sn a"
proof -
  have "(\<exists>ob\<in>set (sn_utxos sn). a \<in> set (observation_actions (sn_timestamp sn)
      (find (\<lambda>u. mu_outpoint u = ob_outpoint ob) us) ob)) \<or> (\<exists>u. a \<in> set (missing_actions sn u))"
    using assms unfolding plan_actions_def set_append set_concat set_map by (auto split: if_split_asm)
  then show ?thesis
  proof (elim disjE bexE exE)
    fix ob
    assume "ob \<in> set (sn_utxos sn)"
      and "a \<in> set (observation_actions (sn_timestamp sn) (find (\<lambda>u. mu_outpoint u = ob_outpoint ob) us) ob)"
    then show ?thesis by (intro observation_actions_warranted [OF _ _ find_outpoint]) auto
  qed (rule missing_actions_warranted)
qed

lemma custody_identity:
  assumes "custody_ok L p u b lk" and "utxo_identity u' = utxo_identity u"
    and "mu_onchain_state u = SpendingInFlight \<Longrightarrow> mu_onchain_state u' = SpendingInFlight"
  shows "custody_ok L p u' b lk"
  using assms by (auto simp: custody_ok_def utxo_identity_def)

lemma slot_ok_replace:
  assumes "slot_ok L p (Some u) lk" and "utxo_ok u'" and "utxo_identity u' = utxo_identity u"
    and "mu_operation_binding u' = mu_operation_binding u"
    and "mu_onchain_state u = SpendingInFlight \<Longrightarrow> mu_onchain_state u' = SpendingInFlight"
  shows "slot_ok L p (Some u') lk"
  using assms custody_identity [of L p u _ lk u'] by (auto simp: slot_ok_def split: option.splits)

lemma utxo_identity_updates [simp]:
  "utxo_identity (u\<lparr>mu_onchain_state := st\<rparr>) = utxo_identity u"
  "utxo_identity (u\<lparr>mu_observation_conflict := c\<rparr>) = utxo_identity u"
  "utxo_identity (u\<lparr>mu_availability := av\<rparr>) = utxo_identity u"
  by (simp_all add: utxo_identity_def)

lemma slot_ok_action:
  assumes ok: "slot_ok L p (fst x) (snd x)" and "warranted sn a"
  shows "slot_ok L p (fst (slot_action a x)) (snd (slot_action a x))"
proof (cases "fst x")
  case None
  then have "snd x = None" using ok by (simp add: slot_ok_def)
  moreover have "slot_ok L p (Some (discovered ob)) None" for ob
    by (rule slot_ok_unbound) (auto simp: discovered_def discover_from_observed_def utxo_ok_def)
  ultimately show ?thesis
    using None by (cases a) (auto simp: slot_action_def slot_ok_def [of _ _ None])
next
  case (Some u)
  then have here: "slot_ok L p (Some u) (snd x)" and u: "utxo_ok u" using ok by (simp_all add: slot_ok_def)
  have "slot_ok L p (Some (mark_spent u)) None" by (rule slot_ok_unbound) auto
  moreover have "slot_ok L p (Some (update_managed a u)) (snd x)" if "\<not> clears_lock a"
    by (rule slot_ok_replace [OF here]; cases a)
      (use that u assms(2) in \<open>auto simp: utxo_ok_def warranted_def mark_missing_def\<close>)
  ultimately show ?thesis
    using Some by (cases a) (auto simp: slot_action_def simp del: update_managed.simps(1,3-))
qed

lemma slot_ok_actions:
  assumes "slot_ok L p (fst x) (snd x)" and "\<And>a. a \<in> set as \<Longrightarrow> warranted sn a"
  shows "slot_ok L p (fst (fold slot_action as x)) (snd (fold slot_action as x))"
  using assms
proof (induction as arbitrary: x)
  case (Cons a as)
  have "slot_ok L p (fst (slot_action a x)) (snd (slot_action a x))"
    using Cons.prems by (intro slot_ok_action) auto
  with Cons.IH Cons.prems(2) show ?case by simp
qed simp

lemma reconciled_slots:
  assumes "ledger_apply_reconciliation plan L = (r, L')"
  shows "(lg_utxos L' p, lg_locks L' p) =
    fold slot_action (filter (\<lambda>a. action_outpoint a = p) (rp_actions plan)) (lg_utxos L p, lg_locks L p)"
  using assms fold_actions_slot [of "rp_actions plan" "(lg_utxos L, lg_locks L)" p]
  by (auto simp: ledger_apply_reconciliation_def Let_def)

lemma holdings_ok_reconcile:
  assumes ok: "holdings_ok L"
    and run: "ledger_apply_reconciliation \<lparr>rp_actions = plan_actions us sn\<rparr> L = (r, L')"
  shows "holdings_ok L'"
proof -
  have same: "lg_operations L' = lg_operations L" "lg_intents L' = lg_intents L"
    using run by (auto simp: ledger_apply_reconciliation_def Let_def)
  have "slot_ok L' p (lg_utxos L' p) (lg_locks L' p)" for p
  proof (rule slot_ok_cong [of L])
    show "slot_ok L p (lg_utxos L' p) (lg_locks L' p)"
      using slot_ok_actions [of L p "(lg_utxos L p, lg_locks L p)"
          "filter (\<lambda>a. action_outpoint a = p) (plan_actions us sn)" sn, OF _ plan_warranted [of _ us]]
        slot_okD [OF ok, of p] reconciled_slots [OF run, of p, symmetric] by simp
  qed (simp add: same)
  with ok same show ?thesis by (simp add: holdings_ok_def failed_intents_rolled_back_def)
qed

text \<open>A spent output stays so, whatever actions follow.\<close>

lemma spent_slot_stays:
  assumes "mu_onchain_state u = Spent" and "mu_operation_binding u = None"
  shows "\<exists>u'. fold slot_action as (Some u, None) = (Some u', None) \<and>
    mu_onchain_state u' = Spent \<and> mu_operation_binding u' = None"
  using assms
proof (induction as arbitrary: u)
  case (Cons a as)
  have "slot_action a (Some u, None) = (Some (update_managed a u), None)"
    by (simp add: slot_action_def)
  moreover have "mu_onchain_state (update_managed a u) = Spent" "mu_operation_binding (update_managed a u) = None"
    using Cons.prems by (cases a; simp add: mark_missing_def mark_spent_def)+
  ultimately show ?case using Cons.IH by simp
qed simp

text \<open>An output keeps its binding and its lock until an action marks it spent.\<close>

lemma slot_custody:
  "(\<exists>u'. fold slot_action as (Some u, lk) = (Some u', lk) \<and>
      mu_operation_binding u' = mu_operation_binding u) \<or>
   (\<exists>u' p tx. fold slot_action as (Some u, lk) = (Some u', None) \<and> mu_onchain_state u' = Spent \<and>
      mu_operation_binding u' = None \<and> MarkSpent p tx \<in> set as)"
proof (induction as arbitrary: u)
  case (Cons a as)
  show ?case
  proof (cases "clears_lock a")
    case True
    then obtain p tx where a: "a = MarkSpent p tx" by (cases a) auto
    obtain u' where "fold slot_action as (Some (mark_spent u), None) = (Some u', None)"
      "mu_onchain_state u' = Spent" "mu_operation_binding u' = None"
      using spent_slot_stays [of "mark_spent u" as] by (auto simp: mark_spent_def)
    moreover have "slot_action a (Some u, lk) = (Some (mark_spent u), None)" by (simp add: a slot_action_def)
    ultimately show ?thesis using a by (intro disjI2) auto
  next
    case False
    then have "mu_operation_binding (update_managed a u) = mu_operation_binding u" by (cases a) auto
    then show ?thesis
      using Cons.IH [of "update_managed a u"] False by (auto simp: slot_action_def)
  qed
qed simp

lemma reconciled_keeps_binding:
  assumes run: "ledger_apply_reconciliation \<lparr>rp_actions = plan_actions us sn\<rparr> L = (r, L')"
    and "lg_utxos L p = Some u"
  shows "(\<exists>u'. lg_utxos L' p = Some u' \<and> mu_operation_binding u' = mu_operation_binding u \<and>
      lg_locks L' p = lg_locks L p) \<or>
    (\<exists>u' ob tx. lg_utxos L' p = Some u' \<and> mu_onchain_state u' = Spent \<and>
      mu_operation_binding u' = None \<and> lg_locks L' p = None \<and>
      ob \<in> set (sn_utxos sn) \<and> ob_outpoint ob = p \<and> ob_spend_status ob = SpendSpent tx)"
proof -
  let ?as = "filter (\<lambda>a. action_outpoint a = p) (plan_actions us sn)"
  have seen: "\<exists>ob\<in>set (sn_utxos sn). ob_outpoint ob = p \<and> ob_spend_status ob = SpendSpent tx"
    if "MarkSpent q tx \<in> set ?as" for q tx
    using that plan_warranted [of "MarkSpent q tx" us sn] by (auto simp: warranted_def)
  have after: "(lg_utxos L' p, lg_locks L' p) = fold slot_action ?as (Some u, lg_locks L p)"
    using reconciled_slots [OF run, of p] assms(2) by simp
  from slot_custody [of ?as u "lg_locks L p"] show ?thesis
  proof (elim disjE exE conjE)
    fix u' q tx
    assume "fold slot_action ?as (Some u, lg_locks L p) = (Some u', None)" and "mu_onchain_state u' = Spent"
      and "mu_operation_binding u' = None" and marked: "MarkSpent q tx \<in> set ?as"
    moreover have "\<exists>ob\<in>set (sn_utxos sn). ob_outpoint ob = p \<and> ob_spend_status ob = SpendSpent tx"
      by (rule seen [OF marked])
    ultimately show ?thesis using after by auto
  qed (use after in auto)
qed

lemma claims_ok_reconcile:
  assumes "claims_ok L"
    and run: "ledger_apply_reconciliation \<lparr>rp_actions = plan_actions us sn\<rparr> L = (r, L')"
  shows "claims_ok L'"
proof (rule claims_ok_step)
  have same: "lg_operations L' = lg_operations L" "lg_intents L' = lg_intents L"
    using run by (auto simp: ledger_apply_reconciliation_def Let_def)
  have "\<exists>u'. lg_utxos L' p = Some u' \<and> (mu_onchain_state u = Spent \<longrightarrow> mu_onchain_state u' = Spent) \<and>
      (\<forall>i. bound_to i u \<longrightarrow> bound_to i u' \<or> mu_onchain_state u' = Spent)"
    if u: "lg_utxos L p = Some u" for p u
  proof -
    obtain u' where u': "lg_utxos L' p = Some u'"
        "mu_operation_binding u' = mu_operation_binding u \<or> mu_onchain_state u' = Spent"
      using reconciled_keeps_binding [OF run u] by blast
    moreover have "mu_onchain_state u = Spent \<longrightarrow> mu_onchain_state u' = Spent"
      using history_reconciliation [OF run] u u'(1)
      unfolding history_extends_def utxo_advances_def by (metis option.inject)
    ultimately show ?thesis by (auto simp: bound_to_def)
  qed
  then show "claims_step L L'" by (fastforce simp: claims_step_def live_def same)
qed (rule assms(1))

text \<open>A reconciliation takes an output from the operation that owns it only when the snapshot
  reports the output spent, and then releases its lock with it.\<close>

lemma reconciled_keeps_custody:
  assumes "ledger_apply_reconciliation \<lparr>rp_actions = plan_actions us sn\<rparr> L = (r, L')"
    and "lg_utxos L p = Some u" and "mu_operation_binding u = Some b"
  shows "(\<exists>u'. lg_utxos L' p = Some u' \<and> mu_operation_binding u' = Some b \<and>
      lg_locks L' p = lg_locks L p) \<or>
    (\<exists>u' ob tx. lg_utxos L' p = Some u' \<and> mu_onchain_state u' = Spent \<and>
      mu_operation_binding u' = None \<and> lg_locks L' p = None \<and>
      ob \<in> set (sn_utxos sn) \<and> ob_outpoint ob = p \<and> ob_spend_status ob = SpendSpent tx)"
  using reconciled_keeps_binding [OF assms(1,2)] assms(3) by simp

section \<open>What makes an output spendable\<close>

text \<open>What an output shows at the end of a plan that it did not show before, an action has set.\<close>

lemma slot_trace:
  "fold slot_action as (Some u, lk) = (Some u', lk') \<Longrightarrow>
   (mu_availability u' = Selectable \<longrightarrow> (\<forall>q. UpdateAvailability q Selectable \<notin> set as) \<longrightarrow>
      mu_availability u = Selectable \<and> (\<forall>q av. UpdateAvailability q av \<notin> set as)) \<and>
   (mu_observation_conflict u' = None \<longrightarrow> (\<forall>q. ClearConflict q \<notin> set as) \<longrightarrow>
      mu_observation_conflict u = None) \<and>
   (mu_onchain_state u' = Confirmed \<longrightarrow> (\<forall>q. UpdateOnchainState q Confirmed \<notin> set as) \<longrightarrow>
      mu_onchain_state u = Confirmed)"
proof (induction as arbitrary: u lk)
  case (Cons a as)
  have "fold slot_action as (Some (update_managed a u), if clears_lock a then None else lk) = (Some u', lk')"
    using Cons.prems by (simp only: fold_simps slot_action_Some)
  from Cons.IH [OF this] show ?case
    by (cases a) (auto simp: mark_spent_def mark_missing_def split: if_splits)
qed simp

lemma slot_traces:
  assumes "fold slot_action as (Some u, lk) = (Some u', lk')"
  shows "mu_availability u' = Selectable \<Longrightarrow> \<forall>q. UpdateAvailability q Selectable \<notin> set as \<Longrightarrow>
      mu_availability u = Selectable \<and> (\<forall>q av. UpdateAvailability q av \<notin> set as)"
    and "mu_observation_conflict u' = None \<Longrightarrow> \<forall>q. ClearConflict q \<notin> set as \<Longrightarrow> mu_observation_conflict u = None"
    and "mu_onchain_state u' = Confirmed \<Longrightarrow> \<forall>q. UpdateOnchainState q Confirmed \<notin> set as \<Longrightarrow>
      mu_onchain_state u = Confirmed"
  using slot_trace [OF assms] by blast+

text \<open>A snapshot entry that vouches for an output: unspent, confirmed, and with the metadata recorded.\<close>

definition vouches :: "observed_utxo \<Rightarrow> managed_utxo \<Rightarrow> bool" where
  "vouches ob u \<longleftrightarrow> ob_spend_status ob = SpendUnspent \<and>
     (\<exists>height ts. ob_confirmation ob = ConfConfirmed height ts) \<and> observed_mismatch_message u ob = None"

lemma restored_selectable:
  "UpdateAvailability q Selectable \<in> set (observation_actions t (Some u) ob) \<Longrightarrow> vouches ob u"
  by (cases "ob_confirmation ob"; cases "ob_spend_status ob")
    (auto simp: observation_actions_def unspent_actions_def restored_unspent_availability_def vouches_def
      then_some_def Let_def split: option.splits if_splits)

lemma undisturbed_selectable:
  assumes "a \<in> set (observation_actions t (Some u) ob)" and "mu_availability u = Selectable"
    and "mu_operation_binding u = None" and "\<forall>q av. UpdateAvailability q av \<notin> set (observation_actions t (Some u) ob)"
    and "a = ClearConflict q \<or> a = UpdateOnchainState q Confirmed"
  shows "vouches ob u"
  using assms
  by (cases "ob_confirmation ob"; cases "ob_spend_status ob")
    (auto simp: observation_actions_def unspent_actions_def restored_unspent_availability_def vouches_def
      then_some_def Let_def split: option.splits if_splits)

text \<open>The actions of a plan that a given output's observations ask for.\<close>

lemma planned_for:
  assumes "ledger_wf L" and "lists_utxos us L" and "a \<in> set (plan_actions us sn)"
    and "\<And>q m t. a \<noteq> ReportConflict q m t" and "\<And>q. a \<noteq> MarkMissing q"
  obtains ob where "ob \<in> set (sn_utxos sn)" and "ob_outpoint ob = action_outpoint a"
    and "set (observation_actions (sn_timestamp sn) (lg_utxos L (ob_outpoint ob)) ob) \<subseteq> set (plan_actions us sn)"
    and "a \<in> set (observation_actions (sn_timestamp sn) (lg_utxos L (ob_outpoint ob)) ob)"
proof -
  note found = lists_utxos_find [OF assms(1,2)]
  have "a \<notin> set (missing_actions sn u)" for u
    using assms(4,5) by (auto simp: missing_actions_def Let_def split: if_splits)
  then obtain ob where ob: "ob \<in> set (sn_utxos sn)"
      "a \<in> set (observation_actions (sn_timestamp sn) (lg_utxos L (ob_outpoint ob)) ob)"
    using assms(3) by (auto simp: plan_actions_def found split: if_splits)
  moreover have "action_outpoint a = ob_outpoint ob"
    by (rule observation_actions_outpoint [OF _ ob(2)]) (use ledger_wfD(1) [OF assms(1)] in blast)
  moreover have "set (observation_actions (sn_timestamp sn) (lg_utxos L (ob_outpoint ob)) ob) \<subseteq>
      set (plan_actions us sn)"
    using ob(1) by (auto simp: plan_actions_def found)
  ultimately show thesis using that by simp
qed

lemma discovered_by_slot:
  assumes "fold slot_action as (None, lk) = (Some u', lk')" and "\<And>a. a \<in> set as \<Longrightarrow> \<exists>ob. a = DiscoverNew ob"
  shows "\<exists>ob. DiscoverNew ob \<in> set as \<and> u' = discovered ob"
proof (cases as)
  case Nil
  with assms(1) show ?thesis by simp
next
  case (Cons a bs)
  then obtain ob where a: "a = DiscoverNew ob" using assms(2) by auto
  have "fold slot_action bs (Some u, l) = (Some u, l)" if "\<forall>a\<in>set bs. \<exists>ob. a = DiscoverNew ob" for bs u l
    using that by (induction bs) (auto simp: slot_action_def)
  then show ?thesis using assms Cons a by (auto simp: slot_action_def)
qed

text \<open>An output becomes spendable through a reconciliation only when the snapshot reports it
  unspent and confirmed, with the metadata recorded for it, if any.\<close>

lemma reconciled_spendable_new:
  assumes "ledger_wf L" and "lists_utxos us L"
    and "ledger_apply_reconciliation \<lparr>rp_actions = plan_actions us sn\<rparr> L = (r, L')"
    and "lg_utxos L' p = Some u'" and "is_policy_spendable u'" and none: "lg_utxos L p = None"
  shows "\<exists>ob\<in>set (sn_utxos sn). ob_outpoint ob = p \<and> ob_spend_status ob = SpendUnspent \<and>
    (\<exists>height ts. ob_confirmation ob = ConfConfirmed height ts)"
proof -
  let ?as = "filter (\<lambda>a. action_outpoint a = p) (plan_actions us sn)"
  note found = lists_utxos_find [OF assms(1,2)]
  have new: "\<exists>ob. a = DiscoverNew ob \<and> ob \<in> set (sn_utxos sn) \<and> ob_outpoint ob = p \<and>
      ob_spend_status ob = SpendUnspent" if "a \<in> set ?as" for a
  proof -
    have "a \<notin> set (missing_actions sn u)" if "u \<in> set us" for u
    proof
      assume "a \<in> set (missing_actions sn u)"
      then have "mu_outpoint u = p" using \<open>a \<in> set ?as\<close> missing_actions_outpoint by auto
      with that none found [of p] show False by (auto simp: find_None_iff)
    qed
    then obtain ob where ob: "ob \<in> set (sn_utxos sn)"
        "a \<in> set (observation_actions (sn_timestamp sn) (lg_utxos L (ob_outpoint ob)) ob)"
      using \<open>a \<in> set ?as\<close> by (auto simp: plan_actions_def found split: if_splits)
    moreover have "action_outpoint a = ob_outpoint ob"
      by (rule observation_actions_outpoint [OF _ ob(2)]) (use ledger_wfD(1) [OF assms(1)] in blast)
    ultimately show ?thesis
      using \<open>a \<in> set ?as\<close> none
      by (auto simp: observation_actions_def split: observed_spend_status.splits)
  qed
  have "fold slot_action ?as (None, lg_locks L p) = (Some u', lg_locks L' p)"
    using reconciled_slots [OF assms(3), of p] none assms(4) by simp
  from discovered_by_slot [OF this] new obtain ob where ob: "DiscoverNew ob \<in> set ?as" "u' = discovered ob" by blast
  with assms(5) have "\<exists>height ts. ob_confirmation ob = ConfConfirmed height ts"
    by (cases "ob_confirmation ob") (auto simp: discovered_def discover_from_observed_def is_policy_spendable_def)
  with new [OF ob(1)] show ?thesis by auto
qed

lemma reconciled_spendable_known:
  assumes wf: "ledger_wf L" and us: "lists_utxos us L"
    and run: "ledger_apply_reconciliation \<lparr>rp_actions = plan_actions us sn\<rparr> L = (r, L')"
    and "lg_utxos L' p = Some u'" and "is_policy_spendable u'"
    and u: "lg_utxos L p = Some u" and "\<not> is_policy_spendable u"
  shows "\<exists>ob\<in>set (sn_utxos sn). ob_outpoint ob = p \<and> vouches ob u"
proof -
  let ?as = "filter (\<lambda>a. action_outpoint a = p) (plan_actions us sn)"
  have after: "fold slot_action ?as (Some u, lg_locks L p) = (Some u', lg_locks L' p)"
    using reconciled_slots [OF run, of p] u assms(4) by simp
  have u': "mu_availability u' = Selectable" "mu_onchain_state u' = Confirmed"
    "mu_operation_binding u' = None" "mu_observation_conflict u' = None"
    using assms(5) by (simp_all add: is_policy_spendable_def)
  show ?thesis
  proof (cases "\<exists>q. UpdateAvailability q Selectable \<in> set ?as")
    case True
    then have planned: "UpdateAvailability p Selectable \<in> set (plan_actions us sn)" by auto
    obtain ob where "ob \<in> set (sn_utxos sn)" "ob_outpoint ob = p"
      and "UpdateAvailability p Selectable \<in> set (observation_actions (sn_timestamp sn) (lg_utxos L p) ob)"
      by (rule planned_for [OF wf us planned]) auto
    with u restored_selectable show ?thesis by auto
  next
    case False
    then have sel: "mu_availability u = Selectable" and calm: "\<forall>q av. UpdateAvailability q av \<notin> set ?as"
      using slot_traces(1) [OF after u'(1)] by blast+
    have free: "mu_operation_binding u = None"
      using reconciled_keeps_binding [OF run u] assms(4) u'(2,3) by auto
    obtain a where a: "a \<in> set ?as" "a = ClearConflict p \<or> a = UpdateOnchainState p Confirmed"
    proof -
      have "(\<exists>q. ClearConflict q \<in> set ?as) \<or> (\<exists>q. UpdateOnchainState q Confirmed \<in> set ?as)"
      proof (cases "mu_onchain_state u = Confirmed")
        case True
        then have "mu_observation_conflict u \<noteq> None" using sel free assms(7) by (simp add: is_policy_spendable_def)
        with slot_traces(2) [OF after u'(4)] show ?thesis by blast
      next
        case False
        with slot_traces(3) [OF after u'(2)] show ?thesis by blast
      qed
      then show thesis using that [of "ClearConflict p"] that [of "UpdateOnchainState p Confirmed"] by auto
    qed
    have planned: "a \<in> set (plan_actions us sn)" using a(1) by simp
    obtain ob where ob: "ob \<in> set (sn_utxos sn)" "ob_outpoint ob = action_outpoint a"
      and part: "set (observation_actions (sn_timestamp sn) (lg_utxos L (ob_outpoint ob)) ob) \<subseteq>
        set (plan_actions us sn)"
      and mem: "a \<in> set (observation_actions (sn_timestamp sn) (lg_utxos L (ob_outpoint ob)) ob)"
      by (rule planned_for [OF wf us planned]) (use a(2) in auto)
    have p: "ob_outpoint ob = p" using ob(2) a(2) by auto
    have "UpdateAvailability q av \<notin> set (observation_actions (sn_timestamp sn) (Some u) ob)" for q av
    proof
      assume here: "UpdateAvailability q av \<in> set (observation_actions (sn_timestamp sn) (Some u) ob)"
      have "action_outpoint (UpdateAvailability q av) = ob_outpoint ob"
        by (rule observation_actions_outpoint [OF _ here]) (use ledger_wfD(1) [OF wf u] p in simp)
      moreover have "UpdateAvailability q av \<in> set (plan_actions us sn)" using here part p u by auto
      ultimately have "UpdateAvailability q av \<in> set ?as" using p by simp
      with calm show False by blast
    qed
    with undisturbed_selectable [OF _ sel free _ a(2)] mem p u have "vouches ob u" by auto
    with ob(1) p show ?thesis by blast
  qed
qed

lemma reconciled_spendable_observed:
  assumes "ledger_wf L" and "lists_utxos us L"
    and "ledger_apply_reconciliation \<lparr>rp_actions = plan_actions us sn\<rparr> L = (r, L')"
    and "lg_utxos L' p = Some u'" and "is_policy_spendable u'"
    and "\<And>u. lg_utxos L p = Some u \<Longrightarrow> \<not> is_policy_spendable u"
  shows "\<exists>ob\<in>set (sn_utxos sn). ob_outpoint ob = p \<and> ob_spend_status ob = SpendUnspent \<and>
    (\<exists>height ts. ob_confirmation ob = ConfConfirmed height ts) \<and>
    (\<forall>u. lg_utxos L p = Some u \<longrightarrow> observed_mismatch_message u ob = None)"
proof (cases "lg_utxos L p")
  case None
  with reconciled_spendable_new [OF assms(1-5)] show ?thesis by auto
next
  case (Some u)
  with reconciled_spendable_known [OF assms(1-5) Some] assms(6) show ?thesis
    by (auto simp: vouches_def)
qed

section \<open>Snapshots that name every output once\<close>

text \<open>Such a snapshot keeps every availability in step with the rest of its record.\<close>

lemma availability_ok_unspent: "availability_ok u \<Longrightarrow> availability_ok (unspent_result t u ob)"
  by (cases "mu_onchain_state u"; cases "ob_confirmation ob"; cases "mu_availability u";
      cases "observed_mismatch_message u ob"; cases "mu_operation_binding u")
    (simp_all add: availability_ok_def is_policy_spendable_def unspent_result_def observed_conflict_def
      restored_unspent_availability_def then_some_def Let_def)

lemma availability_ok_results:
  "availability_ok (missed_result m t u)" "availability_ok (spent_result tx t u)"
  by (simp_all add: missed_result_def spent_result_def availability_ok_def mark_missing_def mark_spent_def)

lemma reconciled_availability:
  assumes "reconciled_slot sn p (x, lk) = (Some u', lk')" and "\<And>u. x = Some u \<Longrightarrow> mu_outpoint u = p \<and> availability_ok u"
  shows "availability_ok u'"
proof (cases x)
  case None
  then show ?thesis
    using assms(1)
    by (cases "find (\<lambda>ob. ob_outpoint ob = p) (sn_utxos sn)")
      (auto simp: reconciled_discovered reconciled_unknown_absent discovered_def split: if_splits)
next
  case (Some u)
  show ?thesis
  proof (cases "find (\<lambda>ob. ob_outpoint ob = p) (sn_utxos sn)")
    case None
    then show ?thesis
      using assms Some by (auto simp: reconciled_absent availability_ok_results split: if_splits)
  next
    case (Some ob)
    then show ?thesis
      using assms \<open>x = Some u\<close>
      by (cases "ob_spend_status ob")
        (auto simp: reconciled_cases availability_ok_unspent
          availability_ok_results split: if_splits)
  qed
qed

lemma records_ok_reconcile:
  assumes "ledger_wf L" and "lists_utxos us L" and "distinct (map ob_outpoint (sn_utxos sn))"
    and "ledger_apply_reconciliation \<lparr>rp_actions = plan_actions us sn\<rparr> L = (r, L')" and "records_ok L"
  shows "records_ok L'"
  unfolding records_ok_def
proof
  fix u' assume "u' \<in> ran (lg_utxos L')"
  then obtain p where "lg_utxos L' p = Some u'" by (auto simp: ran_def)
  with reconciled_by_slot [OF assms(1-4), of p]
  have slot: "reconciled_slot sn p (lg_utxos L p, lg_locks L p) = (Some u', lg_locks L' p)" by simp
  show "availability_ok u'"
    by (rule reconciled_availability [OF slot])
      (use assms(5) ledger_wfD(1) [OF assms(1)] in \<open>auto simp: records_ok_def ran_def\<close>)
qed

text \<open>A snapshot entry that agrees with what is recorded and does not report the output missing.\<close>

definition settles :: "ledger \<Rightarrow> observed_utxo \<Rightarrow> bool" where
  "settles L ob \<longleftrightarrow>
     ob_spend_status ob \<noteq> SpendMissing \<and>
     (ob_spend_status ob = SpendUnspent \<longrightarrow>
        (\<forall>u. lg_utxos L (ob_outpoint ob) = Some u \<longrightarrow> observed_mismatch_message u ob = None))"

lemma identity_results [simp]: "utxo_identity (unspent_result t u ob) = utxo_identity u"
  by (simp add: unspent_result_def utxo_identity_def)

lemma mismatch_identity:
  "utxo_identity u' = utxo_identity u \<Longrightarrow>
    observed_mismatch_message u' ob = observed_mismatch_message u ob"
  by (simp add: utxo_identity_def observed_mismatch_message_def)

lemma mismatch_discovered: "observed_mismatch_message (discovered ob) ob = None"
  by (simp add: observed_mismatch_message_def discovered_def discover_from_observed_def)

lemma unspent_actions_settle:
  assumes "observed_mismatch_message u ob = None"
  shows "unspent_actions t (unspent_result t u ob) ob = []"
proof -
  have m: "observed_mismatch_message (unspent_result t u ob) ob = None"
    using assms mismatch_identity [of "unspent_result t u ob" u ob] by simp
  show ?thesis
    unfolding unspent_actions_def m
    by (cases "mu_onchain_state u"; cases "ob_confirmation ob"; cases "mu_availability u";
        cases "mu_operation_binding u")
      (simp_all add: unspent_result_def observed_conflict_def assms
        restored_unspent_availability_def then_some_def)
qed

lemma unspent_actions_discovered: "unspent_actions t (discovered ob) ob = []"
  unfolding unspent_actions_def mismatch_discovered
  by (cases "ob_confirmation ob")
    (simp_all add: discovered_def discover_from_observed_def restored_unspent_availability_def
      then_some_def)

lemma slot_plan_settles:
  assumes "\<And>ob. find (\<lambda>ob. ob_outpoint ob = p) (sn_utxos sn) = Some ob \<Longrightarrow> settles L ob"
    and "lg_utxos L p = fst x" and "\<And>u. fst x = Some u \<Longrightarrow> mu_outpoint u = p"
  shows "slot_plan sn p (fst (reconciled_slot sn p x)) = []"
proof (cases x)
  case (Pair utxo lk)
  show ?thesis
  proof (cases "find (\<lambda>ob. ob_outpoint ob = p) (sn_utxos sn)")
    case None
    then show ?thesis
      using assms(3)
      by (cases utxo)
        (auto simp: Pair reconciled_absent reconciled_unknown_absent slot_plan_def
          missing_actions_def missed_result_def report_conflict_def mark_missing_def)
  next
    case (Some ob)
    then have s: "settles L ob" and p: "ob_outpoint ob = p"
      using assms(1) by (auto simp: find_Some_iff)
    show ?thesis
    proof (cases utxo)
      case None
      with Some show ?thesis
        by (cases "ob_spend_status ob")
          (simp_all add: Pair reconciled_discovered slot_plan_def observation_actions_def
            unspent_actions_discovered)
    next
      case u: (Some u)
      have "mu_onchain_state (spent_result tx t u) = Spent" for tx t
        by (simp add: spent_result_def)
      with Some u s p assms(2) show ?thesis
        by (cases "ob_spend_status ob")
          (auto simp: Pair settles_def reconciled_unspent reconciled_spent reconciled_unknown
            slot_plan_def observation_actions_def unspent_actions_settle)
    qed
  qed
qed

text \<open>Reconciliation converges: once a snapshot that agrees with the recorded metadata has been
  reconciled, reconciling it again plans nothing.\<close>

lemma reconciled_converges:
  assumes wf: "ledger_wf L" and "lists_utxos us L" and "distinct (map ob_outpoint (sn_utxos sn))"
    and "ledger_apply_reconciliation \<lparr>rp_actions = plan_actions us sn\<rparr> L = (r, L')"
    and "ledger_wf L'" and "lists_utxos us' L'"
    and "\<And>ob. ob \<in> set (sn_utxos sn) \<Longrightarrow> settles L ob"
  shows "plan_actions us' sn = []"
proof -
  have "settles L ob" if "find (\<lambda>ob. ob_outpoint ob = p) (sn_utxos sn) = Some ob" for p ob
    using that assms(7) by (auto simp: find_Some_iff)
  then have "slot_plan sn p (fst (reconciled_slot sn p (lg_utxos L p, lg_locks L p))) = []" for p
    by (rule slot_plan_settles) (use ledger_wfD(1) [OF wf] in auto)
  then have "slot_plan sn p (lg_utxos L' p) = []" for p
    by (simp flip: reconciled_by_slot [OF wf assms(2-4)])
  then have "filter (\<lambda>a. action_outpoint a = p) (plan_actions us' sn) = []" for p
    by (simp add: plan_by_slot [OF assms(5,6,3)])
  then show ?thesis by (metis (mono_tags, lifting) filter_empty_conv list.set_intros(1) neq_Nil_conv)
qed

end
