(* ===== verification/Orchestrator.thy ===== *)
theory Orchestrator
  imports Selector Selection_Request Utxo_Status Reconciliation
begin

text \<open>
  The orchestrator (\<open>txoscope-core/src/orchestrator.rs\<close>), generic in the store: proposing a
  selection, recording an intent, committing it, failing it, recovering pending intents, expiring
  stale reservations, releasing and completing operations. Its commands run over the store
  together with the owner label.
\<close>

section \<open>State\<close>

record 's orchestrator =
  orch_store :: 's
  orch_owner :: string

type_synonym ('s, 'a) orch_command = "('s orchestrator, 'a) command"

record recovery_report =
  rr_replayed_operations :: "operation_id list"
  rr_failed_operations :: "operation_id list"

record cleanup_report =
  cr_released_operations :: "operation_id list"
  cr_released_outpoints :: "outpoint list"

text \<open>A store command and a store read, run by the orchestrator.\<close>

definition on_store :: "('s, 'a) command \<Rightarrow> ('s, 'a) orch_command" where
  "on_store m = (\<lambda>orch. case m (orch_store orch) of (r, s) \<Rightarrow> (r, orch\<lparr>orch_store := s\<rparr>))"

definition from_store :: "('s \<Rightarrow> 'a result) \<Rightarrow> ('s, 'a) orch_command" where
  "from_store g = cmd_read (\<lambda>orch. g (orch_store orch))"

definition orch_with_store :: "'s \<Rightarrow> 's orchestrator" where
  "orch_with_store s = \<lparr>orch_store = s, orch_owner = ''txoscope''\<rparr>"

definition orch_with_owner :: "string \<Rightarrow> 's orchestrator \<Rightarrow> 's orchestrator" where
  "orch_with_owner owner orch = orch\<lparr>orch_owner := owner\<rparr>"

definition orch_set_owner :: "string \<Rightarrow> 's orchestrator \<Rightarrow> 's orchestrator" where
  "orch_set_owner owner orch = orch\<lparr>orch_owner := owner\<rparr>"

section \<open>Delegations\<close>

definition orch_add_account :: "'s state_store \<Rightarrow> account \<Rightarrow> ('s, unit) orch_command" where
  "orch_add_account ops a = on_store (put_account ops a)"

definition orch_get_account :: "'s state_store \<Rightarrow> account_id \<Rightarrow> ('s, account option) orch_command" where
  "orch_get_account ops i = from_store (\<lambda>s. get_account ops s i)"

definition orch_add_scope :: "'s state_store \<Rightarrow> wallet_scope \<Rightarrow> ('s, unit) orch_command" where
  "orch_add_scope ops sc = on_store (put_scope ops sc)"

definition orch_get_scope ::
  "'s state_store \<Rightarrow> wallet_scope_id \<Rightarrow> ('s, wallet_scope option) orch_command" where
  "orch_get_scope ops i = from_store (\<lambda>s. get_scope ops s i)"

definition orch_add_utxo :: "'s state_store \<Rightarrow> managed_utxo \<Rightarrow> ('s, unit) orch_command" where
  "orch_add_utxo ops u = on_store (put_utxo ops u)"

definition orch_get_utxo :: "'s state_store \<Rightarrow> outpoint \<Rightarrow> ('s, managed_utxo option) orch_command"
  where "orch_get_utxo ops p = from_store (\<lambda>s. get_utxo ops s p)"

definition orch_list_utxos :: "'s state_store \<Rightarrow> ('s, managed_utxo list) orch_command" where
  "orch_list_utxos ops = from_store (list_utxos ops)"

definition orch_get_lock :: "'s state_store \<Rightarrow> outpoint \<Rightarrow> ('s, operation_lock option) orch_command"
  where "orch_get_lock ops p = from_store (\<lambda>s. get_lock ops s p)"

definition read_utxo_status :: "'s state_store \<Rightarrow> 's \<Rightarrow> outpoint \<Rightarrow> utxo_status option result" where
  "read_utxo_status ops s p =
     res_bind (get_utxo ops s p) (\<lambda>found.
     case found of
       None \<Rightarrow> Inr None
     | Some utxo \<Rightarrow>
         res_bind (get_lock ops s p) (\<lambda>lock. Inr (Some (status_from_records utxo lock))))"

definition orch_utxo_status :: "'s state_store \<Rightarrow> outpoint \<Rightarrow> ('s, utxo_status option) orch_command"
  where "orch_utxo_status ops p = from_store (\<lambda>s. read_utxo_status ops s p)"

definition orch_is_outpoint_selectable :: "'s state_store \<Rightarrow> outpoint \<Rightarrow> ('s, bool) orch_command" where
  "orch_is_outpoint_selectable ops p =
     from_store (\<lambda>s. res_map (\<lambda>st. is_some_and st status_is_selectable) (read_utxo_status ops s p))"

definition orch_get_operation ::
  "'s state_store \<Rightarrow> operation_id \<Rightarrow> ('s, persisted_operation option) orch_command" where
  "orch_get_operation ops i = from_store (\<lambda>s. get_operation ops s i)"

definition orch_get_intent ::
  "'s state_store \<Rightarrow> operation_id \<Rightarrow> ('s, operation_intent option) orch_command" where
  "orch_get_intent ops i = from_store (\<lambda>s. get_intent ops s i)"

definition orch_list_operations :: "'s state_store \<Rightarrow> ('s, persisted_operation list) orch_command" where
  "orch_list_operations ops = from_store (list_operations ops)"

definition orch_pending_intents :: "'s state_store \<Rightarrow> ('s, operation_intent list) orch_command" where
  "orch_pending_intents ops = from_store (list_pending_intents ops)"

definition orch_current_tick :: "'s state_store \<Rightarrow> ('s, u64) orch_command" where
  "orch_current_tick ops = from_store (current_tick ops)"

definition orch_advance_tick :: "'s state_store \<Rightarrow> u64 \<Rightarrow> ('s, unit) orch_command" where
  "orch_advance_tick ops d = on_store (advance_tick ops d)"

section \<open>Reconciling\<close>

definition orch_reconcile_snapshot ::
  "'s state_store \<Rightarrow> observation_snapshot \<Rightarrow> ('s, reconcile_plan) orch_command" where
  "orch_reconcile_snapshot ops snapshot =
     cmd_bind (from_store (\<lambda>s. plan_reconciliation ops s snapshot)) (\<lambda>plan.
     cmd_bind (on_store (apply_reconciliation ops plan)) (\<lambda>_.
     cmd_return plan))"

section \<open>Proposing\<close>

text \<open>The first outpoint that repeats an earlier one, as the insertion loop over a set finds it.\<close>

fun first_duplicate :: "outpoint set \<Rightarrow> outpoint list \<Rightarrow> outpoint option" where
  "first_duplicate seen [] = None"
| "first_duplicate seen (p # ps) =
     (if p \<in> seen then Some p else first_duplicate (insert p seen) ps)"

lemma first_duplicate_None: "first_duplicate A ps = None \<longleftrightarrow> distinct ps \<and> A \<inter> set ps = {}"
  by (induction ps arbitrary: A) auto

definition check_exact_request :: "input_selection_spec \<Rightarrow> unit result" where
  "check_exact_request spec =
     (case spec of
        ExactOutpoints outpoints \<Rightarrow>
          if outpoints = []
          then Inl (InvalidRequest ''exact selection requires at least one outpoint'')
          else (case first_duplicate {} outpoints of
                  Some p \<Rightarrow> Inl (InvalidRequest
                    (''exact selection includes duplicate outpoint: '' @ outpoint_string p))
                | None \<Rightarrow> Inr ())
      | _ \<Rightarrow> Inr ())"

fun eligible_scopes ::
  "('s, 'z) state_read_scheme \<Rightarrow> 's \<Rightarrow> account_id \<Rightarrow> capability_set \<Rightarrow> wallet_scope_id list \<Rightarrow>
   wallet_scope_id list result" where
  "eligible_scopes ops s aid required [] = Inr []"
| "eligible_scopes ops s aid required (sid # sids) =
     res_bind (get_scope ops s sid) (\<lambda>sc.
     if is_some_and sc (\<lambda>scope. ws_account_id scope = aid \<and>
          contains_all (ws_capabilities scope) required)
     then res_map ((#) sid) (eligible_scopes ops s aid required sids)
     else eligible_scopes ops s aid required sids)"

definition is_nonempty_exact :: "input_selection_spec \<Rightarrow> bool" where
  "is_nonempty_exact spec = (case spec of ExactOutpoints outpoints \<Rightarrow> outpoints \<noteq> [] | _ \<Rightarrow> False)"

definition propose_operation ::
  "('s, 'z) state_read_scheme \<Rightarrow> 's \<Rightarrow> selection_request \<Rightarrow> operation_selection result" where
  "propose_operation ops s request =
     (let req = into_operation_request request; sel = or_selection req;
          aid = isr_account_id sel; required = isr_required_capabilities sel in
      res_bind (check_exact_request (isr_spec sel)) (\<lambda>_.
      res_bind (get_account ops s aid) (\<lambda>account_opt.
      res_bind (ok_or (AccountNotFound aid) account_opt) (\<lambda>account.
      if \<not> contains_all (ac_capabilities account) required
      then Inl (MissingAccountCapabilities aid)
      else
      res_bind (eligible_scopes ops s aid required (ac_scopes account)) (\<lambda>eligible.
      if eligible = [] \<and> \<not> is_nonempty_exact (isr_spec sel) then Inl (NoEligibleScope aid)
      else
      res_bind (select_inputs \<lparr>cx_read = ops, cx_state = s, cx_account_id = aid,
          cx_account_scope_ids = ac_scopes account, cx_eligible_scope_ids = eligible\<rparr> (isr_spec sel))
        (\<lambda>selected. Inr (selection_from_request req selected)))))))"

section \<open>Committing\<close>

definition validate_selected_input ::
  "('s, 'z) state_read_scheme \<Rightarrow> 's \<Rightarrow> operation_selection \<Rightarrow> selection_effect \<Rightarrow> unit result" where
  "validate_selected_input ops s sel e =
     (let p = effect_outpoint e in
      res_bind (get_utxo ops s p) (\<lambda>found.
      res_bind (ok_or (UtxoNotFound p) found) (\<lambda>utxo.
      res_bind (get_lock ops s p) (\<lambda>lock.
      if is_policy_spendable utxo \<and> lock = None then Inr ()
      else
        let idempotent =
              (is_some_and (mu_operation_binding utxo)
                 (\<lambda>b. bd_operation_id b = os_operation_id sel \<and> bd_phase b = PhSelected) \<and>
               is_some_and lock (\<lambda>l. lk_operation_id l = os_operation_id sel))
        in if idempotent then Inr ()
           else if mu_availability utxo \<noteq> Selectable
           then Inl (UtxoUnavailable p (mu_availability utxo))
           else if mu_observation_conflict utxo \<noteq> None
           then Inl (ObservationConflictError p (mu_onchain_state utxo))
           else Inl (UtxoPolicyBlocked p
                  (''utxo is not safely spendable: onchain_state='' @
                   onchain_debug (mu_onchain_state utxo) @
                   '', lock_present='' @ bool_debug (lock \<noteq> None)))))))"

definition validate_selection ::
  "('s, 'z) state_read_scheme \<Rightarrow> 's \<Rightarrow> operation_selection \<Rightarrow> unit result" where
  "validate_selection ops s sel =
     res_bind (validate_capabilities (get_account ops s) (get_scope ops s) (get_utxo ops s) sel)
       (\<lambda>_. res_each (validate_selected_input ops s sel) (os_effects sel))"

definition check_selected_phase ::
  "operation_selection \<Rightarrow> persisted_operation option \<Rightarrow> unit result" where
  "check_selected_phase sel found =
     (case found of
        None \<Rightarrow> Inr ()
      | Some operation \<Rightarrow>
          if po_phase operation \<noteq> PhSelected
          then Inl (InvalidOperationTransition (os_operation_id sel) (po_phase operation) PhSelected)
          else Inr ())"

definition selection_batch :: "string \<Rightarrow> operation_selection \<Rightarrow> state_batch" where
  "selection_batch owner sel = \<lparr>sb_selection = sel, sb_phase = PhSelected, sb_owner = owner\<rparr>"

definition commit_selection ::
  "'s state_store \<Rightarrow> operation_selection \<Rightarrow> ('s, unit) orch_command" where
  "commit_selection ops sel =
     cmd_bind (from_store (\<lambda>s. get_operation ops s (os_operation_id sel))) (\<lambda>found.
     cmd_bind (from_store (\<lambda>_. check_selected_phase sel found)) (\<lambda>_.
     cmd_bind (from_store (\<lambda>s. validate_selection ops s sel)) (\<lambda>_.
     (\<lambda>orch. on_store (apply_batch ops (selection_batch (orch_owner orch) sel)) orch))))"

fun error_input :: "domain_error \<Rightarrow> outpoint option" where
  "error_input (UtxoUnavailable p av) = Some p"
| "error_input (UtxoPolicyBlocked p reason) = Some p"
| "error_input e = None"

definition is_pending_lock_conflict ::
  "('s, 'z) state_read_scheme \<Rightarrow> 's \<Rightarrow> operation_id \<Rightarrow> domain_error \<Rightarrow> bool result" where
  "is_pending_lock_conflict ops s i err =
     (case error_input err of
        None \<Rightarrow> Inr False
      | Some p \<Rightarrow>
          res_bind (get_lock ops s p) (\<lambda>found.
          case found of
            None \<Rightarrow> Inr False
          | Some lock \<Rightarrow>
              if lk_operation_id lock = i then Inr False
              else res_map (\<lambda>n. is_some_and n (\<lambda>intent. oi_status intent = Pending))
                     (get_intent ops s (lk_operation_id lock))))"

text \<open>
  What follows a commit attempt: success marks the intent committed, a storage error is returned
  as it is, any other error fails the intent unless another pending intent holds the input.
\<close>

definition commit_recorded_intent :: "'s state_store \<Rightarrow> operation_id \<Rightarrow> ('s, unit) orch_command" where
  "commit_recorded_intent ops i =
     cmd_bind (from_store (\<lambda>s. get_intent ops s i)) (\<lambda>found.
     cmd_bind (from_store (\<lambda>_. ok_or (IntentNotFound i) found)) (\<lambda>intent.
     case oi_status intent of
       Committed \<Rightarrow> cmd_return ()
     | Failed \<Rightarrow> cmd_fail (IntentNotPending i)
     | Pending \<Rightarrow>
         (\<lambda>orch.
            case commit_selection ops (oi_selection intent) orch of
              (Inr _, orch') \<Rightarrow> on_store (mark_intent_committed ops i) orch'
            | (Inl err, orch') \<Rightarrow>
                if is_storage err then (Inl err, orch')
                else
                  cmd_bind (from_store (\<lambda>s. is_pending_lock_conflict ops s i err)) (\<lambda>conflict.
                    if \<not> conflict
                    then cmd_bind (on_store (mark_intent_failed ops i)) (\<lambda>_. cmd_fail err)
                    else cmd_fail err) orch')))"

definition persist_selection_intent ::
  "'s state_store \<Rightarrow> operation_selection \<Rightarrow> ('s, operation_intent) orch_command" where
  "persist_selection_intent ops sel = on_store (persist_intent ops sel)"

definition apply_selection :: "'s state_store \<Rightarrow> operation_selection \<Rightarrow> ('s, unit) orch_command" where
  "apply_selection ops sel =
     cmd_bind (persist_selection_intent ops sel) (\<lambda>_.
     commit_recorded_intent ops (os_operation_id sel))"

definition prepare_pending_operation ::
  "'s state_store \<Rightarrow> selection_request \<Rightarrow> ('s, operation_selection) orch_command" where
  "prepare_pending_operation ops req =
     cmd_bind (from_store (\<lambda>s. propose_operation ops s req)) (\<lambda>sel.
     cmd_bind (persist_selection_intent ops sel) (\<lambda>_.
     cmd_return sel))"

definition prepare_operation ::
  "'s state_store \<Rightarrow> selection_request \<Rightarrow> ('s, operation_selection) orch_command" where
  "prepare_operation ops req =
     cmd_bind (prepare_pending_operation ops req) (\<lambda>sel.
     cmd_bind (commit_recorded_intent ops (os_operation_id sel)) (\<lambda>_.
     cmd_return sel))"

definition fail_recorded_intent :: "'s state_store \<Rightarrow> operation_id \<Rightarrow> ('s, unit) orch_command" where
  "fail_recorded_intent ops i =
     cmd_bind (from_store (\<lambda>s. get_intent ops s i)) (\<lambda>found.
     cmd_bind (from_store (\<lambda>_. ok_or (IntentNotFound i) found)) (\<lambda>intent.
     case oi_status intent of
       Committed \<Rightarrow> cmd_fail (IntentNotPending i)
     | Failed \<Rightarrow> cmd_return ()
     | Pending \<Rightarrow> on_store (mark_intent_failed ops i)))"

section \<open>Recovery\<close>

text \<open>The variables of one pass over the pending intents.\<close>

record recovery_state =
  rs_deferred :: "operation_intent list"
  rs_progressed :: bool
  rs_replayed :: "operation_id list"
  rs_failed :: "operation_id list"

definition recover_one ::
  "'s state_store \<Rightarrow> operation_intent \<Rightarrow> recovery_state \<Rightarrow> ('s, recovery_state) orch_command" where
  "recover_one ops intent rs orch =
     (let i = os_operation_id (oi_selection intent) in
      case commit_selection ops (oi_selection intent) orch of
        (Inr _, orch') \<Rightarrow>
          cmd_bind (on_store (mark_intent_committed ops i)) (\<lambda>_.
            cmd_return (rs\<lparr>rs_replayed := rs_replayed rs @ [i], rs_progressed := True\<rparr>)) orch'
      | (Inl err, orch') \<Rightarrow>
          if is_storage err then (Inl err, orch')
          else
            cmd_bind (from_store (\<lambda>s. is_pending_lock_conflict ops s i err)) (\<lambda>conflict.
              if conflict then cmd_return (rs\<lparr>rs_deferred := rs_deferred rs @ [intent]\<rparr>)
              else cmd_bind (on_store (mark_intent_failed ops i)) (\<lambda>_.
                     cmd_return (rs\<lparr>rs_failed := rs_failed rs @ [i], rs_progressed := True\<rparr>)))
              orch')"

fun recovery_pass ::
  "'s state_store \<Rightarrow> operation_intent list \<Rightarrow> recovery_state \<Rightarrow> ('s, recovery_state) orch_command"
  where
  "recovery_pass ops [] rs = cmd_return rs"
| "recovery_pass ops (intent # rest) rs =
     cmd_bind (recover_one ops intent rs) (recovery_pass ops rest)"

lemma recover_one_counts:
  assumes "recover_one ops intent rs orch = (Inr rs', orch')"
  shows "length (rs_deferred rs') \<le> Suc (length (rs_deferred rs))"
    and "rs_progressed rs \<Longrightarrow> rs_progressed rs'"
    and "rs_progressed rs' \<Longrightarrow> \<not> rs_progressed rs \<Longrightarrow> rs_deferred rs' = rs_deferred rs"
  using assms
  by (auto simp: recover_one_def Let_def cmd_bind_eq from_store_def
      split: prod.splits sum.splits if_splits)

lemma recovery_pass_counts:
  assumes "recovery_pass ops pending rs orch = (Inr rs', orch')"
  shows "length (rs_deferred rs') \<le> length (rs_deferred rs) + length pending"
    and "rs_progressed rs' \<Longrightarrow> \<not> rs_progressed rs \<Longrightarrow>
      length (rs_deferred rs') < length (rs_deferred rs) + length pending"
  using assms
proof (induction pending arbitrary: rs orch)
  case Nil
  { case 1 then show ?case by simp }
  { case 2 then show ?case by simp }
next
  case (Cons intent pending)
  { case 1
    then obtain rs1 orch1 where one: "recover_one ops intent rs orch = (Inr rs1, orch1)"
      and rest: "recovery_pass ops pending rs1 orch1 = (Inr rs', orch')"
      by (auto simp: cmd_bind_eq)
    with Cons.IH(1) [OF rest] recover_one_counts(1) [OF one] show ?case by simp }
  { case 2
    then obtain rs1 orch1 where one: "recover_one ops intent rs orch = (Inr rs1, orch1)"
      and rest: "recovery_pass ops pending rs1 orch1 = (Inr rs', orch')"
      by (auto simp: cmd_bind_eq)
    show ?case
    proof (cases "rs_progressed rs1")
      case True
      with recover_one_counts(3) [OF one] 2 Cons.IH(1) [OF rest] show ?thesis by simp
    next
      case False
      with Cons.IH(2) [OF 2(1) False rest] recover_one_counts(1) [OF one] show ?thesis by simp
    qed }
qed

text \<open>
  The loop of \<open>recover_pending_intents\<close>: passes until nothing is deferred or a pass makes no
  progress. Every pass that goes on leaves fewer intents, so the loop ends.
\<close>

definition recovery_start :: "operation_id list \<Rightarrow> operation_id list \<Rightarrow> recovery_state" where
  "recovery_start replayed failed =
     \<lparr>rs_deferred = [], rs_progressed = False, rs_replayed = replayed, rs_failed = failed\<rparr>"

function recovery_loop ::
  "'s state_store \<Rightarrow> operation_intent list \<Rightarrow> operation_id list \<Rightarrow> operation_id list \<Rightarrow>
   ('s, recovery_report) orch_command" where
  "recovery_loop ops pending replayed failed orch =
     (if pending = []
      then (Inr \<lparr>rr_replayed_operations = replayed, rr_failed_operations = failed\<rparr>, orch)
      else case recovery_pass ops pending (recovery_start replayed failed) orch of
             (Inl e, orch') \<Rightarrow> (Inl e, orch')
           | (Inr rs, orch') \<Rightarrow>
               if \<not> rs_progressed rs
               then (Inr \<lparr>rr_replayed_operations = rs_replayed rs,
                          rr_failed_operations = rs_failed rs\<rparr>, orch')
               else recovery_loop ops (rs_deferred rs) (rs_replayed rs) (rs_failed rs) orch')"
  by pat_completeness auto

termination
proof (relation "measure (\<lambda>(ops, pending, replayed, failed, orch). length pending)")
  fix ops pending replayed failed orch r orch' rs
  assume "pending \<noteq> []" and run: "(r, orch') = recovery_pass ops pending (recovery_start replayed failed) orch"
    and r: "r = Inr rs" and "\<not> \<not> rs_progressed rs"
  then show "((ops, rs_deferred rs, rs_replayed rs, rs_failed rs, orch'), (ops, pending, replayed, failed, orch))
      \<in> measure (\<lambda>(ops, pending, replayed, failed, orch). length pending)"
    using recovery_pass_counts(2) [of ops pending "recovery_start replayed failed" orch rs orch']
    by (simp add: recovery_start_def)
qed simp

declare recovery_loop.simps [simp del]

definition recover_pending_intents :: "'s state_store \<Rightarrow> ('s, recovery_report) orch_command" where
  "recover_pending_intents ops =
     cmd_bind (from_store (list_pending_intents ops)) (\<lambda>pending. recovery_loop ops pending [] [])"

section \<open>Releasing and completing\<close>

definition orch_release_selected_operation ::
  "'s state_store \<Rightarrow> operation_id \<Rightarrow> ('s, outpoint list option) orch_command" where
  "orch_release_selected_operation ops i = on_store (release_selected_operation ops i)"

definition is_stale :: "u64 \<Rightarrow> u64 \<Rightarrow> persisted_operation \<Rightarrow> bool" where
  "is_stale now max_age operation \<longleftrightarrow>
     po_phase operation = PhSelected \<and> max_age \<le> sat_sub now (po_updated_at operation)"

fun release_stale ::
  "'s state_store \<Rightarrow> operation_id list \<Rightarrow> cleanup_report \<Rightarrow> ('s, cleanup_report) orch_command" where
  "release_stale ops [] report = cmd_return report"
| "release_stale ops (i # is) report =
     cmd_bind (orch_release_selected_operation ops i) (\<lambda>released.
     release_stale ops is
       (case released of
          None \<Rightarrow> report
        | Some ps \<Rightarrow> \<lparr>cr_released_operations = cr_released_operations report @ [i],
                     cr_released_outpoints = cr_released_outpoints report @ ps\<rparr>))"

definition orch_cleanup_stale_reservations ::
  "'s state_store \<Rightarrow> u64 \<Rightarrow> ('s, cleanup_report) orch_command" where
  "orch_cleanup_stale_reservations ops max_age =
     cmd_bind (orch_current_tick ops) (\<lambda>now.
     cmd_bind (orch_list_operations ops) (\<lambda>operations.
     release_stale ops (map po_operation_id (filter (is_stale now max_age) operations))
       \<lparr>cr_released_operations = [], cr_released_outpoints = []\<rparr>))"

definition current_operation ::
  "'s state_store \<Rightarrow> operation_id \<Rightarrow> ('s, persisted_operation) orch_command" where
  "current_operation ops i =
     from_store (\<lambda>s. res_bind (get_operation ops s i) (ok_or (OperationNotFound i)))"

definition orch_release_operation ::
  "'s state_store \<Rightarrow> operation_id \<Rightarrow> ('s, outpoint list) orch_command" where
  "orch_release_operation ops i =
     cmd_bind (current_operation ops i) (\<lambda>operation.
     if po_phase operation = PhRollingBack then cmd_return []
     else if po_phase operation \<notin> {PhSelected, PhConstructing, PhSigned, PhBroadcast,
               PhAwaitingConfirmation, PhAwaitingL2Finality}
     then cmd_fail (InvalidOperationTransition i (po_phase operation) PhRollingBack)
     else on_store (release_operation ops i PhRollingBack))"

definition read_verify_planned_inputs ::
  "'s state_store \<Rightarrow> 's \<Rightarrow> operation_id \<Rightarrow> outpoint list \<Rightarrow> unit result" where
  "read_verify_planned_inputs ops s i actual =
     res_bind (get_intent ops s i) (\<lambda>found.
     res_bind (ok_or (IntentNotFound i) found) (\<lambda>planned.
     if set (os_selected_outpoints (oi_selection planned)) = set actual then Inr ()
     else Inl (PlannedInputsMismatch i)))"

definition orch_verify_planned_inputs ::
  "'s state_store \<Rightarrow> operation_id \<Rightarrow> outpoint list \<Rightarrow> ('s, unit) orch_command" where
  "orch_verify_planned_inputs ops i actual =
     from_store (\<lambda>s. read_verify_planned_inputs ops s i actual)"

definition orch_complete_operation ::
  "'s state_store \<Rightarrow> operation_id \<Rightarrow> operation_phase \<Rightarrow> outpoint list \<Rightarrow>
   ('s, outpoint list) orch_command" where
  "orch_complete_operation ops i completed_phase actual =
     cmd_bind (current_operation ops i) (\<lambda>operation.
     cmd_bind (from_store (\<lambda>s. get_intent ops s i)) (\<lambda>found.
     cmd_bind (from_store (\<lambda>_. ok_or (IntentNotFound i) found)) (\<lambda>intent.
     if oi_status intent \<noteq> Committed then cmd_fail (IntentNotCommitted i)
     else
     cmd_bind (from_store (\<lambda>_. validate_advance operation completed_phase)) (\<lambda>advances.
     if \<not> advances then cmd_return []
     else
     cmd_bind (if po_phase operation = PhSelected then orch_verify_planned_inputs ops i actual
               else cmd_return ()) (\<lambda>_.
     on_store (complete_operation ops i completed_phase))))))"

end
