(* ===== verification/Facade.thy ===== *)
theory Facade
  imports Orchestrator
begin

text \<open>
  The application service (\<open>txoscope/src/lib.rs\<close>, \<open>mapper.rs\<close>, \<open>clock.rs\<close>, \<open>reservation_id.rs\<close>). The clock
  and the generator of reservation identifiers are the service's dependencies: a clock gives
  the value of its next reading, a generator the identifier of its next call, so the service
  state counts the calls made.
\<close>

section \<open>Service and dependencies\<close>

record dependencies =
  dp_now :: "nat \<Rightarrow> u64"
  dp_generate :: "nat \<Rightarrow> u64 \<Rightarrow> operation_id"

record 's service =
  sv_orchestrator :: "'s orchestrator"
  sv_clock_reads :: nat
  sv_ids_generated :: nat

type_synonym ('s, 'a) service_command = "('s service, 'a) command"

definition on_orchestrator :: "('s, 'a) orch_command \<Rightarrow> ('s, 'a) service_command" where
  "on_orchestrator m =
     (\<lambda>sv. case m (sv_orchestrator sv) of (r, orch) \<Rightarrow> (r, sv\<lparr>sv_orchestrator := orch\<rparr>))"

definition service_with_store :: "'s \<Rightarrow> 's service" where
  "service_with_store s =
     \<lparr>sv_orchestrator = orch_with_store s, sv_clock_reads = 0, sv_ids_generated = 0\<rparr>"

definition now_utc_unix_secs :: "dependencies \<Rightarrow> ('s, u64) service_command" where
  "now_utc_unix_secs dp sv =
     (Inr (dp_now dp (sv_clock_reads sv)), sv\<lparr>sv_clock_reads := Suc (sv_clock_reads sv)\<rparr>)"

definition generate_id :: "dependencies \<Rightarrow> u64 \<Rightarrow> ('s, operation_id) service_command" where
  "generate_id dp now sv =
     (Inr (dp_generate dp (sv_ids_generated sv) now),
      sv\<lparr>sv_ids_generated := Suc (sv_ids_generated sv)\<rparr>)"

text \<open>
  The library's own dependencies, over the system's time since the epoch (absent before it) and a
  random alphanumeric nonce.
\<close>

definition utc_clock_reading :: "u64 option \<Rightarrow> u64" where
  "utc_clock_reading since_epoch = (case since_epoch of None \<Rightarrow> 0 | Some secs \<Rightarrow> secs)"

definition random_reservation_id :: "string \<Rightarrow> u64 \<Rightarrow> operation_id" where
  "random_reservation_id nonce now =
     OperationId (''manual-reservation-'' @ show_nat (unat now) @ ''-'' @ nonce)"

section \<open>Requests and results\<close>

record bootstrap_account_config =
  bac_id :: account_id
  bac_name :: string
  bac_capabilities :: capability_set

record bootstrap_scope_config =
  bsc_id :: wallet_scope_id
  bsc_account_id :: account_id
  bsc_descriptor_ref :: string
  bsc_derivation_scope :: string
  bsc_capabilities :: capability_set
  bsc_priority :: u32

record bootstrap_config =
  bc_owner :: string
  bc_accounts :: "bootstrap_account_config list"
  bc_scopes :: "bootstrap_scope_config list"

record plan_exact_request =
  per_operation_id :: operation_id
  per_target_account_id :: account_id
  per_selected_outpoints :: "outpoint list"

record reserve_specific_request =
  rsr_operation_id :: operation_id
  rsr_target_account_id :: account_id
  rsr_outpoint :: outpoint
  rsr_expires_at :: "u64 option"

record planned_selection =
  pl_operation_id :: operation_id
  pl_selected_outpoints :: "outpoint list"
  pl_change_scope_id :: wallet_scope_id
  pl_expires_at :: "u64 option"

record explicit_selection_request =
  esr_operation_id :: operation_id
  esr_selected_outpoints :: "outpoint list"
  esr_change_scope_id :: wallet_scope_id
  esr_expires_at :: "u64 option"

record reserve_manual_request =
  rmr_target_account_id :: account_id
  rmr_outpoint :: outpoint
  rmr_ttl_secs :: u64

record reserve_first_request =
  rfr_target_account_id :: account_id
  rfr_candidate_outpoints :: "outpoint list"
  rfr_ttl_secs :: u64

record manual_reservation =
  mr_reservation_id :: operation_id
  mr_outpoint :: outpoint
  mr_expires_at :: u64

record managed_utxo_info =
  mi_account_id :: account_id
  mi_value_sats :: u64

record reconcile_summary =
  rc_tick :: u64
  rc_observed_utxos :: nat
  rc_actions_applied :: nat
  rc_scope :: observation_scope

text \<open>The conversions of \<open>mapper.rs\<close>.\<close>

definition planned_of_selection :: "operation_selection \<Rightarrow> planned_selection" where
  "planned_of_selection sel =
     \<lparr>pl_operation_id = os_operation_id sel, pl_selected_outpoints = os_selected_outpoints sel,
      pl_change_scope_id = os_change_scope_id sel, pl_expires_at = os_expires_at sel\<rparr>"

definition exact_of_plan_request :: "plan_exact_request \<Rightarrow> planned_exact_outpoints_request" where
  "exact_of_plan_request req =
     \<lparr>pe_operation_id = per_operation_id req, pe_account_id = per_target_account_id req,
      pe_outpoints = per_selected_outpoints req\<rparr>"

definition specific_of_reserve_request ::
  "reserve_specific_request \<Rightarrow> planned_specific_outpoint_request" where
  "specific_of_reserve_request req =
     (let request = planned_specific_outpoint_new (rsr_operation_id req)
            (rsr_target_account_id req) (rsr_outpoint req)
      in case rsr_expires_at req of
           Some t \<Rightarrow> planned_specific_expires_at t request
         | None \<Rightarrow> request)"

section \<open>Bootstrapping and reconciling\<close>

definition account_of_config :: "bootstrap_account_config \<Rightarrow> account" where
  "account_of_config a =
     \<lparr>ac_id = bac_id a, ac_name = bac_name a, ac_scopes = [],
      ac_capabilities = bac_capabilities a\<rparr>"

definition scope_of_config :: "bootstrap_scope_config \<Rightarrow> wallet_scope" where
  "scope_of_config sc =
     \<lparr>ws_id = bsc_id sc, ws_account_id = bsc_account_id sc,
      ws_descriptor_ref = bsc_descriptor_ref sc, ws_derivation_scope = bsc_derivation_scope sc,
      ws_capabilities = bsc_capabilities sc, ws_priority = bsc_priority sc\<rparr>"

definition bootstrap :: "'s state_store \<Rightarrow> bootstrap_config \<Rightarrow> ('s, unit) service_command" where
  "bootstrap ops cfg =
     on_orchestrator (\<lambda>orch.
       cmd_bind (cmd_each (\<lambda>a. orch_add_account ops (account_of_config a)) (bc_accounts cfg)) (\<lambda>_.
       cmd_each (\<lambda>sc. orch_add_scope ops (scope_of_config sc)) (bc_scopes cfg))
       (orch_set_owner (bc_owner cfg) orch))"

definition reconcile_snapshot ::
  "'s state_store \<Rightarrow> observation_snapshot \<Rightarrow> ('s, reconcile_summary) service_command" where
  "reconcile_snapshot ops snapshot =
     on_orchestrator
       (cmd_bind (orch_advance_tick ops 1) (\<lambda>_.
        cmd_bind (orch_reconcile_snapshot ops snapshot) (\<lambda>plan.
        cmd_bind (orch_current_tick ops) (\<lambda>tick.
        cmd_return \<lparr>rc_tick = tick, rc_observed_utxos = length (sn_utxos snapshot),
          rc_actions_applied = length (rp_actions plan), rc_scope = sn_scope snapshot\<rparr>))))"

section \<open>Planning\<close>

definition plan_exact_outpoints ::
  "'s state_store \<Rightarrow> plan_exact_request \<Rightarrow> ('s, planned_selection) service_command" where
  "plan_exact_outpoints ops req =
     cmd_bind (on_orchestrator
       (prepare_operation ops (PlannedExactOutpoints (exact_of_plan_request req)))) (\<lambda>sel.
     cmd_return (planned_of_selection sel))"

definition explicit_selection :: "explicit_selection_request \<Rightarrow> operation_selection" where
  "explicit_selection req =
     \<lparr>os_operation_id = esr_operation_id req, os_selected_outpoints = esr_selected_outpoints req,
      os_change_scope_id = esr_change_scope_id req,
      os_effects = map (\<lambda>p. LockUtxo p PlannedSelectionLock) (esr_selected_outpoints req),
      os_expires_at = esr_expires_at req\<rparr>"

definition check_explicit_request :: "explicit_selection_request \<Rightarrow> unit result" where
  "check_explicit_request req =
     (if esr_selected_outpoints req = []
      then Inl (InvalidRequest ''explicit selection requires at least one outpoint'')
      else (case first_duplicate {} (esr_selected_outpoints req) of
              Some p \<Rightarrow> Inl (InvalidRequest
                (''explicit selection includes duplicate outpoint: '' @ outpoint_string p))
            | None \<Rightarrow> Inr ()))"

definition apply_explicit_selection ::
  "'s state_store \<Rightarrow> explicit_selection_request \<Rightarrow> ('s, planned_selection) service_command" where
  "apply_explicit_selection ops req =
     on_orchestrator
       (cmd_bind (from_store (\<lambda>_. check_explicit_request req)) (\<lambda>_.
        cmd_bind (orch_get_scope ops (esr_change_scope_id req)) (\<lambda>sc.
        if sc = None then cmd_fail (ScopeNotFound (esr_change_scope_id req))
        else
        cmd_bind (apply_selection ops (explicit_selection req)) (\<lambda>_.
        cmd_return (planned_of_selection (explicit_selection req))))))"

definition reserve_specific_utxo ::
  "'s state_store \<Rightarrow> reserve_specific_request \<Rightarrow> ('s, planned_selection) service_command" where
  "reserve_specific_utxo ops req =
     cmd_bind (on_orchestrator
       (prepare_operation ops (PlannedSpecificOutpoint (specific_of_reserve_request req)))) (\<lambda>sel.
     cmd_return (planned_of_selection sel))"

section \<open>Manual reservations\<close>

definition reservation_expiry :: "u64 \<Rightarrow> u64 \<Rightarrow> u64" where
  "reservation_expiry now ttl_secs = sat_add now (clamp_word 1 (7 * 24 * 60 * 60) ttl_secs)"

definition next_manual_reservation ::
  "dependencies \<Rightarrow> u64 \<Rightarrow> ('s, operation_id \<times> u64) service_command" where
  "next_manual_reservation dp ttl_secs =
     cmd_bind (now_utc_unix_secs dp) (\<lambda>now.
     cmd_bind (generate_id dp now) (\<lambda>reservation_id.
     cmd_return (reservation_id, reservation_expiry now ttl_secs)))"

definition manual_reservation_from_selection ::
  "operation_selection \<Rightarrow> manual_reservation result" where
  "manual_reservation_from_selection sel =
     res_bind (ok_or (CorruptedState (''manual reservation selection '' @
         operation_id_str (os_operation_id sel) @ '' has no selected outpoint''))
       (case os_selected_outpoints sel of [] \<Rightarrow> None | p # ps \<Rightarrow> Some p)) (\<lambda>p.
     res_bind (ok_or (CorruptedState (''manual reservation selection '' @
         operation_id_str (os_operation_id sel) @ '' is missing expires_at''))
       (os_expires_at sel)) (\<lambda>t.
     Inr \<lparr>mr_reservation_id = os_operation_id sel, mr_outpoint = p, mr_expires_at = t\<rparr>))"

definition reserve_manual_utxo ::
  "'s state_store \<Rightarrow> dependencies \<Rightarrow> reserve_manual_request \<Rightarrow>
   ('s, manual_reservation) service_command" where
  "reserve_manual_utxo ops dp req =
     cmd_bind (next_manual_reservation dp (rmr_ttl_secs req)) (\<lambda>(reservation_id, expires_at).
     cmd_bind (on_orchestrator (prepare_operation ops (ManualReservationExact
       \<lparr>mx_reservation_id = reservation_id, mx_account_id = rmr_target_account_id req,
        mx_outpoint = rmr_outpoint req, mx_expires_at = expires_at\<rparr>))) (\<lambda>sel.
     cmd_read (\<lambda>_. manual_reservation_from_selection sel)))"

definition read_manual_reservation ::
  "'s state_store \<Rightarrow> 's \<Rightarrow> outpoint \<Rightarrow> manual_reservation option result" where
  "read_manual_reservation ops s p =
     res_bind (get_lock ops s p) (\<lambda>found.
     case found of
       None \<Rightarrow> Inr None
     | Some lock \<Rightarrow>
         if lk_purpose lock \<noteq> ManualReservation then Inr None
         else
         res_bind (get_operation ops s (lk_operation_id lock)) (\<lambda>operation.
         let selected_operation = is_some_and operation (\<lambda>x. po_phase x = PhSelected) in
         res_bind (get_utxo ops s p) (\<lambda>utxo.
         let selected_binding = is_some_and (Option.bind utxo mu_operation_binding)
               (\<lambda>b. bd_operation_id b = lk_operation_id lock \<and> bd_phase b = PhSelected)
         in if \<not> selected_operation \<or> \<not> selected_binding then Inr None
            else (case lk_expires_at lock of
                    None \<Rightarrow> Inl (CorruptedState (''manual reservation lock for outpoint '' @
                      outpoint_string p @ '' is missing expires_at''))
                  | Some t \<Rightarrow> Inr (Some \<lparr>mr_reservation_id = lk_operation_id lock,
                      mr_outpoint = p, mr_expires_at = t\<rparr>)))))"

definition get_manual_reservation ::
  "'s state_store \<Rightarrow> outpoint \<Rightarrow> ('s, manual_reservation option) service_command" where
  "get_manual_reservation ops p = on_orchestrator (from_store (\<lambda>s. read_manual_reservation ops s p))"

definition get_active_manual_reservation ::
  "'s state_store \<Rightarrow> dependencies \<Rightarrow> outpoint \<Rightarrow> ('s, manual_reservation option) service_command" where
  "get_active_manual_reservation ops dp p =
     cmd_bind (get_manual_reservation ops p) (\<lambda>found.
     case found of
       None \<Rightarrow> cmd_return None
     | Some reservation \<Rightarrow>
         cmd_bind (now_utc_unix_secs dp) (\<lambda>now.
         if mr_expires_at reservation \<le> now
         then cmd_bind (on_orchestrator
                (orch_release_selected_operation ops (mr_reservation_id reservation))) (\<lambda>_.
              cmd_return None)
         else cmd_return (Some reservation)))"

definition expire_stale_candidate_reservations ::
  "'s state_store \<Rightarrow> dependencies \<Rightarrow> outpoint list \<Rightarrow> ('s, unit) service_command" where
  "expire_stale_candidate_reservations ops dp candidates =
     cmd_each (\<lambda>p. cmd_bind (get_active_manual_reservation ops dp p) (\<lambda>_. cmd_return ())) candidates"

definition reserve_first_available_manual_utxo ::
  "'s state_store \<Rightarrow> dependencies \<Rightarrow> reserve_first_request \<Rightarrow>
   ('s, manual_reservation option) service_command" where
  "reserve_first_available_manual_utxo ops dp req =
     cmd_bind (expire_stale_candidate_reservations ops dp (rfr_candidate_outpoints req)) (\<lambda>_.
     cmd_bind (next_manual_reservation dp (rfr_ttl_secs req)) (\<lambda>(reservation_id, expires_at).
     (\<lambda>sv.
        case on_orchestrator (prepare_operation ops (ManualReservationFirstAvailable
               \<lparr>mf_reservation_id = reservation_id, mf_account_id = rfr_target_account_id req,
                mf_candidate_outpoints = rfr_candidate_outpoints req,
                mf_expires_at = expires_at\<rparr>)) sv of
          (Inr sel, sv') \<Rightarrow> (res_map Some (manual_reservation_from_selection sel), sv')
        | (Inl err, sv') \<Rightarrow>
            (if err = NoCandidateAvailable then Inr None else Inl err, sv'))))"

section \<open>Lifecycle and queries\<close>

definition release_operation_service ::
  "'s state_store \<Rightarrow> operation_id \<Rightarrow> ('s, outpoint list) service_command" where
  "release_operation_service ops i = on_orchestrator (orch_release_operation ops i)"

definition complete_operation_service ::
  "'s state_store \<Rightarrow> operation_id \<Rightarrow> operation_phase \<Rightarrow> outpoint list \<Rightarrow>
   ('s, outpoint list) service_command" where
  "complete_operation_service ops i ph actual =
     on_orchestrator (orch_complete_operation ops i ph actual)"

definition cleanup_stale_reservations ::
  "'s state_store \<Rightarrow> u64 \<Rightarrow> ('s, cleanup_report) service_command" where
  "cleanup_stale_reservations ops max_age =
     on_orchestrator (orch_cleanup_stale_reservations ops max_age)"

definition verify_planned_inputs ::
  "'s state_store \<Rightarrow> operation_id \<Rightarrow> outpoint list \<Rightarrow> ('s, unit) service_command" where
  "verify_planned_inputs ops i actual = on_orchestrator (orch_verify_planned_inputs ops i actual)"

definition is_outpoint_selectable :: "'s state_store \<Rightarrow> outpoint \<Rightarrow> ('s, bool) service_command" where
  "is_outpoint_selectable ops p = on_orchestrator (orch_is_outpoint_selectable ops p)"

definition get_utxo_status ::
  "'s state_store \<Rightarrow> outpoint \<Rightarrow> ('s, utxo_status option) service_command" where
  "get_utxo_status ops p = on_orchestrator (orch_utxo_status ops p)"

text \<open>The read-only queries, over the store.\<close>

definition read_planned_selection ::
  "'s state_store \<Rightarrow> 's \<Rightarrow> operation_id \<Rightarrow> planned_selection option result" where
  "read_planned_selection ops s i =
     res_map (map_option (\<lambda>n. planned_of_selection (oi_selection n))) (get_intent ops s i)"

definition utxo_account_id :: "'s state_store \<Rightarrow> 's \<Rightarrow> outpoint \<Rightarrow> account_id option result" where
  "utxo_account_id ops s p = res_map (map_option mu_account_id) (get_utxo ops s p)"

definition managed_utxo_info_of ::
  "'s state_store \<Rightarrow> 's \<Rightarrow> outpoint \<Rightarrow> managed_utxo_info option result" where
  "managed_utxo_info_of ops s p =
     res_map (map_option (\<lambda>u. \<lparr>mi_account_id = mu_account_id u, mi_value_sats = mu_value_sats u\<rparr>))
       (get_utxo ops s p)"

definition owning_operation_id ::
  "'s state_store \<Rightarrow> 's \<Rightarrow> outpoint \<Rightarrow> operation_id option result" where
  "owning_operation_id ops s p =
     res_map (\<lambda>u. map_option bd_operation_id (Option.bind u mu_operation_binding)) (get_utxo ops s p)"

definition selected_operation_id ::
  "'s state_store \<Rightarrow> 's \<Rightarrow> outpoint \<Rightarrow> operation_id option result" where
  "selected_operation_id ops s p =
     res_map (\<lambda>u. map_option bd_operation_id
       (Option.bind (Option.bind u mu_operation_binding)
         (\<lambda>b. if bd_phase b = PhSelected then Some b else None))) (get_utxo ops s p)"

definition is_outpoint_spent :: "'s state_store \<Rightarrow> 's \<Rightarrow> outpoint \<Rightarrow> bool result" where
  "is_outpoint_spent ops s p =
     res_map (\<lambda>u. is_some_and u (\<lambda>x. mu_onchain_state x = Spent)) (get_utxo ops s p)"

definition operation_has_expiry :: "'s state_store \<Rightarrow> 's \<Rightarrow> operation_id \<Rightarrow> bool result" where
  "operation_has_expiry ops s i =
     res_map (\<lambda>x. Option.bind x po_expires_at \<noteq> None) (get_operation ops s i)"

end
