(* ===== verification/Asset_Policy.thy ===== *)
theory Asset_Policy
  imports Errors
begin

text \<open>
  The pure asset selection policy (\<open>txoscope-core/src/asset_selection.rs\<close>): validation of the
  caller's inputs, exact and automatic selection. Amounts are 64-bit words, their totals 128-bit
  words, as in the code; the lemmas read them as naturals, which is exact for fewer than \<open>2 ^ 64\<close>
  candidates.
\<close>

section \<open>Data\<close>

record asset_candidate =
  cand_outpoint :: outpoint
  cand_asset_amount :: u64
  cand_value_sats :: u64

record asset_constraints =
  co_exact_outpoints :: "outpoint list option"
  co_allow_asset_merge :: bool
  co_allow_fee_support :: bool

section \<open>The policy\<close>

definition validate_inputs :: "outpoint list \<Rightarrow> u64 \<Rightarrow> asset_constraints \<Rightarrow> unit result" where
  "validate_inputs outpoints target_asset constraints =
     (if target_asset = 0 then Inl InsufficientFunds
      else if \<not> distinct outpoints then Inl (InvalidRequest ''duplicate asset candidate'')
      else (case co_exact_outpoints constraints of
              None \<Rightarrow> Inr ()
            | Some exact \<Rightarrow>
                if exact = []
                then Inl (InvalidRequest ''exact asset selection requires at least one outpoint'')
                else if \<not> distinct exact then Inl (InvalidRequest ''duplicate exact input'')
                else Inr ()))"

text \<open>Larger carriers first, then by the text of the outpoint.\<close>

definition carrier_order :: "asset_candidate \<Rightarrow> u64 \<times> string" where
  "carrier_order c = (- 1 - cand_value_sats c, outpoint_string (cand_outpoint c))"

fun asset_loop ::
  "bool \<Rightarrow> u64 \<Rightarrow> u64 \<Rightarrow> outpoint list \<Rightarrow> u128 \<Rightarrow> u128 \<Rightarrow> asset_candidate list \<Rightarrow>
   outpoint list \<times> u128 \<times> u128" where
  "asset_loop merge target_asset target_value selected assets sats [] = (selected, assets, sats)"
| "asset_loop merge target_asset target_value selected assets sats (c # cs) =
     (if \<not> merge \<and> cand_asset_amount c < target_asset
      then asset_loop merge target_asset target_value selected assets sats cs
      else
        let selected' = selected @ [cand_outpoint c];
            assets' = assets + ucast (cand_asset_amount c);
            sats' = sats + ucast (cand_value_sats c)
        in if \<not> merge \<or> (ucast target_asset \<le> assets' \<and> ucast target_value \<le> sats')
           then (selected', assets', sats')
           else asset_loop merge target_asset target_value selected' assets' sats' cs)"

fun fee_loop :: "u64 \<Rightarrow> outpoint list \<Rightarrow> u128 \<Rightarrow> asset_candidate list \<Rightarrow> outpoint list" where
  "fee_loop target_value selected sats [] = selected"
| "fee_loop target_value selected sats (c # cs) =
     (if ucast target_value \<le> sats then selected
      else fee_loop target_value (selected @ [cand_outpoint c]) (sats + ucast (cand_value_sats c)) cs)"

definition auto_select ::
  "asset_candidate list \<Rightarrow> u64 \<Rightarrow> u64 \<Rightarrow> asset_constraints \<Rightarrow> outpoint list" where
  "auto_select candidates target_asset target_value constraints =
     (let eligible = sort_key carrier_order candidates;
          (selected, assets, sats) = asset_loop (co_allow_asset_merge constraints) target_asset
            target_value [] 0 0 (filter (\<lambda>c. 0 < cand_asset_amount c) eligible)
      in if ucast target_asset \<le> assets \<and> co_allow_fee_support constraints
         then fee_loop target_value selected sats (filter (\<lambda>c. cand_asset_amount c = 0) eligible)
         else selected)"

definition check_exact ::
  "asset_candidate list \<Rightarrow> bool \<Rightarrow> outpoint list \<Rightarrow> unit result" where
  "check_exact candidates allow_fee_support outpoints =
     res_bind (res_each (\<lambda>p.
       if \<not> list_ex (\<lambda>c. cand_outpoint c = p) candidates
       then Inl (UtxoPolicyBlocked p ''input is not an available asset or fee-support candidate'')
       else Inr ()) outpoints) (\<lambda>_.
     res_each (\<lambda>c.
       if cand_outpoint c \<in> set outpoints \<and> cand_asset_amount c = 0 \<and> \<not> allow_fee_support
       then Inl (UtxoPolicyBlocked (cand_outpoint c) ''fee-support inputs are disabled'')
       else Inr ()) candidates)"

fun add_totals ::
  "asset_candidate list \<Rightarrow> outpoint list \<Rightarrow> u128 \<Rightarrow> u128 \<Rightarrow> (u128 \<times> u128) result" where
  "add_totals candidates [] assets sats = Inr (assets, sats)"
| "add_totals candidates (p # ps) assets sats =
     res_bind (ok_or (CorruptedState
         (''selected asset candidate disappeared: '' @ outpoint_string p))
       (find (\<lambda>c. cand_outpoint c = p) candidates)) (\<lambda>c.
     add_totals candidates ps (assets + ucast (cand_asset_amount c))
       (sats + ucast (cand_value_sats c)))"

definition select_assets ::
  "asset_candidate list \<Rightarrow> u64 \<Rightarrow> u64 \<Rightarrow> asset_constraints \<Rightarrow> outpoint list result" where
  "select_assets candidates target_asset target_value constraints =
     res_bind (validate_inputs (map cand_outpoint candidates) target_asset constraints) (\<lambda>_.
     res_bind
       (case co_exact_outpoints constraints of
          Some outpoints \<Rightarrow>
            res_bind (check_exact candidates (co_allow_fee_support constraints) outpoints)
              (\<lambda>_. Inr outpoints)
        | None \<Rightarrow> Inr (auto_select candidates target_asset target_value constraints)) (\<lambda>selected.
     res_bind (add_totals candidates selected 0 0) (\<lambda>(assets, sats).
     if assets < ucast target_asset then Inl (InsufficientAsset (ucast target_asset) assets)
     else if sats < ucast target_value then Inl (InsufficientValue (ucast target_value) sats)
     else Inr selected)))"

section \<open>Totals without overflow\<close>

definition asset_sum :: "asset_candidate list \<Rightarrow> nat" where
  "asset_sum cs = sum_list (map (\<lambda>c. unat (cand_asset_amount c)) cs)"

definition value_sum :: "asset_candidate list \<Rightarrow> nat" where
  "value_sum cs = sum_list (map (\<lambda>c. unat (cand_value_sats c)) cs)"

lemma sum_simps [simp]:
  "asset_sum [] = 0" "asset_sum (c # cs) = unat (cand_asset_amount c) + asset_sum cs"
  "asset_sum (xs @ ys) = asset_sum xs + asset_sum ys"
  "value_sum [] = 0" "value_sum (c # cs) = unat (cand_value_sats c) + value_sum cs"
  "value_sum (xs @ ys) = value_sum xs + value_sum ys"
  by (simp_all add: asset_sum_def value_sum_def)

lemma sum_bounds:
  assumes "length cs < 2 ^ 64"
  shows "asset_sum cs < 2 ^ 128" and "value_sum cs < 2 ^ 128"
proof -
  have "sum_list (map f cs) \<le> length cs * (2 ^ 64 - 1)"
    if "\<And>c. f c \<le> 2 ^ 64 - 1" for f :: "asset_candidate \<Rightarrow> nat"
    by (induction cs) (use that in \<open>auto simp: add_mono\<close>)
  moreover have "unat w \<le> 2 ^ 64 - 1" for w :: u64 using unat_bound [of w] by simp
  moreover have "length cs * (2 ^ 64 - 1) < (2 :: nat) ^ 128"
  proof -
    have "length cs * (2 ^ 64 - 1) \<le> (2 ^ 64 - 1) * (2 ^ 64 - 1)"
      using assms by (intro mult_right_mono) auto
    also have "\<dots> < (2 :: nat) ^ 128" by simp
    finally show ?thesis .
  qed
  ultimately show "asset_sum cs < 2 ^ 128" and "value_sum cs < 2 ^ 128"
    unfolding asset_sum_def value_sum_def by (metis (no_types, lifting) le_less_trans)+
qed

lemma sum_take_le: "asset_sum (take n cs) \<le> asset_sum cs" "value_sum (take n cs) \<le> value_sum cs"
  by (simp_all add: asset_sum_def value_sum_def sum_list_take_mono)

lemma sum_filter_le: "asset_sum (filter P cs) \<le> asset_sum cs" "value_sum (filter P cs) \<le> value_sum cs"
  by (induction cs) auto

lemma sum_split:
  "value_sum (filter P cs) + value_sum (filter (\<lambda>c. \<not> P c) cs) = value_sum cs"
  by (induction cs) auto

lemma sum_mset:
  assumes "mset xs = mset ys"
  shows "asset_sum xs = asset_sum ys" and "value_sum xs = value_sum ys"
  unfolding asset_sum_def value_sum_def
  using assms by (metis mset_map sum_mset_sum_list)+

text \<open>A 64-bit amount as a total, and a total below \<open>2 ^ 128\<close> as a natural.\<close>

lemma ucast_u64: "(ucast (w :: u64) :: u128) = of_nat (unat w)"
  by (simp add: unsigned_ucast_eq)

lemma unat_total: "n < 2 ^ 128 \<Longrightarrow> unat (of_nat n :: u128) = n"
  by (simp add: unsigned_of_nat take_bit_nat_eq_self)

lemma target_le_total:
  "n < 2 ^ 128 \<Longrightarrow> (ucast (w :: u64) :: u128) \<le> of_nat n \<longleftrightarrow> unat w \<le> n"
proof -
  assume n: "n < 2 ^ 128"
  have "unat w < 2 ^ 128" using unat_bound [of w] by simp
  then show ?thesis by (simp only: ucast_u64 word_le_nat_alt unat_total n)
qed

section \<open>What the loops compute\<close>

text \<open>With merging, the loop takes the shortest prefix that reaches both targets.\<close>

lemma asset_loop_merge:
  assumes "a + asset_sum cs < 2 ^ 128" and "v + value_sum cs < 2 ^ 128"
  shows "\<exists>n\<le>length cs.
    asset_loop True ta tv sel (of_nat a) (of_nat v) cs =
      (sel @ map cand_outpoint (take n cs), of_nat (a + asset_sum (take n cs)),
       of_nat (v + value_sum (take n cs))) \<and>
    (n = length cs \<or>
     unat ta \<le> a + asset_sum (take n cs) \<and> unat tv \<le> v + value_sum (take n cs))"
  using assms
proof (induction cs arbitrary: sel a v)
  case Nil
  then show ?case by simp
next
  case (Cons c cs)
  let ?a = "a + unat (cand_asset_amount c)" and ?v = "v + unat (cand_value_sats c)"
  have sums: "?a + asset_sum cs < 2 ^ 128" "?v + value_sum cs < 2 ^ 128"
    using Cons.prems by (simp_all add: add.assoc)
  have step: "(of_nat a :: u128) + ucast (cand_asset_amount c) = of_nat ?a"
    "(of_nat v :: u128) + ucast (cand_value_sats c) = of_nat ?v"
    by (simp_all only: of_nat_add ucast_u64)
  have reach: "ucast ta \<le> (of_nat ?a :: u128) \<longleftrightarrow> unat ta \<le> ?a"
    "ucast tv \<le> (of_nat ?v :: u128) \<longleftrightarrow> unat tv \<le> ?v"
    using sums by (simp_all only: target_le_total)
  show ?case
  proof (cases "unat ta \<le> ?a \<and> unat tv \<le> ?v")
    case True
    then have "asset_loop True ta tv sel (of_nat a) (of_nat v) (c # cs) =
        (sel @ [cand_outpoint c], of_nat ?a, of_nat ?v)"
      by (simp only: asset_loop.simps Let_def step reach) simp
    with True show ?thesis by (intro exI [of _ 1]) auto
  next
    case False
    then have "asset_loop True ta tv sel (of_nat a) (of_nat v) (c # cs) =
        asset_loop True ta tv (sel @ [cand_outpoint c]) (of_nat ?a) (of_nat ?v) cs"
      by (simp only: asset_loop.simps Let_def step reach) simp
    with Cons.IH [OF sums, of "sel @ [cand_outpoint c]"] obtain n where "n \<le> length cs"
      "asset_loop True ta tv sel (of_nat a) (of_nat v) (c # cs) =
        (sel @ map cand_outpoint (take (Suc n) (c # cs)), of_nat (a + asset_sum (take (Suc n) (c # cs))),
         of_nat (v + value_sum (take (Suc n) (c # cs))))"
      "n = length cs \<or> unat ta \<le> a + asset_sum (take (Suc n) (c # cs)) \<and>
         unat tv \<le> v + value_sum (take (Suc n) (c # cs))"
      by (auto simp: add.assoc)
    then show ?thesis by (intro exI [of _ "Suc n"]) auto
  qed
qed

text \<open>Without merging, it takes the first candidate that covers the target on its own.\<close>

lemma asset_loop_single:
  "asset_loop False ta tv sel A V cs =
    (case find (\<lambda>c. ta \<le> cand_asset_amount c) cs of
       None \<Rightarrow> (sel, A, V)
     | Some c \<Rightarrow> (sel @ [cand_outpoint c], A + ucast (cand_asset_amount c),
                  V + ucast (cand_value_sats c)))"
  by (induction cs) (auto simp: Let_def not_less)

lemma fee_loop_prefix:
  assumes "v + value_sum cs < 2 ^ 128"
  shows "\<exists>n\<le>length cs. fee_loop tv sel (of_nat v) cs = sel @ map cand_outpoint (take n cs) \<and>
    (n = length cs \<or> unat tv \<le> v + value_sum (take n cs))"
  using assms
proof (induction cs arbitrary: sel v)
  case Nil
  then show ?case by simp
next
  case (Cons c cs)
  let ?v = "v + unat (cand_value_sats c)"
  have "v < 2 ^ 128" and sums: "?v + value_sum cs < 2 ^ 128"
    using Cons.prems by (simp_all add: add.assoc)
  then have reach: "ucast tv \<le> (of_nat v :: u128) \<longleftrightarrow> unat tv \<le> v" by (simp only: target_le_total)
  have step: "(of_nat v :: u128) + ucast (cand_value_sats c) = of_nat ?v" by (simp only: of_nat_add ucast_u64)
  show ?case
  proof (cases "unat tv \<le> v")
    case True
    then have "fee_loop tv sel (of_nat v) (c # cs) = sel" by (simp only: fee_loop.simps reach) simp
    with True show ?thesis by (intro exI [of _ 0]) auto
  next
    case False
    then have "fee_loop tv sel (of_nat v) (c # cs) = fee_loop tv (sel @ [cand_outpoint c]) (of_nat ?v) cs"
      by (simp only: fee_loop.simps reach step) simp
    with Cons.IH [OF sums, of "sel @ [cand_outpoint c]"] obtain n where "n \<le> length cs"
      "fee_loop tv sel (of_nat v) (c # cs) = sel @ map cand_outpoint (take (Suc n) (c # cs))"
      "n = length cs \<or> unat tv \<le> v + value_sum (take (Suc n) (c # cs))"
      by (auto simp: add.assoc)
    then show ?thesis by (intro exI [of _ "Suc n"]) auto
  qed
qed

text \<open>The candidates a list of outpoints names.\<close>

definition named :: "asset_candidate list \<Rightarrow> outpoint list \<Rightarrow> asset_candidate list" where
  "named cs ps = map (\<lambda>p. the (find (\<lambda>c. cand_outpoint c = p) cs)) ps"

lemma find_own:
  assumes "distinct (map cand_outpoint cs)" and "c \<in> set cs"
  shows "find (\<lambda>x. cand_outpoint x = cand_outpoint c) cs = Some c"
  using assms by (induction cs) (auto simp: image_iff)

lemma named_own:
  assumes "distinct (map cand_outpoint cs)" and "set xs \<subseteq> set cs"
  shows "named cs (map cand_outpoint xs) = xs"
  using assms find_own [OF assms(1)] by (auto simp: named_def intro!: map_idI)

lemma add_totals_named:
  assumes "\<forall>p\<in>set ps. \<exists>c\<in>set cs. cand_outpoint c = p"
  shows "add_totals cs ps (of_nat a) (of_nat v) =
    Inr (of_nat (a + asset_sum (named cs ps)), of_nat (v + value_sum (named cs ps)))"
  using assms
proof (induction ps arbitrary: a v)
  case Nil
  then show ?case by (simp add: named_def)
next
  case (Cons p ps)
  then obtain c where c: "find (\<lambda>c. cand_outpoint c = p) cs = Some c"
    by (cases "find (\<lambda>c. cand_outpoint c = p) cs") (auto simp: find_None_iff)
  have step: "(of_nat a :: u128) + ucast (cand_asset_amount c) = of_nat (a + unat (cand_asset_amount c))"
    "(of_nat v :: u128) + ucast (cand_value_sats c) = of_nat (v + unat (cand_value_sats c))"
    by (simp_all only: of_nat_add ucast_u64)
  show ?case
    using Cons.IH [of "a + unat (cand_asset_amount c)" "v + unat (cand_value_sats c)"] Cons.prems
    by (simp only: add_totals.simps c ok_or_simps res_bind_simps step)
      (simp add: named_def c add.assoc)
qed

section \<open>Automatic selection\<close>

abbreviation asset_bearing :: "asset_candidate list \<Rightarrow> asset_candidate list" where
  "asset_bearing \<equiv> filter (\<lambda>c. 0 < cand_asset_amount c)"

abbreviation fee_only :: "asset_candidate list \<Rightarrow> asset_candidate list" where
  "fee_only \<equiv> filter (\<lambda>c. cand_asset_amount c = 0)"

lemma asset_sum_bearing: "asset_sum (asset_bearing cs) = asset_sum cs"
  by (induction cs) (auto simp: word_gt_0)

lemma fee_only_conv: "fee_only cs = filter (\<lambda>c. \<not> 0 < cand_asset_amount c) cs"
  by (simp add: word_gt_0)

text \<open>
  The candidates an automatic selection takes: asset-bearing ones in carrier order, then, when
  allowed and the asset target is met, fee-support ones.
\<close>

lemma auto_select_merge:
  assumes "length cs < 2 ^ 64" and "co_allow_asset_merge co"
  defines "E \<equiv> sort_key carrier_order cs"
  obtains n m where "auto_select cs ta tv co =
      map cand_outpoint (take n (asset_bearing E) @
        (if unat ta \<le> asset_sum (take n (asset_bearing E)) \<and> co_allow_fee_support co
         then take m (fee_only E) else []))"
    and "n = length (asset_bearing E) \<or>
      unat ta \<le> asset_sum (take n (asset_bearing E)) \<and> unat tv \<le> value_sum (take n (asset_bearing E))"
    and "m = length (fee_only E) \<or>
      unat tv \<le> value_sum (take n (asset_bearing E)) + value_sum (take m (fee_only E))"
proof -
  let ?A = "asset_bearing E" and ?F = "fee_only E"
  have len: "length E < 2 ^ 64" using assms(1) by (simp add: E_def)
  have split: "value_sum ?A + value_sum ?F = value_sum E"
    unfolding fee_only_conv by (rule sum_split)
  have A: "0 + asset_sum ?A < 2 ^ 128" "0 + value_sum ?A < 2 ^ 128"
    using sum_bounds [OF len] sum_filter_le le_less_trans by (metis add_0)+
  obtain n where n: "asset_loop True ta tv [] 0 0 ?A =
      (map cand_outpoint (take n ?A), of_nat (asset_sum (take n ?A)), of_nat (value_sum (take n ?A)))"
    and stop: "n = length ?A \<or> unat ta \<le> asset_sum (take n ?A) \<and> unat tv \<le> value_sum (take n ?A)"
    using asset_loop_merge [OF A, of ta tv "[]"] by auto
  have sums: "asset_sum (take n ?A) < 2 ^ 128" "value_sum (take n ?A) + value_sum ?F < 2 ^ 128"
    using A(1) sum_take_le [of n ?A] sum_bounds(2) [OF len] split by linarith+
  obtain m where m: "fee_loop tv (map cand_outpoint (take n ?A)) (of_nat (value_sum (take n ?A))) ?F =
      map cand_outpoint (take n ?A) @ map cand_outpoint (take m ?F)"
    and stop': "m = length ?F \<or> unat tv \<le> value_sum (take n ?A) + value_sum (take m ?F)"
    using fee_loop_prefix [OF sums(2), of tv "map cand_outpoint (take n ?A)"] by auto
  have "auto_select cs ta tv co = map cand_outpoint (take n ?A @
      (if unat ta \<le> asset_sum (take n ?A) \<and> co_allow_fee_support co then take m ?F else []))"
    unfolding auto_select_def Let_def E_def [symmetric]
    using assms(2) n m target_le_total [OF sums(1), of ta] by simp
  from that [OF this stop stop'] show ?thesis .
qed

lemma auto_select_single:
  assumes "length cs < 2 ^ 64" and "\<not> co_allow_asset_merge co"
  defines "E \<equiv> sort_key carrier_order cs"
  shows "case find (\<lambda>c. ta \<le> cand_asset_amount c) (asset_bearing E) of
      None \<Rightarrow> ta \<noteq> 0 \<longrightarrow> auto_select cs ta tv co = []
    | Some c \<Rightarrow> \<exists>m. auto_select cs ta tv co =
        cand_outpoint c # map cand_outpoint (if co_allow_fee_support co then take m (fee_only E) else []) \<and>
        (m = length (fee_only E) \<or>
         unat tv \<le> unat (cand_value_sats c) + value_sum (take m (fee_only E)))"
proof (cases "find (\<lambda>c. ta \<le> cand_asset_amount c) (asset_bearing E)")
  case None
  have "\<not> (ucast ta :: u128) \<le> 0" if "ta \<noteq> 0"
    using target_le_total [of 0 ta] that by (simp add: unat_eq_0)
  with None show ?thesis
    unfolding auto_select_def Let_def E_def [symmetric]
    by (simp add: assms(2) asset_loop_single)
next
  case (Some c)
  let ?F = "fee_only E"
  have len: "length E < 2 ^ 64" using assms(1) by (simp add: E_def)
  have c: "c \<in> set E" "\<not> cand_asset_amount c = 0" "ta \<le> cand_asset_amount c"
    using Some by (auto simp: find_Some_iff word_gt_0 dest!: nth_mem)
  have "unat (cand_value_sats c) \<le> value_sum (asset_bearing E)"
    using c by (auto simp: value_sum_def word_gt_0 intro!: member_le_sum_list)
  then have "unat (cand_value_sats c) + value_sum ?F \<le> value_sum E"
    using sum_split [of "\<lambda>c. 0 < cand_asset_amount c" E] unfolding fee_only_conv by linarith
  then have sum: "unat (cand_value_sats c) + value_sum ?F < 2 ^ 128"
    using sum_bounds(2) [OF len] by linarith
  obtain m where m: "fee_loop tv [cand_outpoint c] (of_nat (unat (cand_value_sats c))) ?F =
      [cand_outpoint c] @ map cand_outpoint (take m ?F)"
    and stop: "m = length ?F \<or> unat tv \<le> unat (cand_value_sats c) + value_sum (take m ?F)"
    using fee_loop_prefix [OF sum, of tv "[cand_outpoint c]"] by auto
  have reach: "(ucast ta :: u128) \<le> ucast (cand_asset_amount c)"
    using c(3) target_le_total [of "unat (cand_asset_amount c)" ta] unat_bound [of "cand_asset_amount c"]
    unfolding ucast_u64 word_le_nat_alt by simp
  have "auto_select cs ta tv co = cand_outpoint c #
      map cand_outpoint (if co_allow_fee_support co then take m ?F else [])"
    unfolding auto_select_def Let_def E_def [symmetric]
    using m reach by (simp add: assms(2) asset_loop_single Some ucast_u64 del: of_nat_unat)
  with stop Some show ?thesis by (auto intro: exI [of _ m])
qed

lemma auto_select_candidates:
  assumes "length cs < 2 ^ 64" and "distinct (map cand_outpoint cs)" and "ta \<noteq> 0"
  obtains xs where "auto_select cs ta tv co = map cand_outpoint xs" and "set xs \<subseteq> set cs"
    and "distinct (map cand_outpoint xs)"
    and "\<not> co_allow_fee_support co \<Longrightarrow> \<forall>c\<in>set xs. cand_asset_amount c \<noteq> 0"
proof -
  note goal = that
  let ?E = "sort_key carrier_order cs"
  have E: "set ?E = set cs" "distinct (map cand_outpoint ?E)"
    using assms(2) by (simp_all add: distinct_map)
  have pick: thesis
    if "auto_select cs ta tv co = map cand_outpoint (xs @ ys)" and "set xs \<subseteq> set (asset_bearing ?E)"
      and "set ys \<subseteq> set (fee_only ?E)" and "distinct xs" and "distinct ys"
      and "\<not> co_allow_fee_support co \<Longrightarrow> ys = []" for xs ys
  proof (rule goal)
    show "auto_select cs ta tv co = map cand_outpoint (xs @ ys)" by (rule that(1))
    show "set (xs @ ys) \<subseteq> set cs" using that(2,3) E(1) by auto
    have "inj_on cand_outpoint (set ?E)" using E(2) by (simp add: distinct_map)
    moreover have "set xs \<inter> set ys = {}" using that(2,3) by (auto simp: word_gt_0)
    moreover have "set (xs @ ys) \<subseteq> set ?E" using that(2,3) by auto
    ultimately show "distinct (map cand_outpoint (xs @ ys))"
      using that(4,5) inj_on_subset unfolding distinct_map distinct_append by blast
    show "\<forall>c\<in>set (xs @ ys). cand_asset_amount c \<noteq> 0" if "\<not> co_allow_fee_support co"
      using that \<open>\<not> co_allow_fee_support co \<Longrightarrow> ys = []\<close> \<open>set xs \<subseteq> set (asset_bearing ?E)\<close>
      by (auto simp: word_gt_0)
  qed
  have dE: "distinct ?E" using E(2) by (simp add: distinct_map)
  show ?thesis
  proof (cases "co_allow_asset_merge co")
    case True
    obtain n m where sel: "auto_select cs ta tv co =
        map cand_outpoint (take n (asset_bearing ?E) @
          (if unat ta \<le> asset_sum (take n (asset_bearing ?E)) \<and> co_allow_fee_support co
           then take m (fee_only ?E) else []))"
      by (rule auto_select_merge [OF assms(1) True])
    show ?thesis
      by (rule pick [OF sel]) (use dE in \<open>auto dest: in_set_takeD intro!: distinct_take\<close>)
  next
    case False
    show ?thesis
    proof (cases "find (\<lambda>c. ta \<le> cand_asset_amount c) (asset_bearing ?E)")
      case None
      then have "auto_select cs ta tv co = map cand_outpoint ([] @ [])"
        using auto_select_single [OF assms(1) False, of ta tv] assms(3) by simp
      then show ?thesis by (rule pick) auto
    next
      case (Some c)
      then obtain m where sel: "auto_select cs ta tv co = map cand_outpoint ([c] @
          (if co_allow_fee_support co then take m (fee_only ?E) else []))"
        using auto_select_single [OF assms(1) False, of ta tv] by auto
      have "c \<in> set (asset_bearing ?E)" using Some by (auto simp: find_Some_iff dest: nth_mem)
      then show ?thesis
        by (intro pick [OF sel]) (use dE in \<open>auto dest: in_set_takeD intro!: distinct_take\<close>)
    qed
  qed
qed

section \<open>What a selection guarantees\<close>

lemma check_exact_Inr:
  "check_exact cs fee ps = Inr u \<longleftrightarrow>
     (\<forall>p\<in>set ps. \<exists>c\<in>set cs. cand_outpoint c = p) \<and>
     (fee \<or> (\<forall>c\<in>set cs. cand_outpoint c \<in> set ps \<longrightarrow> cand_asset_amount c \<noteq> 0))"
  by (auto simp: check_exact_def res_bind_eq_Inr res_each_Inr list_ex_iff)

lemma named_in:
  assumes "\<forall>p\<in>set ps. \<exists>c\<in>set cs. cand_outpoint c = p"
  shows "set (named cs ps) \<subseteq> {c \<in> set cs. cand_outpoint c \<in> set ps}"
    and "map cand_outpoint (named cs ps) = ps"
proof -
  have "\<exists>c\<in>set cs. find (\<lambda>c. cand_outpoint c = p) cs = Some c \<and> cand_outpoint c = p" if "p \<in> set ps" for p
    using assms that by (cases "find (\<lambda>c. cand_outpoint c = p) cs")
      (auto simp: find_None_iff find_Some_iff dest: nth_mem)
  then show "set (named cs ps) \<subseteq> {c \<in> set cs. cand_outpoint c \<in> set ps}"
    and "map cand_outpoint (named cs ps) = ps"
    by (fastforce simp: named_def intro: map_idI)+
qed

text \<open>The inputs chosen before the totals are checked.\<close>

definition choose_inputs ::
  "asset_candidate list \<Rightarrow> u64 \<Rightarrow> u64 \<Rightarrow> asset_constraints \<Rightarrow> outpoint list result" where
  "choose_inputs cs ta tv co =
     (case co_exact_outpoints co of
        Some ps \<Rightarrow> res_bind (check_exact cs (co_allow_fee_support co) ps) (\<lambda>_. Inr ps)
      | None \<Rightarrow> Inr (auto_select cs ta tv co))"

lemma choose_inputs_known:
  assumes "length cs < 2 ^ 64" and "validate_inputs (map cand_outpoint cs) ta co = Inr ()"
    and "choose_inputs cs ta tv co = Inr ps"
  shows "distinct ps" and "\<forall>p\<in>set ps. \<exists>c\<in>set cs. cand_outpoint c = p"
    and "\<not> co_allow_fee_support co \<Longrightarrow> \<forall>c\<in>set (named cs ps). cand_asset_amount c \<noteq> 0"
proof -
  have valid: "ta \<noteq> 0" "distinct (map cand_outpoint cs)"
    "\<And>qs. co_exact_outpoints co = Some qs \<Longrightarrow> distinct qs"
    using assms(2) by (auto simp: validate_inputs_def split: if_splits option.splits)
  have "distinct ps \<and> (\<forall>p\<in>set ps. \<exists>c\<in>set cs. cand_outpoint c = p) \<and>
    (\<not> co_allow_fee_support co \<longrightarrow> (\<forall>c\<in>set (named cs ps). cand_asset_amount c \<noteq> 0))"
  proof (cases "co_exact_outpoints co")
    case None
    obtain xs where xs: "auto_select cs ta tv co = map cand_outpoint xs" "set xs \<subseteq> set cs"
        "distinct (map cand_outpoint xs)"
        "\<not> co_allow_fee_support co \<Longrightarrow> \<forall>c\<in>set xs. cand_asset_amount c \<noteq> 0"
      using auto_select_candidates [OF assms(1) valid(2,1)] by blast
    with None assms(3) have "ps = map cand_outpoint xs" by (simp add: choose_inputs_def)
    with xs named_own [OF valid(2) xs(2)] show ?thesis by auto
  next
    case (Some qs)
    with assms(3) have "ps = qs" and ok: "check_exact cs (co_allow_fee_support co) qs = Inr ()"
      by (auto simp: choose_inputs_def res_bind_eq_Inr)
    with Some valid(3) named_in(1) [of qs cs] show ?thesis by (auto simp: check_exact_Inr)
  qed
  then show "distinct ps" and "\<forall>p\<in>set ps. \<exists>c\<in>set cs. cand_outpoint c = p"
    and "\<not> co_allow_fee_support co \<Longrightarrow> \<forall>c\<in>set (named cs ps). cand_asset_amount c \<noteq> 0"
    by auto
qed

lemma named_sums:
  assumes "length cs < 2 ^ 64" and "distinct ps"
    and "\<forall>p\<in>set ps. \<exists>c\<in>set cs. cand_outpoint c = p"
  shows "asset_sum (named cs ps) < 2 ^ 128" and "value_sum (named cs ps) < 2 ^ 128"
proof -
  have "distinct (named cs ps)" using assms(2) named_in(2) [OF assms(3)] by (metis distinct_map)
  then have "length (named cs ps) = card (set (named cs ps))" by (simp add: distinct_card)
  also have "\<dots> \<le> card (set cs)" using named_in(1) [OF assms(3)] by (intro card_mono) auto
  also have "\<dots> \<le> length cs" by (rule card_length)
  finally have "length (named cs ps) < 2 ^ 64" using assms(1) by simp
  then show "asset_sum (named cs ps) < 2 ^ 128" and "value_sum (named cs ps) < 2 ^ 128"
    by (rule sum_bounds)+
qed

text \<open>The selection, read over naturals.\<close>

lemma select_assets_nat:
  assumes "length cs < 2 ^ 64"
  shows "select_assets cs ta tv co =
    res_bind (validate_inputs (map cand_outpoint cs) ta co) (\<lambda>_.
    res_bind (choose_inputs cs ta tv co) (\<lambda>ps.
    if asset_sum (named cs ps) < unat ta
    then Inl (InsufficientAsset (ucast ta) (of_nat (asset_sum (named cs ps))))
    else if value_sum (named cs ps) < unat tv
    then Inl (InsufficientValue (ucast tv) (of_nat (value_sum (named cs ps))))
    else Inr ps))"
proof (cases "validate_inputs (map cand_outpoint cs) ta co")
  case (Inl e)
  then show ?thesis by (simp add: select_assets_def)
next
  case valid: (Inr u)
  show ?thesis
  proof (cases "choose_inputs cs ta tv co")
    case (Inl e)
    with valid show ?thesis unfolding select_assets_def choose_inputs_def [symmetric] by simp
  next
    case (Inr ps)
    note known = choose_inputs_known [OF assms _ Inr] valid
    have "distinct ps" and in_cs: "\<forall>p\<in>set ps. \<exists>c\<in>set cs. cand_outpoint c = p" using known by simp_all
    then have sums: "asset_sum (named cs ps) < 2 ^ 128" "value_sum (named cs ps) < 2 ^ 128"
      using named_sums [OF assms] by simp_all
    have "add_totals cs ps 0 0 =
        Inr (of_nat (asset_sum (named cs ps)), of_nat (value_sum (named cs ps)))"
      using add_totals_named [OF in_cs, of 0 0] by simp
    with valid Inr show ?thesis
      unfolding select_assets_def choose_inputs_def [symmetric]
      using target_le_total [OF sums(1), of ta] target_le_total [OF sums(2), of tv]
      by (simp add: not_le [symmetric])
  qed
qed

lemma select_assets_parts:
  assumes "length cs < 2 ^ 64" and "select_assets cs ta tv co = Inr ps"
  shows "validate_inputs (map cand_outpoint cs) ta co = Inr ()" and "ta \<noteq> 0" and "ps \<noteq> []"
    and "choose_inputs cs ta tv co = Inr ps"
    and "unat ta \<le> asset_sum (named cs ps)" and "unat tv \<le> value_sum (named cs ps)"
proof -
  show valid: "validate_inputs (map cand_outpoint cs) ta co = Inr ()"
    and "choose_inputs cs ta tv co = Inr ps"
    and enough: "unat ta \<le> asset_sum (named cs ps)" and "unat tv \<le> value_sum (named cs ps)"
    using assms(2) unfolding select_assets_nat [OF assms(1)]
    by (auto simp: res_bind_eq_Inr split: if_splits)
  show "ta \<noteq> 0" using valid by (auto simp: validate_inputs_def split: if_splits)
  then show "ps \<noteq> []" using enough by (auto simp: named_def unat_eq_0)
qed

section \<open>Correctness\<close>

text \<open>Two asset carriers and a fee-support input, the input of the witnesses.\<close>

definition sample_candidates :: "asset_candidate list" where
  "sample_candidates =
     [\<lparr>cand_outpoint = OutPoint ''a'' 0, cand_asset_amount = 5, cand_value_sats = 300\<rparr>,
      \<lparr>cand_outpoint = OutPoint ''b'' 0, cand_asset_amount = 7, cand_value_sats = 600\<rparr>,
      \<lparr>cand_outpoint = OutPoint ''c'' 0, cand_asset_amount = 0, cand_value_sats = 900\<rparr>]"

definition sample_constraints :: "outpoint list option \<Rightarrow> bool \<Rightarrow> asset_constraints" where
  "sample_constraints exact merge =
     \<lparr>co_exact_outpoints = exact, co_allow_asset_merge = merge, co_allow_fee_support = True\<rparr>"

lemmas asset_eval =
  sample_candidates_def sample_constraints_def select_assets_def validate_inputs_def check_exact_def
  auto_select_def carrier_order_def Let_def less_eq_prod_simp

lemma sample_merged:
  "select_assets sample_candidates 10 1500 (sample_constraints None True) =
     Inr [OutPoint ''b'' 0, OutPoint ''a'' 0, OutPoint ''c'' 0]"
  by (simp add: asset_eval)

lemma sample_single:
  "select_assets sample_candidates 6 1200 (sample_constraints None False) =
     Inr [OutPoint ''b'' 0, OutPoint ''c'' 0]"
  by (simp add: asset_eval)

text \<open>C33: an asset selection that succeeds is a non-empty set of distinct supplied candidates whose
  exact totals, computed without overflow, cover both targets; it has fee-support inputs only when
  they are allowed, and an exact request gets exactly its outpoints in its order.\<close>

theorem select_assets_sound:
  assumes "length cs < 2 ^ 64" and "select_assets cs ta tv co = Inr ps"
  shows "ps \<noteq> [] \<and> distinct ps \<and> set ps \<subseteq> cand_outpoint ` set cs \<and>
    unat ta \<le> asset_sum (named cs ps) \<and> unat tv \<le> value_sum (named cs ps) \<and>
    (\<not> co_allow_fee_support co \<longrightarrow> (\<forall>c\<in>set (named cs ps). cand_asset_amount c \<noteq> 0)) \<and>
    (\<forall>qs. co_exact_outpoints co = Some qs \<longrightarrow> ps = qs)"
proof -
  note parts = select_assets_parts [OF assms]
  note known = choose_inputs_known [OF assms(1) parts(1,4)]
  have "ps = qs" if "co_exact_outpoints co = Some qs" for qs
    using parts(4) that by (auto simp: choose_inputs_def res_bind_eq_Inr)
  with known parts show ?thesis by auto
qed

theorem select_assets_sound_witness:
  "set [OutPoint ''b'' 0, OutPoint ''a'' 0, OutPoint ''c'' 0] \<subseteq> cand_outpoint ` set sample_candidates \<and>
    1500 \<le> value_sum (named sample_candidates [OutPoint ''b'' 0, OutPoint ''a'' 0, OutPoint ''c'' 0])"
  using select_assets_sound [OF _ sample_merged] by (simp add: sample_candidates_def)

text \<open>The value an automatic selection may draw on.\<close>

definition usable_value :: "asset_candidate list \<Rightarrow> asset_constraints \<Rightarrow> nat" where
  "usable_value cs co =
     value_sum (asset_bearing cs) + (if co_allow_fee_support co then value_sum (fee_only cs) else 0)"

text \<open>C34: automatic selection with merging is complete: on valid inputs it succeeds exactly when the
  candidates together hold enough of the asset and the usable ones enough bitcoin.\<close>

theorem select_assets_merge_complete:
  assumes "length cs < 2 ^ 64" and "validate_inputs (map cand_outpoint cs) ta co = Inr ()"
    and "co_exact_outpoints co = None" and "co_allow_asset_merge co"
  shows "(\<exists>ps. select_assets cs ta tv co = Inr ps) \<longleftrightarrow>
    unat ta \<le> asset_sum cs \<and> unat tv \<le> usable_value cs co"
proof -
  let ?E = "sort_key carrier_order cs"
  let ?A = "asset_bearing ?E" and ?F = "fee_only ?E"
  have dist: "distinct (map cand_outpoint cs)"
    using assms(2) by (auto simp: validate_inputs_def split: if_splits option.splits)
  have total: "asset_sum ?A = asset_sum cs" "value_sum ?A = value_sum (asset_bearing cs)"
    "value_sum ?F = value_sum (fee_only cs)"
    unfolding asset_sum_bearing by (rule sum_mset, simp)+
  obtain n m where sel: "auto_select cs ta tv co =
      map cand_outpoint (take n ?A @
        (if unat ta \<le> asset_sum (take n ?A) \<and> co_allow_fee_support co then take m ?F else []))"
      (is "_ = map cand_outpoint ?xs")
    and n: "n = length ?A \<or> unat ta \<le> asset_sum (take n ?A) \<and> unat tv \<le> value_sum (take n ?A)"
    and m: "m = length ?F \<or> unat tv \<le> value_sum (take n ?A) + value_sum (take m ?F)"
    by (rule auto_select_merge [OF assms(1,4)])
  have "set ?xs \<subseteq> set cs" by (auto dest: in_set_takeD split: if_splits)
  then have named: "named cs (map cand_outpoint ?xs) = ?xs" by (rule named_own [OF dist])
  have "(\<exists>ps. select_assets cs ta tv co = Inr ps) \<longleftrightarrow>
      unat ta \<le> asset_sum ?xs \<and> unat tv \<le> value_sum ?xs"
    unfolding select_assets_nat [OF assms(1)] assms(2) choose_inputs_def assms(3) option.case sel
      res_bind_simps named
    by (simp add: not_less)
  also have "\<dots> \<longleftrightarrow> unat ta \<le> asset_sum cs \<and> unat tv \<le> usable_value cs co"
  proof (cases "unat ta \<le> asset_sum (take n ?A)")
    case True
    moreover have "unat ta \<le> asset_sum cs"
      using True sum_take_le(1) [of n ?A] total(1) by linarith
    moreover have "unat tv \<le> value_sum ?xs \<longleftrightarrow> unat tv \<le> usable_value cs co"
      using n m True sum_take_le(2) [of n ?A] sum_take_le(2) [of m ?F] total
      by (auto simp: usable_value_def)
    ultimately show ?thesis by auto
  next
    case False
    then have "n = length ?A" using n by simp
    with False total(1) show ?thesis by simp
  qed
  finally show ?thesis .
qed

theorem select_assets_merge_complete_witness:
  "\<nexists>ps. select_assets sample_candidates 13 0 (sample_constraints None True) = Inr ps"
proof -
  have "validate_inputs (map cand_outpoint sample_candidates) 13 (sample_constraints None True) = Inr ()"
    and "asset_sum sample_candidates = 12"
    by (simp_all add: asset_eval)
  with select_assets_merge_complete [OF _ this(1), of 0] show ?thesis
    by (simp add: sample_constraints_def sample_candidates_def)
qed

text \<open>C35: without merging, exactly one asset-bearing input is chosen: a candidate that covers the
  asset target by itself, with the largest bitcoin value among those that do.\<close>

theorem select_assets_single:
  assumes "length cs < 2 ^ 64" and "select_assets cs ta tv co = Inr ps"
    and "co_exact_outpoints co = None" and "\<not> co_allow_asset_merge co"
  shows "\<exists>c qs. ps = cand_outpoint c # qs \<and> c \<in> set cs \<and> ta \<le> cand_asset_amount c \<and>
    (\<forall>d\<in>set cs. ta \<le> cand_asset_amount d \<longrightarrow> cand_value_sats d \<le> cand_value_sats c) \<and>
    (\<forall>q\<in>set qs. \<exists>d\<in>set cs. cand_outpoint d = q \<and> cand_asset_amount d = 0)"
proof -
  let ?E = "sort_key carrier_order cs"
  note parts = select_assets_parts [OF assms(1,2)]
  note ne = parts(3) and ta = parts(2)
  have ps: "ps = auto_select cs ta tv co" using parts(4) assms(3) by (simp add: choose_inputs_def)
  then obtain c where c: "find (\<lambda>c. ta \<le> cand_asset_amount c) (asset_bearing ?E) = Some c"
    using auto_select_single [OF assms(1,4), of ta tv] ne ta by (auto split: option.splits)
  then obtain m where sel: "ps = cand_outpoint c #
      map cand_outpoint (if co_allow_fee_support co then take m (fee_only ?E) else [])"
    using auto_select_single [OF assms(1,4), of ta tv] ps by auto
  obtain k where k: "k < length (asset_bearing ?E)" "asset_bearing ?E ! k = c" "ta \<le> cand_asset_amount c"
    and first: "\<forall>j<k. \<not> ta \<le> cand_asset_amount (asset_bearing ?E ! j)"
    using c by (auto simp: find_Some_iff)
  have "cand_value_sats d \<le> cand_value_sats c" if d: "d \<in> set cs" "ta \<le> cand_asset_amount d" for d
  proof -
    have "d \<in> set (asset_bearing ?E)" using d ta by (auto simp: word_gt_0)
    then obtain j where j: "j < length (asset_bearing ?E)" "asset_bearing ?E ! j = d"
      unfolding in_set_conv_nth by blast
    with first d(2) have "k \<le> j" by (metis linorder_not_less)
    moreover have "sorted (map carrier_order (asset_bearing ?E))" by (rule sorted_filter) simp
    ultimately have "carrier_order c \<le> carrier_order d"
      using k j by (auto simp: sorted_iff_nth_mono)
    then have "- 1 - cand_value_sats c \<le> - 1 - cand_value_sats d"
      by (auto simp: carrier_order_def less_eq_prod_simp)
    then show ?thesis
      using unat_bound [of "cand_value_sats c"] unat_bound [of "cand_value_sats d"]
      by (simp add: word_le_nat_alt unat_sub unat_minus_one_max)
  qed
  moreover have "c \<in> set cs" using k nth_mem [OF k(1)] by auto
  moreover have "\<forall>q\<in>set (map cand_outpoint (if co_allow_fee_support co then take m (fee_only ?E) else [])).
      \<exists>d\<in>set cs. cand_outpoint d = q \<and> cand_asset_amount d = 0"
    by (fastforce dest: in_set_takeD)
  ultimately show ?thesis using sel k(3) by blast
qed

theorem select_assets_single_witness:
  "\<exists>c qs. [OutPoint ''b'' 0, OutPoint ''c'' 0] = cand_outpoint c # qs \<and> c \<in> set sample_candidates \<and>
    6 \<le> cand_asset_amount c"
  using select_assets_single [OF _ sample_single] by (auto simp: sample_candidates_def sample_constraints_def)

end
