(* ===== verification/Asset_Facade.thy ===== *)
theory Asset_Facade
  imports Facade Asset_Policy
begin

text \<open>
  Asset selection in the application service (\<open>txoscope/src/asset_selection.rs\<close>): the preview, which
  filters the caller's candidates by what the ledger says of them and hands the rest to the policy,
  and the plan, which reserves what the preview chose.
\<close>

section \<open>Requests\<close>

record asset_input_candidate =
  ai_outpoint :: outpoint
  ai_asset_amount :: u64

record asset_selection_request =
  ar_target_account_id :: account_id
  ar_candidates :: "asset_input_candidate list"
  ar_asset_amount :: u64
  ar_required_value_sats :: u64
  ar_constraints :: asset_constraints

record plan_asset_selection_request =
  pa_operation_id :: operation_id
  pa_selection :: asset_selection_request

section \<open>Preview\<close>

text \<open>The scope sets of the account: registered, eligible and able to support fees.\<close>

record asset_scopes =
  as_registered :: "wallet_scope_id set"
  as_eligible :: "wallet_scope_id set"
  as_fee :: "wallet_scope_id set"

definition add_asset_scope :: "account \<Rightarrow> wallet_scope \<Rightarrow> asset_scopes \<Rightarrow> asset_scopes" where
  "add_asset_scope account scope sets =
     (if ws_account_id scope = ac_id account
      then let sets = sets\<lparr>as_registered := insert (ws_id scope) (as_registered sets)\<rparr>
           in if ReserveSupport \<in> ws_capabilities scope
              then let sets = (if FeeSupport \<in> ws_capabilities scope
                               then sets\<lparr>as_fee := insert (ws_id scope) (as_fee sets)\<rparr> else sets)
                   in sets\<lparr>as_eligible := insert (ws_id scope) (as_eligible sets)\<rparr>
              else sets
      else sets)"

fun collect_asset_scopes ::
  "'s state_store \<Rightarrow> 's \<Rightarrow> account \<Rightarrow> wallet_scope_id list \<Rightarrow> asset_scopes \<Rightarrow>
   asset_scopes result" where
  "collect_asset_scopes ops s account [] sets = Inr sets"
| "collect_asset_scopes ops s account (sid # sids) sets =
     res_bind (get_scope ops s sid) (\<lambda>found.
     collect_asset_scopes ops s account sids
       (case found of None \<Rightarrow> sets | Some scope \<Rightarrow> add_asset_scope account scope sets))"

text \<open>Why the preview turns a candidate away, if it does.\<close>

definition fee_input_error ::
  "asset_selection_request \<Rightarrow> account \<Rightarrow> asset_scopes \<Rightarrow> outpoint \<Rightarrow> wallet_scope_id \<Rightarrow> domain_error option"
  where
  "fee_input_error req account sets p sid =
     (if \<not> co_allow_fee_support (ar_constraints req)
      then Some (UtxoPolicyBlocked p ''fee-support inputs are disabled'')
      else if FeeSupport \<notin> ac_capabilities account then Some (MissingAccountCapabilities (ac_id account))
      else if sid \<notin> as_fee sets then Some (MissingCapabilities sid)
      else None)"

definition candidate_error ::
  "asset_selection_request \<Rightarrow> account \<Rightarrow> asset_scopes \<Rightarrow> asset_input_candidate \<Rightarrow> utxo_status option \<Rightarrow>
   domain_error option" where
  "candidate_error req account sets c status =
     (let p = ai_outpoint c in
      case status of
        None \<Rightarrow> Some (UtxoNotFound p)
      | Some utxo \<Rightarrow>
          if us_account_id utxo \<noteq> ar_target_account_id req
          then Some (UtxoPolicyBlocked p
            (''input belongs to account '' @ account_id_str (us_account_id utxo) @
             '', not requested account '' @ account_id_str (ar_target_account_id req)))
          else if us_scope_id utxo \<notin> as_eligible sets
          then Some (if us_scope_id utxo \<in> as_registered sets
                     then MissingCapabilities (us_scope_id utxo) else ScopeNotFound (us_scope_id utxo))
          else
            (case (if ai_asset_amount c = 0 then fee_input_error req account sets p (us_scope_id utxo)
                   else None) of
               Some reason \<Rightarrow> Some reason
             | None \<Rightarrow> us_unavailable_reason utxo))"

fun judge_candidates ::
  "'s state_store \<Rightarrow> 's \<Rightarrow> asset_selection_request \<Rightarrow> account \<Rightarrow> asset_scopes \<Rightarrow>
   asset_input_candidate list \<Rightarrow> (asset_candidate list \<times> asset_candidate_rejection list) result"
  where
  "judge_candidates ops s req account sets [] = Inr ([], [])"
| "judge_candidates ops s req account sets (c # cs) =
     res_bind (read_utxo_status ops s (ai_outpoint c)) (\<lambda>status.
     res_bind (judge_candidates ops s req account sets cs) (\<lambda>(eligible, rejections).
     Inr (case candidate_error req account sets c status of
            Some reason \<Rightarrow>
              (eligible, AssetCandidateRejection (ai_outpoint c) reason # rejections)
          | None \<Rightarrow>
              (\<lparr>cand_outpoint = ai_outpoint c, cand_asset_amount = ai_asset_amount c,
                cand_value_sats = us_value_sats (the status)\<rparr> # eligible, rejections))))"

text \<open>An exact selection names its first rejected input; without one, some candidate must be usable.\<close>

definition check_rejections ::
  "asset_constraints \<Rightarrow> asset_candidate list \<Rightarrow> asset_candidate_rejection list \<Rightarrow> unit result" where
  "check_rejections constraints eligible rejections =
     (case co_exact_outpoints constraints of
        Some exact \<Rightarrow>
          res_each (\<lambda>p. case find (\<lambda>r. rejected_outpoint r = p) rejections of
                          Some r \<Rightarrow> Inl (rejection_reason r) | None \<Rightarrow> Inr ()) exact
      | None \<Rightarrow> if eligible = [] then Inl (NoEligibleAssetCandidates rejections) else Inr ())"

definition read_asset_preview ::
  "'s state_store \<Rightarrow> 's \<Rightarrow> asset_selection_request \<Rightarrow> outpoint list result" where
  "read_asset_preview ops s req =
     res_bind (get_account ops s (ar_target_account_id req)) (\<lambda>account_opt.
     res_bind (ok_or (AccountNotFound (ar_target_account_id req)) account_opt) (\<lambda>account.
     if ReserveSupport \<notin> ac_capabilities account then Inl (MissingAccountCapabilities (ac_id account))
     else
     res_bind (collect_asset_scopes ops s account (ac_scopes account)
         \<lparr>as_registered = {}, as_eligible = {}, as_fee = {}\<rparr>) (\<lambda>sets.
     if as_eligible sets = {} \<and>
        \<not> is_some_and (co_exact_outpoints (ar_constraints req)) (\<lambda>outpoints. outpoints \<noteq> [])
     then Inl (NoEligibleScope (ac_id account))
     else
     res_bind (judge_candidates ops s req account sets (ar_candidates req)) (\<lambda>(eligible, rejections).
     res_bind (check_rejections (ar_constraints req) eligible rejections) (\<lambda>_.
     select_assets eligible (ar_asset_amount req) (ar_required_value_sats req) (ar_constraints req))))))"

definition preview_asset_selection ::
  "'s state_store \<Rightarrow> dependencies \<Rightarrow> asset_selection_request \<Rightarrow> ('s, outpoint list) service_command" where
  "preview_asset_selection ops dp req =
     (if ar_asset_amount req = 0 \<or> ar_candidates req = [] then cmd_fail InsufficientFunds
      else
      cmd_bind (cmd_read (\<lambda>_. validate_inputs (map ai_outpoint (ar_candidates req))
        (ar_asset_amount req) (ar_constraints req))) (\<lambda>_.
      cmd_bind (expire_stale_candidate_reservations ops dp
        (sort_key outpoint_string (map ai_outpoint (ar_candidates req)))) (\<lambda>_.
      on_orchestrator (from_store (\<lambda>s. read_asset_preview ops s req)))))"

section \<open>Planning\<close>

definition asset_selection_of ::
  "operation_id \<Rightarrow> asset_selection_request \<Rightarrow> outpoint list \<Rightarrow> wallet_scope_id \<Rightarrow> operation_selection" where
  "asset_selection_of i req selected change_scope_id =
     \<lparr>os_operation_id = i, os_selected_outpoints = selected, os_change_scope_id = change_scope_id,
      os_effects = map (\<lambda>p. LockUtxo p
        (if p \<in> set (map ai_outpoint (filter (\<lambda>c. ai_asset_amount c = 0) (ar_candidates req)))
         then FeeSupportLock else PlannedSelectionLock)) selected,
      os_expires_at = None\<rparr>"

definition plan_asset_selection ::
  "'s state_store \<Rightarrow> dependencies \<Rightarrow> plan_asset_selection_request \<Rightarrow> ('s, planned_selection) service_command"
  where
  "plan_asset_selection ops dp preq =
     (let req = pa_selection preq in
      cmd_bind (preview_asset_selection ops dp req) (\<lambda>selected.
      case selected of
        [] \<Rightarrow> cmd_fail InsufficientFunds
      | first # _ \<Rightarrow>
          on_orchestrator
            (cmd_bind (orch_get_utxo ops first) (\<lambda>found.
             cmd_bind (from_store (\<lambda>_. ok_or (UtxoNotFound first) found)) (\<lambda>utxo.
             let selection = asset_selection_of (pa_operation_id preq) req selected (mu_scope_id utxo) in
             cmd_bind (apply_selection ops selection) (\<lambda>_.
             cmd_return (planned_of_selection selection)))))))"

end
