(* ===== verification/Orchestrator_Safety.thy ===== *)
theory Orchestrator_Safety
  imports Orchestrator
begin

text \<open>
  Correctness of the orchestrator over any store that keeps the contract: every command keeps the
  ledger invariant, changes only what the operations it works on own, and does what it promises
  when it succeeds.
\<close>

section \<open>Frames\<close>

text \<open>
  What no step ever undoes: an output keeps its identity and does not become unspent again, an
  operation never moves backwards, a recorded selection stays recorded and a settled intent settled.
\<close>

definition ledger_extends :: "ledger \<Rightarrow> ledger \<Rightarrow> bool" where
  "ledger_extends L L' \<longleftrightarrow>
     history_extends L L' \<and>
     (\<forall>j x. lg_operations L j = Some x \<longrightarrow>
        (\<exists>x'. lg_operations L' j = Some x' \<and> phase_rank (po_phase x) \<le> phase_rank (po_phase x'))) \<and>
     (\<forall>j n. lg_intents L j = Some n \<longrightarrow>
        (\<exists>n'. lg_intents L' j = Some n' \<and> oi_selection n' = oi_selection n \<and>
          (oi_status n \<noteq> Pending \<longrightarrow> oi_status n' = oi_status n)))"

lemma ledger_extendsD:
  assumes "ledger_extends L L'"
  shows "history_extends L L'"
    and "lg_operations L j = Some x \<Longrightarrow>
      \<exists>x'. lg_operations L' j = Some x' \<and> phase_rank (po_phase x) \<le> phase_rank (po_phase x')"
    and "lg_intents L j = Some n \<Longrightarrow> \<exists>n'. lg_intents L' j = Some n' \<and>
      oi_selection n' = oi_selection n \<and> (oi_status n \<noteq> Pending \<longrightarrow> oi_status n' = oi_status n)"
  using assms unfolding ledger_extends_def by blast+

lemma ledger_extends_refl [simp]: "ledger_extends L L"
  by (simp add: ledger_extends_def)

lemma ledger_extends_trans:
  assumes a: "ledger_extends L M" and b: "ledger_extends M N"
  shows "ledger_extends L N"
  unfolding ledger_extends_def
proof (intro conjI allI impI)
  show "history_extends L N"
    using ledger_extendsD(1) [OF a] ledger_extendsD(1) [OF b] by (rule history_extends_trans)
  fix j x
  assume "lg_operations L j = Some x"
  with ledger_extendsD(2) [OF a] obtain y where
    y: "lg_operations M j = Some y" "phase_rank (po_phase x) \<le> phase_rank (po_phase y)" by blast
  with ledger_extendsD(2) [OF b y(1)]
  show "\<exists>x'. lg_operations N j = Some x' \<and> phase_rank (po_phase x) \<le> phase_rank (po_phase x')"
    by (auto intro: order_trans)
next
  fix j n
  assume "lg_intents L j = Some n"
  with ledger_extendsD(3) [OF a] obtain m where m: "lg_intents M j = Some m"
      "oi_selection m = oi_selection n" "oi_status n \<noteq> Pending \<longrightarrow> oi_status m = oi_status n" by blast
  with ledger_extendsD(3) [OF b m(1)]
  show "\<exists>n'. lg_intents N j = Some n' \<and> oi_selection n' = oi_selection n \<and>
      (oi_status n \<noteq> Pending \<longrightarrow> oi_status n' = oi_status n)" by auto
qed

lemma ledger_extends_bump [simp]: "ledger_extends L (bump_tick L') = ledger_extends L L'"
  by (simp add: ledger_extends_def history_extends_def)

lemma phase_rank_max: "phase_rank p \<le> phase_rank PhRollingBack"
  by (cases p) simp_all

text \<open>An output that is in flight or spent stays so, and nothing may take it.\<close>

lemma advanced_output:
  assumes "ledger_extends L L'" and "lg_utxos L p = Some u"
  shows "\<exists>u'. lg_utxos L' p = Some u' \<and> utxo_identity u' = utxo_identity u \<and>
    (mu_onchain_state u \<in> {SpendingInFlight, Spent} \<longrightarrow>
      mu_onchain_state u' \<in> {SpendingInFlight, Spent} \<and> \<not> is_policy_spendable u')"
proof -
  obtain u' where "lg_utxos L' p = Some u'" "utxo_advances u u'"
    using ledger_extendsD(1) [OF assms(1)] assms(2) unfolding history_extends_def by blast
  then show ?thesis by (auto simp: utxo_advances_def is_policy_spendable_def)
qed

lemma phase_advances:
  "phase_rank p \<le> phase_rank q \<Longrightarrow> q = p \<or> valid_transition p q \<or> q = PhRollingBack"
  by (cases p; cases q) (simp_all add: valid_transition_iff)

text \<open>
  A step on behalf of the operations \<open>I\<close>: the ledger is extended, the recorded availabilities stay
  consistent if they were, and what other operations own stays as it is.
\<close>

definition frame :: "operation_id set \<Rightarrow> ledger \<Rightarrow> ledger \<Rightarrow> bool" where
  "frame I L L' \<longleftrightarrow>
     ledger_extends L L' \<and> (records_ok L \<longrightarrow> records_ok L') \<and>
     (\<forall>p u j. lg_utxos L p = Some u \<longrightarrow> bound_to j u \<longrightarrow> j \<notin> I \<longrightarrow>
        lg_utxos L' p = Some u \<and> lg_locks L' p = lg_locks L p) \<and>
     (\<forall>j. j \<notin> I \<longrightarrow> lg_operations L' j = lg_operations L j \<and> lg_intents L' j = lg_intents L j)"

lemma frameD:
  assumes "frame I L L'"
  shows "ledger_extends L L'"
    and "lg_utxos L p = Some u \<Longrightarrow> bound_to j u \<Longrightarrow> j \<notin> I \<Longrightarrow>
      lg_utxos L' p = Some u \<and> lg_locks L' p = lg_locks L p"
    and "lg_intents L j = Some n \<Longrightarrow> \<exists>n'. lg_intents L' j = Some n' \<and> oi_selection n' = oi_selection n"
    and "j \<notin> I \<Longrightarrow> lg_operations L' j = lg_operations L j"
    and "j \<notin> I \<Longrightarrow> lg_intents L' j = lg_intents L j"
    and "records_ok L \<Longrightarrow> records_ok L'"
  using assms ledger_extendsD(3) [of L L'] unfolding frame_def by blast+

lemma frame_refl [simp]: "frame I L L"
  by (simp add: frame_def)

lemma frame_trans:
  assumes a: "frame I L M" and b: "frame I M N"
  shows "frame I L N"
  unfolding frame_def
proof (intro conjI allI impI)
  show "ledger_extends L N" using frameD(1) [OF a] frameD(1) [OF b] by (rule ledger_extends_trans)
  show "records_ok N" if "records_ok L" using that frameD(6) [OF a] frameD(6) [OF b] by blast
  fix p u j
  assume "lg_utxos L p = Some u" and "bound_to j u" and "j \<notin> I"
  then show "lg_utxos N p = Some u" and "lg_locks N p = lg_locks L p"
    using frameD(2) [OF a, of p u j] frameD(2) [OF b, of p u j] by auto
next
  fix j
  assume "j \<notin> I"
  then show "lg_operations N j = lg_operations L j" and "lg_intents N j = lg_intents L j"
    using frameD(4,5) [OF a] frameD(4,5) [OF b] by simp_all
qed

lemma frame_mono: "frame I L L' \<Longrightarrow> I \<subseteq> J \<Longrightarrow> frame J L L'"
  unfolding frame_def by blast

lemma frame_same:
  assumes "lg_utxos L' = lg_utxos L" and "lg_locks L' = lg_locks L"
    and "lg_operations L' = lg_operations L"
    and "\<And>j n. lg_intents L j = Some n \<Longrightarrow> \<exists>n'. lg_intents L' j = Some n' \<and>
      oi_selection n' = oi_selection n \<and> (oi_status n \<noteq> Pending \<longrightarrow> oi_status n' = oi_status n)"
    and "\<And>j. j \<notin> I \<Longrightarrow> lg_intents L' j = lg_intents L j"
  shows "frame I L L'"
  using assms by (simp add: frame_def ledger_extends_def history_extends_def records_ok_def)

lemma records_ok_bump [simp]: "records_ok (bump_tick L) = records_ok L"
  by (simp add: records_ok_def)

lemma frame_bump [simp]: "frame I L (bump_tick L') = frame I L L'"
  by (simp add: frame_def)

lemma frame_status:
  "i \<in> I \<Longrightarrow> (\<And>n. lg_intents L i = Some n \<Longrightarrow> oi_status n \<noteq> Pending \<Longrightarrow> oi_status n = st) \<Longrightarrow>
    frame I L (set_intent_status i st L)"
  by (rule frame_same) (auto split: if_splits)

lemma bound_to_unique: "bound_to i u \<Longrightarrow> bound_to j u \<Longrightarrow> i = j"
  by (auto simp: bound_to_def is_some_and_iff)

text \<open>The lock of an owned output belongs to its owner.\<close>

lemma owned_lock:
  assumes "holdings_ok L" and "lg_utxos L p = Some u" and "bound_to j u"
  obtains l where "lg_locks L p = Some l" and "lk_operation_id l = j"
  using lock_iff_bound [OF assms(1), of p j] assms(2,3) that by blast

lemma frame_released:
  assumes "holdings_ok L" and "i \<in> I"
  shows "frame I L (released_ledger i PhRollingBack L)"
proof -
  let ?ph = PhRollingBack
  have "lg_utxos (released_ledger i ?ph L) p = Some u \<and>
      lg_locks (released_ledger i ?ph L) p = lg_locks L p"
    if u: "lg_utxos L p = Some u" "bound_to j u" "j \<notin> I" for p u j
  proof -
    obtain l where "lg_locks L p = Some l" "lk_operation_id l = j" by (rule owned_lock [OF assms(1) u(1,2)])
    moreover have "\<not> bound_to i u" using bound_to_unique u(2,3) assms(2) by blast
    ultimately show ?thesis using u assms(2) by auto
  qed
  moreover have "lg_operations (released_ledger i ?ph L) j = lg_operations L j" if "j \<notin> I" for j
    using that assms(2) by (cases "j = i") auto
  moreover have "\<exists>x'. lg_operations (released_ledger i ?ph L) j = Some x' \<and>
      phase_rank (po_phase x) \<le> phase_rank (po_phase x')" if "lg_operations L j = Some x" for j x
    using that phase_rank_max by (cases "j = i") (auto simp: released_ledger_def Let_def)
  moreover have "records_ok L \<longrightarrow> records_ok (released_ledger i ?ph L)"
    by (auto simp: records_ok_def ran_def on_owned_def split: if_splits)
  ultimately show ?thesis using history_released by (simp add: frame_def ledger_extends_def)
qed

lemma frame_completed:
  assumes "holdings_ok L" and "i \<in> I"
    and "\<And>x. lg_operations L i = Some x \<Longrightarrow> valid_transition (po_phase x) ph"
  shows "frame I L (completed_ledger i ph L)"
proof -
  have "lg_utxos (completed_ledger i ph L) p = Some u \<and>
      lg_locks (completed_ledger i ph L) p = lg_locks L p"
    if u: "lg_utxos L p = Some u" "bound_to j u" "j \<notin> I" for p u j
  proof -
    obtain l where "lg_locks L p = Some l" "lk_operation_id l = j" by (rule owned_lock [OF assms(1) u(1,2)])
    moreover have "\<not> bound_to i u" using bound_to_unique u(2,3) assms(2) by blast
    ultimately show ?thesis using u assms(2) by auto
  qed
  moreover have "lg_operations (completed_ledger i ph L) j = lg_operations L j" if "j \<notin> I" for j
    using that assms(2) by (cases "j = i") auto
  moreover have "\<exists>x'. lg_operations (completed_ledger i ph L) j = Some x' \<and>
      phase_rank (po_phase x) \<le> phase_rank (po_phase x')" if "lg_operations L j = Some x" for j x
    using that assms(3) by (cases "j = i") (auto simp: completed_ledger_def Let_def valid_transition_iff)
  moreover have "records_ok L \<longrightarrow> records_ok (completed_ledger i ph L)"
    by (auto simp: records_ok_def ran_def on_owned_def split: if_splits)
  ultimately show ?thesis using history_completed by (simp add: frame_def ledger_extends_def)
qed

lemma frame_batch:
  assumes "ledger_apply_batch b L = (r, L')" and "os_operation_id (sb_selection b) \<in> I"
    and phase: "sb_phase b = PhSelected"
  shows "frame I L L'"
proof (cases r)
  case (Inl e)
  with assms ledger_commands_atomic(4) have "L' = L" by blast
  then show ?thesis by simp
next
  case (Inr unit)
  let ?sel = "sb_selection b"
  have run: "ledger_apply_batch b L = (Inr (), L')" using assms(1) Inr by simp
  have pre: "batch_precheck b (lg_intents L (os_operation_id ?sel))
      (lg_operations L (os_operation_id ?sel)) = Inr ()"
    and valid: "ledger_validate L ?sel = Inr ()"
    and ops: "lg_operations L' = (lg_operations L)(os_operation_id ?sel \<mapsto>
      batch_operation b (sat_add (lg_tick L) 1))"
    and ints: "lg_intents L' = lg_intents L"
    by (rule apply_batch_Inr [OF run], assumption)+
  have "lg_utxos L' p = Some u \<and> lg_locks L' p = lg_locks L p"
    if u: "lg_utxos L p = Some u" "bound_to j u" "j \<notin> I" for p u j
  proof -
    have "p \<notin> set (os_selected_outpoints ?sel)"
    proof
      assume "p \<in> set (os_selected_outpoints ?sel)"
      then obtain e where "e \<in> set (os_effects ?sel)" "p = effect_outpoint e"
        using ledger_validate_structure [OF valid] by auto
      then have "held_by ?sel (sb_phase b) u (lg_locks L p) \<or> is_policy_spendable u"
        using apply_batch_outcome(1) [OF run] u(1) by (fastforce simp: effect_outcome_def Let_def)
      then show False
        using u(2,3) assms(2) by (auto simp: held_by_def bound_in_phase_def bound_to_def
            is_some_and_iff is_policy_spendable_def)
    qed
    then show ?thesis using apply_batch_outcome(2) [OF run] u(1) by simp
  qed
  moreover have "lg_operations L' j = lg_operations L j" if "j \<notin> I" for j
    using that assms(2) by (auto simp: ops)
  moreover have "\<exists>x'. lg_operations L' j = Some x' \<and> phase_rank (po_phase x) \<le> phase_rank (po_phase x')"
    if "lg_operations L j = Some x" for j x
    using that pre phase by (auto simp: ops batch_operation_def batch_precheck_def Let_def split: if_splits)
  moreover have "records_ok L'" if "records_ok L"
    unfolding records_ok_def ran_def
  proof safe
    fix p u' assume u': "lg_utxos L' p = Some u'"
    have ok: "availability_ok u" if "lg_utxos L p = Some u" for u
      using that \<open>records_ok L\<close> by (auto simp: records_ok_def ran_def)
    show "availability_ok u'"
    proof (cases "p \<in> set (os_selected_outpoints ?sel)")
      case True
      then obtain e where "e \<in> set (os_effects ?sel)" "p = effect_outpoint e"
        using ledger_validate_structure [OF valid] by auto
      with apply_batch_outcome(1) [OF run, of e] u' ok show ?thesis
        by (auto simp: effect_outcome_def Let_def)
    next
      case False
      with apply_batch_outcome(2) [OF run] u' ok show ?thesis by simp
    qed
  qed
  ultimately show ?thesis using history_batch [OF run] ints by (simp add: frame_def ledger_extends_def)
qed

lemma frame_commands:
  assumes "holdings_ok L" and "i \<in> I"
  shows "ledger_persist_intent sel L = (r1, L') \<Longrightarrow> os_operation_id sel = i \<Longrightarrow> frame I L L'"
    and "ledger_mark_committed i L = (r2, L') \<Longrightarrow> frame I L L'"
    and "ledger_mark_failed i L = (r3, L') \<Longrightarrow> frame I L L'"
    and "ledger_release i PhRollingBack L = (r4, L') \<Longrightarrow> frame I L L'"
    and "ledger_release_selected i L = (r5, L') \<Longrightarrow> frame I L L'"
    and "ledger_complete i ph L = (r6, L') \<Longrightarrow> frame I L L'"
    and "ledger_advance_tick d L = (r7, L') \<Longrightarrow> frame I L L'"
proof -
  note released = frame_released [OF assms] and completed = frame_completed [OF assms]
  note status = frame_status [OF assms(2)]
  show "frame I L L'" if "ledger_persist_intent sel L = (r1, L')" "os_operation_id sel = i"
    by (rule frame_same)
      (use that assms(2) in \<open>auto simp: ledger_persist_intent_def Let_def split: option.splits if_splits\<close>)
  show "frame I L L'" if "ledger_mark_committed i L = (r2, L')"
  proof (cases "L' = L")
    case False
    with that obtain n where "lg_intents L i = Some n" "oi_status n \<noteq> Failed"
        "L' = bump_tick (set_intent_status i Committed L)"
      by (auto simp: ledger_mark_committed_def split: option.splits if_splits)
    moreover have "oi_status n \<noteq> Pending \<Longrightarrow> oi_status n = Committed"
      using calculation(2) by (cases "oi_status n") auto
    ultimately show ?thesis using status [of L Committed] by simp
  qed simp
  show "frame I L L'" if "ledger_mark_failed i L = (r3, L')"
  proof (cases "L' = L")
    case False
    with that obtain n where n: "lg_intents L i = Some n" "oi_status n = Pending"
      and "L' = bump_tick (set_intent_status i Failed (released_ledger i PhRollingBack L)) \<or>
        L' = bump_tick (set_intent_status i Failed L)"
      by (auto simp: ledger_mark_failed_def split: option.splits intent_status.splits if_splits)
    moreover have "frame I (released_ledger i PhRollingBack L)
        (set_intent_status i Failed (released_ledger i PhRollingBack L))"
      and "frame I L (set_intent_status i Failed L)"
      using n by (auto intro!: status)
    ultimately show ?thesis using frame_trans [OF released] by auto
  qed simp
  show "frame I L L'" if "ledger_release i PhRollingBack L = (r4, L')"
    using that released by (auto simp: ledger_release_def)
  show "frame I L L'" if "ledger_release_selected i L = (r5, L')"
    using that released by (auto simp: ledger_release_selected_def split: if_splits)
  show "frame I L L'" if "ledger_complete i ph L = (r6, L')"
    using that completed [of ph]
    by (auto simp: ledger_complete_def split: option.splits if_splits sum.splits)
  show "frame I L L'" if "ledger_advance_tick d L = (r7, L')"
    by (rule frame_same) (use that in \<open>auto simp: ledger_advance_tick_def\<close>)
qed

lemma extends_reconciliation:
  assumes "ledger_apply_reconciliation plan L = (r, L')"
  shows "ledger_extends L L'"
  using assms history_reconciliation [OF assms]
  by (auto simp: ledger_apply_reconciliation_def Let_def ledger_extends_def)

section \<open>Safe runs\<close>

text \<open>
  A command that keeps a predicate of its state and stays within a frame, whatever it returns; and
  the rules that compose such commands.
\<close>

definition safe_run ::
  "('st \<Rightarrow> bool) \<Rightarrow> ('st \<Rightarrow> ledger) \<Rightarrow> operation_id set \<Rightarrow> ('st, 'a) command \<Rightarrow> bool" where
  "safe_run P lof I m \<longleftrightarrow>
     (\<forall>s r s'. P s \<longrightarrow> m s = (r, s') \<longrightarrow> P s' \<and> frame I (lof s) (lof s'))"

lemma safe_runI:
  "(\<And>s r s'. P s \<Longrightarrow> m s = (r, s') \<Longrightarrow> P s' \<and> frame I (lof s) (lof s')) \<Longrightarrow> safe_run P lof I m"
  unfolding safe_run_def by blast

lemma safe_runD:
  "safe_run P lof I m \<Longrightarrow> P s \<Longrightarrow> m s = (r, s') \<Longrightarrow> P s' \<and> frame I (lof s) (lof s')"
  unfolding safe_run_def by blast

lemma safe_run_basic [simp, intro]:
  "safe_run P lof I (cmd_return x)" "safe_run P lof I (cmd_fail e)" "safe_run P lof I (cmd_read g)"
  by (simp_all add: safe_run_def)

lemma safe_run_from_store [simp, intro]: "safe_run P lof I (from_store g)"
  by (simp add: from_store_def)

lemma safe_run_bind [intro]:
  assumes "safe_run P lof I m" and "\<And>x. safe_run P lof I (f x)"
  shows "safe_run P lof I (cmd_bind m f)"
proof (rule safe_runI)
  fix s r s'
  assume s: "P s" and "cmd_bind m f s = (r, s')"
  then consider e where "m s = (Inl e, s')" | x t where "m s = (Inr x, t)" "f x t = (r, s')"
    by (auto simp: cmd_bind_eq)
  then show "P s' \<and> frame I (lof s) (lof s')"
  proof cases
    case 1
    then show ?thesis using safe_runD [OF assms(1) s] by blast
  next
    case 2
    then show ?thesis
      using safe_runD [OF assms(1) s 2(1)] safe_runD [OF assms(2) _ 2(2)] frame_trans by blast
  qed
qed

lemma safe_run_mono: "safe_run P lof I m \<Longrightarrow> I \<subseteq> J \<Longrightarrow> safe_run P lof J m"
  unfolding safe_run_def using frame_mono by blast

lemma safe_run_if: "safe_run P lof I m \<Longrightarrow> safe_run P lof I n \<Longrightarrow> safe_run P lof I (if c then m else n)"
  by simp

text \<open>The invariant of a store and of an orchestrator over it.\<close>

definition store_ok :: "('s \<Rightarrow> bool) \<Rightarrow> ('s \<Rightarrow> ledger) \<Rightarrow> 's \<Rightarrow> bool" where
  "store_ok sinv lof s \<longleftrightarrow> sinv s \<and> ledger_ok (lof s)"

definition orch_ok :: "('s \<Rightarrow> bool) \<Rightarrow> ('s \<Rightarrow> ledger) \<Rightarrow> 's orchestrator \<Rightarrow> bool" where
  "orch_ok sinv lof orch \<longleftrightarrow> store_ok sinv lof (orch_store orch)"

definition orch_ledger :: "('s \<Rightarrow> ledger) \<Rightarrow> 's orchestrator \<Rightarrow> ledger" where
  "orch_ledger lof orch = lof (orch_store orch)"

lemma safe_on_store:
  assumes "safe_run (store_ok sinv lof) lof I m"
  shows "safe_run (orch_ok sinv lof) (orch_ledger lof) I (on_store m)"
  using assms
  by (fastforce simp: safe_run_def on_store_def orch_ok_def orch_ledger_def split: prod.splits)

lemma safe_run_bind_run:
  assumes "safe_run P lof I m"
    and "\<And>x s t. P s \<Longrightarrow> m s = (Inr x, t) \<Longrightarrow> safe_run P lof I (f x)"
  shows "safe_run P lof I (cmd_bind m f)"
proof (rule safe_runI)
  fix s r s'
  assume s: "P s" and "cmd_bind m f s = (r, s')"
  then consider e where "m s = (Inl e, s')" | x t where "m s = (Inr x, t)" "f x t = (r, s')"
    by (auto simp: cmd_bind_eq)
  then show "P s' \<and> frame I (lof s) (lof s')"
  proof cases
    case 1
    then show ?thesis using safe_runD [OF assms(1) s] by blast
  next
    case 2
    then show ?thesis
      using safe_runD [OF assms(1) s 2(1)] safe_runD [OF assms(2) [OF s 2(1)] _ 2(2)] frame_trans
      by blast
  qed
qed

lemma orch_ok_parts:
  assumes "orch_ok sinv lof orch"
  shows "sinv (orch_store orch)" and "ledger_ok (orch_ledger lof orch)"
    and "ledger_wf (orch_ledger lof orch)" and "holdings_ok (orch_ledger lof orch)"
    and "claims_ok (orch_ledger lof orch)" and "pending_ok (orch_ledger lof orch)"
  using assms by (simp_all add: orch_ok_def store_ok_def orch_ledger_def ledger_ok_def)

section \<open>Every command is safe\<close>

context state_store_contract
begin

abbreviation "sok \<equiv> store_ok sinv ledger_of"
abbreviation "ook \<equiv> orch_ok sinv ledger_of"
abbreviation "olg \<equiv> orch_ledger ledger_of"

lemma command_step:
  assumes "implements sinv ledger_of view m spec" and "sok s" and "m s = (r, s')"
    and "\<And>r L'. spec (ledger_of s) = (r, L') \<Longrightarrow>
      holdings_ok L' \<and> claims_ok L' \<and> pending_ok L' \<and> frame I (ledger_of s) L'"
  shows "sok s' \<and> frame I (ledger_of s) (ledger_of s')"
proof -
  have s: "sinv s" "ledger_ok (ledger_of s)" using assms(2) by (simp_all add: store_ok_def)
  have s': "sinv s'" by (rule implementsD(1) [OF assms(1) s(1) assms(3)])
  consider "(res_map view r, ledger_of s') = spec (ledger_of s)" | "ledger_of s' = ledger_of s"
    using implementsD(2) [OF assms(1) s(1) assms(3)] by auto
  then show ?thesis
  proof cases
    case 1
    then have "spec (ledger_of s) = (res_map view r, ledger_of s')" by simp
    from assms(4) [OF this] s' abs_wf [OF s'] show ?thesis by (simp add: store_ok_def ledger_ok_def)
  next
    case 2
    with s s' show ?thesis by (simp add: store_ok_def)
  qed
qed

lemma ok_parts: "sok s \<Longrightarrow> holdings_ok (ledger_of s)" "sok s \<Longrightarrow> claims_ok (ledger_of s)"
  "sok s \<Longrightarrow> pending_ok (ledger_of s)"
  by (simp_all add: store_ok_def ledger_ok_def)

lemma safe_persist: "safe_run sok ledger_of {os_operation_id sel} (persist_intent ops sel)"
proof (rule safe_runI, rule command_step [OF persist_intent_law])
  fix s L' r
  assume "sok s" and run: "ledger_persist_intent sel (ledger_of s) = (r, L')"
  note ok = ok_parts [OF \<open>sok s\<close>]
  show "holdings_ok L' \<and> claims_ok L' \<and> pending_ok L' \<and> frame {os_operation_id sel} (ledger_of s) L'"
    using holdings_ok_persist [OF ok(1) run] claims_ok_persist [OF ok(2) run]
      pending_ok_persist [OF ok(3,2) run] frame_commands(1) [OF ok(1) _ run refl] by simp
qed

lemma safe_committed: "safe_run sok ledger_of {i} (mark_intent_committed ops i)"
proof (rule safe_runI, rule command_step [OF mark_committed_law])
  fix s L' r
  assume "sok s" and run: "ledger_mark_committed i (ledger_of s) = (r, L')"
  note ok = ok_parts [OF \<open>sok s\<close>]
  show "holdings_ok L' \<and> claims_ok L' \<and> pending_ok L' \<and> frame {i} (ledger_of s) L'"
    using holdings_ok_committed [OF ok(1) run] claims_ok_commands(1) [OF ok(2) run]
      pending_ok_commands(1) [OF ok(3) run] frame_commands(2) [OF ok(1) _ run] by simp
qed

lemma safe_failed: "safe_run sok ledger_of {i} (mark_intent_failed ops i)"
proof (rule safe_runI, rule command_step [OF mark_failed_law])
  fix s L' r
  assume "sok s" and run: "ledger_mark_failed i (ledger_of s) = (r, L')"
  note ok = ok_parts [OF \<open>sok s\<close>]
  show "holdings_ok L' \<and> claims_ok L' \<and> pending_ok L' \<and> frame {i} (ledger_of s) L'"
    using holdings_ok_mark_failed [OF ok(1) run] claims_ok_mark_failed [OF ok(2) run]
      pending_ok_commands(2) [OF ok(3) run] frame_commands(3) [OF ok(1) _ run] by simp
qed

lemma safe_release: "safe_run sok ledger_of {i} (release_operation ops i PhRollingBack)"
proof (rule safe_runI, rule command_step [OF release_law])
  fix s L' r
  assume "sok s" and run: "ledger_release i PhRollingBack (ledger_of s) = (r, L')"
  note ok = ok_parts [OF \<open>sok s\<close>]
  show "holdings_ok L' \<and> claims_ok L' \<and> pending_ok L' \<and> frame {i} (ledger_of s) L'"
    using holdings_ok_release [OF ok(1) run] claims_ok_commands(2) [OF ok(2) run]
      pending_ok_commands(3) [OF ok(3) run] frame_commands(4) [OF ok(1) _ run] by simp
qed

lemma safe_release_selected: "safe_run sok ledger_of {i} (release_selected_operation ops i)"
proof (rule safe_runI, rule command_step [OF release_selected_law])
  fix s L' r
  assume "sok s" and run: "ledger_release_selected i (ledger_of s) = (r, L')"
  note ok = ok_parts [OF \<open>sok s\<close>]
  show "holdings_ok L' \<and> claims_ok L' \<and> pending_ok L' \<and> frame {i} (ledger_of s) L'"
    using holdings_ok_release_selected [OF ok(1) run] claims_ok_commands(3) [OF ok(2) run]
      pending_ok_commands(4) [OF ok(3) run] frame_commands(5) [OF ok(1) _ run] by simp
qed

lemma safe_complete: "safe_run sok ledger_of {i} (complete_operation ops i ph)"
proof (rule safe_runI, rule command_step [OF complete_law])
  fix s L' r
  assume "sok s" and run: "ledger_complete i ph (ledger_of s) = (r, L')"
  note ok = ok_parts [OF \<open>sok s\<close>]
  show "holdings_ok L' \<and> claims_ok L' \<and> pending_ok L' \<and> frame {i} (ledger_of s) L'"
    using holdings_ok_complete [OF ok(1) run] claims_ok_complete [OF ok(2) run]
      pending_ok_complete [OF ok(3) run] frame_commands(6) [OF ok(1) _ run] by simp
qed

lemma safe_advance_tick: "safe_run sok ledger_of {} (advance_tick ops d)"
proof (rule safe_runI, rule command_step [OF advance_tick_law])
  fix s L' and r :: "unit result"
  assume "sok s" and "ledger_advance_tick d (ledger_of s) = (r, L')"
  moreover then have "frame {} (ledger_of s) L'"
    by (intro frame_same) (auto simp: ledger_advance_tick_def)
  ultimately show "holdings_ok L' \<and> claims_ok L' \<and> pending_ok L' \<and> frame {} (ledger_of s) L'"
    using ok_parts holdings_ok_advance_tick claims_ok_commands(4) pending_ok_commands(5) by blast
qed

lemma same_holdings_step:
  assumes "sok s" and "sinv s'" and "same_holdings (ledger_of s) (ledger_of s')"
  shows "sok s' \<and> frame I (ledger_of s) (ledger_of s')"
proof -
  have "frame I (ledger_of s) (ledger_of s')"
    using assms(3) by (intro frame_same) (auto simp: same_holdings_def)
  then show ?thesis
    using assms(2) abs_wf [OF assms(2)] holdings_ok_same [OF assms(3) ok_parts(1) [OF assms(1)]]
      claims_ok_same [OF assms(3) ok_parts(2) [OF assms(1)]]
      pending_ok_same [OF assms(3) ok_parts(3) [OF assms(1)]]
    by (simp add: store_ok_def ledger_ok_def)
qed

lemma safe_put_account: "safe_run sok ledger_of I (put_account ops a)"
proof (rule safe_runI)
  fix s s' and r :: "unit result"
  assume s: "sok s" and "put_account ops a s = (r, s')"
  then have "sinv s'" and "same_holdings (ledger_of s) (ledger_of s')"
    using put_account_law by (auto simp: store_ok_def)
  with s show "sok s' \<and> frame I (ledger_of s) (ledger_of s')" by (rule same_holdings_step)
qed

lemma safe_put_scope: "safe_run sok ledger_of I (put_scope ops sc)"
proof (rule safe_runI)
  fix s s' and r :: "unit result"
  assume s: "sok s" and "put_scope ops sc s = (r, s')"
  then have "sinv s'" and "same_holdings (ledger_of s) (ledger_of s')"
    using put_scope_law by (auto simp: store_ok_def)
  with s show "sok s' \<and> frame I (ledger_of s) (ledger_of s')" by (rule same_holdings_step)
qed

lemma batch_step:
  assumes "sok s" and "apply_batch ops b s = (r, s')" and "sb_phase b = PhSelected"
    and "lg_intents (ledger_of s) (os_operation_id (sb_selection b)) \<noteq> None"
  shows "sok s' \<and> frame {os_operation_id (sb_selection b)} (ledger_of s) (ledger_of s')"
proof (rule command_step [OF apply_batch_law assms(1,2)])
  fix r L'
  assume run: "ledger_apply_batch b (ledger_of s) = (r, L')"
  note ok = ok_parts [OF assms(1)]
  show "holdings_ok L' \<and> claims_ok L' \<and> pending_ok L' \<and>
      frame {os_operation_id (sb_selection b)} (ledger_of s) L'"
    using holdings_ok_batch [OF ok(1) run assms(3,4)] claims_ok_batch [OF ok(2,1) run assms(4)]
      pending_ok_batch [OF ok(3) run assms(3)] frame_batch [OF run _ assms(3)] by simp
qed

lemma reconcile_step:
  assumes "sok s" and "plan_reconciliation ops s sn = Inr plan"
    and "apply_reconciliation ops plan s = (r, s')"
  shows "sok s'" and "ledger_extends (ledger_of s) (ledger_of s')"
    and "distinct (map ob_outpoint (sn_utxos sn)) \<Longrightarrow> records_ok (ledger_of s) \<Longrightarrow> records_ok (ledger_of s')"
proof -
  have s: "sinv s" "ledger_ok (ledger_of s)" using assms(1) by (simp_all add: store_ok_def)
  obtain us where us: "list_utxos ops s = Inr us" and plan: "plan = \<lparr>rp_actions = plan_actions us sn\<rparr>"
    using assms(2) by (auto simp: plan_reconciliation_def res_bind_eq_Inr)
  have listed: "lists_utxos us (ledger_of s)"
    using list_utxos_Inr [OF s(1) us] by (simp add: lists_utxos_def)
  have s': "sinv s'" by (rule implementsD(1) [OF apply_reconciliation_law s(1) assms(3)])
  have changed: "ledger_apply_reconciliation plan (ledger_of s) = (res_map id r, ledger_of s') \<or>
      ledger_of s' = ledger_of s"
    using implementsD(2) [OF apply_reconciliation_law s(1) assms(3)] by auto
  then consider "ledger_apply_reconciliation plan (ledger_of s) = (res_map id r, ledger_of s')"
    | "ledger_of s' = ledger_of s" by blast
  then show "sok s'" and "ledger_extends (ledger_of s) (ledger_of s')"
    using s s' abs_wf [OF s'] holdings_ok_reconcile claims_ok_reconcile pending_ok_commands(6)
      extends_reconciliation
    unfolding plan by (cases; force simp: store_ok_def ledger_ok_def)+
  have "ledger_wf (ledger_of s)" using s(2) by (simp add: ledger_ok_def)
  from changed records_ok_reconcile [OF this listed]
  show "records_ok (ledger_of s')" if "distinct (map ob_outpoint (sn_utxos sn))" "records_ok (ledger_of s)"
    using that unfolding plan by (cases rule: disjE) auto
qed

subsection \<open>Committing\<close>

lemma owned_intent:
  assumes "ook orch" and "get_intent ops (orch_store orch) i = Inr (Some n)"
  shows "lg_intents (olg orch) i = Some n" and "os_operation_id (oi_selection n) = i"
proof -
  note ok = orch_ok_parts [OF assms(1)]
  show "lg_intents (olg orch) i = Some n"
    using read_Inr(6) [OF ok(1) assms(2)] by (simp add: orch_ledger_def)
  then show "os_operation_id (oi_selection n) = i" by (rule ledger_wfD(3) [OF ok(3)])
qed

lemma commit_selection_step:
  assumes "ook orch" and "lg_intents (olg orch) (os_operation_id sel) \<noteq> None"
    and "commit_selection ops sel orch = (r, orch')"
  shows "ook orch' \<and> frame {os_operation_id sel} (olg orch) (olg orch')"
proof (cases "orch' = orch")
  case True
  with assms(1) show ?thesis by simp
next
  case False
  then obtain s' where "apply_batch ops (selection_batch (orch_owner orch) sel) (orch_store orch) = (r, s')"
    and "orch' = orch\<lparr>orch_store := s'\<rparr>"
    using assms(3)
    by (auto simp: commit_selection_def from_store_def on_store_def split: sum.splits prod.splits)
  then show ?thesis
    using batch_step [of "orch_store orch" "selection_batch (orch_owner orch) sel" r s'] assms(1,2)
    by (simp add: orch_ok_def orch_ledger_def selection_batch_def)
qed

lemma frame_intent_present:
  "frame I L L' \<Longrightarrow> lg_intents L j \<noteq> None \<Longrightarrow> lg_intents L' j \<noteq> None"
  using frameD(3) by fastforce

lemma safe_commit_recorded: "safe_run ook olg {i} (commit_recorded_intent ops i)"
proof -
  let ?attempt = "\<lambda>intent orch. case commit_selection ops (oi_selection intent) orch of
      (Inr _, orch') \<Rightarrow> on_store (mark_intent_committed ops i) orch'
    | (Inl err, orch') \<Rightarrow>
        if is_storage err then (Inl err, orch')
        else cmd_bind (from_store (\<lambda>s. is_pending_lock_conflict ops s i err)) (\<lambda>conflict.
            if \<not> conflict then cmd_bind (on_store (mark_intent_failed ops i)) (\<lambda>_. cmd_fail err)
            else cmd_fail err) orch'"
  have settle: "safe_run ook olg {i} (cmd_bind (from_store (\<lambda>s. is_pending_lock_conflict ops s i err))
      (\<lambda>conflict. if \<not> conflict then cmd_bind (on_store (mark_intent_failed ops i)) (\<lambda>_. cmd_fail err)
        else cmd_fail err))" for err
    using safe_on_store [OF safe_failed] by (intro safe_run_bind safe_run_if) auto
  have attempt: "ook orch' \<and> frame {i} (olg orch) (olg orch')"
    if ok: "ook orch" and n: "get_intent ops (orch_store orch) i = Inr (Some intent)"
      and run: "?attempt intent orch = (r, orch')" for orch orch' r intent
  proof -
    note intent = owned_intent [OF ok n]
    obtain q mid where commit: "commit_selection ops (oi_selection intent) orch = (q, mid)" by fastforce
    have mid: "ook mid \<and> frame {i} (olg orch) (olg mid)"
      using commit_selection_step [OF ok _ commit] intent by simp
    then have "ook orch' \<and> frame {i} (olg mid) (olg orch')"
      using run commit safe_runD [OF safe_on_store [OF safe_committed, of i]] safe_runD [OF settle]
      by (auto split: sum.splits if_splits)
    with mid show ?thesis using frame_trans by blast
  qed
  show ?thesis
  proof (rule safe_runI)
    fix orch r orch'
    assume ok: "ook orch" and run: "commit_recorded_intent ops i orch = (r, orch')"
    show "ook orch' \<and> frame {i} (olg orch) (olg orch')"
    proof (cases "\<exists>n. get_intent ops (orch_store orch) i = Inr (Some n) \<and> oi_status n = Pending")
      case True
      then obtain n where n: "get_intent ops (orch_store orch) i = Inr (Some n)" "oi_status n = Pending"
        by blast
      then have "?attempt n orch = (r, orch')"
        using run by (simp add: commit_recorded_intent_def from_store_def)
      then show ?thesis using attempt [OF ok n(1)] by blast
    next
      case False
      then have "orch' = orch"
        using run by (auto simp: commit_recorded_intent_def from_store_def ok_or_def
            split: sum.splits option.splits intent_status.splits)
      with ok show ?thesis by simp
    qed
  qed
qed

lemma safe_persist_selection:
  "safe_run ook olg {os_operation_id sel} (persist_selection_intent ops sel)"
  unfolding persist_selection_intent_def by (rule safe_on_store [OF safe_persist])

lemma safe_apply_selection: "safe_run ook olg {os_operation_id sel} (apply_selection ops sel)"
  unfolding apply_selection_def
  using safe_persist_selection safe_commit_recorded by (rule safe_run_bind)

lemma propose_operation_id:
  "propose_operation ops s req = Inr sel \<Longrightarrow>
    os_operation_id sel = or_operation_id (into_operation_request req)"
  by (auto simp: propose_operation_def Let_def res_bind_eq_Inr selection_from_request_def
      split: if_splits)

lemma safe_prepare_pending:
  "safe_run ook olg {or_operation_id (into_operation_request req)} (prepare_pending_operation ops req)"
  unfolding prepare_pending_operation_def
proof (rule safe_run_bind_run)
  fix sel s t
  assume "from_store (\<lambda>s. propose_operation ops s req) s = (Inr sel, t)"
  then have "os_operation_id sel = or_operation_id (into_operation_request req)"
    by (auto simp: from_store_def dest: propose_operation_id)
  then show "safe_run ook olg {or_operation_id (into_operation_request req)}
      (cmd_bind (persist_selection_intent ops sel) (\<lambda>_. cmd_return sel))"
    using safe_persist_selection [of sel] by auto
qed simp

lemma prepare_pending_id:
  "prepare_pending_operation ops req orch = (Inr sel, orch') \<Longrightarrow>
    os_operation_id sel = or_operation_id (into_operation_request req)"
  by (auto simp: prepare_pending_operation_def from_store_def cmd_bind_eq dest: propose_operation_id
      split: sum.splits)

lemma safe_prepare:
  "safe_run ook olg {or_operation_id (into_operation_request req)} (prepare_operation ops req)"
  unfolding prepare_operation_def
proof (rule safe_run_bind_run [OF safe_prepare_pending])
  fix sel s t
  assume "prepare_pending_operation ops req s = (Inr sel, t)"
  from prepare_pending_id [OF this]
  show "safe_run ook olg {or_operation_id (into_operation_request req)}
      (cmd_bind (commit_recorded_intent ops (os_operation_id sel)) (\<lambda>_. cmd_return sel))"
    using safe_commit_recorded [of "os_operation_id sel"] by auto
qed

lemma safe_fail_recorded: "safe_run ook olg {i} (fail_recorded_intent ops i)"
  unfolding fail_recorded_intent_def
  using safe_on_store [OF safe_failed, of i]
  by (intro safe_run_bind) (auto split: intent_status.split)

subsection \<open>Recovery\<close>

abbreviation "intent_op n \<equiv> os_operation_id (oi_selection n)"

lemma recover_one_step:
  assumes "ook orch" and "lg_intents (olg orch) (intent_op n) \<noteq> None"
    and run: "recover_one ops n rs orch = (r, orch')"
  shows "ook orch' \<and> frame {intent_op n} (olg orch) (olg orch')"
proof -
  let ?i = "intent_op n"
  obtain q mid where commit: "commit_selection ops (oi_selection n) orch = (q, mid)" by fastforce
  have mid: "ook mid \<and> frame {?i} (olg orch) (olg mid)"
    by (rule commit_selection_step [OF assms(1,2) commit])
  have finish: "safe_run ook olg {?i} (cmd_bind (on_store (mark_intent_committed ops ?i))
      (\<lambda>_. cmd_return (rs\<lparr>rs_replayed := rs_replayed rs @ [?i], rs_progressed := True\<rparr>)))"
    using safe_on_store [OF safe_committed] by (intro safe_run_bind) auto
  have settle: "safe_run ook olg {?i} (cmd_bind (from_store (\<lambda>s. is_pending_lock_conflict ops s ?i err))
      (\<lambda>conflict. if conflict then cmd_return (rs\<lparr>rs_deferred := rs_deferred rs @ [n]\<rparr>)
        else cmd_bind (on_store (mark_intent_failed ops ?i))
          (\<lambda>_. cmd_return (rs\<lparr>rs_failed := rs_failed rs @ [?i], rs_progressed := True\<rparr>))))" for err
    using safe_on_store [OF safe_failed] by (intro safe_run_bind safe_run_if) auto
  have "ook orch' \<and> frame {?i} (olg mid) (olg orch')"
  proof (cases q)
    case (Inr u)
    then show ?thesis
      using run mid safe_runD [OF finish, of mid r orch'] by (simp add: recover_one_def Let_def commit)
  next
    case (Inl err)
    then show ?thesis
      using run mid safe_runD [OF settle, of mid err r orch']
      by (simp add: recover_one_def Let_def commit split: if_splits)
  qed
  with mid show ?thesis using frame_trans by blast
qed

lemma recover_one_deferred:
  "recover_one ops n rs orch = (Inr rs', orch') \<Longrightarrow>
    set (rs_deferred rs') \<subseteq> insert n (set (rs_deferred rs))"
  by (auto simp: recover_one_def Let_def cmd_bind_eq from_store_def
      split: prod.splits sum.splits if_splits)

lemma recovery_pass_step:
  assumes "ook orch" and "\<forall>n\<in>set pending. lg_intents (olg orch) (intent_op n) \<noteq> None"
    and "recovery_pass ops pending rs orch = (r, orch')"
  shows "ook orch' \<and> frame (intent_op ` set pending) (olg orch) (olg orch')"
  using assms
proof (induction pending arbitrary: rs orch)
  case Nil
  then show ?case by simp
next
  case (Cons n pending)
  from Cons.prems(3) consider e where "recover_one ops n rs orch = (Inl e, orch')"
    | rs1 mid where "recover_one ops n rs orch = (Inr rs1, mid)"
        "recovery_pass ops pending rs1 mid = (r, orch')"
    by (auto simp: cmd_bind_eq)
  then show ?case
  proof cases
    case 1
    then have "ook orch' \<and> frame {intent_op n} (olg orch) (olg orch')"
      using recover_one_step [OF Cons.prems(1) _ 1] Cons.prems(2) by simp
    then show ?thesis using frame_mono [of "{intent_op n}"] by auto
  next
    case 2
    have mid: "ook mid" "frame {intent_op n} (olg orch) (olg mid)"
      using recover_one_step [OF Cons.prems(1) _ 2(1)] Cons.prems(2) by auto
    then have "\<forall>m\<in>set pending. lg_intents (olg mid) (intent_op m) \<noteq> None"
      using Cons.prems(2) frame_intent_present by auto
    then have "ook orch'" "frame (intent_op ` set pending) (olg mid) (olg orch')"
      using Cons.IH [OF mid(1) _ 2(2)] by auto
    moreover have "frame (intent_op ` set (n # pending)) (olg orch) (olg mid)"
      using mid(2) by (rule frame_mono) auto
    moreover have "frame (intent_op ` set (n # pending)) (olg mid) (olg orch')"
      using calculation(2) by (rule frame_mono) auto
    ultimately show ?thesis using frame_trans by blast
  qed
qed

lemma recovery_pass_deferred:
  "recovery_pass ops pending rs orch = (Inr rs', orch') \<Longrightarrow>
    set (rs_deferred rs') \<subseteq> set (rs_deferred rs) \<union> set pending"
proof (induction pending arbitrary: rs orch)
  case Nil
  then show ?case by simp
next
  case (Cons n pending)
  then show ?case using recover_one_deferred by (fastforce simp: cmd_bind_eq)
qed

lemma recovery_loop_step:
  assumes "ook orch" and "\<forall>n\<in>set pending. lg_intents (olg orch) (intent_op n) \<noteq> None"
    and "recovery_loop ops pending replayed failed orch = (r, orch')"
  shows "ook orch' \<and> frame (intent_op ` set pending) (olg orch) (olg orch')"
  using assms
proof (induction "length pending" arbitrary: pending replayed failed orch rule: less_induct)
  case less
  show ?case
  proof (cases "pending = []")
    case True
    with less.prems show ?thesis by (simp add: recovery_loop.simps)
  next
    case False
    obtain q mid where pass: "recovery_pass ops pending (recovery_start replayed failed) orch = (q, mid)"
      by fastforce
    note step = recovery_pass_step [OF less.prems(1,2) pass]
    show ?thesis
    proof (cases "\<exists>rs. q = Inr rs \<and> rs_progressed rs")
      case True
      then obtain rs where rs: "q = Inr rs" "rs_progressed rs" by blast
      then have loop: "recovery_loop ops (rs_deferred rs) (rs_replayed rs) (rs_failed rs) mid = (r, orch')"
        using less.prems(3) False pass by (simp add: recovery_loop.simps [of ops pending])
      have fewer: "length (rs_deferred rs) < length pending"
        using recovery_pass_counts(2) [of ops pending "recovery_start replayed failed" orch rs mid]
          pass rs by (simp add: recovery_start_def)
      have sub: "set (rs_deferred rs) \<subseteq> set pending"
        using recovery_pass_deferred [of pending "recovery_start replayed failed" orch rs mid] pass rs
        by (simp add: recovery_start_def)
      have present: "\<forall>n\<in>set (rs_deferred rs). lg_intents (olg mid) (intent_op n) \<noteq> None"
        using sub step less.prems(2) frame_intent_present by blast
      have "ook orch' \<and> frame (intent_op ` set (rs_deferred rs)) (olg mid) (olg orch')"
        using less.hyps [OF fewer _ present loop] step by blast
      then have "ook orch'" and "frame (intent_op ` set pending) (olg mid) (olg orch')"
        using frame_mono [OF _ image_mono [OF sub]] by blast+
      with step show ?thesis using frame_trans by blast
    next
      case False
      then have "orch' = mid"
        using less.prems(3) \<open>pending \<noteq> []\<close> pass
        by (auto simp: recovery_loop.simps [of ops pending] split: sum.splits if_splits)
      with step show ?thesis by simp
    qed
  qed
qed

lemma pending_listed:
  assumes "ook orch" and "list_pending_intents ops (orch_store orch) = Inr pending"
  shows "set pending = {n \<in> ran (lg_intents (olg orch)). oi_status n = Pending}" and "distinct pending"
    and "\<forall>n\<in>set pending. lg_intents (olg orch) (intent_op n) = Some n"
proof -
  note ok = orch_ok_parts [OF assms(1)]
  have listed: "set pending = {n \<in> ran (lg_intents (olg orch)). oi_status n = Pending} \<and> distinct pending"
    using list_pending_law [OF ok(1)] assms(2) by (auto simp: lists_as_def orch_ledger_def)
  then show "set pending = {n \<in> ran (lg_intents (olg orch)). oi_status n = Pending}" and "distinct pending"
    by auto
  show "\<forall>n\<in>set pending. lg_intents (olg orch) (intent_op n) = Some n"
    using listed ledger_wfD(3) [OF ok(3)] by (auto simp: ran_def)
qed

lemma recover_step:
  assumes "ook orch" and "recover_pending_intents ops orch = (r, orch')"
  shows "ook orch'" and "frame UNIV (olg orch) (olg orch')"
proof -
  have "ook orch' \<and> frame UNIV (olg orch) (olg orch')"
  proof (cases "list_pending_intents ops (orch_store orch)")
    case (Inl e)
    with assms show ?thesis by (simp add: recover_pending_intents_def from_store_def)
  next
    case (Inr pending)
    then have "recovery_loop ops pending [] [] orch = (r, orch')"
      using assms(2) by (simp add: recover_pending_intents_def from_store_def)
    then have "ook orch' \<and> frame (intent_op ` set pending) (olg orch) (olg orch')"
      using recovery_loop_step [OF assms(1)] pending_listed(3) [OF assms(1) Inr] by force
    then show ?thesis using frame_mono by blast
  qed
  then show "ook orch'" and "frame UNIV (olg orch) (olg orch')" by auto
qed

subsection \<open>Releasing, completing, cleaning up\<close>

lemma safe_release_orch: "safe_run ook olg {i} (orch_release_operation ops i)"
  unfolding orch_release_operation_def current_operation_def
  using safe_on_store [OF safe_release] by (intro safe_run_bind safe_run_if) auto

lemma safe_complete_orch: "safe_run ook olg {i} (orch_complete_operation ops i ph actual)"
  unfolding orch_complete_operation_def current_operation_def orch_verify_planned_inputs_def
  using safe_on_store [OF safe_complete] by (intro safe_run_bind safe_run_if) auto

lemma safe_release_selected_orch: "safe_run ook olg {i} (orch_release_selected_operation ops i)"
  unfolding orch_release_selected_operation_def by (rule safe_on_store [OF safe_release_selected])

lemma safe_release_stale: "safe_run ook olg (set is) (release_stale ops is report)"
proof (induction "is" arbitrary: report)
  case Nil
  show ?case unfolding release_stale.simps by (rule safe_run_basic)
next
  case (Cons i "is")
  have "safe_run ook olg (set (i # is)) (orch_release_selected_operation ops i)"
    using safe_release_selected_orch by (rule safe_run_mono) simp
  moreover have "safe_run ook olg (set (i # is)) (release_stale ops is report')" for report'
    using Cons.IH by (rule safe_run_mono) auto
  ultimately show ?case by (auto split: option.split)
qed

lemma cleanup_run:
  assumes "orch_cleanup_stale_reservations ops max_age orch = (r, orch')" and "orch' \<noteq> orch"
  obtains now xs where "current_tick ops (orch_store orch) = Inr now"
    and "list_operations ops (orch_store orch) = Inr xs"
    and "release_stale ops (map po_operation_id (filter (is_stale now max_age) xs))
        \<lparr>cr_released_operations = [], cr_released_outpoints = []\<rparr> orch = (r, orch')"
proof (cases "current_tick ops (orch_store orch)")
  case (Inl e)
  with assms have False
    by (simp add: orch_cleanup_stale_reservations_def orch_current_tick_def from_store_def cmd_bind_apply)
  then show ?thesis ..
next
  case now: (Inr now)
  show ?thesis
  proof (cases "list_operations ops (orch_store orch)")
    case (Inl e)
    with assms now have False
      by (simp add: orch_cleanup_stale_reservations_def orch_current_tick_def
          orch_list_operations_def from_store_def cmd_bind_apply)
    then show ?thesis ..
  next
    case (Inr xs)
    with assms(1) now show ?thesis
      by (intro that) (simp_all add: orch_cleanup_stale_reservations_def orch_current_tick_def
          orch_list_operations_def from_store_def cmd_bind_apply)
  qed
qed

lemma cleanup_step:
  assumes "ook orch" and "orch_cleanup_stale_reservations ops max_age orch = (r, orch')"
  shows "ook orch'"
    and "frame {i. \<exists>x. lg_operations (olg orch) i = Some x \<and> is_stale (lg_tick (olg orch)) max_age x}
      (olg orch) (olg orch')"
proof -
  note ok = orch_ok_parts [OF assms(1)]
  let ?stale = "{i. \<exists>x. lg_operations (olg orch) i = Some x \<and> is_stale (lg_tick (olg orch)) max_age x}"
  have "ook orch' \<and> frame ?stale (olg orch) (olg orch')"
  proof (cases "orch' = orch")
    case True
    with assms(1) show ?thesis by simp
  next
    case False
    from cleanup_run [OF assms(2) False] obtain now xs where now: "current_tick ops (orch_store orch) = Inr now"
      and xs: "list_operations ops (orch_store orch) = Inr xs"
      and run: "release_stale ops (map po_operation_id (filter (is_stale now max_age) xs))
        \<lparr>cr_released_operations = [], cr_released_outpoints = []\<rparr> orch = (r, orch')" .
    have tick: "now = lg_tick (olg orch)"
      using read_Inr(7) [OF ok(1) now] by (simp add: orch_ledger_def)
    have "set xs = ran (lg_operations (olg orch))"
      using list_operations_law [OF ok(1)] xs by (auto simp: lists_as_def orch_ledger_def)
    then have "po_operation_id ` set (filter (is_stale now max_age) xs) \<subseteq> ?stale"
      using ledger_wfD(2) [OF ok(3)] tick by (auto simp: ran_def)
    then have "set (map po_operation_id (filter (is_stale now max_age) xs)) \<subseteq> ?stale" by simp
    from safe_run_mono [OF safe_release_stale this]
    show ?thesis using assms(1) run by (rule safe_runD)
  qed
  then show "ook orch'" and "frame ?stale (olg orch) (olg orch')" by auto
qed

lemma reconcile_orch_step:
  assumes "ook orch" and "orch_reconcile_snapshot ops sn orch = (r, orch')"
  shows "ook orch'" and "ledger_extends (olg orch) (olg orch')"
    and "distinct (map ob_outpoint (sn_utxos sn)) \<Longrightarrow> records_ok (olg orch) \<Longrightarrow> records_ok (olg orch')"
proof -
  have "ook orch' \<and> ledger_extends (olg orch) (olg orch') \<and>
    (distinct (map ob_outpoint (sn_utxos sn)) \<longrightarrow> records_ok (olg orch) \<longrightarrow> records_ok (olg orch'))"
  proof (cases "orch' = orch")
    case True
    with assms(1) show ?thesis by simp
  next
    case False
    then obtain plan q s' where plan: "plan_reconciliation ops (orch_store orch) sn = Inr plan"
      and run: "apply_reconciliation ops plan (orch_store orch) = (q, s')"
      and o': "orch' = orch\<lparr>orch_store := s'\<rparr>"
      using assms(2)
      by (auto simp: orch_reconcile_snapshot_def from_store_def on_store_def cmd_bind_apply
          split: sum.splits prod.splits)
    have "sok (orch_store orch)" using assms(1) by (simp add: orch_ok_def)
    from reconcile_step [OF this plan run] show ?thesis
      by (simp add: o' orch_ok_def orch_ledger_def)
  qed
  then show "ook orch'" and "ledger_extends (olg orch) (olg orch')"
    and "distinct (map ob_outpoint (sn_utxos sn)) \<Longrightarrow> records_ok (olg orch) \<Longrightarrow> records_ok (olg orch')" by auto
qed

end

end
