(* ===== verification/Orchestrator_Outcomes.thy ===== *)
theory Orchestrator_Outcomes
  imports Orchestrator_Safety
begin

text \<open>
  What the orchestrator's commands do when they succeed and when they fail: committing an intent
  reserves its inputs all or nothing, releasing and completing act on exactly the operation's
  outputs, and expiry takes stale reservations only.
\<close>

section \<open>Outcomes\<close>

text \<open>
  An operation holds its selection: every input is reserved for it and locked by it, for the purpose
  its effect names and until the selection's expiry.
\<close>

definition holds_selection :: "ledger \<Rightarrow> operation_selection \<Rightarrow> bool" where
  "holds_selection L sel \<longleftrightarrow>
     is_some_and (lg_operations L (os_operation_id sel)) (\<lambda>x. po_phase x = PhSelected) \<and>
     is_some_and (lg_intents L (os_operation_id sel)) (\<lambda>n. oi_selection n = sel \<and> oi_status n = Committed) \<and>
     (\<forall>p\<in>set (os_selected_outpoints sel).
        is_some_and (lg_utxos L p) (bound_in_phase (os_operation_id sel) PhSelected) \<and>
        is_some_and (lg_locks L p) (\<lambda>l. lk_operation_id l = os_operation_id sel \<and>
          lk_expires_at l = os_expires_at sel \<and> LockUtxo p (lk_purpose l) \<in> set (os_effects sel)))"

text \<open>An output a request may take: free, of its account, in a scope with the required capabilities.\<close>

definition free_for :: "ledger \<Rightarrow> input_selection_request \<Rightarrow> outpoint \<Rightarrow> bool" where
  "free_for L isr p \<longleftrightarrow>
     (\<exists>u sc. lg_utxos L p = Some u \<and> is_policy_spendable u \<and> lg_locks L p = None \<and>
        mu_account_id u = isr_account_id isr \<and> lg_scopes L (mu_scope_id u) = Some sc \<and>
        contains_all (ws_capabilities sc) (isr_required_capabilities isr))"

text \<open>The selection part of a caller's request.\<close>

abbreviation "requested req \<equiv> or_selection (into_operation_request req)"

text \<open>No output and no lock differs.\<close>

definition same_outputs :: "ledger \<Rightarrow> ledger \<Rightarrow> bool" where
  "same_outputs L L' \<longleftrightarrow> lg_utxos L' = lg_utxos L \<and> lg_locks L' = lg_locks L"

lemma same_outputs_refl [simp]: "same_outputs L L"
  by (simp add: same_outputs_def)

lemma same_outputs_trans: "same_outputs L M \<Longrightarrow> same_outputs M N \<Longrightarrow> same_outputs L N"
  by (simp add: same_outputs_def)

lemma persist_fresh:
  assumes "ledger_persist_intent sel L = (Inr n, L')" and "lg_intents L (os_operation_id sel) = None"
  shows "same_outputs L L'" and "lg_operations L' = lg_operations L"
    and "\<exists>n. lg_intents L' (os_operation_id sel) = Some n \<and> oi_selection n = sel \<and> oi_status n = Pending"
  using assms by (auto simp: ledger_persist_intent_def Let_def same_outputs_def split: option.splits)

lemma res_map_id [simp]: "res_map id r = r"
  by (cases r) simp_all

text \<open>A batch that is accepted and then recorded as committed.\<close>

lemma batch_holds:
  assumes run: "ledger_apply_batch (selection_batch owner sel) L = (Inr (), M)"
    and mark: "ledger_mark_committed (os_operation_id sel) M = (Inr (), N)"
    and n: "lg_intents L (os_operation_id sel) = Some n" "oi_selection n = sel"
  shows "holds_selection N sel"
    and "p \<notin> set (os_selected_outpoints sel) \<Longrightarrow>
      lg_utxos N p = lg_utxos L p \<and> lg_locks N p = lg_locks L p"
    and "p \<in> set (os_selected_outpoints sel) \<Longrightarrow> \<exists>u. lg_utxos L p = Some u \<and>
      (is_policy_spendable u \<and> lg_locks L p = None \<or> held_by sel PhSelected u (lg_locks L p))"
proof -
  let ?b = "selection_batch owner sel"
  have sel [simp]: "sb_selection ?b = sel" "sb_phase ?b = PhSelected"
    by (simp_all add: selection_batch_def)
  have valid: "ledger_validate L sel = Inr ()"
    by (rule apply_batch_Inr [OF run]) simp
  have opers: "lg_operations M = (lg_operations L)(os_operation_id sel \<mapsto>
      batch_operation ?b (sat_add (lg_tick L) 1))"
    by (rule apply_batch_Inr [OF run]) simp
  have ints: "lg_intents M = lg_intents L"
    by (rule apply_batch_Inr [OF run]) simp
  have N: "lg_utxos N = lg_utxos M" "lg_locks N = lg_locks M" "lg_operations N = lg_operations M"
    "is_some_and (lg_intents N (os_operation_id sel)) (\<lambda>n. oi_selection n = sel \<and> oi_status n = Committed)"
    using mark n ints by (auto simp: ledger_mark_committed_def split: option.splits if_splits)
  have effect: "\<exists>e\<in>set (os_effects sel). p = effect_outpoint e"
    if "p \<in> set (os_selected_outpoints sel)" for p
    using ledger_validate_structure [OF valid] that by auto
  have "is_some_and (lg_utxos M p) (bound_in_phase (os_operation_id sel) PhSelected) \<and>
      is_some_and (lg_locks M p) (\<lambda>l. lk_operation_id l = os_operation_id sel \<and>
        lk_expires_at l = os_expires_at sel \<and> LockUtxo p (lk_purpose l) \<in> set (os_effects sel))"
    if p: "p \<in> set (os_selected_outpoints sel)" for p
  proof -
    obtain e where e: "e \<in> set (os_effects sel)" "effect_outpoint e = p" using effect [OF p] by blast
    then have "LockUtxo p (effect_purpose e) = e" using selection_effect.collapse by blast
    with e effect_outcome_held [OF apply_batch_outcome(1) [OF run, of e]] show ?thesis
      by (auto simp: held_by_def is_some_and_iff lock_mismatch_def)
  qed
  then show "holds_selection N sel"
    using N by (simp add: holds_selection_def opers batch_operation_def)
  show "lg_utxos N p = lg_utxos L p \<and> lg_locks N p = lg_locks L p"
    if "p \<notin> set (os_selected_outpoints sel)"
    using apply_batch_outcome(2) [OF run] that N by simp
  show "\<exists>u. lg_utxos L p = Some u \<and>
      (is_policy_spendable u \<and> lg_locks L p = None \<or> held_by sel PhSelected u (lg_locks L p))"
    if p: "p \<in> set (os_selected_outpoints sel)"
    using effect [OF p] apply_batch_outcome(1) [OF run]
    by (fastforce simp: effect_outcome_def Let_def)
qed

section \<open>Committing a recorded intent\<close>

context state_store_contract
begin

lemma on_store_command:
  assumes "implements sinv ledger_of view m spec" and "sinv (orch_store orch)"
    and "on_store m orch = (r, orch')"
  shows "(res_map view r, olg orch') = spec (olg orch) \<or>
      (\<exists>msg. r = Inl (Storage msg)) \<and> olg orch' = olg orch"
    and "sinv (orch_store orch')"
proof -
  obtain s' where run: "m (orch_store orch) = (r, s')" and "orch' = orch\<lparr>orch_store := s'\<rparr>"
    using assms(3) by (auto simp: on_store_def split: prod.splits)
  then show "(res_map view r, olg orch') = spec (olg orch) \<or>
      (\<exists>msg. r = Inl (Storage msg)) \<and> olg orch' = olg orch"
    using implementsD(2) [OF assms(1,2) run] by (simp add: orch_ledger_def)
  show "sinv (orch_store orch')"
    using implementsD(1) [OF assms(1,2) run] \<open>orch' = _\<close> by simp
qed

lemma on_store_Inr:
  assumes "implements sinv ledger_of view m spec" and "sinv (orch_store orch)"
    and "on_store m orch = (Inr x, orch')"
  shows "spec (olg orch) = (Inr (view x), olg orch')"
  using on_store_command(1) [OF assms] by auto

lemma on_store_ledger:
  assumes "implements sinv ledger_of view m spec" and "sinv (orch_store orch)"
    and "on_store m orch = (r, orch')"
  obtains "olg orch' = olg orch" | r' where "spec (olg orch) = (r', olg orch')"
  using on_store_command(1) [OF assms] by metis

lemma on_store_reliable:
  assumes "implements sinv ledger_of view m spec" and "sinv (orch_store orch)"
    and "no_storage_error (fst (m (orch_store orch)))" and "on_store m orch = (r, orch')"
  shows "spec (olg orch) = (res_map view r, olg orch')"
proof -
  have "r = fst (m (orch_store orch))"
    using assms(4) by (auto simp: on_store_def split: prod.splits)
  then show ?thesis
    using on_store_command(1) [OF assms(1,2,4)] assms(3) by (auto simp: no_storage_error_def)
qed

lemma commit_selection_cases:
  assumes "sinv (orch_store orch)" and "commit_selection ops sel orch = (r, orch')"
  shows "r = Inr () \<Longrightarrow>
      ledger_apply_batch (selection_batch (orch_owner orch) sel) (olg orch) = (Inr (), olg orch')"
    and "r = Inl e \<Longrightarrow> olg orch' = olg orch"
    and "sinv (orch_store orch')"
proof -
  let ?b = "selection_batch (orch_owner orch) sel"
  have cases: "orch' = orch \<and> (\<exists>e'. r = Inl e') \<or> on_store (apply_batch ops ?b) orch = (r, orch')"
    using assms(2)
    by (auto simp: commit_selection_def from_store_def dest: sym split: sum.splits)
  then show "sinv (orch_store orch')"
    using assms(1) on_store_command(2) [OF apply_batch_law assms(1)] by blast
  show "ledger_apply_batch ?b (olg orch) = (Inr (), olg orch')" if "r = Inr ()"
    using cases on_store_Inr [OF apply_batch_law assms(1)] unfolding that by fastforce
  show "olg orch' = olg orch" if r: "r = Inl e"
  proof (cases "orch' = orch")
    case False
    then have "on_store (apply_batch ops ?b) orch = (Inl e, orch')" using cases r by blast
    from on_store_command(1) [OF apply_batch_law assms(1) this] show ?thesis
      using ledger_commands_atomic(4) [of ?b "olg orch" e "olg orch'"] by auto
  qed simp
qed

text \<open>Success of a commit attempt, taken apart.\<close>

lemma commit_recorded_Inr:
  assumes ok: "ook orch" and run: "commit_recorded_intent ops i orch = (Inr u, orch')"
  obtains (already) n where "lg_intents (olg orch) i = Some n" "oi_status n = Committed" "orch' = orch"
    | (committed) n M where "lg_intents (olg orch) i = Some n" "oi_status n = Pending"
        "os_operation_id (oi_selection n) = i"
        "ledger_apply_batch (selection_batch (orch_owner orch) (oi_selection n)) (olg orch) = (Inr (), M)"
        "ledger_mark_committed i M = (Inr (), olg orch')"
proof -
  have s: "sinv (orch_store orch)" using orch_ok_parts(1) [OF ok] .
  obtain n where n: "get_intent ops (orch_store orch) i = Inr (Some n)"
    using run by (auto simp: commit_recorded_intent_def from_store_def ok_or_eq
        split: sum.splits option.splits)
  note intent = owned_intent [OF ok n]
  show ?thesis
  proof (cases "oi_status n")
    case Pending
    obtain q mid where commit: "commit_selection ops (oi_selection n) orch = (q, mid)" by fastforce
    have "q = Inr () \<and> on_store (mark_intent_committed ops i) mid = (Inr u, orch')"
      using run n Pending commit
      by (auto simp: commit_recorded_intent_def from_store_def cmd_bind_eq
          split: sum.splits if_splits)
    then show ?thesis
      using committed [OF intent(1) Pending intent(2)] commit_selection_cases(1,3) [OF s commit]
        on_store_Inr [OF mark_committed_law] by simp
  next
    case Committed
    with run n show ?thesis
      by (intro already [OF intent(1)]) (auto simp: commit_recorded_intent_def from_store_def)
  next
    case Failed
    with run n show ?thesis by (simp add: commit_recorded_intent_def from_store_def)
  qed
qed

text \<open>A commit attempt that fails touches no output, unless the intent was applied before.\<close>

lemma mark_failed_outputs:
  assumes "ledger_mark_failed i L = (r, L')"
    and "\<not> live L i"
  shows "same_outputs L L'"
  using assms by (auto simp: ledger_mark_failed_def same_outputs_def live_def
      split: option.splits intent_status.splits if_splits)

subsection \<open>Preparing an operation\<close>

lemma eligible_scopes_Inr:
  assumes "sinv s" and "eligible_scopes ops s aid required sids = Inr eligible"
  shows "set eligible \<subseteq> {sid \<in> set sids. \<exists>sc. lg_scopes (ledger_of s) sid = Some sc \<and>
    ws_account_id sc = aid \<and> contains_all (ws_capabilities sc) required}"
  using assms(2)
proof (induction sids arbitrary: eligible)
  case Nil
  then show ?case by simp
next
  case (Cons sid sids)
  then show ?case
    using read_Inr(2) [OF assms(1)]
    by (force simp: res_bind_eq_Inr res_map_eq is_some_and_iff split: if_splits)
qed

lemma propose_Inr:
  assumes "sinv s" and "propose_operation ops s req = Inr sel"
  shows "os_selected_outpoints sel \<noteq> []"
    and "p \<in> set (os_selected_outpoints sel) \<Longrightarrow> free_for (ledger_of s) (requested req) p"
    and "os_expires_at sel = slp_expires_at (or_locking (into_operation_request req))"
    and "isr_spec (requested req) = ExactOutpoints ps \<Longrightarrow> os_selected_outpoints sel = ps"
proof -
  let ?isr = "requested req"
  obtain account eligible si where
    account: "get_account ops s (isr_account_id ?isr) = Inr (Some account)"
    and caps: "contains_all (ac_capabilities account) (isr_required_capabilities ?isr)"
    and eligible: "eligible_scopes ops s (isr_account_id ?isr) (isr_required_capabilities ?isr)
      (ac_scopes account) = Inr eligible"
    and si: "select_inputs \<lparr>cx_read = ops, cx_state = s, cx_account_id = isr_account_id ?isr,
        cx_account_scope_ids = ac_scopes account, cx_eligible_scope_ids = eligible\<rparr> (isr_spec ?isr) = Inr si"
    and sel: "sel = selection_from_request (into_operation_request req) si"
    using assms(2)
    by (auto simp: propose_operation_def Let_def res_bind_eq_Inr ok_or_eq split: if_splits)
  have outs: "os_selected_outpoints sel = si_outpoints si"
    by (simp add: sel selection_from_request_def Let_def)
  have sound: "si_outpoints si \<noteq> [] \<and>
      (\<forall>p\<in>set (si_outpoints si). selectable_in (ledger_of s) (isr_account_id ?isr) eligible p)"
    using select_inputs_sound [OF _ _ si] assms(1) by simp
  then show "os_selected_outpoints sel \<noteq> []" by (simp add: outs)
  show "free_for (ledger_of s) ?isr p" if "p \<in> set (os_selected_outpoints sel)"
    using sound that eligible_scopes_Inr [OF assms(1) eligible]
    unfolding outs free_for_def selectable_in_def by blast
  show "os_expires_at sel = slp_expires_at (or_locking (into_operation_request req))"
    by (simp add: sel selection_from_request_def Let_def)
  show "os_selected_outpoints sel = ps" if "isr_spec ?isr = ExactOutpoints ps"
    using exact_sound(1) [OF _ _ si [unfolded that select_inputs.simps]] assms(1) outs by simp
qed

lemma fresh_not_live: "ook orch \<Longrightarrow> lg_intents (olg orch) i = None \<Longrightarrow> \<not> live (olg orch) i"
  using claims_okD(1) [OF orch_ok_parts(5)] by blast

text \<open>Recording a fresh intent.\<close>

lemma prepare_pending_Inr:
  assumes ok: "ook orch" and run: "prepare_pending_operation ops req orch = (Inr sel, mid)"
    and fresh: "lg_intents (olg orch) (or_operation_id (into_operation_request req)) = None"
  shows "ook mid" and "same_outputs (olg orch) (olg mid)"
    and "lg_operations (olg mid) = lg_operations (olg orch)"
    and "\<exists>n. lg_intents (olg mid) (os_operation_id sel) = Some n \<and> oi_selection n = sel \<and> oi_status n = Pending"
    and "propose_operation ops (orch_store orch) req = Inr sel"
proof -
  note s = orch_ok_parts(1) [OF ok]
  show "ook mid" using safe_runD [OF safe_prepare_pending ok run] by simp
  obtain n where propose: "propose_operation ops (orch_store orch) req = Inr sel"
    and persist: "on_store (persist_intent ops sel) orch = (Inr n, mid)"
    using run
    by (auto simp: prepare_pending_operation_def from_store_def persist_selection_intent_def
        cmd_bind_eq split: sum.splits)
  show "propose_operation ops (orch_store orch) req = Inr sel" by (rule propose)
  have "ledger_persist_intent sel (olg orch) = (Inr n, olg mid)"
    using on_store_Inr [OF persist_intent_law s persist] by simp
  then show "same_outputs (olg orch) (olg mid)"
    and "lg_operations (olg mid) = lg_operations (olg orch)"
    and "\<exists>n. lg_intents (olg mid) (os_operation_id sel) = Some n \<and> oi_selection n = sel \<and> oi_status n = Pending"
    using persist_fresh [of sel "olg orch" n "olg mid"] fresh propose_operation_id [OF propose] by simp_all
qed

lemma prepare_Inr:
  assumes ok: "ook orch" and run: "prepare_operation ops req orch = (Inr sel, orch')"
    and fresh: "lg_intents (olg orch) (or_operation_id (into_operation_request req)) = None"
  shows "holds_selection (olg orch') sel" and "os_selected_outpoints sel \<noteq> []"
    and "p \<in> set (os_selected_outpoints sel) \<Longrightarrow> free_for (olg orch) (requested req) p"
    and "p \<notin> set (os_selected_outpoints sel) \<Longrightarrow>
      lg_utxos (olg orch') p = lg_utxos (olg orch) p \<and> lg_locks (olg orch') p = lg_locks (olg orch) p"
proof -
  obtain mid u where pending: "prepare_pending_operation ops req orch = (Inr sel, mid)"
    and commit: "commit_recorded_intent ops (os_operation_id sel) mid = (Inr u, orch')"
    using run by (auto simp: prepare_operation_def cmd_bind_eq)
  note mid = prepare_pending_Inr [OF ok pending fresh]
  note propose = propose_Inr [OF orch_ok_parts(1) [OF ok] mid(5)]
  show "os_selected_outpoints sel \<noteq> []" by (rule propose(1))
  show "free_for (olg orch) (requested req) p" if "p \<in> set (os_selected_outpoints sel)"
    using propose(2) [OF that] by (simp add: orch_ledger_def)
  have "holds_selection (olg orch') sel \<and> (\<forall>p. p \<notin> set (os_selected_outpoints sel) \<longrightarrow>
      lg_utxos (olg orch') p = lg_utxos (olg orch) p \<and> lg_locks (olg orch') p = lg_locks (olg orch) p)"
    using mid(1) commit
  proof (cases rule: commit_recorded_Inr)
    case (already n)
    with mid(4) show ?thesis by auto
  next
    case (committed n M)
    have "oi_selection n = sel" using committed(1) mid(4) by auto
    note batch = batch_holds [OF committed(4) [unfolded this] committed(5) committed(1) this]
    from batch(1,2) mid(2) show ?thesis by (simp add: same_outputs_def)
  qed
  then show "holds_selection (olg orch') sel"
    and "p \<notin> set (os_selected_outpoints sel) \<Longrightarrow>
      lg_utxos (olg orch') p = lg_utxos (olg orch) p \<and> lg_locks (olg orch') p = lg_locks (olg orch) p"
    by blast+
qed

end

context reliable_store
begin

lemma commit_recorded_Inl:
  assumes ok: "ook orch" and run: "commit_recorded_intent ops i orch = (Inl e, orch')"
    and fresh: "\<not> live (olg orch) i"
  shows "same_outputs (olg orch) (olg orch')"
proof (cases "\<exists>n. get_intent ops (orch_store orch) i = Inr (Some n) \<and> oi_status n = Pending")
  case False
  then have "orch' = orch"
    using run by (auto simp: commit_recorded_intent_def from_store_def ok_or_def
        split: sum.splits option.splits intent_status.splits)
  then show ?thesis by simp
next
  case True
  then obtain n where n: "get_intent ops (orch_store orch) i = Inr (Some n)" "oi_status n = Pending"
    by blast
  have s: "sinv (orch_store orch)" using orch_ok_parts(1) [OF ok] .
  obtain q mid where commit: "commit_selection ops (oi_selection n) orch = (q, mid)" by fastforce
  note mid = commit_selection_cases(3) [OF s commit]
  show ?thesis
  proof (cases q)
    case (Inl err)
    have same: "olg mid = olg orch" using commit_selection_cases(2) [OF s commit] Inl by simp
    consider "orch' = mid" | r where "on_store (mark_intent_failed ops i) mid = (r, orch')"
      using run n commit Inl
      by (auto simp: commit_recorded_intent_def from_store_def cmd_bind_eq
          split: sum.splits if_splits)
    then show ?thesis
    proof cases
      case 2
      then show ?thesis
        using same mark_failed_outputs fresh by (cases rule: on_store_ledger [OF mark_failed_law mid]) auto
    qed (simp add: same)
  next
    case (Inr v)
    then have "on_store (mark_intent_committed ops i) mid = (Inl e, orch')"
      using run n commit by (simp add: commit_recorded_intent_def from_store_def)
    then have "ledger_mark_committed i (olg mid) = (Inl e, olg orch')"
      using on_store_reliable [OF mark_committed_law mid reliable_commands(2) [OF mid]] by force
    moreover have "lg_intents (olg mid) i = lg_intents (olg orch) i"
      by (rule apply_batch_Inr [OF commit_selection_cases(1) [OF s commit]]) (use Inr in auto)
    ultimately show ?thesis
      using owned_intent(1) [OF ok n(1)] n(2)
      by (auto simp: ledger_mark_committed_def split: if_splits)
  qed
qed


lemma prepare_Inl:
  assumes ok: "ook orch" and run: "prepare_operation ops req orch = (Inl e, orch')"
    and fresh: "lg_intents (olg orch) (or_operation_id (into_operation_request req)) = None"
  shows "same_outputs (olg orch) (olg orch')"
proof -
  note s = orch_ok_parts(1) [OF ok]
  consider "prepare_pending_operation ops req orch = (Inl e, orch')"
    | sel mid where "prepare_pending_operation ops req orch = (Inr sel, mid)"
        "commit_recorded_intent ops (os_operation_id sel) mid = (Inl e, orch')"
    using run by (auto simp: prepare_operation_def cmd_bind_eq)
  then show ?thesis
  proof cases
    case 1
    then consider "orch' = orch" | sel where "on_store (persist_intent ops sel) orch = (Inl e, orch')"
      by (auto simp: prepare_pending_operation_def from_store_def persist_selection_intent_def
          cmd_bind_eq split: sum.splits)
    then show ?thesis
    proof cases
      case 2
      then have "ledger_persist_intent sel (olg orch) = (Inl e, olg orch')"
        using on_store_reliable [OF persist_intent_law s reliable_commands(1) [OF s]] by force
      from ledger_commands_atomic(1) [OF this] show ?thesis by simp
    qed simp
  next
    case (2 sel mid)
    note mid = prepare_pending_Inr [OF ok 2(1) fresh]
    have "\<not> live (olg mid) (os_operation_id sel)"
      using fresh_not_live [OF ok] fresh mid(3) propose_operation_id [OF mid(5)]
      by (simp add: live_def)
    then show ?thesis
      using commit_recorded_Inl [OF mid(1) 2(2)] mid(2) same_outputs_trans by blast
  qed
qed

end

section \<open>Releasing, completing and expiring\<close>

lemma bound_outpoints_released:
  "j \<noteq> i \<Longrightarrow> bound_outpoints (released_ledger i ph L) j = bound_outpoints L j"
proof -
  assume "j \<noteq> i"
  have "(\<exists>v. map_option (\<lambda>u. if bound_to i u then release_binding u else u) m = Some v \<and> bound_to j v) =
      (\<exists>u. m = Some u \<and> bound_to j u)" for m
    using \<open>j \<noteq> i\<close> bound_to_unique [of i _ j] by (cases m) (auto simp: bound_to_def is_some_and_iff)
  then show ?thesis by (simp add: bound_outpoints_def)
qed

context state_store_contract
begin

lemma current_operation_Inr:
  assumes "ook orch" and "current_operation ops i orch = (Inr x, orch')"
  shows "lg_operations (olg orch) i = Some x" and "orch' = orch"
  using assms(2) read_Inr(5) [OF orch_ok_parts(1) [OF assms(1)]]
  by (auto simp: current_operation_def from_store_def res_bind_eq_Inr ok_or_eq orch_ledger_def)

lemma release_Inr:
  assumes ok: "ook orch" and run: "orch_release_operation ops i orch = (Inr ps, orch')"
  obtains (again) x where "lg_operations (olg orch) i = Some x" "po_phase x = PhRollingBack"
      "ps = []" "orch' = orch"
    | (released) x where "lg_operations (olg orch) i = Some x" "po_phase x \<noteq> PhRollingBack"
      "set ps = bound_outpoints (olg orch) i"
      "olg orch' = released_ledger i PhRollingBack (olg orch)"
proof -
  obtain x mid where op: "current_operation ops i orch = (Inr x, mid)"
    using run by (auto simp: orch_release_operation_def cmd_bind_eq)
  note x = current_operation_Inr [OF ok op]
  show ?thesis
  proof (cases "po_phase x = PhRollingBack")
    case True
    with run op x show ?thesis by (intro again [of x]) (simp_all add: orch_release_operation_def cmd_bind_run)
  next
    case False
    with run op x have "on_store (release_operation ops i PhRollingBack) orch = (Inr ps, orch')"
      by (auto simp: orch_release_operation_def cmd_bind_run split: if_splits)
    from on_store_Inr [OF release_law orch_ok_parts(1) [OF ok] this] x False show ?thesis
      by (intro released [of x]) (auto simp: ledger_release_def)
  qed
qed

lemma complete_Inr:
  assumes ok: "ook orch" and run: "orch_complete_operation ops i ph actual orch = (Inr ps, orch')"
  obtains (again) x where "lg_operations (olg orch) i = Some x" "po_phase x = ph"
      "ps = []" "orch' = orch"
    | (completed) x n where "lg_operations (olg orch) i = Some x" "valid_transition (po_phase x) ph"
      "lg_intents (olg orch) i = Some n" "oi_status n = Committed"
      "po_phase x = PhSelected \<Longrightarrow> set (os_selected_outpoints (oi_selection n)) = set actual"
      "set ps = bound_outpoints (olg orch) i" "olg orch' = completed_ledger i ph (olg orch)"
proof -
  note s = orch_ok_parts(1) [OF ok]
  obtain x mid where op: "current_operation ops i orch = (Inr x, mid)"
    using run by (auto simp: orch_complete_operation_def cmd_bind_eq)
  note x = current_operation_Inr [OF ok op]
  have rest: "cmd_bind (from_store (\<lambda>s. get_intent ops s i)) (\<lambda>found.
     cmd_bind (from_store (\<lambda>_. ok_or (IntentNotFound i) found)) (\<lambda>intent.
     if oi_status intent \<noteq> Committed then cmd_fail (IntentNotCommitted i)
     else
     cmd_bind (from_store (\<lambda>_. validate_advance x ph)) (\<lambda>advances.
     if \<not> advances then cmd_return []
     else
     cmd_bind (if po_phase x = PhSelected then orch_verify_planned_inputs ops i actual
               else cmd_return ()) (\<lambda>_.
     on_store (complete_operation ops i ph))))) orch = (Inr ps, orch')"
    using run op x(2) by (simp add: orch_complete_operation_def cmd_bind_run)
  then obtain n where n: "get_intent ops (orch_store orch) i = Inr (Some n)" "oi_status n = Committed"
    by (auto simp: from_store_def ok_or_eq split: sum.splits if_splits)
  note intent = owned_intent(1) [OF ok n(1)]
  show ?thesis
  proof (cases "po_phase x = ph")
    case True
    with rest n x show ?thesis
      by (intro again [of x]) (simp_all add: from_store_def validate_advance_cases)
  next
    case False
    with rest n have valid: "valid_transition (po_phase x) ph"
      by (auto simp: from_store_def validate_advance_cases split: if_splits)
    have verified: "po_phase x = PhSelected \<Longrightarrow> set (os_selected_outpoints (oi_selection n)) = set actual"
      and run': "on_store (complete_operation ops i ph) orch = (Inr ps, orch')"
      using rest n False valid
      by (auto simp: from_store_def validate_advance_cases orch_verify_planned_inputs_def
          read_verify_planned_inputs_def split: if_splits)
    have "ledger_complete i ph (olg orch) = (Inr (set ps), olg orch')"
      by (rule on_store_Inr [OF complete_law s run'])
    then have "set ps = bound_outpoints (olg orch) i \<and> olg orch' = completed_ledger i ph (olg orch)"
      using x(1) valid intent n(2) False by (simp add: ledger_complete_def validate_advance_cases)
    then show ?thesis using completed [OF x(1) valid intent n(2) verified] by blast
  qed
qed

end

context reliable_store
begin

text \<open>Expiry on a reliable store releases exactly the operations it is given.\<close>

lemma release_selected_Inr:
  assumes ok: "ook orch" and x: "lg_operations (olg orch) i = Some x" "po_phase x = PhSelected"
  obtains ps orch' where "orch_release_selected_operation ops i orch = (Inr (Some ps), orch')"
    and "set ps = bound_outpoints (olg orch) i"
    and "olg orch' = released_ledger i PhRollingBack (olg orch)" and "ook orch'"
proof -
  note s = orch_ok_parts(1) [OF ok]
  obtain r orch' where run: "orch_release_selected_operation ops i orch = (r, orch')" by fastforce
  have "(res_map (map_option set) r, olg orch') =
      (Inr (Some (bound_outpoints (olg orch) i)), released_ledger i PhRollingBack (olg orch))"
    using on_store_reliable [OF release_selected_law s reliable_commands(6) [OF s]
        run [unfolded orch_release_selected_operation_def]] x
    by (simp add: ledger_release_selected_def)
  moreover have "ook orch'" using safe_runD [OF safe_release_selected_orch ok run] by simp
  moreover obtain ps where "r = Inr (Some ps)" "set ps = bound_outpoints (olg orch) i"
    using calculation(1) by (cases r) (auto simp: res_map_def map_option_case split: option.splits)
  ultimately show ?thesis using run that by blast
qed

lemma release_stale_Inr:
  assumes "ook orch" and "distinct is"
    and "\<forall>i\<in>set is. is_some_and (lg_operations (olg orch) i) (\<lambda>x. po_phase x = PhSelected)"
  shows "\<exists>ps orch'. release_stale ops is report orch =
      (Inr \<lparr>cr_released_operations = cr_released_operations report @ is,
            cr_released_outpoints = cr_released_outpoints report @ ps\<rparr>, orch') \<and>
      set ps = (\<Union>i\<in>set is. bound_outpoints (olg orch) i) \<and>
      (\<forall>i\<in>set is. \<not> live (olg orch') i \<and> bound_outpoints (olg orch') i = {})"
  using assms
proof (induction "is" arbitrary: report orch)
  case Nil
  then show ?case by (cases report) simp
next
  case (Cons i "is")
  then obtain x where "lg_operations (olg orch) i = Some x" "po_phase x = PhSelected"
    by (auto simp: is_some_and_iff)
  then obtain qs mid where run: "orch_release_selected_operation ops i orch = (Inr (Some qs), mid)"
    and qs: "set qs = bound_outpoints (olg orch) i"
    and mid: "olg mid = released_ledger i PhRollingBack (olg orch)" "ook mid"
    using release_selected_Inr [OF Cons.prems(1)] by metis
  have "i \<notin> set is" and "distinct is" using Cons.prems(2) by simp_all
  have bound: "bound_outpoints (olg mid) j = bound_outpoints (olg orch) j" if "j \<in> set is" for j
    using that \<open>i \<notin> set is\<close> unfolding mid(1) by (intro bound_outpoints_released) auto
  have opers: "lg_operations (olg mid) j = lg_operations (olg orch) j" if "j \<in> set is" for j
    using that \<open>i \<notin> set is\<close> by (cases "j = i") (simp_all add: mid(1))
  let ?report = "\<lparr>cr_released_operations = cr_released_operations report @ [i],
    cr_released_outpoints = cr_released_outpoints report @ qs\<rparr>"
  have "\<forall>j\<in>set is. is_some_and (lg_operations (olg mid) j) (\<lambda>x. po_phase x = PhSelected)"
    using Cons.prems(3) opers by simp
  from Cons.IH [OF mid(2) \<open>distinct is\<close> this, of ?report] obtain ps orch' where
    rest: "release_stale ops is ?report mid =
      (Inr \<lparr>cr_released_operations = cr_released_operations ?report @ is,
            cr_released_outpoints = cr_released_outpoints ?report @ ps\<rparr>, orch')"
    and ps: "set ps = (\<Union>j\<in>set is. bound_outpoints (olg mid) j)"
    and gone: "\<forall>j\<in>set is. \<not> live (olg orch') j \<and> bound_outpoints (olg orch') j = {}"
    by blast
  have frame: "ook orch' \<and> frame (set is) (olg mid) (olg orch')"
    by (rule safe_runD [OF safe_release_stale mid(2) rest])
  have "\<not> live (olg mid) i" by (auto simp: mid(1) live_def is_some_and_iff dest: released_phase)
  then have dead: "\<not> live (olg orch') i"
    using frameD(4) [OF conjunct2 [OF frame] \<open>i \<notin> set is\<close>] by (simp add: live_def)
  moreover have "bound_outpoints (olg orch') i = {}"
    using no_owner_without_operation [OF orch_ok_parts(4) [OF conjunct1 [OF frame]]] dead
    by (auto simp: bound_outpoints_def live_def is_some_and_iff)
  ultimately show ?case
    using run rest qs ps bound gone by (auto simp: cmd_bind_run intro!: exI [of _ "qs @ ps"])
qed

text \<open>Expiry finds every stale operation and releases all of them.\<close>

lemma cleanup_Inr:
  assumes ok: "ook orch"
  obtains report orch' where "orch_cleanup_stale_reservations ops max_age orch = (Inr report, orch')"
    and "distinct (cr_released_operations report)"
    and "set (cr_released_operations report) =
      {i. \<exists>x. lg_operations (olg orch) i = Some x \<and> is_stale (lg_tick (olg orch)) max_age x}"
    and "set (cr_released_outpoints report) =
      (\<Union>i\<in>set (cr_released_operations report). bound_outpoints (olg orch) i)"
    and "\<forall>i\<in>set (cr_released_operations report). \<not> live (olg orch') i \<and> bound_outpoints (olg orch') i = {}"
proof -
  note s = orch_ok_parts(1) [OF ok]
  let ?L = "olg orch"
  obtain xs where list: "list_operations ops (orch_store orch) = Inr xs"
    and xs: "set xs = ran (lg_operations ?L)" "distinct xs"
    using list_operations_law [OF s] reliable_reads(8) [OF s]
    by (auto simp: lists_as_def no_storage_error_def orch_ledger_def)
  have now: "current_tick ops (orch_store orch) = Inr (lg_tick ?L)"
    using reliable_read_eqs(7) [OF s] by (simp add: orch_ledger_def)
  let ?stale = "filter (is_stale (lg_tick ?L) max_age) xs"
  let ?is = "map po_operation_id ?stale"
  have keys: "lg_operations ?L (po_operation_id x) = Some x" if "x \<in> set xs" for x
    using that ledger_wfD(2) [OF orch_ok_parts(3) [OF ok]] unfolding xs(1) ran_def by fastforce
  have "inj_on po_operation_id (set ?stale)"
    using keys by (intro inj_onI) (metis filter_is_subset option.inject subsetD)
  then have dist: "distinct ?is" using xs(2) by (simp add: distinct_map)
  have set_is: "set ?is = {i. \<exists>x. lg_operations ?L i = Some x \<and> is_stale (lg_tick ?L) max_age x}"
    using keys ledger_wfD(2) [OF orch_ok_parts(3) [OF ok]] unfolding set_map set_filter xs(1) ran_def
    by force
  then have selected: "\<forall>i\<in>set ?is. is_some_and (lg_operations ?L i) (\<lambda>x. po_phase x = PhSelected)"
    by (auto simp: is_stale_def)
  have run: "orch_cleanup_stale_reservations ops max_age orch =
      release_stale ops ?is \<lparr>cr_released_operations = [], cr_released_outpoints = []\<rparr> orch"
    using now list by (simp add: orch_cleanup_stale_reservations_def orch_current_tick_def
        orch_list_operations_def from_store_def)
  let ?empty = "\<lparr>cr_released_operations = [], cr_released_outpoints = []\<rparr>"
  obtain ps orch' where "release_stale ops ?is ?empty orch =
      (Inr \<lparr>cr_released_operations = ?is, cr_released_outpoints = ps\<rparr>, orch')"
    and "set ps = (\<Union>i\<in>set ?is. bound_outpoints ?L i)"
    and "\<forall>i\<in>set ?is. \<not> live (olg orch') i \<and> bound_outpoints (olg orch') i = {}"
    using release_stale_Inr [OF ok dist selected, of ?empty] by (simp del: set_map set_filter) blast
  then show ?thesis
    using dist set_is
    by (intro that [of "\<lparr>cr_released_operations = ?is, cr_released_outpoints = ps\<rparr>" orch'])
      (simp_all only: run cleanup_report.simps)
qed

end

end
