(* ===== verification/Service_Safety.thy ===== *)
theory Service_Safety
  imports Asset_Facade Orchestrator_Outcomes
begin

text \<open>
  The application service as a state machine: every call of the service, and every step of an
  operation that may be cut short by a crash, as a step relation over service states; the
  invariant of every reachable state; and what no step ever undoes.
\<close>

section \<open>Steps that extend the ledger\<close>

text \<open>The snapshots that name every output once.\<close>

definition names_outputs_once :: "observation_snapshot \<Rightarrow> bool" where
  "names_outputs_once sn \<longleftrightarrow> distinct (map ob_outpoint (sn_utxos sn))"

text \<open>
  What every call does to the ledger: it extends it, and when the call is orderly (\<open>d\<close>) it keeps the
  recorded availabilities consistent. Only reconciling a snapshot that names an output twice is not orderly.
\<close>

definition ledger_evolves :: "bool \<Rightarrow> ledger \<Rightarrow> ledger \<Rightarrow> bool" where
  "ledger_evolves d L L' \<longleftrightarrow> ledger_extends L L' \<and> (d \<longrightarrow> records_ok L \<longrightarrow> records_ok L')"

lemma ledger_evolves_refl [simp]: "ledger_evolves d L L"
  by (simp add: ledger_evolves_def)

lemma ledger_evolves_trans: "ledger_evolves d L M \<Longrightarrow> ledger_evolves d M N \<Longrightarrow> ledger_evolves d L N"
  unfolding ledger_evolves_def using ledger_extends_trans by blast

lemma ledger_evolves_mono: "ledger_evolves d L L' \<Longrightarrow> (d' \<Longrightarrow> d) \<Longrightarrow> ledger_evolves d' L L'"
  unfolding ledger_evolves_def by blast

lemma frame_evolves: "frame I L L' \<Longrightarrow> ledger_evolves d L L'"
  unfolding ledger_evolves_def using frameD(1,6) by blast

definition evolves ::
  "bool \<Rightarrow> ('st \<Rightarrow> bool) \<Rightarrow> ('st \<Rightarrow> ledger) \<Rightarrow> ('st, 'a) command \<Rightarrow> bool" where
  "evolves d P lof m \<longleftrightarrow>
     (\<forall>s r s'. P s \<longrightarrow> m s = (r, s') \<longrightarrow> P s' \<and> ledger_evolves d (lof s) (lof s'))"

lemma evolvesI:
  "(\<And>s r s'. P s \<Longrightarrow> m s = (r, s') \<Longrightarrow> P s' \<and> ledger_evolves d (lof s) (lof s')) \<Longrightarrow> evolves d P lof m"
  unfolding evolves_def by blast

lemma evolvesD:
  "evolves d P lof m \<Longrightarrow> P s \<Longrightarrow> m s = (r, s') \<Longrightarrow> P s' \<and> ledger_evolves d (lof s) (lof s')"
  unfolding evolves_def by blast

lemma evolves_safe: "safe_run P lof I m \<Longrightarrow> evolves d P lof m"
  unfolding safe_run_def evolves_def using frame_evolves by blast

lemma evolves_basic [simp, intro]:
  "evolves d P lof (cmd_return x)" "evolves d P lof (cmd_fail e)" "evolves d P lof (cmd_read g)"
  by (simp_all add: evolves_def)

lemma evolves_bind [intro]:
  assumes "evolves d P lof m" and "\<And>x. evolves d P lof (f x)"
  shows "evolves d P lof (cmd_bind m f)"
proof (rule evolvesI)
  fix s r s'
  assume s: "P s" and "cmd_bind m f s = (r, s')"
  then consider e where "m s = (Inl e, s')" | x t where "m s = (Inr x, t)" "f x t = (r, s')"
    by (auto simp: cmd_bind_eq)
  then show "P s' \<and> ledger_evolves d (lof s) (lof s')"
  proof cases
    case 1
    then show ?thesis using evolvesD [OF assms(1) s] by blast
  next
    case 2
    then show ?thesis
      using evolvesD [OF assms(1) s 2(1)] evolvesD [OF assms(2) _ 2(2)] ledger_evolves_trans by blast
  qed
qed

lemma evolves_each: "(\<And>x. evolves d P lof (f x)) \<Longrightarrow> evolves d P lof (cmd_each f xs)"
  by (induction xs) auto

section \<open>The invariant of a service\<close>

definition service_ok :: "('s \<Rightarrow> bool) \<Rightarrow> ('s \<Rightarrow> ledger) \<Rightarrow> 's service \<Rightarrow> bool" where
  "service_ok sinv lof sv \<longleftrightarrow> orch_ok sinv lof (sv_orchestrator sv)"

definition service_ledger :: "('s \<Rightarrow> ledger) \<Rightarrow> 's service \<Rightarrow> ledger" where
  "service_ledger lof sv = orch_ledger lof (sv_orchestrator sv)"

lemma safe_on_orchestrator:
  assumes "safe_run (orch_ok sinv lof) (orch_ledger lof) I m"
  shows "safe_run (service_ok sinv lof) (service_ledger lof) I (on_orchestrator m)"
  using assms
  by (fastforce simp: safe_run_def on_orchestrator_def service_ok_def service_ledger_def split: prod.splits)

lemma evolves_on_orchestrator:
  assumes "evolves d (orch_ok sinv lof) (orch_ledger lof) m"
  shows "evolves d (service_ok sinv lof) (service_ledger lof) (on_orchestrator m)"
  using assms
  by (fastforce simp: evolves_def on_orchestrator_def service_ok_def service_ledger_def split: prod.splits)

lemma safe_dependencies [simp, intro]:
  "safe_run (service_ok sinv lof) (service_ledger lof) I (now_utc_unix_secs dp)"
  "safe_run (service_ok sinv lof) (service_ledger lof) I (generate_id dp now)"
  "safe_run (service_ok sinv lof) (service_ledger lof) I (next_manual_reservation dp ttl)"
proof -
  show clock: "safe_run (service_ok sinv lof) (service_ledger lof) I (now_utc_unix_secs dp)"
    and ids: "safe_run (service_ok sinv lof) (service_ledger lof) I (generate_id dp n)" for n
    by (auto simp: safe_run_def now_utc_unix_secs_def generate_id_def service_ok_def service_ledger_def)
  show "safe_run (service_ok sinv lof) (service_ledger lof) I (next_manual_reservation dp ttl)"
    unfolding next_manual_reservation_def using clock ids by (intro safe_run_bind) auto
qed

context state_store_contract
begin

abbreviation "svok \<equiv> service_ok sinv ledger_of"
abbreviation "slg \<equiv> service_ledger ledger_of"

lemma safe_each: "(\<And>x. safe_run P lof I (f x)) \<Longrightarrow> safe_run P lof I (cmd_each f xs)"
  by (induction xs) auto

lemma safe_set_owner:
  "safe_run ook olg I m \<Longrightarrow> safe_run ook olg I (\<lambda>orch. m (orch_set_owner owner orch))"
  unfolding safe_run_def orch_ok_def orch_ledger_def orch_set_owner_def
  by (metis (no_types, lifting) orchestrator.select_convs(1) orchestrator.surjective
      orchestrator.update_convs(2))

lemma safe_bootstrap: "safe_run svok slg {} (bootstrap ops cfg)"
  unfolding bootstrap_def orch_add_account_def orch_add_scope_def
  by (intro safe_on_orchestrator safe_set_owner safe_run_bind safe_each safe_on_store
      safe_put_account safe_put_scope)

lemma safe_plan: "safe_run svok slg {per_operation_id req} (plan_exact_outpoints ops req)"
proof -
  have "or_operation_id (into_operation_request (PlannedExactOutpoints (exact_of_plan_request req))) =
      per_operation_id req"
    by (simp add: operation_request_new_def exact_of_plan_request_def)
  then show ?thesis
    unfolding plan_exact_outpoints_def
    using safe_prepare [of "PlannedExactOutpoints (exact_of_plan_request req)"]
    by (intro safe_run_bind safe_on_orchestrator) auto
qed

lemma safe_apply_explicit:
  "safe_run svok slg {esr_operation_id req} (apply_explicit_selection ops req)"
proof -
  have "os_operation_id (explicit_selection req) = esr_operation_id req"
    by (simp add: explicit_selection_def)
  then show ?thesis
    unfolding apply_explicit_selection_def orch_get_scope_def
    using safe_apply_selection [of "explicit_selection req"]
    by (intro safe_on_orchestrator safe_run_bind safe_run_if) auto
qed

lemma safe_reserve_specific:
  "safe_run svok slg {rsr_operation_id req} (reserve_specific_utxo ops req)"
proof -
  have "or_operation_id (into_operation_request (PlannedSpecificOutpoint (specific_of_reserve_request req))) =
      rsr_operation_id req"
    by (simp add: operation_request_new_def specific_of_reserve_request_def
        planned_specific_outpoint_new_def planned_specific_expires_at_def Let_def split: option.split)
  then show ?thesis
    unfolding reserve_specific_utxo_def
    using safe_prepare [of "PlannedSpecificOutpoint (specific_of_reserve_request req)"]
    by (intro safe_run_bind safe_on_orchestrator) auto
qed

lemma safe_prepare_any: "safe_run svok slg UNIV (on_orchestrator (prepare_operation ops req))"
  by (rule safe_on_orchestrator, rule safe_run_mono [OF safe_prepare]) simp

lemma safe_reserve_manual: "safe_run svok slg UNIV (reserve_manual_utxo ops dp req)"
  unfolding reserve_manual_utxo_def
  using safe_prepare_any by (intro safe_run_bind) (auto split: prod.split)

lemma safe_get_active: "safe_run svok slg UNIV (get_active_manual_reservation ops dp p)"
proof -
  have "safe_run ook olg UNIV (orch_release_selected_operation ops i)" for i
    by (rule safe_run_mono [OF safe_release_selected_orch]) simp
  then show ?thesis
    unfolding get_active_manual_reservation_def get_manual_reservation_def
    by (auto intro!: safe_run_bind safe_on_orchestrator split: option.split)
qed

lemma safe_expire_candidates: "safe_run svok slg UNIV (expire_stale_candidate_reservations ops dp ps)"
  unfolding expire_stale_candidate_reservations_def
  using safe_get_active by (intro safe_each safe_run_bind) auto

lemma safe_reserve_first:
  "safe_run svok slg UNIV (reserve_first_available_manual_utxo ops dp req)"
proof -
  have catch: "safe_run svok slg UNIV (\<lambda>sv. case on_orchestrator (prepare_operation ops q) sv of
      (Inr sel, sv') \<Rightarrow> (f sel, sv') | (Inl err, sv') \<Rightarrow> (g err, sv'))"
    for q and f :: "operation_selection \<Rightarrow> 'r result" and g
    using safe_prepare_any [of q] unfolding safe_run_def
    by (auto split: prod.splits sum.splits)
  show ?thesis
    unfolding reserve_first_available_manual_utxo_def
    using safe_expire_candidates catch by (intro safe_run_bind) (auto split: prod.split)
qed

lemma safe_preview: "safe_run svok slg UNIV (preview_asset_selection ops dp req)"
  unfolding preview_asset_selection_def
  using safe_expire_candidates by (intro safe_run_if safe_run_bind safe_on_orchestrator) auto

lemma safe_plan_assets: "safe_run svok slg UNIV (plan_asset_selection ops dp req)"
proof -
  have "safe_run ook olg UNIV (apply_selection ops sel)" for sel
    by (rule safe_run_mono [OF safe_apply_selection]) simp
  then show ?thesis
    unfolding plan_asset_selection_def Let_def orch_get_utxo_def
    using safe_preview by (intro safe_run_bind) (auto intro!: safe_on_orchestrator safe_run_bind split: list.split)
qed

lemma evolves_reconcile: "evolves (names_outputs_once sn) svok slg (reconcile_snapshot ops sn)"
proof -
  have "evolves (names_outputs_once sn) ook olg (orch_advance_tick ops 1)"
    unfolding orch_advance_tick_def by (rule evolves_safe [OF safe_on_store [OF safe_advance_tick]])
  moreover have "evolves (names_outputs_once sn) ook olg (orch_reconcile_snapshot ops sn)"
    using reconcile_orch_step by (intro evolvesI) (auto simp: ledger_evolves_def names_outputs_once_def)
  moreover have "evolves (names_outputs_once sn) ook olg (orch_current_tick ops)"
    unfolding orch_current_tick_def by (rule evolves_safe [of _ _ "{}"]) simp
  ultimately show ?thesis
    unfolding reconcile_snapshot_def by (intro evolves_on_orchestrator evolves_bind) auto
qed

lemma evolves_cleanup: "evolves d svok slg (cleanup_stale_reservations ops max_age)"
  unfolding cleanup_stale_reservations_def
  by (intro evolves_on_orchestrator evolvesI conjI)
    (erule (1) cleanup_step(1), erule (1) frame_evolves [OF cleanup_step(2)])

lemma evolves_recover: "evolves d svok slg (on_orchestrator (recover_pending_intents ops))"
  by (intro evolves_on_orchestrator evolvesI conjI)
    (erule (1) recover_step(1), erule (1) frame_evolves [OF recover_step(2)])

end

section \<open>The step relation\<close>

text \<open>
  One step of a service over a store: a call of the service (whatever it returns), a call of the
  orchestrator's staged interface, or an operation cut short between two store transactions. The
  relation has the snapshots that may be reconciled as a parameter: \<open>service_step\<close> admits every snapshot, and
  \<open>orderly_step\<close> those that name every output once.
\<close>

inductive service_step_over ::
  "(observation_snapshot \<Rightarrow> bool) \<Rightarrow> 's state_store \<Rightarrow> dependencies \<Rightarrow> 's service \<Rightarrow> 's service \<Rightarrow> bool"
  for admits ops dp where
  step_bootstrap: "bootstrap ops cfg sv = (r, sv') \<Longrightarrow> service_step_over admits ops dp sv sv'"
| step_reconcile: "admits sn \<Longrightarrow> reconcile_snapshot ops sn sv = (r, sv') \<Longrightarrow>
    service_step_over admits ops dp sv sv'"
| step_plan: "plan_exact_outpoints ops preq sv = (r, sv') \<Longrightarrow> service_step_over admits ops dp sv sv'"
| step_explicit: "apply_explicit_selection ops ereq sv = (r, sv') \<Longrightarrow> service_step_over admits ops dp sv sv'"
| step_specific: "reserve_specific_utxo ops sreq sv = (r, sv') \<Longrightarrow> service_step_over admits ops dp sv sv'"
| step_manual: "reserve_manual_utxo ops dp mreq sv = (r, sv') \<Longrightarrow> service_step_over admits ops dp sv sv'"
| step_first: "reserve_first_available_manual_utxo ops dp freq sv = (r, sv') \<Longrightarrow> service_step_over admits ops dp sv sv'"
| step_active: "get_active_manual_reservation ops dp p sv = (r, sv') \<Longrightarrow> service_step_over admits ops dp sv sv'"
| step_preview: "preview_asset_selection ops dp areq sv = (r, sv') \<Longrightarrow> service_step_over admits ops dp sv sv'"
| step_assets: "plan_asset_selection ops dp pareq sv = (r, sv') \<Longrightarrow> service_step_over admits ops dp sv sv'"
| step_release: "release_operation_service ops i sv = (r, sv') \<Longrightarrow> service_step_over admits ops dp sv sv'"
| step_complete: "complete_operation_service ops i ph actual sv = (r, sv') \<Longrightarrow> service_step_over admits ops dp sv sv'"
| step_cleanup: "cleanup_stale_reservations ops max_age sv = (r, sv') \<Longrightarrow> service_step_over admits ops dp sv sv'"
| step_prepare: "on_orchestrator (prepare_operation ops req) sv = (r, sv') \<Longrightarrow> service_step_over admits ops dp sv sv'"
| step_record: "on_orchestrator (prepare_pending_operation ops req) sv = (r, sv') \<Longrightarrow>
    service_step_over admits ops dp sv sv'"
| step_persist: "on_orchestrator (persist_selection_intent ops sel) sv = (r, sv') \<Longrightarrow>
    service_step_over admits ops dp sv sv'"
| step_commit: "on_orchestrator (commit_recorded_intent ops i) sv = (r, sv') \<Longrightarrow> service_step_over admits ops dp sv sv'"
| step_fail: "on_orchestrator (fail_recorded_intent ops i) sv = (r, sv') \<Longrightarrow> service_step_over admits ops dp sv sv'"
| step_recover: "on_orchestrator (recover_pending_intents ops) sv = (r, sv') \<Longrightarrow> service_step_over admits ops dp sv sv'"
| step_tick: "on_orchestrator (orch_advance_tick ops d) sv = (r, sv') \<Longrightarrow> service_step_over admits ops dp sv sv'"
| step_interrupted: "get_intent ops (orch_store (sv_orchestrator sv)) i = Inr (Some n) \<Longrightarrow>
    on_orchestrator (commit_selection ops (oi_selection n)) sv = (r, sv') \<Longrightarrow> service_step_over admits ops dp sv sv'"

inductive_cases service_stepE: "service_step_over admits ops dp sv sv'"

inductive service_steps_over ::
  "(observation_snapshot \<Rightarrow> bool) \<Rightarrow> 's state_store \<Rightarrow> dependencies \<Rightarrow> 's service \<Rightarrow> 's service \<Rightarrow> bool"
  for admits ops dp where
  steps_none: "service_steps_over admits ops dp sv sv"
| steps_more: "service_steps_over admits ops dp sv sv1 \<Longrightarrow> service_step_over admits ops dp sv1 sv2 \<Longrightarrow> service_steps_over admits ops dp sv sv2"

abbreviation "service_step \<equiv> service_step_over (\<lambda>_. True)"
abbreviation "service_steps \<equiv> service_steps_over (\<lambda>_. True)"

abbreviation "orderly_step \<equiv> service_step_over names_outputs_once"
abbreviation "orderly_steps \<equiv> service_steps_over names_outputs_once"

lemma snapshot_step: "reconcile_snapshot ops sn sv = (r, sv') \<Longrightarrow> service_step ops dp sv sv'"
  by (rule step_reconcile [of "\<lambda>_. True"]) simp_all

lemma orderly_snapshot_step:
  "names_outputs_once sn \<Longrightarrow> reconcile_snapshot ops sn sv = (r, sv') \<Longrightarrow> orderly_step ops dp sv sv'"
  by (rule step_reconcile [of names_outputs_once])

text \<open>Fewer snapshots admitted, fewer steps.\<close>

lemma service_step_mono:
  "service_step_over admits ops dp sv sv' \<Longrightarrow> (\<And>sn. admits sn \<Longrightarrow> admits' sn) \<Longrightarrow>
    service_step_over admits' ops dp sv sv'"
  by (erule service_step_over.cases) (auto intro: service_step_over.intros)

lemma service_steps_mono:
  "service_steps_over admits ops dp sv sv' \<Longrightarrow> (\<And>sn. admits sn \<Longrightarrow> admits' sn) \<Longrightarrow>
    service_steps_over admits' ops dp sv sv'"
  by (induction rule: service_steps_over.induct) (auto intro: service_steps_over.intros service_step_mono)

lemma orderly_steps_steps: "orderly_steps ops dp sv sv' \<Longrightarrow> service_steps ops dp sv sv'"
  by (erule service_steps_mono) (rule TrueI)

context state_store_contract
begin

lemmas service_calls_evolve =
  evolves_safe [OF safe_bootstrap] evolves_reconcile evolves_safe [OF safe_plan]
  evolves_safe [OF safe_apply_explicit] evolves_safe [OF safe_reserve_specific]
  evolves_safe [OF safe_reserve_manual] evolves_safe [OF safe_reserve_first]
  evolves_safe [OF safe_get_active] evolves_safe [OF safe_preview] evolves_safe [OF safe_plan_assets]
  evolves_cleanup evolves_recover

lemma orchestrator_calls_evolve:
  "evolves d svok slg (release_operation_service ops i)"
  "evolves d svok slg (complete_operation_service ops i ph actual)"
  "evolves d svok slg (on_orchestrator (prepare_operation ops req))"
  "evolves d svok slg (on_orchestrator (prepare_pending_operation ops req))"
  "evolves d svok slg (on_orchestrator (persist_selection_intent ops sel))"
  "evolves d svok slg (on_orchestrator (commit_recorded_intent ops i))"
  "evolves d svok slg (on_orchestrator (fail_recorded_intent ops i))"
  "evolves d svok slg (on_orchestrator (orch_advance_tick ops n))"
  unfolding release_operation_service_def complete_operation_service_def orch_advance_tick_def
  by (rule evolves_on_orchestrator, rule evolves_safe, rule safe_release_orch safe_complete_orch safe_prepare
      safe_prepare_pending safe_persist_selection safe_commit_recorded safe_fail_recorded
      safe_on_store [OF safe_advance_tick])+

lemma interrupted_evolves:
  assumes ok: "svok sv" and n: "get_intent ops (orch_store (sv_orchestrator sv)) i = Inr (Some n)"
    and run: "on_orchestrator (commit_selection ops (oi_selection n)) sv = (r, sv')"
  shows "svok sv' \<and> ledger_evolves d (slg sv) (slg sv')"
proof -
  have orch: "ook (sv_orchestrator sv)" using ok by (simp add: service_ok_def)
  obtain orch' where commit: "commit_selection ops (oi_selection n) (sv_orchestrator sv) = (r, orch')"
    and sv': "sv' = sv\<lparr>sv_orchestrator := orch'\<rparr>"
    using run by (auto simp: on_orchestrator_def split: prod.splits)
  note step = commit_selection_step [OF orch _ commit]
  show ?thesis
    using step owned_intent [OF orch n] frame_evolves by (auto simp: sv' service_ok_def service_ledger_def)
qed

lemma call_evolves:
  "svok sv \<Longrightarrow> m sv = (r, sv') \<Longrightarrow> evolves d svok slg m \<Longrightarrow>
    svok sv' \<and> ledger_evolves d (slg sv) (slg sv')"
  by (rule evolvesD)

lemma service_step_evolves:
  assumes "service_step_over admits ops dp sv sv'" and "svok sv"
  shows "svok sv' \<and> ledger_evolves (\<forall>sn. admits sn \<longrightarrow> names_outputs_once sn) (slg sv) (slg sv')"
  using assms(1)
proof cases
  case (step_reconcile sn r)
  with evolvesD [OF evolves_reconcile assms(2)] show ?thesis by (blast intro: ledger_evolves_mono)
next
  case (step_interrupted i n r)
  with interrupted_evolves [OF assms(2)] show ?thesis by blast
qed (rule call_evolves [OF assms(2)], assumption, rule service_calls_evolve orchestrator_calls_evolve)+

lemma service_steps_evolve:
  assumes "service_steps_over admits ops dp sv sv'" and "svok sv"
  shows "svok sv' \<and> ledger_evolves (\<forall>sn. admits sn \<longrightarrow> names_outputs_once sn) (slg sv) (slg sv')"
  using assms
proof (induction rule: service_steps_over.induct)
  case (steps_none sv)
  then show ?case by simp
next
  case (steps_more sv sv1 sv2)
  then show ?case using service_step_evolves ledger_evolves_trans by blast
qed

lemma service_step_safe:
  "service_step ops dp sv sv' \<Longrightarrow> svok sv \<Longrightarrow> svok sv' \<and> ledger_extends (slg sv) (slg sv')"
  using service_step_evolves by (auto simp: ledger_evolves_def)

lemma service_steps_safe:
  "service_steps ops dp sv sv' \<Longrightarrow> svok sv \<Longrightarrow> svok sv' \<and> ledger_extends (slg sv) (slg sv')"
  using service_steps_evolve by (auto simp: ledger_evolves_def)

lemma orderly_steps_records:
  "orderly_steps ops dp sv sv' \<Longrightarrow> svok sv \<Longrightarrow> records_ok (slg sv) \<Longrightarrow> records_ok (slg sv')"
  using service_steps_evolve by (auto simp: ledger_evolves_def)

end

section \<open>The service over the memory backend\<close>

definition reachable ::
  "string hash_order \<Rightarrow> operation_id hash_order \<Rightarrow> operation_id hash_order \<Rightarrow> dependencies \<Rightarrow>
   memory_store service \<Rightarrow> bool" where
  "reachable hu ho hi dp sv \<longleftrightarrow> service_steps (memory_ops hu ho hi) dp (service_with_store memory_default) sv"

text \<open>The states reached by reconciling only snapshots that name every output once.\<close>

definition orderly_reachable ::
  "string hash_order \<Rightarrow> operation_id hash_order \<Rightarrow> operation_id hash_order \<Rightarrow> dependencies \<Rightarrow>
   memory_store service \<Rightarrow> bool" where
  "orderly_reachable hu ho hi dp sv \<longleftrightarrow>
     orderly_steps (memory_ops hu ho hi) dp (service_with_store memory_default) sv"

definition ledger_view :: "memory_store service \<Rightarrow> ledger" where
  "ledger_view sv = service_ledger mem_ledger sv"

lemma ledger_ok_empty: "ledger_ok (mem_ledger memory_default)"
  by (simp add: ledger_ok_def ledger_wf_def holdings_ok_def slot_ok_def failed_intents_rolled_back_def
      claims_ok_def live_def pending_ok_def mem_ledger_def memory_default_def by_outpoint_def)

lemma memory_start: "service_ok mem_inv mem_ledger (service_with_store memory_default)"
  using ledger_ok_empty
  by (simp add: service_ok_def orch_ok_def store_ok_def service_with_store_def orch_with_store_def
      mem_inv_def memory_default_def)

lemma reachable_ok: "reachable hu ho hi dp sv \<Longrightarrow> service_ok mem_inv mem_ledger sv"
  using mem.service_steps_safe memory_start unfolding reachable_def by blast

lemma reachable_orch: "reachable hu ho hi dp sv \<Longrightarrow> orch_ok mem_inv mem_ledger (sv_orchestrator sv)"
  using reachable_ok by (simp add: service_ok_def)

lemma reachable_ledger:
  assumes "reachable hu ho hi dp sv"
  shows "ledger_ok (ledger_view sv)" and "ledger_wf (ledger_view sv)" and "holdings_ok (ledger_view sv)"
    and "claims_ok (ledger_view sv)" and "pending_ok (ledger_view sv)"
  using orch_ok_parts [OF reachable_orch [OF assms]] by (simp_all add: ledger_view_def service_ledger_def)

lemma orderly_reachable_reachable: "orderly_reachable hu ho hi dp sv \<Longrightarrow> reachable hu ho hi dp sv"
  unfolding reachable_def orderly_reachable_def by (rule orderly_steps_steps)

lemma orderly_records: "orderly_reachable hu ho hi dp sv \<Longrightarrow> records_ok (ledger_view sv)"
  unfolding orderly_reachable_def ledger_view_def
  by (erule mem.orderly_steps_records [OF _ memory_start])
    (simp add: records_ok_def service_ledger_def service_with_store_def orch_ledger_def orch_with_store_def
      mem_ledger_def memory_default_def by_outpoint_def)

lemma view_orch: "ledger_view sv = orch_ledger mem_ledger (sv_orchestrator sv)"
  by (simp add: ledger_view_def service_ledger_def)

text \<open>A call of the service that runs one orchestrator command.\<close>

lemma on_orchestrator_run:
  assumes "on_orchestrator m sv = (r, sv')"
  obtains orch' where "m (sv_orchestrator sv) = (r, orch')" and "sv_orchestrator sv' = orch'"
  using assms by (auto simp: on_orchestrator_def split: prod.splits)

end
