(* ===== verification/Recovery_Outcomes.thy ===== *)
theory Recovery_Outcomes
  imports Orchestrator_Outcomes
begin

text \<open>
  What recovery does. Over any store that keeps the contract a recovery that returns has settled every
  pending intent, and one that fails reports a storage error and can be started again; over a store
  whose storage never fails it returns.
\<close>

section \<open>Vocabulary of recovery\<close>

text \<open>An error that, if it names an output, names an input of the selection.\<close>

definition blames_input :: "operation_selection \<Rightarrow> domain_error \<Rightarrow> bool" where
  "blames_input sel err \<longleftrightarrow>
     (\<forall>p. error_input err = Some p \<longrightarrow> p \<in> set (os_selected_outpoints sel))"

text \<open>The intents still to settle.\<close>

definition unsettled :: "ledger \<Rightarrow> operation_intent set" where
  "unsettled L = {n \<in> ran (lg_intents L). oi_status n = Pending}"

text \<open>One recovered intent in the state of a pass: replayed, failed, deferred.\<close>

definition rec_replayed :: "operation_intent \<Rightarrow> recovery_state \<Rightarrow> recovery_state" where
  "rec_replayed n rs =
     rs\<lparr>rs_replayed := rs_replayed rs @ [os_operation_id (oi_selection n)], rs_progressed := True\<rparr>"

definition rec_failed :: "operation_intent \<Rightarrow> recovery_state \<Rightarrow> recovery_state" where
  "rec_failed n rs =
     rs\<lparr>rs_failed := rs_failed rs @ [os_operation_id (oi_selection n)], rs_progressed := True\<rparr>"

definition rec_deferred :: "operation_intent \<Rightarrow> recovery_state \<Rightarrow> recovery_state" where
  "rec_deferred n rs = rs\<lparr>rs_deferred := rs_deferred rs @ [n]\<rparr>"

text \<open>What a report claims, and the invariant of a pass.\<close>

definition report_ok :: "ledger \<Rightarrow> operation_id list \<Rightarrow> operation_id list \<Rightarrow> bool" where
  "report_ok L replayed failed \<longleftrightarrow>
     (\<forall>i\<in>set replayed. is_some_and (lg_intents L i) (\<lambda>n. holds_selection L (oi_selection n))) \<and>
     (\<forall>i\<in>set failed. is_some_and (lg_intents L i) (\<lambda>n. oi_status n = Failed) \<and> \<not> live L i)"

definition pass_inv :: "operation_id set \<Rightarrow> ledger \<Rightarrow> recovery_state \<Rightarrow> operation_intent list \<Rightarrow> bool" where
  "pass_inv ids L rs rest \<longleftrightarrow>
     unsettled L = set (rs_deferred rs) \<union> set rest \<and> distinct (rs_deferred rs @ rest) \<and>
     report_ok L (rs_replayed rs) (rs_failed rs) \<and>
     ids \<subseteq> set (rs_replayed rs) \<union> set (rs_failed rs) \<union>
       (\<lambda>n. os_operation_id (oi_selection n)) ` (set (rs_deferred rs) \<union> set rest)"

section \<open>What a commit attempt blames\<close>

text \<open>Readers that fail only in the storage layer.\<close>

definition fails_in_storage :: "('a \<Rightarrow> 'b result) \<Rightarrow> bool" where
  "fails_in_storage f \<longleftrightarrow> (\<forall>x e. f x = Inl e \<longrightarrow> is_storage e)"

lemma storage_blames_nothing: "is_storage e \<Longrightarrow> error_input e = None"
  by (cases e) simp_all

lemma validate_scope_blames:
  assumes "fails_in_storage accounts" and "fails_in_storage scopes"
    and "validate_scope accounts scopes aid sid required = Inl err"
  shows "error_input err = None"
  using assms
  by (auto simp: fails_in_storage_def validate_scope_def res_bind_eq_Inl ok_or_eq storage_blames_nothing
      split: if_splits)

lemma validate_capabilities_blames:
  assumes "fails_in_storage accounts" and "fails_in_storage scopes" and "fails_in_storage utxos"
    and "validate_capabilities accounts scopes utxos sel = Inl err"
  shows "error_input err = None"
proof -
  have "error_input e = None" if "validate_structure sel = Inl e" for e
    using that by (auto simp: validate_structure_def Let_def split: if_splits)
  moreover have "error_input e = None" if "validate_effect accounts scopes utxos f = Inl e" for e f
    using that assms(3) validate_scope_blames [OF assms(1,2)]
    by (auto simp: fails_in_storage_def validate_effect_def res_bind_eq_Inl ok_or_eq storage_blames_nothing)
  moreover have "error_input e = None" if "scopes s = Inl e" for e s
    using that assms(2) by (auto simp: fails_in_storage_def storage_blames_nothing)
  ultimately show ?thesis
    using assms(4) validate_scope_blames [OF assms(1,2)]
    by (auto simp: validate_capabilities_def res_bind_eq_Inl ok_or_eq dest!: res_each_Inl)
qed

lemma ledger_validate_blames: "ledger_validate L sel = Inl err \<Longrightarrow> error_input err = None"
  unfolding ledger_validate_def by (rule validate_capabilities_blames) (simp_all add: fails_in_storage_def)

lemma res_each_blame: "res_each f xs = Inl e \<Longrightarrow> \<exists>x\<in>set xs. f x = Inl e"
  using res_each_Inl [of f xs e] by auto

lemma selected_effect:
  "ledger_validate L sel = Inr () \<Longrightarrow> e \<in> set (os_effects sel) \<Longrightarrow>
    effect_outpoint e \<in> set (os_selected_outpoints sel)"
  using ledger_validate_structure by blast

lemma apply_effects_blame:
  assumes "res_fold (ledger_apply_effect b tick) es h = Inl err" and "error_input err = Some p"
  shows "p \<in> effect_outpoint ` set es"
  using assms(1)
proof (induction es arbitrary: h)
  case Nil
  then show ?case by simp
next
  case (Cons e es)
  have "p = effect_outpoint e" if "ledger_apply_effect b tick e h = Inl err"
    using that assms(2)
    by (auto simp: ledger_apply_effect_def lock_effect_verdict_def Let_def res_bind_eq_Inl
        split: option.splits if_splits)
  with Cons show ?case by (auto simp: res_bind_eq_Inl)
qed

lemma apply_batch_blames:
  assumes "ledger_apply_batch b L = (Inl err, L')"
  shows "blames_input (sb_selection b) err"
proof -
  consider "batch_precheck b (lg_intents L (os_operation_id (sb_selection b)))
        (lg_operations L (os_operation_id (sb_selection b))) = Inl err"
    | "ledger_validate L (sb_selection b) = Inl err"
    | "ledger_validate L (sb_selection b) = Inr ()"
        "res_fold (ledger_apply_effect b (lg_tick L)) (os_effects (sb_selection b)) (lg_utxos L, lg_locks L) = Inl err"
    using assms by (auto simp: ledger_apply_batch_def Let_def res_bind_eq_Inl split: sum.splits prod.splits)
  then show ?thesis
  proof cases
    case 1
    then show ?thesis
      by (auto simp: blames_input_def batch_precheck_def Let_def split: if_splits option.splits)
  next
    case 2
    with ledger_validate_blames show ?thesis by (simp add: blames_input_def)
  next
    case 3
    then show ?thesis using apply_effects_blame [OF 3(2)] selected_effect by (auto simp: blames_input_def)
  qed
qed

section \<open>Settling one intent on the ledger\<close>

text \<open>A live operation never waits for another: it holds its inputs itself.\<close>

lemma lock_owner_live:
  assumes "holdings_ok L" and "lg_locks L p = Some l"
  shows "live L (lk_operation_id l)"
proof -
  obtain u where "lg_utxos L p = Some u" and "bound_to (lk_operation_id l) u"
    using lock_iff_bound [OF assms(1), of p "lk_operation_id l"] assms(2) by blast
  then obtain x where "lg_operations L (lk_operation_id l) = Some x" and "po_phase x \<noteq> PhRollingBack"
    by (rule owner_live [OF assms(1)])
  then show ?thesis by (simp add: live_def)
qed

lemma live_never_blocked:
  assumes ok: "ledger_ok L" and live: "live L i" and p: "claims L i p"
    and l: "lg_locks L p = Some l"
  shows "lk_operation_id l = i"
proof -
  have h: "holdings_ok L" and c: "claims_ok L" using ok by (simp_all add: ledger_ok_def)
  obtain u where u: "lg_utxos L p = Some u" "bound_to i u \<or> mu_onchain_state u = Spent"
    using claims_okD(2) [OF c live p] by blast
  obtain v where "lg_utxos L p = Some v" "bound_to (lk_operation_id l) v"
    using lock_iff_bound [OF h, of p "lk_operation_id l"] l by blast
  then have "bound_to (lk_operation_id l) u" using u(1) by simp
  moreover have "mu_onchain_state u \<noteq> Spent"
    using slot_ok_Some(1) [OF h u(1)] calculation by (auto simp: utxo_ok_def bound_to_def)
  ultimately show ?thesis using u(2) bound_to_unique by blast
qed

lemma unsettled_settle:
  assumes "ledger_wf L" and "lg_intents L i = Some n" and "st \<noteq> Pending"
    and "lg_intents L' = (lg_intents L)(i \<mapsto> n\<lparr>oi_status := st\<rparr>)"
  shows "unsettled L' = unsettled L - {n}"
proof -
  have own: "j = i" if "lg_intents L j = Some n" for j
    using ledger_wfD(3) [OF assms(1) that] ledger_wfD(3) [OF assms(1,2)] by simp
  show ?thesis
  proof (rule set_eqI)
    fix m
    have "m \<in> unsettled L' \<longleftrightarrow> (\<exists>j. j \<noteq> i \<and> lg_intents L j = Some m) \<and> oi_status m = Pending"
      using assms(3) by (auto simp: unsettled_def ran_def assms(4) split: if_splits)
    also have "\<dots> \<longleftrightarrow> m \<in> unsettled L - {n}"
    proof -
      have "(\<exists>j. j \<noteq> i \<and> lg_intents L j = Some m) \<longleftrightarrow> (\<exists>j. lg_intents L j = Some m) \<and> m \<noteq> n"
        using own assms(2) by (metis option.inject)
      then show ?thesis by (auto simp: unsettled_def ran_def)
    qed
    finally show "m \<in> unsettled L' \<longleftrightarrow> m \<in> unsettled L - {n}" .
  qed
qed

lemma mark_failed_settles:
  assumes ok: "ledger_ok L" and n: "lg_intents L i = Some n" "oi_status n = Pending"
    and run: "ledger_mark_failed i L = (r, L')"
  shows "r = Inr ()" and "lg_intents L' = (lg_intents L)(i \<mapsto> n\<lparr>oi_status := Failed\<rparr>)"
    and "\<not> live L' i"
proof -
  have "po_phase x = PhSelected \<or> po_phase x = PhRollingBack" if "lg_operations L i = Some x" for x
    using ok that n by (auto simp: ledger_ok_def pending_ok_def)
  then consider "lg_operations L i = None" | x where "lg_operations L i = Some x" "po_phase x = PhSelected"
    | x where "lg_operations L i = Some x" "po_phase x = PhRollingBack"
    by (cases "lg_operations L i") auto
  then have "r = Inr () \<and> (L' = bump_tick (set_intent_status i Failed L) \<and> \<not> live L i \<or>
      L' = bump_tick (set_intent_status i Failed (released_ledger i PhRollingBack L)))"
    using run n by cases (auto simp: ledger_mark_failed_def live_def)
  moreover have "\<not> live (released_ledger i PhRollingBack L) i"
    using released_phase [of i PhRollingBack L] by (auto simp: live_def is_some_and_iff)
  ultimately show "r = Inr ()" and "lg_intents L' = (lg_intents L)(i \<mapsto> n\<lparr>oi_status := Failed\<rparr>)"
    and "\<not> live L' i"
    using n by (auto simp: live_def)
qed

lemma mark_committed_settles:
  assumes "lg_intents L i = Some n" and "oi_status n = Pending"
    and "ledger_mark_committed i L = (r, L')"
  shows "r = Inr ()" and "lg_intents L' = (lg_intents L)(i \<mapsto> n\<lparr>oi_status := Committed\<rparr>)"
  using assms by (auto simp: ledger_mark_committed_def)

lemma holds_committed: "holds_selection L sel \<Longrightarrow>
    \<exists>n. lg_intents L (os_operation_id sel) = Some n \<and> oi_status n = Committed"
  by (auto simp: holds_selection_def is_some_and_iff)

lemma frame_holds:
  assumes "frame I L L'" and "os_operation_id sel \<notin> I" and "holds_selection L sel"
  shows "holds_selection L' sel"
proof -
  have "lg_utxos L' p = lg_utxos L p \<and> lg_locks L' p = lg_locks L p"
    if p: "p \<in> set (os_selected_outpoints sel)" for p
  proof -
    obtain u where u: "lg_utxos L p = Some u" "bound_in_phase (os_operation_id sel) PhSelected u"
      using assms(3) p by (auto simp: holds_selection_def is_some_and_iff)
    from frameD(2) [OF assms(1) u(1) bound_in_phase_bound_to [OF u(2)] assms(2)] u show ?thesis by simp
  qed
  then show ?thesis
    using assms(3) frameD(4,5) [OF assms(1,2)] by (simp add: holds_selection_def)
qed

lemma frame_report:
  assumes "ledger_wf L" and "frame {i} L L'" and "is_some_and (lg_intents L i) (\<lambda>n. oi_status n = Pending)"
    and "report_ok L replayed failed"
  shows "report_ok L' replayed failed"
proof -
  have "is_some_and (lg_intents L' j) (\<lambda>n. holds_selection L' (oi_selection n))" if "j \<in> set replayed" for j
  proof -
    obtain n where n: "lg_intents L j = Some n" "holds_selection L (oi_selection n)"
      using assms(4) \<open>j \<in> set replayed\<close> by (auto simp: report_ok_def is_some_and_iff)
    have id: "os_operation_id (oi_selection n) = j" by (rule ledger_wfD(3) [OF assms(1) n(1)])
    have "j \<noteq> i" using assms(3) n holds_committed [OF n(2)] id by auto
    then show ?thesis
      using frameD(5) [OF assms(2), of j] frame_holds [OF assms(2) _ n(2)] n(1) id by simp
  qed
  moreover have "is_some_and (lg_intents L' j) (\<lambda>n. oi_status n = Failed) \<and> \<not> live L' j" if "j \<in> set failed" for j
  proof -
    have j: "is_some_and (lg_intents L j) (\<lambda>n. oi_status n = Failed)" "\<not> live L j"
      using assms(4) that by (simp_all add: report_ok_def)
    then have "j \<noteq> i" using assms(3) by (auto simp: is_some_and_iff)
    with j frameD(4,5) [OF assms(2), of j] show ?thesis by (simp add: live_def)
  qed
  ultimately show ?thesis by (simp add: report_ok_def)
qed

section \<open>Recovery over any store\<close>

context state_store_contract
begin

lemma readers_fail_in_storage:
  assumes "sinv s"
  shows "fails_in_storage (get_account ops s)" and "fails_in_storage (get_scope ops s)"
    and "fails_in_storage (get_utxo ops s)" and "fails_in_storage (get_lock ops s)"
    and "fails_in_storage (get_operation ops s)" and "fails_in_storage (get_intent ops s)"
  using get_account_law [OF assms] get_scope_law [OF assms] get_utxo_law [OF assms] get_lock_law [OF assms]
    get_operation_law [OF assms] get_intent_law [OF assms]
  unfolding fails_in_storage_def reads_as_def is_storage_iff by (metis Inr_not_Inl sum.inject(1))+

lemma validate_selection_blames:
  assumes "sinv s" and "validate_selection ops s sel = Inl err"
  shows "blames_input sel err"
proof -
  note readers = readers_fail_in_storage [OF assms(1)]
  have shape: "validate_structure sel = Inr ()"
    if "validate_capabilities (get_account ops s) (get_scope ops s) (get_utxo ops s) sel = Inr ()"
    using that by (auto simp: validate_capabilities_def res_bind_eq_Inr)
  consider "validate_capabilities (get_account ops s) (get_scope ops s) (get_utxo ops s) sel = Inl err"
    | e where "validate_structure sel = Inr ()" "e \<in> set (os_effects sel)"
        "validate_selected_input ops s sel e = Inl err"
    using assms(2)
    by (auto simp: validate_selection_def res_bind_eq_Inl dest!: res_each_blame shape)
  then show ?thesis
  proof cases
    case 1
    with validate_capabilities_blames [OF readers(1-3)] show ?thesis by (simp add: blames_input_def)
  next
    case (2 e)
    have "effect_outpoint e \<in> set (os_selected_outpoints sel)"
      using 2(1,2) by (simp add: validate_structure_ok)
    moreover have "error_input err = None" if "is_storage err" using that by (rule storage_blames_nothing)
    ultimately show ?thesis
      using 2(3) readers(3,4)
      by (auto simp: blames_input_def fails_in_storage_def validate_selected_input_def Let_def
          res_bind_eq_Inl ok_or_eq split: if_splits)
  qed
qed

lemma commit_selection_blames:
  assumes "sinv (orch_store orch)" and "commit_selection ops sel orch = (Inl err, orch')"
  shows "blames_input sel err"
proof -
  let ?b = "selection_batch (orch_owner orch) sel"
  consider "get_operation ops (orch_store orch) (os_operation_id sel) = Inl err"
    | found where "check_selected_phase sel found = Inl err"
    | "validate_selection ops (orch_store orch) sel = Inl err"
    | "on_store (apply_batch ops ?b) orch = (Inl err, orch')"
    using assms(2) by (auto simp: commit_selection_def from_store_def split: sum.splits)
  then show ?thesis
  proof cases
    case 1
    then show ?thesis
      using readers_fail_in_storage(5) [OF assms(1)] storage_blames_nothing
      by (auto simp: blames_input_def fails_in_storage_def)
  next
    case 2
    then show ?thesis by (auto simp: check_selected_phase_def blames_input_def split: option.splits if_splits)
  next
    case 3
    then show ?thesis by (rule validate_selection_blames [OF assms(1)])
  next
    case 4
    from on_store_command(1) [OF apply_batch_law assms(1) 4] show ?thesis
      using apply_batch_blames [of ?b "olg orch" err "olg orch'"]
      by (auto simp: selection_batch_def blames_input_def)
  qed
qed

lemma conflict_result:
  assumes "sinv (orch_store orch)"
  shows "is_pending_lock_conflict ops (orch_store orch) i err = Inr b \<Longrightarrow> b \<longleftrightarrow> (\<exists>p l.
      error_input err = Some p \<and> lg_locks (olg orch) p = Some l \<and> lk_operation_id l \<noteq> i \<and>
      is_some_and (lg_intents (olg orch) (lk_operation_id l)) (\<lambda>n. oi_status n = Pending))"
    and "is_pending_lock_conflict ops (orch_store orch) i err = Inl e \<Longrightarrow> is_storage e"
proof -
  show "b \<longleftrightarrow> (\<exists>p l.
      error_input err = Some p \<and> lg_locks (olg orch) p = Some l \<and> lk_operation_id l \<noteq> i \<and>
      is_some_and (lg_intents (olg orch) (lk_operation_id l)) (\<lambda>n. oi_status n = Pending))"
    if "is_pending_lock_conflict ops (orch_store orch) i err = Inr b"
    using that read_Inr(4,6) [OF assms]
    by (auto simp: is_pending_lock_conflict_def orch_ledger_def res_bind_eq_Inr res_map_eq
        split: option.splits if_splits)
  show "is_storage e" if "is_pending_lock_conflict ops (orch_store orch) i err = Inl e"
    using that readers_fail_in_storage(4,6) [OF assms]
    by (auto simp: is_pending_lock_conflict_def fails_in_storage_def res_bind_eq_Inl res_map_eq
        split: option.splits if_splits)
qed

text \<open>What recovering one intent does: replayed, failed, left for later behind a live owner, or the
  storage fails.\<close>

lemma recover_one_outcome:
  assumes ok: "ook orch" and n: "n \<in> unsettled (olg orch)"
    and run: "recover_one ops n rs orch = (r, orch')"
  obtains (replayed) "r = Inr (rec_replayed n rs)" "holds_selection (olg orch') (oi_selection n)"
      "unsettled (olg orch') = unsettled (olg orch) - {n}"
    | (failed) "r = Inr (rec_failed n rs)" "\<not> live (olg orch') (intent_op n)"
      "is_some_and (lg_intents (olg orch') (intent_op n)) (\<lambda>m. oi_status m = Failed)"
      "unsettled (olg orch') = unsettled (olg orch) - {n}"
    | (deferred) m where "r = Inr (rec_deferred n rs)" "olg orch' = olg orch"
      "\<not> live (olg orch) (intent_op n)" "m \<in> unsettled (olg orch)" "live (olg orch) (intent_op m)"
    | (stopped) e where "r = Inl e" "is_storage e"
proof -
  let ?i = "intent_op n" and ?L = "olg orch"
  note s = orch_ok_parts(1) [OF ok] and wf = orch_ok_parts(3) [OF ok]
  have rec: "lg_intents ?L ?i = Some n" "oi_status n = Pending"
    using n ledger_wfD(3) [OF wf] by (auto simp: unsettled_def ran_def)
  obtain q mid where commit: "commit_selection ops (oi_selection n) orch = (q, mid)" by fastforce
  note mid = commit_selection_cases(3) [OF s commit]
  show ?thesis
  proof (cases q)
    case (Inr u)
    have batch: "ledger_apply_batch (selection_batch (orch_owner orch) (oi_selection n)) ?L = (Inr (), olg mid)"
      using commit_selection_cases(1) [OF s commit] Inr by simp
    have same: "lg_intents (olg mid) = lg_intents ?L" by (rule apply_batch_Inr [OF batch])
    obtain v orch1 where mark: "on_store (mark_intent_committed ops ?i) mid = (v, orch1)" by fastforce
    have result: "r = (case v of Inl e \<Rightarrow> Inl e | Inr _ \<Rightarrow> Inr (rec_replayed n rs))" "orch' = orch1"
      using run commit Inr mark
      by (auto simp: recover_one_def Let_def cmd_bind_apply rec_replayed_def split: sum.splits)
    show ?thesis
    proof (cases "ledger_mark_committed ?i (olg mid) = (v, olg orch1)")
      case True
      note settles = mark_committed_settles [OF _ rec(2) True, unfolded same, OF rec(1)]
      have "unsettled (olg orch1) = unsettled ?L - {n}"
        using unsettled_settle [OF wf rec(1) _ settles(2)] by simp
      moreover have "holds_selection (olg orch1) (oi_selection n)"
        using batch_holds(1) [OF batch _ rec(1) refl] True settles(1) by simp
      ultimately show ?thesis using replayed result settles(1) by simp
    next
      case False
      then obtain msg where "v = Inl (Storage msg)"
        using on_store_command(1) [OF mark_committed_law mid mark] by auto
      then show ?thesis using stopped result by simp
    qed
  next
    case (Inl err)
    have same: "olg mid = ?L" using commit_selection_cases(2) [OF s commit] Inl by simp
    have blame: "blames_input (oi_selection n) err"
      using commit_selection_blames [OF s] commit Inl by simp
    note conflict = conflict_result [OF mid, of ?i err, unfolded same]
    have unblamed: ?thesis if "is_storage err"
      using run commit Inl that by (intro stopped [of err]) (simp_all add: recover_one_def Let_def)
    consider (storage) "is_storage err"
      | (unread) e where "\<not> is_storage err" "is_pending_lock_conflict ops (orch_store mid) ?i err = Inl e"
      | (contended) "\<not> is_storage err" "is_pending_lock_conflict ops (orch_store mid) ?i err = Inr True"
      | (refused) "\<not> is_storage err" "is_pending_lock_conflict ops (orch_store mid) ?i err = Inr False"
      by (cases "is_pending_lock_conflict ops (orch_store mid) ?i err") auto
    then show ?thesis
    proof cases
      case storage
      then show ?thesis by (rule unblamed)
    next
      case (unread e)
      then show ?thesis
        using run commit Inl conflict(2)
        by (intro stopped [of e]) (simp_all add: recover_one_def Let_def from_store_def)
    next
      case contended
      then obtain p l m where p: "error_input err = Some p" and l: "lg_locks ?L p = Some l"
        "lk_operation_id l \<noteq> ?i" and m: "lg_intents ?L (lk_operation_id l) = Some m" "oi_status m = Pending"
        using conflict(1) [OF contended(2)] by (auto simp: is_some_and_iff)
      have m_id: "intent_op m = lk_operation_id l" by (rule ledger_wfD(3) [OF wf m(1)])
      have "claims ?L ?i p" using blame p rec(1) by (simp add: claims_def blames_input_def)
      then have "\<not> live ?L ?i"
        using live_never_blocked [OF orch_ok_parts(2) [OF ok]] l by blast
      moreover have "live ?L (intent_op m)"
        unfolding m_id by (rule lock_owner_live [OF orch_ok_parts(4) [OF ok] l(1)])
      moreover have "r = Inr (rec_deferred n rs)" "orch' = mid"
        using run commit Inl contended
        by (simp_all add: recover_one_def Let_def from_store_def rec_deferred_def)
      ultimately show ?thesis using deferred [of m] same m by (auto simp: unsettled_def ran_def)
    next
      case refused
      obtain v orch1 where mark: "on_store (mark_intent_failed ops ?i) mid = (v, orch1)" by fastforce
      have result: "r = (case v of Inl e \<Rightarrow> Inl e | Inr _ \<Rightarrow> Inr (rec_failed n rs))" "orch' = orch1"
        using run commit Inl refused mark
        by (auto simp: recover_one_def Let_def from_store_def cmd_bind_apply rec_failed_def split: sum.splits)
      show ?thesis
      proof (cases "ledger_mark_failed ?i ?L = (v, olg orch1)")
        case True
        note settles = mark_failed_settles [OF orch_ok_parts(2) [OF ok] rec True]
        have "unsettled (olg orch1) = unsettled ?L - {n}"
          using unsettled_settle [OF wf rec(1) _ settles(2)] by simp
        then show ?thesis using failed settles result by simp
      next
        case False
        then obtain msg where "v = Inl (Storage msg)"
          using on_store_command(1) [OF mark_failed_law mid mark] by (auto simp: same)
        then show ?thesis using stopped result by simp
      qed
    qed
  qed
qed

lemma recovery_pass_keeps_progress:
  "recovery_pass ops pending rs orch = (Inr rs', orch') \<Longrightarrow> rs_progressed rs \<Longrightarrow> rs_progressed rs'"
proof (induction pending arbitrary: rs orch)
  case Nil
  then show ?case by simp
next
  case (Cons n pending)
  then show ?case by (auto simp: cmd_bind_eq dest: recover_one_counts(2))
qed

text \<open>One intent within a pass.\<close>

lemma recover_one_pass:
  assumes ok: "ook orch" and I: "pass_inv ids (olg orch) rs (n # rest)"
    and run: "recover_one ops n rs orch = (r, orch')"
  shows "ook orch'" and "r = Inl e \<Longrightarrow> is_storage e"
    and "r = Inr rs' \<Longrightarrow> pass_inv ids (olg orch') rs' rest"
    and "r = Inr rs' \<Longrightarrow> rs_progressed rs' \<or> rs_progressed rs' = rs_progressed rs \<and> olg orch' = olg orch \<and>
      \<not> live (olg orch) (intent_op n) \<and> (\<exists>m\<in>unsettled (olg orch). live (olg orch) (intent_op m))"
proof -
  have n: "n \<in> unsettled (olg orch)" using I by (auto simp: pass_inv_def)
  have wf: "ledger_wf (olg orch)" by (rule orch_ok_parts(3) [OF ok])
  have pend: "is_some_and (lg_intents (olg orch) (intent_op n)) (\<lambda>m. oi_status m = Pending)"
    using n ledger_wfD(3) [OF wf] by (auto simp: unsettled_def ran_def)
  then have step: "ook orch'" "frame {intent_op n} (olg orch) (olg orch')"
    using recover_one_step [OF ok _ run] by (auto simp: is_some_and_iff)
  then show "ook orch'" by simp
  have old: "report_ok (olg orch') (rs_replayed rs) (rs_failed rs)"
    using frame_report [OF wf step(2) pend] I by (simp add: pass_inv_def)
  have "(\<forall>e. r = Inl e \<longrightarrow> is_storage e) \<and> (\<forall>rs'. r = Inr rs' \<longrightarrow> pass_inv ids (olg orch') rs' rest \<and>
    (rs_progressed rs' \<or> rs_progressed rs' = rs_progressed rs \<and> olg orch' = olg orch \<and>
      \<not> live (olg orch) (intent_op n) \<and> (\<exists>m\<in>unsettled (olg orch). live (olg orch) (intent_op m))))"
    using ok n run
  proof (cases rule: recover_one_outcome)
    case replayed
    have "\<exists>m. lg_intents (olg orch') (intent_op n) = Some m \<and> oi_selection m = oi_selection n"
      using replayed(2) by (auto simp: holds_selection_def is_some_and_iff)
    then have "pass_inv ids (olg orch') (rec_replayed n rs) rest"
      using I old replayed(2,3) by (auto simp: pass_inv_def rec_replayed_def report_ok_def)
    then show ?thesis using replayed(1) by (simp add: rec_replayed_def)
  next
    case failed
    then have "pass_inv ids (olg orch') (rec_failed n rs) rest"
      using I old by (auto simp: pass_inv_def rec_failed_def report_ok_def)
    then show ?thesis using failed(1) by (simp add: rec_failed_def)
  next
    case (deferred m)
    then have "pass_inv ids (olg orch') (rec_deferred n rs) rest"
      using I by (auto simp: pass_inv_def rec_deferred_def)
    then show ?thesis using deferred by (auto simp: rec_deferred_def)
  qed simp
  then show "r = Inl e \<Longrightarrow> is_storage e" and "r = Inr rs' \<Longrightarrow> pass_inv ids (olg orch') rs' rest"
    and "r = Inr rs' \<Longrightarrow> rs_progressed rs' \<or> rs_progressed rs' = rs_progressed rs \<and> olg orch' = olg orch \<and>
      \<not> live (olg orch) (intent_op n) \<and> (\<exists>m\<in>unsettled (olg orch). live (olg orch) (intent_op m))"
    by blast+
qed

text \<open>What a pass leaves: progress, or the ledger as it was with every contended intent behind a live one.\<close>

abbreviation pass_result ::
  "operation_id set \<Rightarrow> operation_intent list \<Rightarrow> ledger \<Rightarrow> recovery_state \<Rightarrow> ledger \<Rightarrow> bool" where
  "pass_result ids pending L rs' L' \<equiv>
     pass_inv ids L' rs' [] \<and>
     (rs_progressed rs' \<or> L' = L \<and> (\<forall>n\<in>set pending. \<not> live L (intent_op n)) \<and>
       (pending \<noteq> [] \<longrightarrow> (\<exists>m\<in>unsettled L. live L (intent_op m))))"

lemma recovery_pass_outcome:
  assumes "ook orch" and "pass_inv ids (olg orch) rs pending"
    and "recovery_pass ops pending rs orch = (r, orch')"
  shows "ook orch' \<and> (\<forall>e. r = Inl e \<longrightarrow> is_storage e) \<and>
    (\<forall>rs'. r = Inr rs' \<longrightarrow> pass_result ids pending (olg orch) rs' (olg orch'))"
  using assms
proof (induction pending arbitrary: rs orch)
  case Nil
  then show ?case by auto
next
  case (Cons n pending)
  obtain q mid where one: "recover_one ops n rs orch = (q, mid)" by fastforce
  note now = recover_one_pass [OF Cons.prems(1,2) one]
  show ?case
  proof (cases q)
    case (Inl e)
    with Cons.prems(3) one now(1,2) show ?thesis by (auto simp: cmd_bind_eq)
  next
    case (Inr rs1)
    then have pass: "recovery_pass ops pending rs1 mid = (r, orch')"
      using Cons.prems(3) one by (simp add: cmd_bind_run)
    note later = Cons.IH [OF now(1) now(3) [OF Inr] pass]
    have "rs_progressed rs' \<or> olg orch' = olg orch \<and> (\<forall>m\<in>set (n # pending). \<not> live (olg orch) (intent_op m)) \<and>
        (\<exists>m\<in>unsettled (olg orch). live (olg orch) (intent_op m))" if r: "r = Inr rs'" for rs'
    proof (cases "rs_progressed rs'")
      case False
      then have "\<not> rs_progressed rs1" using recovery_pass_keeps_progress pass r by blast
      then show ?thesis using now(4) [OF Inr] later r False by auto
    qed simp
    then show ?thesis using later by auto
  qed
qed

text \<open>The loop returns with nothing pending: a pass that settles nothing finds a live owner to settle.\<close>

lemma recovery_loop_outcome:
  assumes "ook orch" and "pass_inv ids (olg orch) (recovery_start replayed failed) pending"
    and "recovery_loop ops pending replayed failed orch = (r, orch')"
  shows "ook orch' \<and> (\<forall>e. r = Inl e \<longrightarrow> is_storage e) \<and>
    (\<forall>report. r = Inr report \<longrightarrow> unsettled (olg orch') = {} \<and>
      report_ok (olg orch') (rr_replayed_operations report) (rr_failed_operations report) \<and>
      ids \<subseteq> set (rr_replayed_operations report) \<union> set (rr_failed_operations report))"
  using assms
proof (induction "length pending" arbitrary: pending replayed failed orch rule: less_induct)
  case less
  show ?case
  proof (cases "pending = []")
    case True
    with less.prems show ?thesis by (auto simp: recovery_loop.simps pass_inv_def recovery_start_def)
  next
    case False
    obtain q mid where pass: "recovery_pass ops pending (recovery_start replayed failed) orch = (q, mid)"
      by fastforce
    note passed = recovery_pass_outcome [OF less.prems(1,2) pass]
    show ?thesis
    proof (cases q)
      case (Inl e)
      with less.prems(3) False pass passed show ?thesis by (auto simp: recovery_loop.simps [of ops pending])
    next
      case (Inr rs)
      have "unsettled (olg orch) = set pending"
        using less.prems(2) by (simp add: pass_inv_def recovery_start_def)
      then have prog: "rs_progressed rs" using passed Inr False by auto
      then have loop: "recovery_loop ops (rs_deferred rs) (rs_replayed rs) (rs_failed rs) mid = (r, orch')"
        using False pass Inr less.prems(3) by (simp add: recovery_loop.simps [of ops pending])
      have fewer: "length (rs_deferred rs) < length pending"
        using recovery_pass_counts(2) [of ops pending "recovery_start replayed failed" orch rs mid] pass prog Inr
        by (simp add: recovery_start_def)
      have again: "pass_inv ids (olg mid) (recovery_start (rs_replayed rs) (rs_failed rs)) (rs_deferred rs)"
        using passed Inr by (simp add: pass_inv_def recovery_start_def)
      from less.hyps [OF fewer _ again loop] passed show ?thesis by simp
    qed
  qed
qed

text \<open>A recovery that returns leaves nothing pending and says which way each intent went; one that does not
  return met a storage error and left a state it can be started from again.\<close>

lemma recover_result:
  assumes ok: "ook orch" and run: "recover_pending_intents ops orch = (r, orch')"
  shows "ook orch'" and "r = Inl e \<Longrightarrow> is_storage e"
    and "r = Inr report \<Longrightarrow> unsettled (olg orch') = {} \<and>
      report_ok (olg orch') (rr_replayed_operations report) (rr_failed_operations report) \<and>
      intent_op ` unsettled (olg orch) \<subseteq>
        set (rr_replayed_operations report) \<union> set (rr_failed_operations report)"
proof -
  note s = orch_ok_parts(1) [OF ok]
  let ?ids = "intent_op ` unsettled (olg orch)"
  have "ook orch' \<and> (\<forall>e. r = Inl e \<longrightarrow> is_storage e) \<and>
    (\<forall>report. r = Inr report \<longrightarrow> unsettled (olg orch') = {} \<and>
      report_ok (olg orch') (rr_replayed_operations report) (rr_failed_operations report) \<and>
      ?ids \<subseteq> set (rr_replayed_operations report) \<union> set (rr_failed_operations report))"
  proof (cases "list_pending_intents ops (orch_store orch)")
    case (Inl e)
    then have "r = Inl e" "orch' = orch" using run by (simp_all add: recover_pending_intents_def from_store_def)
    then show ?thesis using Inl ok list_pending_law [OF s] by (auto simp: lists_as_def)
  next
    case (Inr pending)
    then have pending: "set pending = unsettled (olg orch)" "distinct pending"
      using list_pending_law [OF s] by (auto simp: lists_as_def orch_ledger_def unsettled_def)
    have "pass_inv ?ids (olg orch) (recovery_start [] []) pending"
      using pending by (simp add: pass_inv_def recovery_start_def report_ok_def)
    moreover have "recovery_loop ops pending [] [] orch = (r, orch')"
      using run Inr by (simp add: recover_pending_intents_def from_store_def)
    ultimately show ?thesis by (rule recovery_loop_outcome [OF ok])
  qed
  then show "ook orch'" and "r = Inl e \<Longrightarrow> is_storage e" and "r = Inr report \<Longrightarrow> unsettled (olg orch') = {} \<and>
      report_ok (olg orch') (rr_replayed_operations report) (rr_failed_operations report) \<and>
      ?ids \<subseteq> set (rr_replayed_operations report) \<union> set (rr_failed_operations report)"
    by blast+
qed

end

section \<open>Recovery over a store that never fails\<close>

text \<open>Computations that report no storage error.\<close>

lemma sound_result:
  "no_storage_error (Inr x)" "no_storage_error (Inl e) \<longleftrightarrow> \<not> is_storage e"
  by (auto simp: no_storage_error_def is_storage_iff)

lemma sound_bind:
  "no_storage_error m \<Longrightarrow> (\<And>x. m = Inr x \<Longrightarrow> no_storage_error (f x)) \<Longrightarrow> no_storage_error (res_bind m f)"
  by (cases m) (simp_all add: sound_result)

lemma sound_ok_or: "\<not> is_storage e \<Longrightarrow> no_storage_error (ok_or e x)"
  by (cases x) (simp_all add: ok_or_def sound_result)

lemma sound_each: "(\<And>x. x \<in> set xs \<Longrightarrow> no_storage_error (f x)) \<Longrightarrow> no_storage_error (res_each f xs)"
  using res_each_Inl [of f xs] by (cases "res_each f xs") (fastforce simp: sound_result)+

lemma sound_map: "no_storage_error m \<Longrightarrow> no_storage_error (res_map f m)"
  by (cases m) (simp_all add: sound_result)

lemma sound_validate:
  assumes "\<And>a. no_storage_error (accounts a)" and "\<And>s. no_storage_error (scopes s)"
    and "\<And>p. no_storage_error (utxos p)"
  shows "no_storage_error (validate_capabilities accounts scopes utxos sel)"
proof -
  have scope: "no_storage_error (validate_scope accounts scopes aid sid required)" for aid sid required
    using assms(1,2) unfolding validate_scope_def
    by (intro sound_bind sound_ok_or) (auto simp: sound_result intro!: sound_bind sound_ok_or)
  have effect: "no_storage_error (validate_effect accounts scopes utxos e)" for e
    unfolding validate_effect_def by (intro sound_bind sound_ok_or assms(3) scope) simp
  have "no_storage_error (validate_structure sel)"
    by (simp add: validate_structure_def Let_def sound_result)
  with scope effect assms(2) show ?thesis
    unfolding validate_capabilities_def by (intro sound_bind sound_each sound_ok_or) simp_all
qed

context reliable_store
begin

lemma read_validate:
  assumes "sinv s"
  shows "validate_capabilities (get_account ops s) (get_scope ops s) (get_utxo ops s) sel =
    ledger_validate (ledger_of s) sel"
proof -
  have "get_account ops s = (\<lambda>a. Inr (lg_accounts (ledger_of s) a))"
    and "get_scope ops s = (\<lambda>a. Inr (lg_scopes (ledger_of s) a))"
    and "get_utxo ops s = (\<lambda>p. Inr (lg_utxos (ledger_of s) p))"
    using reliable_read_eqs [OF assms] by (simp_all add: fun_eq_iff)
  then show ?thesis by (simp add: ledger_validate_def)
qed

lemma sound_validate_selection:
  assumes "sinv s"
  shows "no_storage_error (validate_selection ops s sel)"
  unfolding validate_selection_def validate_selected_input_def Let_def
  using reliable_reads(1-4) [OF assms]
  by (intro sound_bind sound_validate sound_each sound_ok_or) (auto simp: sound_result)

lemma sound_on_store:
  "no_storage_error (fst (m (orch_store orch))) \<Longrightarrow> on_store m orch = (r, orch') \<Longrightarrow> no_storage_error r"
  by (auto simp: on_store_def split: prod.splits)

lemma sound_commit_selection:
  assumes "sinv (orch_store orch)" and "commit_selection ops sel orch = (Inl err, orch')"
  shows "\<not> is_storage err"
proof -
  note s = assms(1)
  consider "get_operation ops (orch_store orch) (os_operation_id sel) = Inl err"
    | found where "check_selected_phase sel found = Inl err"
    | "validate_selection ops (orch_store orch) sel = Inl err"
    | "on_store (apply_batch ops (selection_batch (orch_owner orch) sel)) orch = (Inl err, orch')"
    using assms(2) by (auto simp: commit_selection_def from_store_def split: sum.splits)
  then have "no_storage_error (Inl err :: unit result)"
  proof cases
    case 1
    then show ?thesis using reliable_reads(5) [OF s] by (metis sound_result(2))
  next
    case 2
    then show ?thesis by (auto simp: check_selected_phase_def sound_result split: option.splits if_splits)
  next
    case 3
    then show ?thesis using sound_validate_selection [OF s] by metis
  next
    case 4
    then show ?thesis by (rule sound_on_store [rotated]) (rule reliable_commands(4) [OF s])
  qed
  then show ?thesis by (simp add: sound_result)
qed

lemma sound_recover_one:
  assumes s: "sinv (orch_store orch)" and run: "recover_one ops n rs orch = (r, orch')"
  shows "sinv (orch_store orch') \<and> no_storage_error r"
proof -
  let ?i = "intent_op n"
  obtain q mid where commit: "commit_selection ops (oi_selection n) orch = (q, mid)" by fastforce
  have mid: "sinv (orch_store mid)" using commit_selection_cases(3) [OF s commit] .
  obtain v orch1 where committed: "on_store (mark_intent_committed ops ?i) mid = (v, orch1)" by fastforce
  obtain w orch2 where failed: "on_store (mark_intent_failed ops ?i) mid = (w, orch2)" by fastforce
  have one: "sinv (orch_store orch1) \<and> no_storage_error v"
    using on_store_command(2) [OF mark_committed_law mid committed] sound_on_store [OF _ committed]
      reliable_commands(2) [OF mid] by blast
  have two: "sinv (orch_store orch2) \<and> no_storage_error w"
    using on_store_command(2) [OF mark_failed_law mid failed] sound_on_store [OF _ failed]
      reliable_commands(3) [OF mid] by blast
  show ?thesis
  proof (cases q)
    case (Inr u)
    then have "r = (case v of Inl e \<Rightarrow> Inl e | Inr _ \<Rightarrow> Inr (rec_replayed n rs))" "orch' = orch1"
      using run commit committed
      by (auto simp: recover_one_def Let_def cmd_bind_apply rec_replayed_def split: sum.splits)
    then show ?thesis using one by (cases v) (simp_all add: sound_result)
  next
    case (Inl err)
    have err: "\<not> is_storage err" using sound_commit_selection [OF s] commit Inl by simp
    have conflict: "is_pending_lock_conflict ops (orch_store mid) ?i err \<noteq> Inl e" for e
      using mid by (auto simp: is_pending_lock_conflict_def reliable_read_eqs split: option.splits)
    then obtain b where b: "is_pending_lock_conflict ops (orch_store mid) ?i err = Inr b"
      by (cases "is_pending_lock_conflict ops (orch_store mid) ?i err") auto
    then have "r = (if b then Inr (rec_deferred n rs)
        else case w of Inl e \<Rightarrow> Inl e | Inr _ \<Rightarrow> Inr (rec_failed n rs)) \<and> orch' = (if b then mid else orch2)"
      using run commit Inl err failed
      by (auto simp: recover_one_def Let_def from_store_def cmd_bind_apply rec_failed_def rec_deferred_def
          split: sum.splits)
    then show ?thesis using two mid by (cases w) (simp_all add: sound_result)
  qed
qed

lemma sound_recovery_pass:
  "sinv (orch_store orch) \<Longrightarrow> recovery_pass ops pending rs orch = (r, orch') \<Longrightarrow>
    sinv (orch_store orch') \<and> no_storage_error r"
proof (induction pending arbitrary: rs orch)
  case Nil
  then show ?case by (auto simp: sound_result)
next
  case (Cons n pending)
  obtain q mid where one: "recover_one ops n rs orch = (q, mid)" by fastforce
  note now = sound_recover_one [OF Cons.prems(1) one]
  show ?case
  proof (cases q)
    case (Inl e)
    with Cons.prems(2) one now show ?thesis by (auto simp: cmd_bind_eq sound_result)
  next
    case (Inr rs1)
    with Cons.prems(2) one have "recovery_pass ops pending rs1 mid = (r, orch')" by (simp add: cmd_bind_run)
    with now show ?thesis using Cons.IH by blast
  qed
qed

lemma sound_recovery_loop:
  "sinv (orch_store orch) \<Longrightarrow> recovery_loop ops pending replayed failed orch = (r, orch') \<Longrightarrow> no_storage_error r"
proof (induction "length pending" arbitrary: pending replayed failed orch rule: less_induct)
  case less
  show ?case
  proof (cases "pending = []")
    case True
    with less.prems show ?thesis by (auto simp: recovery_loop.simps sound_result)
  next
    case False
    obtain q mid where pass: "recovery_pass ops pending (recovery_start replayed failed) orch = (q, mid)"
      by fastforce
    note passed = sound_recovery_pass [OF less.prems(1) pass]
    show ?thesis
    proof (cases "\<exists>rs. q = Inr rs \<and> rs_progressed rs")
      case True
      then obtain rs where rs: "q = Inr rs" "rs_progressed rs" by blast
      have "length (rs_deferred rs) < length pending"
        using recovery_pass_counts(2) [of ops pending "recovery_start replayed failed" orch rs mid] pass rs
        by (simp add: recovery_start_def)
      moreover have "recovery_loop ops (rs_deferred rs) (rs_replayed rs) (rs_failed rs) mid = (r, orch')"
        using False pass rs less.prems(2) by (simp add: recovery_loop.simps [of ops pending])
      ultimately show ?thesis using less.hyps passed by blast
    next
      case stop: False
      show ?thesis
      proof (cases q)
        case (Inl e)
        with less.prems(2) False pass passed show ?thesis
          by (auto simp: recovery_loop.simps [of ops pending] sound_result)
      next
        case (Inr rs)
        with less.prems(2) False pass stop show ?thesis
          by (auto simp: recovery_loop.simps [of ops pending] sound_result)
      qed
    qed
  qed
qed

text \<open>Recovery settles every pending intent: none is left, and the report says which way each went.\<close>

lemma recover_outcome:
  assumes ok: "ook orch"
  obtains report orch' where "recover_pending_intents ops orch = (Inr report, orch')" and "ook orch'"
    and "unsettled (olg orch') = {}"
    and "report_ok (olg orch') (rr_replayed_operations report) (rr_failed_operations report)"
    and "intent_op ` unsettled (olg orch) \<subseteq>
      set (rr_replayed_operations report) \<union> set (rr_failed_operations report)"
proof -
  note s = orch_ok_parts(1) [OF ok]
  obtain pending where pending: "list_pending_intents ops (orch_store orch) = Inr pending"
    using reliable_reads(9) [OF s] list_pending_law [OF s] by (auto simp: lists_as_def no_storage_error_def)
  obtain r orch' where run: "recover_pending_intents ops orch = (r, orch')" by fastforce
  then have "recovery_loop ops pending [] [] orch = (r, orch')"
    using pending by (simp add: recover_pending_intents_def from_store_def)
  then have sound: "no_storage_error r" by (rule sound_recovery_loop [OF s])
  note result = recover_result [OF ok run]
  obtain report where "r = Inr report"
    using result(2) sound by (cases r) (auto simp: sound_result)
  then show ?thesis using that run result(1,3) by simp
qed

end

end
