(* ===== verification/Service_Outcomes.thy ===== *)
theory Service_Outcomes
  imports Service_Safety Recovery_Outcomes
begin

text \<open>
  What the calls of the service promise, taken apart into what they do to the ledger: each call is
  read as its orchestrator command, and a reconciliation as the plan it applies.
\<close>

lemma from_store_eq: "from_store g orch = (r, orch') \<longleftrightarrow> r = g (orch_store orch) \<and> orch' = orch"
  by (auto simp: from_store_def)

section \<open>Reconciling\<close>

context state_store_contract
begin

lemma reconcile_run:
  assumes ok: "ook orch" and run: "orch_reconcile_snapshot ops sn orch = (Inr plan, orch')"
  obtains us where "lists_utxos us (olg orch)" and "plan = \<lparr>rp_actions = plan_actions us sn\<rparr>"
    and "ledger_apply_reconciliation plan (olg orch) = (Inr (), olg orch')"
proof -
  note s = orch_ok_parts(1) [OF ok]
  obtain u where planned: "plan_reconciliation ops (orch_store orch) sn = Inr plan"
    and applied: "on_store (apply_reconciliation ops plan) orch = (Inr u, orch')"
    using run by (auto simp: orch_reconcile_snapshot_def from_store_def cmd_bind_eq split: sum.splits)
  obtain us where us: "list_utxos ops (orch_store orch) = Inr us"
    and plan: "plan = \<lparr>rp_actions = plan_actions us sn\<rparr>"
    using planned by (auto simp: plan_reconciliation_def res_bind_eq_Inr)
  have "lists_utxos us (olg orch)"
    using list_utxos_Inr [OF s us] by (simp add: lists_utxos_def orch_ledger_def)
  moreover have "ledger_apply_reconciliation plan (olg orch) = (Inr (), olg orch')"
    using on_store_Inr [OF apply_reconciliation_law s applied] by simp
  ultimately show ?thesis using that plan by blast
qed

lemma service_reconcile_run:
  assumes ok: "svok sv" and run: "reconcile_snapshot ops sn sv = (Inr summary, sv')"
  obtains us t where "lists_utxos us ((slg sv)\<lparr>lg_tick := t\<rparr>)" and "ledger_ok ((slg sv)\<lparr>lg_tick := t\<rparr>)"
    and "ledger_apply_reconciliation \<lparr>rp_actions = plan_actions us sn\<rparr> ((slg sv)\<lparr>lg_tick := t\<rparr>) =
      (Inr (), slg sv')"
    and "rc_actions_applied summary = length (plan_actions us sn)"
proof -
  have orch: "ook (sv_orchestrator sv)" using ok by (simp add: service_ok_def)
  obtain mid orch' u plan where tick: "on_store (advance_tick ops 1) (sv_orchestrator sv) = (Inr u, mid)"
    and rec: "orch_reconcile_snapshot ops sn mid = (Inr plan, orch')"
    and fin: "orch_store (sv_orchestrator sv') = orch_store orch'"
    and counted: "rc_actions_applied summary = length (rp_actions plan)"
    using run
    by (auto simp: reconcile_snapshot_def on_orchestrator_def orch_advance_tick_def orch_current_tick_def
        from_store_eq cmd_bind_eq split: prod.splits)
  have mid: "ook mid" using safe_runD [OF safe_on_store [OF safe_advance_tick] orch tick] by simp
  have "ledger_advance_tick 1 (slg sv) = (Inr u, olg mid)"
    using on_store_Inr [OF advance_tick_law orch_ok_parts(1) [OF orch] tick] by (simp add: service_ledger_def)
  then have same: "olg mid = (slg sv)\<lparr>lg_tick := sat_add (lg_tick (slg sv)) 1\<rparr>"
    by (simp add: ledger_advance_tick_def)
  obtain us where "lists_utxos us (olg mid)" "plan = \<lparr>rp_actions = plan_actions us sn\<rparr>"
      "ledger_apply_reconciliation plan (olg mid) = (Inr (), olg orch')"
    by (rule reconcile_run [OF mid rec])
  with same fin counted orch_ok_parts(2) [OF mid] show ?thesis
    by (intro that [of us "sat_add (lg_tick (slg sv)) 1"]) (simp_all add: service_ledger_def orch_ledger_def)
qed

end

section \<open>Committing again after a crash\<close>

lemma mark_committed_outputs: "ledger_mark_committed i L = (r, L') \<Longrightarrow> same_outputs L L'"
  by (auto simp: ledger_mark_committed_def same_outputs_def split: option.splits if_splits)

context reliable_store
begin

lemma validate_selection_held:
  assumes s: "sinv s" and valid: "ledger_validate (ledger_of s) sel = Inr ()"
    and held: "\<And>e. e \<in> set (os_effects sel) \<Longrightarrow> \<exists>u. lg_utxos (ledger_of s) (effect_outpoint e) = Some u \<and>
      held_by sel PhSelected u (lg_locks (ledger_of s) (effect_outpoint e))"
  shows "validate_selection ops s sel = Inr ()"
proof -
  have "validate_selected_input ops s sel e = Inr ()" if "e \<in> set (os_effects sel)" for e
    using held [OF that]
    by (auto simp: validate_selected_input_def Let_def reliable_read_eqs [OF s] held_by_def
        bound_in_phase_def is_some_and_iff)
  then show ?thesis
    by (simp add: validate_selection_def read_validate [OF s] valid res_each_Inr)
qed

text \<open>A selection that was applied but not marked committed is applied again, changing no output.\<close>

lemma recommit:
  assumes ok: "ook orch" and n: "lg_intents (olg orch) i = Some n" "oi_status n = Pending"
    and run: "commit_selection ops (oi_selection n) orch = (Inr (), mid)"
  obtains orch' where "commit_recorded_intent ops i mid = (Inr (), orch')"
    and "same_outputs (olg mid) (olg orch')" and "holds_selection (olg orch') (oi_selection n)"
proof -
  let ?sel = "oi_selection n"
  have id: "os_operation_id ?sel = i" using ledger_wfD(3) [OF orch_ok_parts(3) [OF ok] n(1)] .
  have step: "ook mid \<and> frame {i} (olg orch) (olg mid)"
    using commit_selection_step [OF ok _ run] n(1) id by simp
  then have s: "sinv (orch_store mid)" using orch_ok_parts(1) by blast
  let ?b = "selection_batch (orch_owner orch) ?sel" and ?c = "selection_batch (orch_owner mid) ?sel"
  have owner: "orch_owner mid = orch_owner orch"
    using run by (auto simp: commit_selection_def from_store_def on_store_def split: sum.splits prod.splits)
  have batch: "ledger_apply_batch ?b (olg orch) = (Inr (), olg mid)"
    using commit_selection_cases(1) [OF orch_ok_parts(1) [OF ok] run] by simp
  have b: "sb_selection ?b = ?sel" "sb_phase ?b = PhSelected" by (simp_all add: selection_batch_def)
  have ints: "lg_intents (olg mid) = lg_intents (olg orch)" by (rule apply_batch_Inr [OF batch])
  have opers: "lg_operations (olg mid) = (lg_operations (olg orch))(os_operation_id (sb_selection ?b) \<mapsto>
      batch_operation ?b (sat_add (lg_tick (olg orch)) 1))"
    by (rule apply_batch_Inr [OF batch])
  obtain L where again: "ledger_apply_batch ?b (olg mid) = (Inr (), L)"
    and same: "lg_utxos L = lg_utxos (olg mid)" "lg_locks L = lg_locks (olg mid)"
    using apply_batch_idempotent [OF batch] b(2) by auto
  have valid: "ledger_validate (olg mid) ?sel = Inr ()"
    using again by (auto simp: ledger_apply_batch_def Let_def b res_bind_eq_Inr split: sum.splits)
  have held: "\<exists>u. lg_utxos (olg mid) (effect_outpoint e) = Some u \<and>
      held_by ?sel PhSelected u (lg_locks (olg mid) (effect_outpoint e))" if "e \<in> set (os_effects ?sel)" for e
    using effect_outcome_held [OF apply_batch_outcome(1) [OF batch]] that by (auto simp: b)
  have phase: "check_selected_phase ?sel (lg_operations (olg mid) i) = Inr ()"
    unfolding opers using id b by (simp add: check_selected_phase_def batch_operation_def)
  have checked: "validate_selection ops (orch_store mid) ?sel = Inr ()"
    by (rule validate_selection_held [OF s]) (use valid held in \<open>simp_all add: orch_ledger_def\<close>)
  obtain q orch1 where rerun: "on_store (apply_batch ops ?c) mid = (q, orch1)" by fastforce
  have q: "q = Inr ()" "olg orch1 = L"
    using on_store_reliable [OF apply_batch_law s reliable_commands(4) [OF s] rerun] again by (auto simp: owner)
  have s1: "sinv (orch_store orch1)" by (rule on_store_command(2) [OF apply_batch_law s rerun])
  obtain v orch' where mark: "on_store (mark_intent_committed ops i) orch1 = (v, orch')" by fastforce
  have marked: "ledger_mark_committed i L = (v, olg orch')"
    using on_store_reliable [OF mark_committed_law s1 reliable_commands(2) [OF s1] mark] q by simp
  have "lg_intents L = lg_intents (olg mid)" by (rule apply_batch_Inr [OF again])
  then have L_ints: "lg_intents L i = Some n" using n(1) ints by simp
  have v: "v = Inr ()" using mark_committed_settles(1) [OF L_ints n(2) marked] .
  have "commit_recorded_intent ops i mid = (Inr (), orch')"
    using n ints phase checked rerun q(1) mark v id
    by (simp add: commit_recorded_intent_def commit_selection_def from_store_def
        reliable_read_eqs [OF s] orch_ledger_def [symmetric])
  moreover have "same_outputs (olg mid) (olg orch')"
    using mark_committed_outputs [OF marked] same by (simp add: same_outputs_def)
  moreover have "holds_selection (olg orch') ?sel"
    using batch_holds(1) [OF again [unfolded owner [symmetric]]] marked v ints n(1) id owner by auto
  ultimately show ?thesis using that by blast
qed

end

end
