(* ===== verification/Demo.thy ===== *)
theory Demo
  imports Service_Outcomes
begin

text \<open>
  A concrete run of the service over the memory backend, the input the witnesses and the
  counterexamples evaluate: one account with one scope, two confirmed outputs, then a plan.
\<close>

section \<open>Evaluation rules\<close>

lemma memory_ops_simps [simp]:
  "get_account (memory_ops hu ho hi) = mem_get_account"
  "get_scope (memory_ops hu ho hi) = mem_get_scope"
  "get_utxo (memory_ops hu ho hi) = mem_get_utxo"
  "get_lock (memory_ops hu ho hi) = mem_get_lock"
  "get_operation (memory_ops hu ho hi) = mem_get_operation"
  "get_intent (memory_ops hu ho hi) = mem_get_intent"
  "list_utxos (memory_ops hu ho hi) = mem_list_utxos hu"
  "list_operations (memory_ops hu ho hi) = mem_list_operations ho"
  "list_pending_intents (memory_ops hu ho hi) = mem_list_pending_intents hi"
  "current_tick (memory_ops hu ho hi) = mem_current_tick"
  "put_account (memory_ops hu ho hi) = mem_put_account"
  "put_scope (memory_ops hu ho hi) = mem_put_scope"
  "put_utxo (memory_ops hu ho hi) = mem_put_utxo"
  "advance_tick (memory_ops hu ho hi) = mem_advance_tick"
  "persist_intent (memory_ops hu ho hi) = mem_persist_intent"
  "mark_intent_committed (memory_ops hu ho hi) = mem_mark_intent_committed"
  "mark_intent_failed (memory_ops hu ho hi) = mem_mark_intent_failed hu"
  "apply_batch (memory_ops hu ho hi) = mem_apply_batch"
  "apply_reconciliation (memory_ops hu ho hi) = mem_apply_reconciliation"
  "release_selected_operation (memory_ops hu ho hi) = mem_release_selected_operation hu"
  "release_operation (memory_ops hu ho hi) = mem_release_operation hu"
  "complete_operation (memory_ops hu ho hi) = mem_complete_operation hu"
  by (simp_all add: memory_ops_def)

lemmas memory_eval =
  mem_get_account_def mem_get_scope_def mem_get_utxo_def mem_get_lock_def mem_get_operation_def
  mem_get_intent_def mem_list_utxos_def mem_list_operations_def mem_list_pending_intents_def
  mem_current_tick_def mem_put_account_def mem_put_scope_def mem_advance_tick_def
  mem_persist_intent_def mem_mark_intent_committed_def mem_mark_intent_failed_def
  mem_apply_batch_def mem_apply_reconciliation_def mem_release_selected_operation_def
  mem_release_operation_def mem_complete_operation_def next_tick_def memory_default_def
  mem_apply_effect_def validate_lock_effect_def table_values_def owned_values_def update_owned_def

lemmas selection_eval =
  managed_utxo_new_def validate_capabilities_def validate_structure_def validate_effect_def validate_scope_def
  change_required_def contains_all_def utxo_op_defs selection_from_request_def
  propose_operation_def check_exact_request_def is_nonempty_exact_def exact_select_def
  first_selectable_select_def target_value_select_def preferred_scope_def selectable_utxos_def
  sort_candidate_ids_def accumulate_by_value_def require_selectable_candidate_def
  is_selectable_candidate_def candidate_inputs_finish_def cx_is_policy_spendable_def
  operation_request_new_def validate_advance_cases valid_transition_iff spending_phase_def

lemmas orchestrator_eval =
  on_store_def from_store_def orch_add_account_def orch_add_scope_def orch_with_store_def
  orch_set_owner_def orch_advance_tick_def orch_reconcile_snapshot_def orch_current_tick_def
  orch_get_scope_def plan_reconciliation_def plan_actions_def observation_actions_def
  missing_actions_def persist_selection_intent_def prepare_pending_operation_def
  prepare_operation_def commit_recorded_intent_def commit_selection_def check_selected_phase_def
  validate_selection_def validate_selected_input_def selection_batch_def apply_selection_def
  is_pending_lock_conflict_def orch_release_operation_def orch_complete_operation_def
  current_operation_def orch_verify_planned_inputs_def read_verify_planned_inputs_def
  orch_release_selected_operation_def recover_pending_intents_def recover_one_def recovery_start_def
  orch_cleanup_stale_reservations_def orch_list_operations_def is_stale_def read_utxo_status_def

lemmas service_eval =
  bootstrap_def on_orchestrator_def account_of_config_def scope_of_config_def
  service_with_store_def reconcile_snapshot_def observed_confirmed_def observed_utxo_new_def
  plan_exact_outpoints_def planned_of_selection_def exact_of_plan_request_def
  release_operation_service_def complete_operation_service_def cleanup_stale_reservations_def

lemmas run_eval =
  memory_eval selection_eval orchestrator_eval service_eval cmd_bind_apply sat_add_def sat_sub_def
  Let_def

text \<open>Commands are evaluated at a state, from the first step on: their continuations wait for its reply.\<close>

lemma run_at_state:
  "s = s' \<Longrightarrow> cmd_bind m f s = cmd_bind m f s'"
  "s = s' \<Longrightarrow> cmd_read g s = cmd_read g s'"
  "xs = xs' \<Longrightarrow> s = s' \<Longrightarrow> cmd_each h xs s = cmd_each h xs' s'"
  by simp_all

lemma run_at_service: "sv = sv' \<Longrightarrow> on_orchestrator m sv = on_orchestrator m sv'"
  by simp

lemma run_at_orchestrator:
  "orch = orch' \<Longrightarrow> on_store m orch = on_store m orch'"
  "orch = orch' \<Longrightarrow> from_store g orch = from_store g orch'"
  by simp_all

lemma run_result: "r = r' \<Longrightarrow> res_bind r f = res_bind r' f"
  by simp

lemmas run_order = run_at_state run_at_service run_at_orchestrator run_result

section \<open>The run\<close>

definition demo_ops :: "memory_store state_store" where
  "demo_ops = memory_ops insertion_order insertion_order insertion_order"

definition demo_deps :: dependencies where
  "demo_deps = \<lparr>dp_now = (\<lambda>n. 100), dp_generate = (\<lambda>n now. random_reservation_id ''r'' now)\<rparr>"

definition demo_account :: account_id where "demo_account = AccountId ''a''"
definition demo_scope :: wallet_scope_id where "demo_scope = WalletScopeId ''s''"

definition demo_caps :: capability_set where
  "demo_caps = {BtcSpend, ReserveSupport, SingleTargetReserve, FeeSupport}"

definition demo_p :: outpoint where "demo_p = OutPoint ''t'' 0"
definition demo_q :: outpoint where "demo_q = OutPoint ''t'' 1"
definition demo_id :: operation_id where "demo_id = OperationId ''o''"

lemmas demo_names = demo_account_def demo_scope_def demo_p_def demo_q_def demo_id_def

definition demo_config :: bootstrap_config where
  "demo_config =
     \<lparr>bc_owner = ''w'',
      bc_accounts = [\<lparr>bac_id = demo_account, bac_name = ''n'', bac_capabilities = demo_caps\<rparr>],
      bc_scopes = [\<lparr>bsc_id = demo_scope, bsc_account_id = demo_account, bsc_descriptor_ref = ''d'',
        bsc_derivation_scope = ''e'', bsc_capabilities = demo_caps, bsc_priority = 0\<rparr>]\<rparr>"

definition demo_observed :: "outpoint \<Rightarrow> u64 \<Rightarrow> observed_utxo" where
  "demo_observed p v = observed_confirmed 7 9 (observed_utxo_new p demo_account demo_scope v)"

definition demo_snapshot :: observation_snapshot where
  "demo_snapshot =
     \<lparr>sn_timestamp = 5, sn_scope = FullScope,
      sn_utxos = [demo_observed demo_p 1000, demo_observed demo_q 2000]\<rparr>"

definition demo_utxo :: "outpoint \<Rightarrow> u64 \<Rightarrow> managed_utxo" where
  "demo_utxo p v = managed_utxo_new p demo_account demo_scope v"

text \<open>The store with the given outputs, locks, operations, intents and tick.\<close>

definition demo_store ::
  "managed_utxo list \<Rightarrow> (outpoint \<times> operation_lock) list \<Rightarrow> persisted_operation list \<Rightarrow>
   operation_intent list \<Rightarrow> u64 \<Rightarrow> memory_store" where
  "demo_store utxos locks opers intents tick =
     \<lparr>ms_accounts = [(demo_account, \<lparr>ac_id = demo_account, ac_name = ''n'', ac_scopes = [demo_scope],
        ac_capabilities = demo_caps\<rparr>)],
      ms_scopes = [(demo_scope, \<lparr>ws_id = demo_scope, ws_account_id = demo_account,
        ws_descriptor_ref = ''d'', ws_derivation_scope = ''e'', ws_capabilities = demo_caps,
        ws_priority = 0\<rparr>)],
      ms_utxos = map (\<lambda>u. (outpoint_string (mu_outpoint u), u)) utxos,
      ms_locks = map (\<lambda>(p, l). (outpoint_string p, l)) locks,
      ms_operations = map (\<lambda>x. (po_operation_id x, x)) opers,
      ms_intents = map (\<lambda>n. (os_operation_id (oi_selection n), n)) intents, ms_tick = tick\<rparr>"

definition demo_service :: "memory_store \<Rightarrow> memory_store service" where
  "demo_service s =
     \<lparr>sv_orchestrator = \<lparr>orch_store = s, orch_owner = ''w''\<rparr>, sv_clock_reads = 0, sv_ids_generated = 0\<rparr>"

definition demo0 :: "memory_store service" where "demo0 = service_with_store memory_default"

text \<open>Registered; observed; planned.\<close>

definition demo1 :: "memory_store service" where
  "demo1 = demo_service (demo_store [] [] [] [] 2)"

definition demo2 :: "memory_store service" where
  "demo2 = demo_service (demo_store [demo_utxo demo_p 1000, demo_utxo demo_q 2000] [] [] [] 4)"

lemmas demo_states = demo0_def demo1_def demo2_def demo_service_def demo_store_def demo_utxo_def
  demo_ops_def demo_config_def demo_snapshot_def demo_observed_def demo_caps_def demo_names

lemma demo_bootstrap: "bootstrap demo_ops demo_config demo0 = (Inr (), demo1)"
  by (simp add: demo_states run_eval)

lemma demo_reconcile:
  "reconcile_snapshot demo_ops demo_snapshot demo1 =
     (Inr \<lparr>rc_tick = 4, rc_observed_utxos = 2, rc_actions_applied = 2, rc_scope = FullScope\<rparr>, demo2)"
  by (simp add: demo_states run_eval)

definition demo_request :: plan_exact_request where
  "demo_request = \<lparr>per_operation_id = demo_id, per_target_account_id = demo_account,
     per_selected_outpoints = [demo_p]\<rparr>"

definition demo_selection :: operation_selection where
  "demo_selection =
     \<lparr>os_operation_id = demo_id, os_selected_outpoints = [demo_p], os_change_scope_id = demo_scope,
      os_effects = [LockUtxo demo_p PlannedSelectionLock], os_expires_at = None\<rparr>"

definition demo_intent :: "intent_status \<Rightarrow> operation_intent" where
  "demo_intent st = \<lparr>oi_selection = demo_selection, oi_status = st, oi_recorded_at = 5\<rparr>"

definition demo_operation :: "operation_phase \<Rightarrow> u64 \<Rightarrow> persisted_operation" where
  "demo_operation ph t =
     \<lparr>po_operation_id = demo_id, po_phase = ph, po_updated_at = t, po_expires_at = None\<rparr>"

definition demo_lock :: operation_lock where
  "demo_lock =
     \<lparr>lk_operation_id = demo_id, lk_account_id = demo_account, lk_scope_id = demo_scope,
      lk_purpose = PlannedSelectionLock, lk_owner = ''w'', lk_created_at = 6, lk_expires_at = None\<rparr>"

definition demo_held :: "operation_phase \<Rightarrow> managed_utxo" where
  "demo_held ph = reserve_utxo demo_id ph (demo_utxo demo_p 1000)"

text \<open>Recorded but not committed; applied but not marked; planned; broadcast; released.\<close>

definition demo_pending :: "memory_store service" where
  "demo_pending = demo_service (demo_store [demo_utxo demo_p 1000, demo_utxo demo_q 2000] [] []
     [demo_intent Pending] 5)"

definition demo_interrupted :: "memory_store service" where
  "demo_interrupted = demo_service (demo_store [demo_held PhSelected, demo_utxo demo_q 2000]
     [(demo_p, demo_lock)] [demo_operation PhSelected 6] [demo_intent Pending] 6)"

definition demo3 :: "memory_store service" where
  "demo3 = demo_service (demo_store [demo_held PhSelected, demo_utxo demo_q 2000]
     [(demo_p, demo_lock)] [demo_operation PhSelected 6] [demo_intent Committed] 7)"

definition demo4 :: "memory_store service" where
  "demo4 = demo_service (demo_store [demo_utxo demo_p 1000, demo_utxo demo_q 2000] []
     [demo_operation PhRollingBack 8] [demo_intent Committed] 8)"

definition demo_in_flight :: "operation_binding option \<Rightarrow> managed_utxo" where
  "demo_in_flight b = (demo_utxo demo_p 1000)\<lparr>mu_onchain_state := SpendingInFlight,
     mu_availability := BlockedByL2, mu_operation_binding := b\<rparr>"

definition demo_broadcast :: "memory_store service" where
  "demo_broadcast = demo_service (demo_store
     [demo_in_flight (Some \<lparr>bd_operation_id = demo_id, bd_phase = PhBroadcast\<rparr>),
      demo_utxo demo_q 2000]
     [(demo_p, demo_lock)] [demo_operation PhBroadcast 8] [demo_intent Committed] 8)"

definition demo_aborted :: "memory_store service" where
  "demo_aborted = demo_service (demo_store [demo_in_flight None, demo_utxo demo_q 2000] []
     [demo_operation PhRollingBack 9] [demo_intent Committed] 9)"

lemmas demo_records = demo_in_flight_def demo_aborted_def demo_states demo_selection_def demo_intent_def demo_operation_def demo_lock_def
  demo_held_def demo_request_def demo_pending_def demo_interrupted_def demo3_def demo_broadcast_def
  demo4_def

definition demo_planned :: planned_selection where
  "demo_planned = \<lparr>pl_operation_id = demo_id, pl_selected_outpoints = [demo_p],
     pl_change_scope_id = demo_scope, pl_expires_at = None\<rparr>"

lemma demo_record:
  "on_orchestrator (prepare_pending_operation demo_ops
     (PlannedExactOutpoints (exact_of_plan_request demo_request))) demo2 = (Inr demo_selection, demo_pending)"
  by (simp add: demo_records run_eval)

lemma demo_interrupt:
  "on_orchestrator (commit_selection demo_ops demo_selection) demo_pending = (Inr (), demo_interrupted)"
  by (simp add: demo_records run_eval)

lemma demo_plan: "plan_exact_outpoints demo_ops demo_request demo2 = (Inr demo_planned, demo3)"
  by (simp add: demo_records run_eval demo_planned_def)

lemma demo_complete:
  "complete_operation_service demo_ops demo_id PhBroadcast [demo_p] demo3 = (Inr [demo_p], demo_broadcast)"
  by (simp add: demo_records run_eval)

lemma demo_release: "release_operation_service demo_ops demo_id demo3 = (Inr [demo_p], demo4)"
  by (simp add: demo_records run_eval)

lemma demo_abort: "release_operation_service demo_ops demo_id demo_broadcast = (Inr [demo_p], demo_aborted)"
  by (simp add: demo_records run_eval)

text \<open>Every state of the run is reachable, and no snapshot in it names an output twice.\<close>

lemma demo_orderly_steps:
  "orderly_steps demo_ops demo_deps demo0 demo1" "orderly_steps demo_ops demo_deps demo0 demo2"
  "orderly_steps demo_ops demo_deps demo0 demo_pending"
  "orderly_steps demo_ops demo_deps demo0 demo_interrupted"
  "orderly_steps demo_ops demo_deps demo0 demo3" "orderly_steps demo_ops demo_deps demo0 demo_broadcast"
  "orderly_steps demo_ops demo_deps demo0 demo4"
proof -
  have snap: "names_outputs_once demo_snapshot"
    by (simp add: names_outputs_once_def demo_states observed_confirmed_def observed_utxo_new_def)
  have intent: "get_intent demo_ops (orch_store (sv_orchestrator demo_pending)) demo_id =
      Inr (Some (demo_intent Pending))" "oi_selection (demo_intent Pending) = demo_selection"
    by (simp_all add: demo_records memory_eval)
  show d1: "orderly_steps demo_ops demo_deps demo0 demo1"
    by (rule steps_more [OF steps_none step_bootstrap [OF demo_bootstrap]])
  show d2: "orderly_steps demo_ops demo_deps demo0 demo2"
    by (rule steps_more [OF d1 orderly_snapshot_step [OF snap demo_reconcile]])
  show dp: "orderly_steps demo_ops demo_deps demo0 demo_pending"
    by (rule steps_more [OF d2 step_record [OF demo_record]])
  show "orderly_steps demo_ops demo_deps demo0 demo_interrupted"
    by (rule steps_more [OF dp step_interrupted [OF intent(1)]]) (simp add: intent(2) demo_interrupt)
  show d3: "orderly_steps demo_ops demo_deps demo0 demo3"
    by (rule steps_more [OF d2 step_plan [OF demo_plan]])
  show "orderly_steps demo_ops demo_deps demo0 demo_broadcast"
    by (rule steps_more [OF d3 step_complete [OF demo_complete]])
  show "orderly_steps demo_ops demo_deps demo0 demo4"
    by (rule steps_more [OF d3 step_release [OF demo_release]])
qed

lemma demo_orderly [simp]:
  "orderly_reachable insertion_order insertion_order insertion_order demo_deps demo1"
  "orderly_reachable insertion_order insertion_order insertion_order demo_deps demo2"
  "orderly_reachable insertion_order insertion_order insertion_order demo_deps demo_pending"
  "orderly_reachable insertion_order insertion_order insertion_order demo_deps demo_interrupted"
  "orderly_reachable insertion_order insertion_order insertion_order demo_deps demo3"
  "orderly_reachable insertion_order insertion_order insertion_order demo_deps demo_broadcast"
  "orderly_reachable insertion_order insertion_order insertion_order demo_deps demo4"
  using demo_orderly_steps by (simp_all add: orderly_reachable_def demo0_def demo_ops_def)

abbreviation "demo_reaches \<equiv> reachable insertion_order insertion_order insertion_order demo_deps"

lemma demo_reached [simp]:
  "demo_reaches demo1" "demo_reaches demo2" "demo_reaches demo_pending" "demo_reaches demo_interrupted"
  "demo_reaches demo3" "demo_reaches demo_broadcast" "demo_reaches demo4"
  by (rule orderly_reachable_reachable demo_orderly)+

text \<open>The ledger of a state of the run.\<close>

lemmas demo_views = demo_records managed_utxo_new_def ledger_view_def service_ledger_def orch_ledger_def mem_ledger_def
  by_outpoint_def

lemma demo_lookups:
  "lg_utxos (ledger_view demo2) demo_p = Some (demo_utxo demo_p 1000)"
  "lg_utxos (ledger_view demo3) demo_p = Some (demo_held PhSelected)"
  "lg_utxos (ledger_view demo_broadcast) demo_p =
     Some (demo_in_flight (Some \<lparr>bd_operation_id = demo_id, bd_phase = PhBroadcast\<rparr>))"
  "lg_utxos (ledger_view demo_aborted) demo_p = Some (demo_in_flight None)"
  "lg_locks (ledger_view demo3) demo_p = Some demo_lock"
  "lg_operations (ledger_view demo3) demo_id = Some (demo_operation PhSelected 6)"
  "lg_intents (ledger_view demo2) demo_id = None"
  "lg_intents (ledger_view demo3) demo_id = Some (demo_intent Committed)"
  by (simp_all add: demo_views)

end
