(* ===== verification/Proposal_Outcomes.thy ===== *)
theory Proposal_Outcomes
  imports Service_Outcomes
begin

text \<open>
  What proposing a selection decides: which outputs a request may take, which of them each kind of
  request takes, and when a proposal is found.
\<close>

section \<open>The outputs a request may take\<close>

definition takeable :: "ledger \<Rightarrow> input_selection_request \<Rightarrow> outpoint \<Rightarrow> bool" where
  "takeable L isr p \<longleftrightarrow>
     (\<exists>a u sc. lg_accounts L (isr_account_id isr) = Some a \<and> lg_utxos L p = Some u \<and>
        mu_account_id u = isr_account_id isr \<and> mu_scope_id u \<in> set (ac_scopes a) \<and>
        lg_scopes L (mu_scope_id u) = Some sc \<and> ws_account_id sc = isr_account_id isr \<and>
        contains_all (ws_capabilities sc) (isr_required_capabilities isr) \<and>
        is_policy_spendable u \<and> lg_locks L p = None)"

text \<open>The context a proposal selects in.\<close>

definition proposal_context ::
  "('s, 'z) state_read_scheme \<Rightarrow> 's \<Rightarrow> account \<Rightarrow> input_selection_request \<Rightarrow> wallet_scope_id list \<Rightarrow>
   ('s, 'z) selection_context" where
  "proposal_context ops s a isr eligible =
     \<lparr>cx_read = ops, cx_state = s, cx_account_id = isr_account_id isr,
      cx_account_scope_ids = ac_scopes a, cx_eligible_scope_ids = eligible\<rparr>"

lemma proposal_context_simps [simp]:
  "cx_read (proposal_context ops s a isr eligible) = ops"
  "cx_state (proposal_context ops s a isr eligible) = s"
  "cx_account_id (proposal_context ops s a isr eligible) = isr_account_id isr"
  "cx_eligible_scope_ids (proposal_context ops s a isr eligible) = eligible"
  by (simp_all add: proposal_context_def)

context state_store_contract
begin

lemma eligible_scopes_set:
  assumes "sinv s" and "eligible_scopes ops s aid required sids = Inr eligible"
  shows "set eligible = {sid \<in> set sids. \<exists>sc. lg_scopes (ledger_of s) sid = Some sc \<and>
    ws_account_id sc = aid \<and> contains_all (ws_capabilities sc) required}"
  using assms(2)
proof (induction sids arbitrary: eligible)
  case Nil
  then show ?case by simp
next
  case (Cons sid sids)
  then show ?case
    using read_Inr(2) [OF assms(1)]
    by (force simp: res_bind_eq_Inr res_map_eq is_some_and_iff split: if_splits)
qed

text \<open>A proposal runs the selector of its request over exactly the outputs the request may take.\<close>

lemma propose_selects:
  assumes s: "sinv s" and run: "propose_operation ops s req = Inr sel"
  obtains a eligible si where "lg_accounts (ledger_of s) (isr_account_id (requested req)) = Some a"
    and "contains_all (ac_capabilities a) (isr_required_capabilities (requested req))"
    and "select_inputs (proposal_context ops s a (requested req) eligible) (isr_spec (requested req)) = Inr si"
    and "os_selected_outpoints sel = si_outpoints si"
    and "selectable_for (proposal_context ops s a (requested req) eligible) = takeable (ledger_of s) (requested req)"
proof -
  let ?isr = "requested req"
  obtain a eligible si where
    a: "get_account ops s (isr_account_id ?isr) = Inr (Some a)"
    and caps: "contains_all (ac_capabilities a) (isr_required_capabilities ?isr)"
    and eligible: "eligible_scopes ops s (isr_account_id ?isr) (isr_required_capabilities ?isr)
      (ac_scopes a) = Inr eligible"
    and si: "select_inputs (proposal_context ops s a ?isr eligible) (isr_spec ?isr) = Inr si"
    and sel: "sel = selection_from_request (into_operation_request req) si"
    using run
    by (auto simp: propose_operation_def proposal_context_def Let_def res_bind_eq_Inr ok_or_eq split: if_splits)
  have a': "lg_accounts (ledger_of s) (isr_account_id ?isr) = Some a" using read_Inr(1) [OF s a] by simp
  have "selectable_for (proposal_context ops s a ?isr eligible) p \<longleftrightarrow> takeable (ledger_of s) ?isr p" for p
    using eligible_scopes_set [OF s eligible] a' by (auto simp: selectable_in_def takeable_def)
  then have "selectable_for (proposal_context ops s a ?isr eligible) = takeable (ledger_of s) ?isr" by blast
  with a' caps si show ?thesis
    by (intro that) (simp_all add: sel selection_from_request_def Let_def)
qed

lemma takeable_free: "takeable L isr p \<Longrightarrow> free_for L isr p"
  by (auto simp: takeable_def free_for_def)

text \<open>An amount takes the smallest outputs first, and no more of them than it needs.\<close>

lemma propose_amount:
  assumes s: "sinv s" and run: "propose_operation ops s (BtcSendReq req) = Inr sel"
  defines "L \<equiv> ledger_of s" and "isr \<equiv> requested (BtcSendReq req)" and "ps \<equiv> os_selected_outpoints sel"
  shows "distinct ps" and "\<forall>p\<in>set ps. takeable L isr p"
    and "unat (bs_amount_sats req) \<le> sum_list (map (ledger_value L) ps)"
    and "1 < length ps \<Longrightarrow> sum_list (map (ledger_value L) (butlast ps)) < unat (bs_amount_sats req)"
    and "\<forall>p\<in>set ps. \<forall>q. takeable L isr q \<longrightarrow> q \<notin> set ps \<longrightarrow> ledger_value L p \<le> ledger_value L q"
proof -
  let ?key = "\<lambda>p. selection_sort_key (TargetValue (bs_amount_sats req)) (the (lg_utxos L p))"
  obtain a eligible si where
    si: "select_inputs (proposal_context ops s a isr eligible) (isr_spec isr) = Inr si"
    and outs: "ps = si_outpoints si"
    and take: "selectable_for (proposal_context ops s a isr eligible) = takeable L isr"
    unfolding isr_def ps_def L_def by (rule propose_selects [OF s run])
  let ?cx = "proposal_context ops s a isr eligible"
  have tv: "target_value_select ?cx (bs_amount_sats req) = Inr si"
    using si by (simp add: isr_def operation_request_new_def)
  have cx: "cx_read ?cx = ops" "sinv (cx_state ?cx)" using s by simp_all
  obtain qs n where qs: "set qs = {p. takeable L isr p}" "distinct qs" "n < length qs"
    and ps: "ps = take (Suc n) (sort_key ?key qs)"
    and reach: "unat (bs_amount_sats req) \<le> sum_list (map (ledger_value L) (take (Suc n) (sort_key ?key qs)))"
    and least: "\<forall>m<n. sum_list (map (ledger_value L) (take (Suc m) (sort_key ?key qs))) < unat (bs_amount_sats req)"
    using target_value_outcome [OF cx tv] outs take unfolding L_def by (metis proposal_context_simps(2))
  let ?qs = "sort_key ?key qs"
  show "distinct ps" unfolding ps using qs(2) by (simp add: distinct_take)
  show "\<forall>p\<in>set ps. takeable L isr p" unfolding ps using qs(1) by (auto dest!: in_set_takeD)
  show "unat (bs_amount_sats req) \<le> sum_list (map (ledger_value L) ps)" using reach unfolding ps .
  show "sum_list (map (ledger_value L) (butlast ps)) < unat (bs_amount_sats req)" if "1 < length ps"
  proof -
    have "n \<noteq> 0" using that by (cases n) (auto simp: ps)
    then obtain m where "n = Suc m" by (cases n) auto
    moreover have "butlast ps = take n ?qs" using qs(3) by (simp add: ps butlast_take)
    ultimately show ?thesis using least by simp
  qed
  have value_le: "ledger_value L p \<le> ledger_value L q"
    if "?key p \<le> ?key q" "takeable L isr p" "takeable L isr q" for p q
    using that by (auto simp: takeable_def ledger_value_def word_le_nat_alt less_eq_prod_simp word_less_nat_alt)
  show "\<forall>p\<in>set ps. \<forall>q. takeable L isr q \<longrightarrow> q \<notin> set ps \<longrightarrow> ledger_value L p \<le> ledger_value L q"
  proof (intro ballI allI impI)
    fix p q
    assume p: "p \<in> set ps" and q: "takeable L isr q" "q \<notin> set ps"
    have "q \<in> set (drop (Suc n) ?qs)"
      using q qs(1) set_append [of "take (Suc n) ?qs" "drop (Suc n) ?qs"] unfolding ps by auto
    moreover have "sorted (map ?key (take (Suc n) ?qs) @ map ?key (drop (Suc n) ?qs))"
      by (simp flip: map_append)
    ultimately have "?key p \<le> ?key q" using p unfolding ps by (auto simp: sorted_append)
    moreover have "takeable L isr p" using p qs(1) unfolding ps by (auto dest!: in_set_takeD)
    ultimately show "ledger_value L p \<le> ledger_value L q" using q(1) value_le by blast
  qed
qed

text \<open>A reservation of the first available candidate takes the first free one in textual order.\<close>

lemma propose_first:
  assumes s: "sinv s" and run: "propose_operation ops s (ManualReservationFirstAvailable req) = Inr sel"
  defines "L \<equiv> ledger_of s" and "isr \<equiv> requested (ManualReservationFirstAvailable req)"
  obtains p where "os_selected_outpoints sel = [p]" and "p \<in> set (mf_candidate_outpoints req)"
    and "takeable L isr p"
    and "\<forall>q\<in>set (mf_candidate_outpoints req). takeable L isr q \<longrightarrow> outpoint_string p \<le> outpoint_string q"
proof -
  obtain a eligible si where
    si: "select_inputs (proposal_context ops s a isr eligible) (isr_spec isr) = Inr si"
    and outs: "os_selected_outpoints sel = si_outpoints si"
    and take: "selectable_for (proposal_context ops s a isr eligible) = takeable L isr"
    unfolding isr_def L_def by (rule propose_selects [OF s run])
  let ?cs = "sort_key outpoint_string (mf_candidate_outpoints req)"
  have "first_selectable_select (proposal_context ops s a isr eligible) ?cs = Inr si"
    using si by (simp add: isr_def operation_request_new_def)
  from first_selectable_sound [OF _ _ this] s
  obtain p ys zs where p: "si_outpoints si = [p]" "takeable L isr p" "?cs = ys @ p # zs"
    "\<forall>y\<in>set ys. \<not> takeable L isr y"
    using take by auto
  have "sorted (map outpoint_string (ys @ p # zs))" unfolding p(3) [symmetric] by simp
  then have "\<forall>q\<in>set zs. outpoint_string p \<le> outpoint_string q" by (simp add: sorted_append)
  moreover have mem: "set (mf_candidate_outpoints req) = set ys \<union> {p} \<union> set zs"
    using arg_cong [OF p(3), of set] by auto
  ultimately have "\<forall>q\<in>set (mf_candidate_outpoints req). takeable L isr q \<longrightarrow> outpoint_string p \<le> outpoint_string q"
    using p(4) by auto
  with p(1,2) outs mem show ?thesis by (intro that) auto
qed

end

context reliable_store
begin

lemma reliable_eligible:
  assumes "sinv s"
  shows "\<exists>eligible. eligible_scopes ops s aid required sids = Inr eligible"
  by (induction sids) (auto simp: reliable_read_eqs [OF assms])

lemma reliable_preferred:
  assumes "sinv s" and "sid \<in> set eligible" and "lg_scopes (ledger_of s) sid \<noteq> None"
  obtains sc where "preferred_scope (proposal_context ops s a isr eligible) = Inr sc"
proof -
  have "res_collect (get_scope ops s) eligible = Inr (map (lg_scopes (ledger_of s)) eligible)"
    by (rule res_collect_pure) (simp add: reliable_read_eqs [OF assms(1)])
  moreover obtain sc where "lg_scopes (ledger_of s) sid = Some sc" using assms(3) by blast
  then have "sc \<in> set (List.map_filter id (map (lg_scopes (ledger_of s)) eligible))"
    using assms(2) by (force simp: List.map_filter_def)
  then obtain best where "prefer_scope (List.map_filter id (map (lg_scopes (ledger_of s)) eligible)) = Some best"
    by (metis list.set(1) empty_iff prefer_scope_None option.exhaust)
  ultimately show ?thesis by (intro that) (simp add: preferred_scope_def)
qed

text \<open>A proposal reaches its selector once the account is able and some scope of it is eligible.\<close>

lemma propose_reaches:
  assumes s: "sinv s" and a: "lg_accounts (ledger_of s) (isr_account_id (requested req)) = Some a"
    and caps: "contains_all (ac_capabilities a) (isr_required_capabilities (requested req))"
    and sid: "sid \<in> set (ac_scopes a)" "lg_scopes (ledger_of s) sid = Some sc"
      "ws_account_id sc = isr_account_id (requested req)"
      "contains_all (ws_capabilities sc) (isr_required_capabilities (requested req))"
    and spec: "check_exact_request (isr_spec (requested req)) = Inr ()"
  obtains eligible where "propose_operation ops s req =
      res_map (selection_from_request (into_operation_request req))
        (select_inputs (proposal_context ops s a (requested req) eligible) (isr_spec (requested req)))"
    and "selectable_for (proposal_context ops s a (requested req) eligible) = takeable (ledger_of s) (requested req)"
    and "sid \<in> set eligible"
proof -
  let ?isr = "requested req"
  obtain eligible where eligible: "eligible_scopes ops s (isr_account_id ?isr)
      (isr_required_capabilities ?isr) (ac_scopes a) = Inr eligible"
    using reliable_eligible [OF s] by blast
  have set: "set eligible = {sid \<in> set (ac_scopes a). \<exists>sc. lg_scopes (ledger_of s) sid = Some sc \<and>
      ws_account_id sc = isr_account_id ?isr \<and> contains_all (ws_capabilities sc) (isr_required_capabilities ?isr)}"
    by (rule eligible_scopes_set [OF s eligible])
  then have elig: "sid \<in> set eligible" using sid by auto
  let ?r = "select_inputs (proposal_context ops s a ?isr eligible) (isr_spec ?isr)"
  have "propose_operation ops s req = res_map (selection_from_request (into_operation_request req)) ?r"
    using a caps spec eligible elig
    by (cases ?r) (auto simp: propose_operation_def proposal_context_def Let_def reliable_read_eqs [OF s])
  moreover have "selectable_for (proposal_context ops s a ?isr eligible) p \<longleftrightarrow> takeable (ledger_of s) ?isr p" for p
    using set a by (auto simp: selectable_in_def takeable_def)
  then have "selectable_for (proposal_context ops s a ?isr eligible) = takeable (ledger_of s) ?isr" by blast
  ultimately show ?thesis using elig by (rule that)
qed

text \<open>An amount is found whenever the outputs the request may take are worth it.\<close>

lemma propose_amount_complete:
  assumes s: "sinv s" and a: "lg_accounts (ledger_of s) (bs_account_id req) = Some a"
    and caps: "contains_all (ac_capabilities a) (required_capabilities BtcSendLock)"
    and P: "set P = {p. takeable (ledger_of s) (requested (BtcSendReq req)) p}" "distinct P" "P \<noteq> []"
    and enough: "unat (bs_amount_sats req) \<le> sum_list (map (ledger_value (ledger_of s)) P)"
  obtains sel where "propose_operation ops s (BtcSendReq req) = Inr sel"
proof -
  let ?isr = "requested (BtcSendReq req)"
  have isr: "isr_account_id ?isr = bs_account_id req" "isr_spec ?isr = TargetValue (bs_amount_sats req)"
    "isr_required_capabilities ?isr = required_capabilities BtcSendLock"
    by (simp_all add: operation_request_new_def)
  obtain p where "takeable (ledger_of s) ?isr p" using P(1,3) by (cases P) auto
  then obtain sid sc where sid: "sid \<in> set (ac_scopes a)" "lg_scopes (ledger_of s) sid = Some sc"
      "ws_account_id sc = isr_account_id ?isr" "contains_all (ws_capabilities sc) (isr_required_capabilities ?isr)"
    using a isr(1) by (auto simp: takeable_def)
  obtain eligible where found: "propose_operation ops s (BtcSendReq req) =
      res_map (selection_from_request (into_operation_request (BtcSendReq req)))
        (select_inputs (proposal_context ops s a ?isr eligible) (isr_spec ?isr))"
    and take: "selectable_for (proposal_context ops s a ?isr eligible) = takeable (ledger_of s) ?isr"
    and elig: "sid \<in> set eligible"
    by (rule propose_reaches [OF s _ _ sid]) (use a caps in \<open>simp_all add: operation_request_new_def check_exact_request_def\<close>)
  let ?cx = "proposal_context ops s a ?isr eligible"
  obtain pref where pref: "preferred_scope ?cx = Inr pref"
    by (rule reliable_preferred [OF s elig]) (use sid(2) in simp)
  have P': "set P = {p. selectable_for ?cx p}" using P(1) by (simp only: take)
  obtain si where "target_value_select ?cx (bs_amount_sats req) = Inr si"
    using target_value_complete [OF _ _ pref P' P(2,3)] s enough by auto
  then show ?thesis by (intro that) (simp only: found isr(2) select_inputs.simps res_map_simps)
qed

end

section \<open>Applying a given selection\<close>

text \<open>What a selection needs of each of its inputs: to be free, in a scope that grants the purpose.\<close>

definition input_granted :: "ledger \<Rightarrow> selection_effect \<Rightarrow> bool" where
  "input_granted L e \<longleftrightarrow>
     (\<exists>u. lg_utxos L (effect_outpoint e) = Some u \<and> is_policy_spendable u \<and>
        lg_locks L (effect_outpoint e) = None \<and>
        scope_grants (lg_accounts L) (lg_scopes L) (mu_account_id u) (mu_scope_id u)
          (required_capabilities (effect_purpose e)))"

lemma persist_registry:
  "ledger_persist_intent sel L = (r, L') \<Longrightarrow> lg_accounts L' = lg_accounts L \<and> lg_scopes L' = lg_scopes L"
  by (auto simp: ledger_persist_intent_def bump_tick_def Let_def split: option.splits if_splits)

context state_store_contract
begin

lemma persist_selection_Inr:
  assumes ok: "ook orch" and run: "persist_selection_intent ops sel orch = (Inr n, mid)"
    and fresh: "lg_intents (olg orch) (os_operation_id sel) = None"
  shows "ook mid" and "same_outputs (olg orch) (olg mid)" and "lg_operations (olg mid) = lg_operations (olg orch)"
    and "lg_accounts (olg mid) = lg_accounts (olg orch)" and "lg_scopes (olg mid) = lg_scopes (olg orch)"
    and "\<exists>n. lg_intents (olg mid) (os_operation_id sel) = Some n \<and> oi_selection n = sel \<and> oi_status n = Pending"
proof -
  show "ook mid" using safe_runD [OF safe_persist_selection ok run] by simp
  have "ledger_persist_intent sel (olg orch) = (Inr n, olg mid)"
    using on_store_Inr [OF persist_intent_law orch_ok_parts(1) [OF ok]] run
    by (simp add: persist_selection_intent_def)
  then show "same_outputs (olg orch) (olg mid)" and "lg_operations (olg mid) = lg_operations (olg orch)"
    and "lg_accounts (olg mid) = lg_accounts (olg orch)" and "lg_scopes (olg mid) = lg_scopes (olg orch)"
    and "\<exists>n. lg_intents (olg mid) (os_operation_id sel) = Some n \<and> oi_selection n = sel \<and> oi_status n = Pending"
    using persist_fresh [of sel "olg orch" n "olg mid"] persist_registry [of sel "olg orch"] fresh by auto
qed

lemma apply_Inr:
  assumes ok: "ook orch" and run: "apply_selection ops sel orch = (Inr u, orch')"
    and fresh: "lg_intents (olg orch) (os_operation_id sel) = None"
  shows "holds_selection (olg orch') sel"
    and "e \<in> set (os_effects sel) \<Longrightarrow> input_granted (olg orch) e"
    and "p \<notin> set (os_selected_outpoints sel) \<Longrightarrow>
      lg_utxos (olg orch') p = lg_utxos (olg orch) p \<and> lg_locks (olg orch') p = lg_locks (olg orch) p"
proof -
  obtain mid n where persist: "persist_selection_intent ops sel orch = (Inr n, mid)"
    and commit: "commit_recorded_intent ops (os_operation_id sel) mid = (Inr u, orch')"
    using run by (auto simp: apply_selection_def cmd_bind_eq)
  note mid = persist_selection_Inr [OF ok persist fresh]
  have not_live: "\<not> live (olg mid) (os_operation_id sel)"
    using fresh_not_live [OF ok fresh] mid(3) by (simp add: live_def)
  have "holds_selection (olg orch') sel \<and> (\<forall>e\<in>set (os_effects sel). input_granted (olg orch) e) \<and>
      (\<forall>p. p \<notin> set (os_selected_outpoints sel) \<longrightarrow>
      lg_utxos (olg orch') p = lg_utxos (olg orch) p \<and> lg_locks (olg orch') p = lg_locks (olg orch) p)"
    using mid(1) commit
  proof (cases rule: commit_recorded_Inr)
    case (already n)
    with mid(6) show ?thesis by auto
  next
    case (committed n M)
    have n: "oi_selection n = sel" using committed(1) mid(6) by auto
    note batch = batch_holds [OF committed(4) [unfolded n] committed(5) committed(1) n]
    have valid: "ledger_validate (olg mid) sel = Inr ()"
      by (rule apply_batch_Inr [OF committed(4) [unfolded n]]) (simp add: selection_batch_def)
    have "input_granted (olg orch) e" if e: "e \<in> set (os_effects sel)" for e
    proof -
      have "effect_outpoint e \<in> set (os_selected_outpoints sel)" using ledger_validate_structure [OF valid] e by auto
      then obtain u where u: "lg_utxos (olg mid) (effect_outpoint e) = Some u"
        "is_policy_spendable u \<and> lg_locks (olg mid) (effect_outpoint e) = None \<or>
         held_by sel PhSelected u (lg_locks (olg mid) (effect_outpoint e))"
        using batch(3) by blast
      moreover have "\<not> bound_to (os_operation_id sel) u"
        by (rule notI, erule owner_live [OF orch_ok_parts(4) [OF mid(1)] u(1)])
          (use not_live in \<open>simp add: live_def\<close>)
      then have "\<not> held_by sel PhSelected u (lg_locks (olg mid) (effect_outpoint e))"
        using bound_in_phase_bound_to by (auto simp: held_by_def)
      moreover have "scope_grants (lg_accounts (olg mid)) (lg_scopes (olg mid)) (mu_account_id u) (mu_scope_id u)
          (required_capabilities (effect_purpose e))"
        using valid e u(1) by (auto simp: ledger_validate_def validate_capabilities_ok)
      ultimately show ?thesis
        using mid(2,4,5) by (simp add: input_granted_def same_outputs_def)
    qed
    with batch(1,2) mid(2) show ?thesis by (simp add: same_outputs_def)
  qed
  then show "holds_selection (olg orch') sel"
    and "e \<in> set (os_effects sel) \<Longrightarrow> input_granted (olg orch) e"
    and "p \<notin> set (os_selected_outpoints sel) \<Longrightarrow>
      lg_utxos (olg orch') p = lg_utxos (olg orch) p \<and> lg_locks (olg orch') p = lg_locks (olg orch) p"
    by blast+
qed

end

context reliable_store
begin

lemma apply_Inl:
  assumes ok: "ook orch" and run: "apply_selection ops sel orch = (Inl e, orch')"
    and fresh: "lg_intents (olg orch) (os_operation_id sel) = None"
  shows "same_outputs (olg orch) (olg orch')"
proof -
  note s = orch_ok_parts(1) [OF ok]
  consider "persist_selection_intent ops sel orch = (Inl e, orch')"
    | n mid where "persist_selection_intent ops sel orch = (Inr n, mid)"
        "commit_recorded_intent ops (os_operation_id sel) mid = (Inl e, orch')"
    using run by (auto simp: apply_selection_def cmd_bind_eq)
  then show ?thesis
  proof cases
    case 1
    then have "ledger_persist_intent sel (olg orch) = (Inl e, olg orch')"
      using on_store_reliable [OF persist_intent_law s reliable_commands(1) [OF s]]
      by (force simp: persist_selection_intent_def)
    from ledger_commands_atomic(1) [OF this] show ?thesis by simp
  next
    case (2 n mid)
    note mid = persist_selection_Inr [OF ok 2(1) fresh]
    have "\<not> live (olg mid) (os_operation_id sel)"
      using fresh_not_live [OF ok fresh] mid(3) by (simp add: live_def)
    then show ?thesis
      using commit_recorded_Inl [OF mid(1) 2(2)] mid(2) same_outputs_trans by blast
  qed
qed

end

end
