(* ===== verification/Reservation_Outcomes.thy ===== *)
theory Reservation_Outcomes
  imports Proposal_Outcomes
begin

text \<open>
  Manual reservations: reading the reservation of an output, returning it while it lasts and
  releasing it once it has expired, and making one.
\<close>

section \<open>The reservation recorded for an output\<close>

definition reservation_at :: "ledger \<Rightarrow> outpoint \<Rightarrow> manual_reservation option" where
  "reservation_at L p =
     (case lg_locks L p of
        None \<Rightarrow> None
      | Some l \<Rightarrow>
          if lk_purpose l = ManualReservation \<and>
             is_some_and (lg_operations L (lk_operation_id l)) (\<lambda>x. po_phase x = PhSelected) \<and>
             is_some_and (lg_utxos L p) (bound_in_phase (lk_operation_id l) PhSelected)
          then map_option (\<lambda>t. \<lparr>mr_reservation_id = lk_operation_id l, mr_outpoint = p, mr_expires_at = t\<rparr>)
                 (lk_expires_at l)
          else None)"

lemma reservation_atD:
  assumes "reservation_at L p = Some m"
  obtains l x u where "lg_locks L p = Some l" and "lk_operation_id l = mr_reservation_id m"
    and "lk_purpose l = ManualReservation" and "lk_expires_at l = Some (mr_expires_at m)"
    and "mr_outpoint m = p" and "lg_operations L (mr_reservation_id m) = Some x" and "po_phase x = PhSelected"
    and "lg_utxos L p = Some u" and "bound_in_phase (mr_reservation_id m) PhSelected u"
  using assms that
  by (auto simp: reservation_at_def is_some_and_iff split: option.splits if_splits)

text \<open>What the calls on reservations leave alone.\<close>

definition same_registry :: "ledger \<Rightarrow> ledger \<Rightarrow> bool" where
  "same_registry L L' \<longleftrightarrow> lg_accounts L' = lg_accounts L \<and> lg_scopes L' = lg_scopes L \<and> lg_intents L' = lg_intents L"

lemma same_registry_simps [simp]:
  "same_registry L L" "same_registry L (released_ledger i ph L)"
  by (simp_all add: same_registry_def released_ledger_def Let_def)

lemma same_registry_trans: "same_registry L M \<Longrightarrow> same_registry M N \<Longrightarrow> same_registry L N"
  by (simp add: same_registry_def)

lemma service_ledger_reads [simp]:
  "service_ledger lof (sv\<lparr>sv_clock_reads := n\<rparr>) = service_ledger lof sv"
  "service_ok sinv lof (sv\<lparr>sv_clock_reads := n\<rparr>) = service_ok sinv lof sv"
  by (simp_all add: service_ledger_def service_ok_def)

lemma selected_binding:
  "is_some_and (Option.bind utxo mu_operation_binding) (\<lambda>b. bd_operation_id b = i \<and> bd_phase b = ph) =
    is_some_and utxo (bound_in_phase i ph)"
  by (cases utxo) (simp_all add: bound_in_phase_def)

context state_store_contract
begin

lemma read_manual_Inr:
  assumes s: "sinv s" and run: "read_manual_reservation ops s p = Inr r"
  shows "r = reservation_at (ledger_of s) p"
proof -
  obtain lk where get: "get_lock ops s p = Inr lk"
    using run by (auto simp: read_manual_reservation_def res_bind_eq_Inr)
  note lk = read_Inr(4) [OF s get]
  show ?thesis
  proof (cases "is_some_and lk (\<lambda>l. lk_purpose l = ManualReservation)")
    case False
    with run get lk show ?thesis
      by (auto simp: read_manual_reservation_def reservation_at_def split: option.splits)
  next
    case True
    then obtain l where l: "lk = Some l" "lk_purpose l = ManualReservation" by (auto simp: is_some_and_iff)
    obtain x u where x: "get_operation ops s (lk_operation_id l) = Inr x" and u: "get_utxo ops s p = Inr u"
      using run get l by (auto simp: read_manual_reservation_def res_bind_eq_Inr Let_def)
    from run x u read_Inr(5) [OF s x] read_Inr(3) [OF s u] get l lk show ?thesis
      by (auto simp: read_manual_reservation_def reservation_at_def Let_def selected_binding
          split: option.splits if_splits)
  qed
qed

lemma get_manual_run:
  assumes "svok sv" and "get_manual_reservation ops p sv = (Inr r, sv')"
  shows "sv' = sv" and "r = reservation_at (slg sv) p"
proof -
  have "read_manual_reservation ops (orch_store (sv_orchestrator sv)) p = Inr r" and sv': "sv' = sv"
    using assms(2) by (auto simp: get_manual_reservation_def on_orchestrator_def from_store_def)
  with read_manual_Inr show "r = reservation_at (slg sv) p"
    using assms(1) orch_ok_parts(1) unfolding service_ok_def service_ledger_def orch_ledger_def by blast
  show "sv' = sv" by (rule sv')
qed

text \<open>Asking for the active reservation changes nothing, or releases the one that has expired.\<close>

lemma get_active_ledger:
  assumes ok: "svok sv" and run: "get_active_manual_reservation ops dp p sv = (r, sv')"
  obtains (same) "slg sv' = slg sv"
    | (expired) m where "reservation_at (slg sv) p = Some m" "mr_expires_at m \<le> dp_now dp (sv_clock_reads sv)"
        "slg sv' = released_ledger (mr_reservation_id m) PhRollingBack (slg sv)"
proof (cases "get_manual_reservation ops p sv")
  case (Pair q mid)
  have s: "sinv (orch_store (sv_orchestrator sv))" using ok orch_ok_parts(1) by (simp add: service_ok_def)
  have mid: "mid = sv"
    using Pair by (auto simp: get_manual_reservation_def on_orchestrator_def from_store_def)
  have quiet: "slg sv' = slg sv \<or> (\<exists>m. q = Inr (Some m) \<and> mr_expires_at m \<le> dp_now dp (sv_clock_reads sv) \<and>
      slg sv' = released_ledger (mr_reservation_id m) PhRollingBack (slg sv))"
  proof (cases "\<exists>m. q = Inr (Some m) \<and> mr_expires_at m \<le> dp_now dp (sv_clock_reads sv)")
    case False
    with run Pair mid show ?thesis
      by (cases q)
        (auto simp: get_active_manual_reservation_def cmd_bind_apply now_utc_unix_secs_def split: option.splits)
  next
    case True
    then obtain m where m: "q = Inr (Some m)" "mr_expires_at m \<le> dp_now dp (sv_clock_reads sv)" by blast
    let ?sv = "sv\<lparr>sv_clock_reads := Suc (sv_clock_reads sv)\<rparr>"
    obtain r' where "on_orchestrator (orch_release_selected_operation ops (mr_reservation_id m)) ?sv = (r', sv')"
      using run Pair mid m
      by (auto simp: get_active_manual_reservation_def cmd_bind_apply now_utc_unix_secs_def
          split: prod.splits sum.splits)
    then have "on_store (release_selected_operation ops (mr_reservation_id m)) (sv_orchestrator sv) =
        (r', sv_orchestrator sv')"
      by (auto simp: on_orchestrator_def orch_release_selected_operation_def split: prod.splits)
    then have "olg (sv_orchestrator sv') = olg (sv_orchestrator sv) \<or>
        (\<exists>q'. ledger_release_selected (mr_reservation_id m) (olg (sv_orchestrator sv)) =
          (q', olg (sv_orchestrator sv')))"
      using on_store_ledger [OF release_selected_law s] by metis
    with m show ?thesis
      by (auto simp: ledger_release_selected_def service_ledger_def split: if_splits)
  qed
  then show ?thesis
  proof (elim disjE exE conjE)
    fix m
    assume q: "q = Inr (Some m)" and late: "mr_expires_at m \<le> dp_now dp (sv_clock_reads sv)"
      and released: "slg sv' = released_ledger (mr_reservation_id m) PhRollingBack (slg sv)"
    have "reservation_at (slg sv) p = Some m" using get_manual_run(2) [OF ok Pair [unfolded q]] by simp
    with late released show ?thesis by (rule expired [rotated])
  qed (rule same)
qed

lemma get_active_step:
  assumes "svok sv" and "get_active_manual_reservation ops dp p sv = (r, sv')"
  shows "svok sv'" and "same_registry (slg sv) (slg sv')"
proof -
  show "svok sv'" using safe_runD [OF safe_get_active assms] by simp
  show "same_registry (slg sv) (slg sv')" by (rule get_active_ledger [OF assms]) simp_all
qed

lemma expire_candidates_step:
  assumes "svok sv" and "expire_stale_candidate_reservations ops dp ps sv = (r, sv')"
  shows "svok sv'" and "same_registry (slg sv) (slg sv')"
proof -
  have "svok sv' \<and> same_registry (slg sv) (slg sv')"
    using assms
  proof (induction ps arbitrary: sv)
    case Nil
    then show ?case by (simp add: expire_stale_candidate_reservations_def)
  next
    case (Cons p ps)
    obtain q mid where one: "get_active_manual_reservation ops dp p sv = (q, mid)" by fastforce
    note step = get_active_step [OF Cons.prems(1) one]
    show ?case
    proof (cases q)
      case (Inl e)
      with Cons.prems one step show ?thesis
        by (simp add: expire_stale_candidate_reservations_def cmd_bind_apply)
    next
      case (Inr v)
      with Cons.prems one have "expire_stale_candidate_reservations ops dp ps mid = (r, sv')"
        by (simp add: expire_stale_candidate_reservations_def cmd_bind_apply)
      with Cons.IH step show ?thesis using same_registry_trans by blast
    qed
  qed
  then show "svok sv'" and "same_registry (slg sv) (slg sv')" by auto
qed

end

context reliable_store
begin

lemma reliable_get_manual:
  assumes ok: "svok sv" and m: "reservation_at (slg sv) p = Some m"
  shows "get_manual_reservation ops p sv = (Inr (Some m), sv)"
proof -
  have s: "sinv (orch_store (sv_orchestrator sv))" using ok orch_ok_parts(1) by (simp add: service_ok_def)
  have slg: "slg sv = ledger_of (orch_store (sv_orchestrator sv))"
    by (simp add: service_ledger_def orch_ledger_def)
  show ?thesis
    using m unfolding slg
    by (auto elim!: reservation_atD simp: get_manual_reservation_def on_orchestrator_def from_store_def
        read_manual_reservation_def reliable_read_eqs [OF s] selected_binding Let_def)
qed

lemma get_active_current:
  assumes "svok sv" and "reservation_at (slg sv) p = Some m" and "dp_now dp (sv_clock_reads sv) < mr_expires_at m"
  shows "get_active_manual_reservation ops dp p sv =
    (Inr (Some m), sv\<lparr>sv_clock_reads := Suc (sv_clock_reads sv)\<rparr>)"
  using reliable_get_manual [OF assms(1,2)] assms(3)
  by (simp add: get_active_manual_reservation_def cmd_bind_apply now_utc_unix_secs_def not_le [symmetric])

lemma get_active_expired:
  assumes ok: "svok sv" and m: "reservation_at (slg sv) p = Some m"
    and late: "mr_expires_at m \<le> dp_now dp (sv_clock_reads sv)"
  obtains sv' where "get_active_manual_reservation ops dp p sv = (Inr None, sv')" and "svok sv'"
    and "slg sv' = released_ledger (mr_reservation_id m) PhRollingBack (slg sv)"
proof -
  have orch: "ook (sv_orchestrator sv)" using ok by (simp add: service_ok_def)
  obtain x where x: "lg_operations (slg sv) (mr_reservation_id m) = Some x" "po_phase x = PhSelected"
    using m by (auto elim!: reservation_atD)
  obtain ps orch' where rel: "orch_release_selected_operation ops (mr_reservation_id m) (sv_orchestrator sv) =
      (Inr (Some ps), orch')"
    and L': "olg orch' = released_ledger (mr_reservation_id m) PhRollingBack (olg (sv_orchestrator sv))"
    and ok': "ook orch'"
    by (rule release_selected_Inr [OF orch x(1) [unfolded service_ledger_def] x(2)])
  let ?sv = "sv\<lparr>sv_clock_reads := Suc (sv_clock_reads sv), sv_orchestrator := orch'\<rparr>"
  have "get_active_manual_reservation ops dp p sv = (Inr None, ?sv)"
    using reliable_get_manual [OF ok m] late rel
    by (simp add: get_active_manual_reservation_def cmd_bind_apply now_utc_unix_secs_def on_orchestrator_def)
  moreover have "svok ?sv" using ok' by (simp add: service_ok_def)
  moreover have "slg ?sv = released_ledger (mr_reservation_id m) PhRollingBack (slg sv)"
    using L' by (simp add: service_ledger_def)
  ultimately show ?thesis by (rule that)
qed

end

end
