(* ===== verification/Asset_Outcomes.thy ===== *)
theory Asset_Outcomes
  imports Reservation_Outcomes
begin

text \<open>
  What an asset selection over the ledger gives: the candidates the preview lets through, the
  amounts it counts for them, and what a plan then reserves.
\<close>

section \<open>The candidates a preview accepts\<close>

text \<open>The caller's amount for an outpoint.\<close>

definition claimed_amount :: "asset_selection_request \<Rightarrow> outpoint \<Rightarrow> nat" where
  "claimed_amount req p =
     (case map_of (map (\<lambda>c. (ai_outpoint c, ai_asset_amount c)) (ar_candidates req)) p of
        None \<Rightarrow> 0 | Some n \<Rightarrow> unat n)"

text \<open>An input an asset selection may use, read off the ledger.\<close>

definition asset_usable :: "ledger \<Rightarrow> asset_selection_request \<Rightarrow> outpoint \<Rightarrow> bool" where
  "asset_usable L req p \<longleftrightarrow>
     (\<exists>a u sc. lg_accounts L (ar_target_account_id req) = Some a \<and> ReserveSupport \<in> ac_capabilities a \<and>
        lg_utxos L p = Some u \<and> mu_account_id u = ar_target_account_id req \<and>
        is_policy_spendable u \<and> lg_locks L p = None \<and>
        lg_scopes L (mu_scope_id u) = Some sc \<and> mu_scope_id u \<in> set (ac_scopes a) \<and>
        ws_account_id sc = ac_id a \<and> ReserveSupport \<in> ws_capabilities sc \<and>
        (claimed_amount req p = 0 \<longrightarrow> co_allow_fee_support (ar_constraints req) \<and>
           FeeSupport \<in> ac_capabilities a \<and> FeeSupport \<in> ws_capabilities sc))"

text \<open>The scope sets the preview collects.\<close>

definition scopes_from :: "ledger \<Rightarrow> account \<Rightarrow> wallet_scope_id set \<Rightarrow> (wallet_scope \<Rightarrow> bool) \<Rightarrow> wallet_scope_id set" where
  "scopes_from L a sids P =
     {sid \<in> sids. \<exists>sc. lg_scopes L sid = Some sc \<and> ws_account_id sc = ac_id a \<and> P sc}"

lemma add_asset_scope_sets:
  "as_eligible (add_asset_scope a sc sets) =
     (if ws_account_id sc = ac_id a \<and> ReserveSupport \<in> ws_capabilities sc
      then insert (ws_id sc) (as_eligible sets) else as_eligible sets)"
  "as_fee (add_asset_scope a sc sets) =
     (if ws_account_id sc = ac_id a \<and> ReserveSupport \<in> ws_capabilities sc \<and> FeeSupport \<in> ws_capabilities sc
      then insert (ws_id sc) (as_fee sets) else as_fee sets)"
  by (simp_all add: add_asset_scope_def Let_def)

text \<open>The status of an output, and the candidates a preview accepts with the amounts it gives them.\<close>

definition status_in :: "ledger \<Rightarrow> outpoint \<Rightarrow> utxo_status option" where
  "status_in L p = map_option (\<lambda>u. status_from_records u (lg_locks L p)) (lg_utxos L p)"

definition accepted :: "ledger \<Rightarrow> asset_selection_request \<Rightarrow> account \<Rightarrow> asset_scopes \<Rightarrow> asset_candidate list" where
  "accepted L req a sets =
     map (\<lambda>c. \<lparr>cand_outpoint = ai_outpoint c, cand_asset_amount = ai_asset_amount c,
             cand_value_sats = us_value_sats (the (status_in L (ai_outpoint c)))\<rparr>)
       (filter (\<lambda>c. candidate_error req a sets c (status_in L (ai_outpoint c)) = None) (ar_candidates req))"

lemma candidate_error_None:
  "candidate_error req a sets c (status_in L p) = None \<longleftrightarrow>
     (\<exists>u. lg_utxos L p = Some u \<and> mu_account_id u = ar_target_account_id req \<and>
        mu_scope_id u \<in> as_eligible sets \<and> is_policy_spendable u \<and> lg_locks L p = None \<and>
        (ai_asset_amount c = 0 \<longrightarrow> co_allow_fee_support (ar_constraints req) \<and>
           FeeSupport \<in> ac_capabilities a \<and> mu_scope_id u \<in> as_fee sets))"
proof (cases "lg_utxos L p")
  case None
  then show ?thesis by (simp add: candidate_error_def status_in_def)
next
  case (Some u)
  have "us_unavailable_reason (status_from_records u (lg_locks L p)) = None \<longleftrightarrow>
      is_policy_spendable u \<and> lg_locks L p = None"
    using status_selectable_iff [of u "lg_locks L p"] by (simp add: status_is_selectable_def)
  with Some show ?thesis
    by (auto simp: candidate_error_def status_in_def fee_input_error_def Let_def split: option.splits)
qed

lemma accepted_facts:
  assumes "c \<in> set (accepted L req a sets)"
  obtains k where "k \<in> set (ar_candidates req)" and "ai_outpoint k = cand_outpoint c"
    and "ai_asset_amount k = cand_asset_amount c"
    and "candidate_error req a sets k (status_in L (cand_outpoint c)) = None"
    and "unat (cand_value_sats c) = ledger_value L (cand_outpoint c)"
proof -
  obtain k where k: "k \<in> set (ar_candidates req)"
    "candidate_error req a sets k (status_in L (ai_outpoint k)) = None"
    and c: "c = \<lparr>cand_outpoint = ai_outpoint k, cand_asset_amount = ai_asset_amount k,
      cand_value_sats = us_value_sats (the (status_in L (ai_outpoint k)))\<rparr>"
    using assms by (auto simp: accepted_def)
  have "unat (us_value_sats (the (status_in L (ai_outpoint k)))) = ledger_value L (ai_outpoint k)"
    using k(2) unfolding candidate_error_None by (auto simp: ledger_value_def status_in_def)
  with k c show ?thesis by (intro that [of k]) simp_all
qed

lemma claimed_amount_own:
  assumes "distinct (map ai_outpoint (ar_candidates req))" and "k \<in> set (ar_candidates req)"
  shows "claimed_amount req (ai_outpoint k) = unat (ai_asset_amount k)"
proof -
  have "map_of (map (\<lambda>c. (ai_outpoint c, ai_asset_amount c)) (ar_candidates req)) (ai_outpoint k) =
      Some (ai_asset_amount k)"
    by (rule map_of_is_SomeI) (use assms in \<open>auto simp: comp_def\<close>)
  then show ?thesis by (simp add: claimed_amount_def)
qed

lemma asset_selection_simps [simp]:
  "os_operation_id (asset_selection_of i req ps sid) = i"
  "os_selected_outpoints (asset_selection_of i req ps sid) = ps"
  "os_expires_at (asset_selection_of i req ps sid) = None"
  by (simp_all add: asset_selection_of_def)

context state_store_contract
begin

lemma collect_scopes_sets:
  assumes s: "sinv s" and run: "collect_asset_scopes ops s a sids sets = Inr sets'"
  shows "as_eligible sets' = as_eligible sets \<union>
      scopes_from (ledger_of s) a (set sids) (\<lambda>sc. ReserveSupport \<in> ws_capabilities sc)"
    and "as_fee sets' = as_fee sets \<union> scopes_from (ledger_of s) a (set sids)
      (\<lambda>sc. ReserveSupport \<in> ws_capabilities sc \<and> FeeSupport \<in> ws_capabilities sc)"
proof -
  have "as_eligible sets' = as_eligible sets \<union>
      scopes_from (ledger_of s) a (set sids) (\<lambda>sc. ReserveSupport \<in> ws_capabilities sc) \<and>
    as_fee sets' = as_fee sets \<union> scopes_from (ledger_of s) a (set sids)
      (\<lambda>sc. ReserveSupport \<in> ws_capabilities sc \<and> FeeSupport \<in> ws_capabilities sc)"
    using run
  proof (induction sids arbitrary: sets)
    case Nil
    then show ?case by (simp add: scopes_from_def)
  next
    case (Cons sid sids)
    obtain found where get: "get_scope ops s sid = Inr found"
      using Cons.prems by (auto simp: res_bind_eq_Inr)
    have key: "ws_id sc = sid" if "lg_scopes (ledger_of s) sid = Some sc" for sc
      using ledger_wfD(4) [OF abs_wf [OF s]] that by simp
    note found = read_Inr(2) [OF s get]
    show ?case
    proof (cases found)
      case None
      with Cons get found show ?thesis by (auto simp: scopes_from_def)
    next
      case (Some sc)
      then have sc: "lg_scopes (ledger_of s) sid = Some sc" "ws_id sc = sid" using found key by simp_all
      have "collect_asset_scopes ops s a sids (add_asset_scope a sc sets) = Inr sets'"
        using Cons.prems get Some by simp
      from Cons.IH [OF this] sc show ?thesis
        by (auto simp: scopes_from_def add_asset_scope_sets)
    qed
  qed
  then show "as_eligible sets' = as_eligible sets \<union>
      scopes_from (ledger_of s) a (set sids) (\<lambda>sc. ReserveSupport \<in> ws_capabilities sc)"
    and "as_fee sets' = as_fee sets \<union> scopes_from (ledger_of s) a (set sids)
      (\<lambda>sc. ReserveSupport \<in> ws_capabilities sc \<and> FeeSupport \<in> ws_capabilities sc)"
    by auto
qed

lemma read_status_Inr:
  assumes s: "sinv s" and run: "read_utxo_status ops s p = Inr st"
  shows "st = status_in (ledger_of s) p"
proof -
  obtain u where get: "get_utxo ops s p = Inr u"
    using run by (auto simp: read_utxo_status_def res_bind_eq_Inr)
  have u: "lg_utxos (ledger_of s) p = u" using read_Inr(3) [OF s get] by simp
  show ?thesis
  proof (cases u)
    case None
    with run get u show ?thesis by (simp add: read_utxo_status_def status_in_def)
  next
    case (Some v)
    with run get obtain lk where "get_lock ops s p = Inr lk" "st = Some (status_from_records v lk)"
      by (auto simp: read_utxo_status_def res_bind_eq_Inr)
    with read_Inr(4) [OF s] u Some show ?thesis by (auto simp: status_in_def)
  qed
qed

lemma judge_accepts:
  assumes s: "sinv s" and run: "judge_candidates ops s req a sets (ar_candidates req) = Inr (eligible, rejections)"
  shows "eligible = accepted (ledger_of s) req a sets"
proof -
  have "judge_candidates ops s req a sets cs = Inr (eligible, rejections) \<Longrightarrow>
      eligible = map (\<lambda>c. \<lparr>cand_outpoint = ai_outpoint c, cand_asset_amount = ai_asset_amount c,
          cand_value_sats = us_value_sats (the (status_in (ledger_of s) (ai_outpoint c)))\<rparr>)
        (filter (\<lambda>c. candidate_error req a sets c (status_in (ledger_of s) (ai_outpoint c)) = None) cs)" for cs
  proof (induction cs arbitrary: eligible rejections)
    case Nil
    then show ?case by simp
  next
    case (Cons c cs)
    obtain st e r where st: "read_utxo_status ops s (ai_outpoint c) = Inr st"
      and rest: "judge_candidates ops s req a sets cs = Inr (e, r)"
      using Cons.prems by (auto simp: res_bind_eq_Inr)
    from Cons.IH [OF rest] Cons.prems st rest read_status_Inr [OF s st] show ?case
      by (auto split: option.splits)
  qed
  with run show ?thesis by (simp add: accepted_def)
qed

text \<open>An asset preview over a store: what it chose is usable and enough.\<close>

lemma asset_preview_Inr:
  assumes s: "sinv s" and run: "read_asset_preview ops s req = Inr ps"
    and few: "length (ar_candidates req) < 2 ^ 64"
    and dist_req: "distinct (map ai_outpoint (ar_candidates req))"
  shows "ps \<noteq> []" and "distinct ps" and "\<forall>p\<in>set ps. asset_usable (ledger_of s) req p"
    and "set ps \<subseteq> ai_outpoint ` set (ar_candidates req)"
    and "unat (ar_asset_amount req) \<le> sum_list (map (claimed_amount req) ps)"
    and "unat (ar_required_value_sats req) \<le> sum_list (map (ledger_value (ledger_of s)) ps)"
    and "co_exact_outpoints (ar_constraints req) = Some qs \<Longrightarrow> ps = qs"
proof -
  let ?L = "ledger_of s"
  obtain a sets eligible rejections where a: "get_account ops s (ar_target_account_id req) = Inr (Some a)"
    and caps: "ReserveSupport \<in> ac_capabilities a"
    and sets: "collect_asset_scopes ops s a (ac_scopes a) \<lparr>as_registered = {}, as_eligible = {}, as_fee = {}\<rparr> = Inr sets"
    and judged: "judge_candidates ops s req a sets (ar_candidates req) = Inr (eligible, rejections)"
    and sel: "select_assets eligible (ar_asset_amount req) (ar_required_value_sats req) (ar_constraints req) = Inr ps"
    using run by (auto simp: read_asset_preview_def res_bind_eq_Inr ok_or_eq split: if_splits)
  have a': "lg_accounts ?L (ar_target_account_id req) = Some a" using read_Inr(1) [OF s a] by simp
  let ?cs = "accepted ?L req a sets"
  note sel = sel [unfolded judge_accepts [OF s judged]]
  have len: "length ?cs < 2 ^ 64"
    using few le_less_trans [OF length_filter_le] by (simp add: accepted_def)
  note sound = select_assets_parts [OF len sel]
  have dist: "distinct (map cand_outpoint ?cs)"
    using sound(1) by (auto simp: validate_inputs_def split: if_splits option.splits)
  note known = choose_inputs_known [OF len sound(1,4)]
  show "ps \<noteq> []" and "distinct ps" using sound(3) known(1) by simp_all
  show "ps = qs" if "co_exact_outpoints (ar_constraints req) = Some qs"
    using sound(4) that by (auto simp: choose_inputs_def res_bind_eq_Inr)
  have own: "find (\<lambda>c. cand_outpoint c = p) ?cs = Some c" if "c \<in> set ?cs" "cand_outpoint c = p" for c p
    using find_own [OF dist that(1)] that(2) by simp
  have facts: "p \<in> ai_outpoint ` set (ar_candidates req) \<and> asset_usable ?L req p \<and>
      (\<exists>c. find (\<lambda>c. cand_outpoint c = p) ?cs = Some c \<and>
        unat (cand_asset_amount c) = claimed_amount req p \<and> unat (cand_value_sats c) = ledger_value ?L p)"
    if p: "p \<in> set ps" for p
  proof -
    obtain c where c: "c \<in> set ?cs" "cand_outpoint c = p" using known(2) p by blast
    obtain k where k: "k \<in> set (ar_candidates req)" "ai_outpoint k = p" "ai_asset_amount k = cand_asset_amount c"
      and none: "candidate_error req a sets k (status_in ?L p) = None"
      and v: "unat (cand_value_sats c) = ledger_value ?L p"
      by (rule accepted_facts [OF c(1)]) (simp add: c(2))
    have amount: "claimed_amount req p = unat (cand_asset_amount c)"
      using claimed_amount_own [OF dist_req k(1)] k(2,3) by simp
    then have "ai_asset_amount k = 0 \<longleftrightarrow> claimed_amount req p = 0" using k(3) by (simp add: unat_eq_0)
    with none have "asset_usable ?L req p"
      using collect_scopes_sets [OF s sets] a' caps
      by (auto simp: candidate_error_None asset_usable_def scopes_from_def)
    with k own [OF c] amount v show ?thesis by auto
  qed
  then show "\<forall>p\<in>set ps. asset_usable ?L req p" and "set ps \<subseteq> ai_outpoint ` set (ar_candidates req)" by blast+
  have "map (\<lambda>c. unat (cand_asset_amount c)) (named ?cs ps) = map (claimed_amount req) ps"
    and "map (\<lambda>c. unat (cand_value_sats c)) (named ?cs ps) = map (ledger_value ?L) ps"
    using facts by (force simp: named_def)+
  then show "unat (ar_asset_amount req) \<le> sum_list (map (claimed_amount req) ps)"
    and "unat (ar_required_value_sats req) \<le> sum_list (map (ledger_value ?L) ps)"
    using sound(5,6) by (simp_all add: asset_sum_def value_sum_def)
qed

section \<open>Preview and plan over the service\<close>

lemma preview_run:
  assumes ok: "svok sv" and run: "preview_asset_selection ops dp req sv = (Inr ps, sv')"
  shows "svok sv'" and "same_registry (slg sv) (slg sv')"
    and "distinct (map ai_outpoint (ar_candidates req))"
    and "read_asset_preview ops (orch_store (sv_orchestrator sv')) req = Inr ps"
proof -
  have valid: "validate_inputs (map ai_outpoint (ar_candidates req)) (ar_asset_amount req) (ar_constraints req) = Inr ()"
    using run by (auto simp: preview_asset_selection_def cmd_bind_apply split: if_splits sum.splits)
  then show "distinct (map ai_outpoint (ar_candidates req))"
    by (auto simp: validate_inputs_def split: if_splits option.splits)
  obtain mid u where expire: "expire_stale_candidate_reservations ops dp
      (sort_key outpoint_string (map ai_outpoint (ar_candidates req))) sv = (Inr u, mid)"
    and read: "on_orchestrator (from_store (\<lambda>s. read_asset_preview ops s req)) mid = (Inr ps, sv')"
    using run valid by (auto simp: preview_asset_selection_def cmd_bind_eq split: if_splits)
  have sv': "sv' = mid" and "read_asset_preview ops (orch_store (sv_orchestrator mid)) req = Inr ps"
    using read by (auto simp: on_orchestrator_def from_store_def)
  then show "read_asset_preview ops (orch_store (sv_orchestrator sv')) req = Inr ps" by simp
  show "svok sv'" and "same_registry (slg sv) (slg sv')"
    using expire_candidates_step [OF ok expire] by (simp_all add: sv')
qed

text \<open>A plan of an asset selection: the state its preview left, and the selection it applied there.\<close>

lemma plan_assets_run:
  assumes ok: "svok sv" and run: "plan_asset_selection ops dp preq sv = (Inr planned, sv')"
  obtains ps mid sid where "preview_asset_selection ops dp (pa_selection preq) sv = (Inr ps, mid)"
    and "apply_selection ops (asset_selection_of (pa_operation_id preq) (pa_selection preq) ps sid)
      (sv_orchestrator mid) = (Inr (), sv_orchestrator sv')"
    and "planned = planned_of_selection (asset_selection_of (pa_operation_id preq) (pa_selection preq) ps sid)"
proof -
  let ?req = "pa_selection preq"
  obtain ps mid where preview: "preview_asset_selection ops dp ?req sv = (Inr ps, mid)"
    and rest: "(case ps of [] \<Rightarrow> cmd_fail InsufficientFunds
      | first # _ \<Rightarrow> on_orchestrator
            (cmd_bind (orch_get_utxo ops first) (\<lambda>found.
             cmd_bind (from_store (\<lambda>_. ok_or (UtxoNotFound first) found)) (\<lambda>utxo.
             let selection = asset_selection_of (pa_operation_id preq) ?req ps (mu_scope_id utxo) in
             cmd_bind (apply_selection ops selection) (\<lambda>_. cmd_return (planned_of_selection selection)))))) mid =
      (Inr planned, sv')"
    using run by (auto simp: plan_asset_selection_def Let_def cmd_bind_eq)
  obtain first more where ps: "ps = first # more" using rest by (cases ps) auto
  have "\<exists>utxo :: managed_utxo. apply_selection ops (asset_selection_of (pa_operation_id preq) ?req ps (mu_scope_id utxo))
      (sv_orchestrator mid) = (Inr (), sv_orchestrator sv') \<and>
    planned = planned_of_selection (asset_selection_of (pa_operation_id preq) ?req ps (mu_scope_id utxo))"
    using rest ps
    by (auto simp: on_orchestrator_def orch_get_utxo_def from_store_def cmd_bind_eq Let_def
        split: sum.splits prod.splits)
  then obtain utxo :: managed_utxo where "apply_selection ops
        (asset_selection_of (pa_operation_id preq) ?req ps (mu_scope_id utxo)) (sv_orchestrator mid) =
      (Inr (), sv_orchestrator sv')"
    and "planned = planned_of_selection (asset_selection_of (pa_operation_id preq) ?req ps (mu_scope_id utxo))"
    by blast
  with preview show ?thesis by (rule that)
qed

end

end
