(* ===== verification/Sql_Engine.thy ===== *)
theory Sql_Engine
  imports Store_Interface
begin

text \<open>
  What \<open>txoscope-store-sqlite\<close> needs of SQL and of its driver. A statement of the source is a value of
  \<open>sql_statement\<close> or \<open>sql_query\<close>; \<open>sql_run\<close> and \<open>sql_select\<close> give the meaning SQL gives it on a database of
  tables. The connection itself (SQLite behind the \<open>rusqlite\<close> crate) is a parameter: a record of
  functions that may fail at any call, whose documented behaviour is the locale \<open>sqlite_engine\<close>.
  The locale is interpreted on \<open>plain_engine\<close>, a connection that never fails on its own.
\<close>

section \<open>Values and tables\<close>

datatype sql_value = SqlNull | SqlInteger int | SqlText string

text \<open>SQLite's order of values: \<open>NULL\<close>, then integers, then texts by their bytes.\<close>

fun sql_rank :: "sql_value \<Rightarrow> nat \<times> int \<times> string" where
  "sql_rank SqlNull = (0, 0, [])"
| "sql_rank (SqlInteger i) = (1, i, [])"
| "sql_rank (SqlText s) = (2, 0, s)"

lemma sql_rank_inject [simp]: "sql_rank a = sql_rank b \<longleftrightarrow> a = b"
  by (cases a; cases b) auto

instantiation sql_value :: linorder
begin
definition less_eq_sql_value :: "sql_value \<Rightarrow> sql_value \<Rightarrow> bool" where
  "less_eq_sql_value a b \<longleftrightarrow> sql_rank a \<le> sql_rank b"
definition less_sql_value :: "sql_value \<Rightarrow> sql_value \<Rightarrow> bool" where
  "less_sql_value a b \<longleftrightarrow> sql_rank a < sql_rank b"
instance
proof
  fix a b c :: sql_value
  show "a < b \<longleftrightarrow> a \<le> b \<and> \<not> b \<le> a"
    unfolding less_eq_sql_value_def less_sql_value_def by (rule less_le_not_le)
  show "a \<le> a" and "a \<le> b \<or> b \<le> a"
    unfolding less_eq_sql_value_def by (rule order_refl, rule linear)
  show "a \<le> b \<Longrightarrow> b \<le> c \<Longrightarrow> a \<le> c"
    unfolding less_eq_sql_value_def by (rule order_trans)
  show "a \<le> b \<Longrightarrow> b \<le> a \<Longrightarrow> a = b"
    unfolding less_eq_sql_value_def by (metis order_antisym sql_rank_inject)
qed
end

lemma sql_value_le [simp]:
  "SqlText s \<le> SqlText t \<longleftrightarrow> s \<le> t" "SqlInteger i \<le> SqlInteger j \<longleftrightarrow> i \<le> j"
  by (auto simp: less_eq_sql_value_def)

text \<open>A row gives every column a value; the columns it was not given are \<open>NULL\<close>.\<close>

type_synonym sql_row = "string \<Rightarrow> sql_value"

definition row_of :: "(string \<times> sql_value) list \<Rightarrow> sql_row" where
  "row_of vals = (\<lambda>c. case map_of vals c of None \<Rightarrow> SqlNull | Some v \<Rightarrow> v)"

text \<open>A declared reference: the column (of the same name in the parent), the parent, \<open>ON DELETE CASCADE\<close>.\<close>

record sql_reference =
  rf_column :: string
  rf_parent :: string
  rf_cascade :: bool

record sql_table =
  tb_columns :: "string list"
  tb_key :: "string list"
  tb_reference :: "sql_reference option"
  tb_rows :: "sql_row list"

record sql_database =
  db_tables :: "string \<rightharpoonup> sql_table"
  db_version :: int

section \<open>Statements\<close>

type_synonym sql_condition = "string \<times> sql_value"

datatype sql_statement =
    Pragma string string
  | SetUserVersion int
  | CreateTableIfNotExists string "string list" "string list" "sql_reference option"
  | AlterTableAddColumn string string
  | InsertInto string "(string \<times> sql_value) list"
  | InsertOrIgnore string "(string \<times> sql_value) list"
  | InsertOrReplace string "(string \<times> sql_value) list"
  | UpdateWhere string "string \<times> sql_value" sql_condition
  | DeleteWhere string sql_condition

text \<open>\<open>SELECT columns FROM table [WHERE column = value] [ORDER BY columns]\<close>.\<close>

record sql_query =
  q_columns :: "string list"
  q_from :: string
  q_where :: "sql_condition option"
  q_order :: "string list"

text \<open>A comparison with \<open>NULL\<close> is never true.\<close>

definition meets :: "sql_condition \<Rightarrow> sql_row \<Rightarrow> bool" where
  "meets cond r \<longleftrightarrow> r (fst cond) = snd cond \<and> snd cond \<noteq> SqlNull"

definition sql_select :: "sql_query \<Rightarrow> sql_database \<Rightarrow> sql_row list option" where
  "sql_select q db =
     (case db_tables db (q_from q) of
        None \<Rightarrow> None
      | Some tb \<Rightarrow>
          if \<not> set (q_columns q) \<subseteq> set (tb_columns tb) then None
          else Some (sort_key (\<lambda>r. map r (q_order q))
                 (filter (\<lambda>r. case q_where q of None \<Rightarrow> True | Some cond \<Rightarrow> meets cond r) (tb_rows tb))))"

definition same_key :: "sql_table \<Rightarrow> sql_row \<Rightarrow> sql_row \<Rightarrow> bool" where
  "same_key tb r r' \<longleftrightarrow> (\<forall>c\<in>set (tb_key tb). r c = r' c)"

definition set_rows :: "string \<Rightarrow> sql_row list \<Rightarrow> sql_database \<Rightarrow> sql_database" where
  "set_rows t rows db =
     db\<lparr>db_tables := (db_tables db)(t := map_option (\<lambda>tb. tb\<lparr>tb_rows := rows\<rparr>) (db_tables db t))\<rparr>"

text \<open>Deleting rows of a parent deletes the rows of the tables that reference it with cascade.\<close>

definition cascade :: "string \<Rightarrow> sql_row list \<Rightarrow> sql_database \<Rightarrow> sql_database" where
  "cascade t deleted db =
     db\<lparr>db_tables := (\<lambda>u. map_option (\<lambda>tb.
          case tb_reference tb of
            None \<Rightarrow> tb
          | Some rf \<Rightarrow>
              if rf_parent rf = t \<and> rf_cascade rf
              then tb\<lparr>tb_rows := filter (\<lambda>r. \<forall>d\<in>set deleted. d (rf_column rf) \<noteq> r (rf_column rf)) (tb_rows tb)\<rparr>
              else tb) (db_tables db u))\<rparr>"

definition has_parent :: "sql_database \<Rightarrow> sql_table \<Rightarrow> sql_row \<Rightarrow> bool" where
  "has_parent db tb r \<longleftrightarrow>
     (case tb_reference tb of
        None \<Rightarrow> True
      | Some rf \<Rightarrow>
          (case db_tables db (rf_parent rf) of
             None \<Rightarrow> False
           | Some p \<Rightarrow> \<exists>q\<in>set (tb_rows p). q (rf_column rf) = r (rf_column rf)))"

text \<open>
  The effect of a statement with the number of rows it changed; \<open>None\<close> when the statement is
  refused (no such table or column, a violated key or reference).
\<close>

fun sql_run :: "sql_statement \<Rightarrow> sql_database \<Rightarrow> (nat \<times> sql_database) option" where
  "sql_run (Pragma name setting) db = Some (0, db)"
| "sql_run (SetUserVersion v) db = Some (0, db\<lparr>db_version := v\<rparr>)"
| "sql_run (CreateTableIfNotExists t columns key ref) db =
     (case db_tables db t of
        Some tb \<Rightarrow> Some (0, db)
      | None \<Rightarrow> Some (0, db\<lparr>db_tables := (db_tables db)(t \<mapsto>
          \<lparr>tb_columns = columns, tb_key = key, tb_reference = ref, tb_rows = []\<rparr>)\<rparr>))"
| "sql_run (AlterTableAddColumn t c) db =
     (case db_tables db t of
        None \<Rightarrow> None
      | Some tb \<Rightarrow>
          if c \<in> set (tb_columns tb) then None
          else Some (0, db\<lparr>db_tables := (db_tables db)(t \<mapsto> tb\<lparr>tb_columns := tb_columns tb @ [c],
                 tb_rows := map (\<lambda>r. r(c := SqlNull)) (tb_rows tb)\<rparr>)\<rparr>))"
| "sql_run (InsertInto t vals) db =
     (case db_tables db t of
        None \<Rightarrow> None
      | Some tb \<Rightarrow>
          let r = row_of vals in
          if \<not> fst ` set vals \<subseteq> set (tb_columns tb) \<or> \<not> has_parent db tb r \<or>
             (\<exists>r'\<in>set (tb_rows tb). same_key tb r r')
          then None else Some (1, set_rows t (tb_rows tb @ [r]) db))"
| "sql_run (InsertOrIgnore t vals) db =
     (case db_tables db t of
        None \<Rightarrow> None
      | Some tb \<Rightarrow>
          let r = row_of vals in
          if \<not> fst ` set vals \<subseteq> set (tb_columns tb) \<or> \<not> has_parent db tb r then None
          else if \<exists>r'\<in>set (tb_rows tb). same_key tb r r' then Some (0, db)
          else Some (1, set_rows t (tb_rows tb @ [r]) db))"
| "sql_run (InsertOrReplace t vals) db =
     (case db_tables db t of
        None \<Rightarrow> None
      | Some tb \<Rightarrow>
          let r = row_of vals in
          if \<not> fst ` set vals \<subseteq> set (tb_columns tb) \<or> \<not> has_parent db tb r then None
          else Some (1, set_rows t (filter (\<lambda>r'. \<not> same_key tb r r') (tb_rows tb) @ [r])
                          (cascade t (filter (same_key tb r) (tb_rows tb)) db)))"
| "sql_run (UpdateWhere t assignment cond) db =
     (case db_tables db t of
        None \<Rightarrow> None
      | Some tb \<Rightarrow>
          if \<not> {fst assignment, fst cond} \<subseteq> set (tb_columns tb) then None
          else Some (length (filter (meets cond) (tb_rows tb)),
                 set_rows t (map (\<lambda>r. if meets cond r then r(fst assignment := snd assignment) else r)
                   (tb_rows tb)) db))"
| "sql_run (DeleteWhere t cond) db =
     (case db_tables db t of
        None \<Rightarrow> None
      | Some tb \<Rightarrow>
          if fst cond \<notin> set (tb_columns tb) then None
          else Some (length (filter (meets cond) (tb_rows tb)),
                 set_rows t (filter (\<lambda>r. \<not> meets cond r) (tb_rows tb))
                   (cascade t (filter (meets cond) (tb_rows tb)) db)))"

section \<open>The driver\<close>

text \<open>The errors of \<open>rusqlite\<close> the source tells apart; every other one is an \<open>EngineFailure\<close>.\<close>

datatype sql_error =
    FromSqlConversionFailure string
  | InvalidColumnType string
  | IntegralValueOutOfRange string int
  | ToSqlConversionFailure
  | QueryReturnedNoRows
  | EngineFailure string

text \<open>
  A connection: it executes statements and queries, opens, commits and rolls back a transaction, reads
  \<open>user_version\<close> and the column names of a table, prepares a query without running it, and renders its
  errors. The last function is \<open>Debug\<close>'s quoting of a text, which one message uses.
\<close>

record 'db sql_engine =
  eng_execute :: "sql_statement \<Rightarrow> ('db, sql_error, nat) cmd"
  eng_query :: "'db \<Rightarrow> sql_query \<Rightarrow> sql_error + sql_row list"
  eng_begin :: "('db, sql_error, unit) cmd"
  eng_commit :: "('db, sql_error, unit) cmd"
  eng_rollback :: "'db \<Rightarrow> 'db"
  eng_version :: "'db \<Rightarrow> sql_error + int"
  eng_columns :: "'db \<Rightarrow> string \<Rightarrow> sql_error + string list"
  eng_prepare :: "'db \<Rightarrow> sql_query \<Rightarrow> sql_error + unit"
  eng_show :: "sql_error \<Rightarrow> string"
  eng_quote :: "string \<Rightarrow> string"

fun engine_fault :: "sql_error \<Rightarrow> bool" where
  "engine_fault (EngineFailure m) = True"
| "engine_fault e = False"

text \<open>
  The documented behaviour: a call that succeeds does what SQL says to the database the connection
  sees; one that fails changes nothing outside the open transaction; a rollback returns to the
  committed database. The connection is the only writer.
\<close>

locale sqlite_engine =
  fixes E :: "'db sql_engine"
    and content :: "'db \<Rightarrow> sql_database"
    and committed :: "'db \<Rightarrow> sql_database"
    and open_tx :: "'db \<Rightarrow> bool"
  assumes query_law: "eng_query E db q = Inr rows \<Longrightarrow> sql_select q (content db) = Some rows"
    and query_fault: "eng_query E db q = Inl e \<Longrightarrow> engine_fault e"
    and version_law: "eng_version E db = Inr v \<Longrightarrow> v = db_version (content db)"
    and version_fault: "eng_version E db = Inl e \<Longrightarrow> engine_fault e"
    and columns_law: "eng_columns E db t = Inr cs \<Longrightarrow>
      cs = (case db_tables (content db) t of None \<Rightarrow> [] | Some tb \<Rightarrow> tb_columns tb)"
    and columns_fault: "eng_columns E db t = Inl e \<Longrightarrow> engine_fault e"
    and prepare_law: "eng_prepare E db q = Inr u \<Longrightarrow> sql_select q (content db) \<noteq> None"
    and execute_law: "eng_execute E st db = (Inr n, db') \<Longrightarrow>
      sql_run st (content db) = Some (n, content db') \<and> open_tx db' = open_tx db \<and>
      committed db' = (if open_tx db then committed db else content db')"
    and execute_fault: "eng_execute E st db = (Inl e, db') \<Longrightarrow>
      engine_fault e \<and> committed db' = committed db \<and>
      (\<not> open_tx db \<longrightarrow> content db' = content db \<and> \<not> open_tx db')"
    and begin_law: "\<not> open_tx db \<Longrightarrow> eng_begin E db = (Inr u, db') \<Longrightarrow>
      open_tx db' \<and> content db' = content db \<and> committed db' = committed db"
    and begin_fault: "\<not> open_tx db \<Longrightarrow> eng_begin E db = (Inl e, db') \<Longrightarrow>
      engine_fault e \<and> \<not> open_tx db' \<and> content db' = content db \<and> committed db' = committed db"
    and commit_law: "open_tx db \<Longrightarrow> eng_commit E db = (Inr u, db') \<Longrightarrow>
      \<not> open_tx db' \<and> content db' = content db \<and> committed db' = content db"
    and commit_fault: "open_tx db \<Longrightarrow> eng_commit E db = (Inl e, db') \<Longrightarrow>
      engine_fault e \<and> committed db' = committed db"
    and rollback_law: "\<not> open_tx (eng_rollback E db) \<and> content (eng_rollback E db) = committed db \<and>
      committed (eng_rollback E db) = committed db"

section \<open>A connection that never fails on its own\<close>

record plain_connection =
  pc_content :: sql_database
  pc_committed :: sql_database
  pc_open :: bool

definition plain_execute :: "sql_statement \<Rightarrow> (plain_connection, sql_error, nat) cmd" where
  "plain_execute st c =
     (case sql_run st (pc_content c) of
        None \<Rightarrow> (Inl (EngineFailure ''statement refused''), c)
      | Some (n, db) \<Rightarrow>
          (Inr n, c\<lparr>pc_content := db, pc_committed := if pc_open c then pc_committed c else db\<rparr>))"

definition plain_query :: "plain_connection \<Rightarrow> sql_query \<Rightarrow> sql_error + sql_row list" where
  "plain_query c q =
     (case sql_select q (pc_content c) of
        None \<Rightarrow> Inl (EngineFailure ''query refused'')
      | Some rows \<Rightarrow> Inr rows)"

definition plain_engine :: "plain_connection sql_engine" where
  "plain_engine =
     \<lparr>eng_execute = plain_execute, eng_query = plain_query,
      eng_begin = (\<lambda>c. (Inr (), c\<lparr>pc_open := True\<rparr>)),
      eng_commit = (\<lambda>c. (Inr (), c\<lparr>pc_committed := pc_content c, pc_open := False\<rparr>)),
      eng_rollback = (\<lambda>c. c\<lparr>pc_content := pc_committed c, pc_open := False\<rparr>),
      eng_version = (\<lambda>c. Inr (db_version (pc_content c))),
      eng_columns = (\<lambda>c t. Inr (case db_tables (pc_content c) t of None \<Rightarrow> [] | Some tb \<Rightarrow> tb_columns tb)),
      eng_prepare = (\<lambda>c q. res_map (\<lambda>_. ()) (plain_query c q)),
      eng_show = (\<lambda>_. ''sqlite error''), eng_quote = (\<lambda>s. s)\<rparr>"

interpretation plain: sqlite_engine plain_engine pc_content pc_committed pc_open
  by unfold_locales
    (auto simp: plain_engine_def plain_execute_def plain_query_def res_map_eq split: option.splits prod.splits)

end
