(* ===== verification/Sqlite_Codec.thy ===== *)
theory Sqlite_Codec
  imports Sql_Engine
begin

text \<open>
  The text encodings of the stored columns (\<open>txoscope-store-sqlite/src/codec.rs\<close>), with the names the
  enumerations of \<open>txoscope-core\<close> declare for them, and the driver's conversions between column values
  and Rust types. Every encoding is read back as it was, and the legacy names are still read.
\<close>

section \<open>Errors\<close>

definition map_sql_error :: "'db sql_engine \<Rightarrow> sql_error \<Rightarrow> domain_error" where
  "map_sql_error E err =
     (case err of
        FromSqlConversionFailure source \<Rightarrow> CorruptedState source
      | InvalidColumnType c \<Rightarrow> CorruptedState (eng_show E err)
      | IntegralValueOutOfRange c i \<Rightarrow> CorruptedState (eng_show E err)
      | other \<Rightarrow> Storage (eng_show E other))"

definition corrupted_state_error :: "string \<Rightarrow> sql_error" where
  "corrupted_state_error message = FromSqlConversionFailure message"

text \<open>\<open>map_err(SqliteCodec::map_sql_error)\<close>.\<close>

definition map_err :: "'db sql_engine \<Rightarrow> sql_error + 'a \<Rightarrow> 'a result" where
  "map_err E r = (case r of Inl e \<Rightarrow> Inl (map_sql_error E e) | Inr x \<Rightarrow> Inr x)"

lemma map_err_simps [simp]:
  "map_err E (Inr x) = Inr x" "map_err E (Inl e) = Inl (map_sql_error E e)"
  by (simp_all add: map_err_def)

lemma map_err_eq_Inr [simp]: "map_err E r = Inr x \<longleftrightarrow> r = Inr x"
  by (cases r) simp_all

lemma map_err_bind: "map_err E (res_bind m f) = res_bind (map_err E m) (\<lambda>x. map_err E (f x))"
  by (cases m) simp_all

text \<open>The errors that become \<open>Storage\<close>: the connection's, an integer it cannot store, a missing row.\<close>

lemma storage_errors [simp]:
  "map_sql_error E (EngineFailure m) = Storage (eng_show E (EngineFailure m))"
  "map_sql_error E ToSqlConversionFailure = Storage (eng_show E ToSqlConversionFailure)"
  "map_sql_error E QueryReturnedNoRows = Storage (eng_show E QueryReturnedNoRows)"
  by (simp_all add: map_sql_error_def)

lemma engine_fault_storage: "engine_fault e \<Longrightarrow> \<exists>m. map_sql_error E e = Storage m"
  by (cases e) simp_all

section \<open>Column values\<close>

text \<open>\<open>ToSql\<close>: an unsigned 64-bit integer that does not fit SQLite's signed one is refused.\<close>

definition sql_of_u64 :: "u64 \<Rightarrow> sql_error + sql_value" where
  "sql_of_u64 w =
     (if unat w < 2 ^ 63 then Inr (SqlInteger (uint w)) else Inl ToSqlConversionFailure)"

fun sql_of_u64_option :: "u64 option \<Rightarrow> sql_error + sql_value" where
  "sql_of_u64_option None = Inr SqlNull"
| "sql_of_u64_option (Some w) = sql_of_u64 w"

definition sql_of_u32 :: "u32 \<Rightarrow> sql_value" where
  "sql_of_u32 w = SqlInteger (uint w)"

fun sql_of_text_option :: "string option \<Rightarrow> sql_value" where
  "sql_of_text_option None = SqlNull"
| "sql_of_text_option (Some s) = SqlText s"

text \<open>\<open>Row::get\<close>, by the type it is asked for.\<close>

definition get_text :: "sql_row \<Rightarrow> string \<Rightarrow> sql_error + string" where
  "get_text r c = (case r c of SqlText s \<Rightarrow> Inr s | _ \<Rightarrow> Inl (InvalidColumnType c))"

definition get_text_option :: "sql_row \<Rightarrow> string \<Rightarrow> sql_error + string option" where
  "get_text_option r c =
     (case r c of SqlNull \<Rightarrow> Inr None | SqlText s \<Rightarrow> Inr (Some s) | _ \<Rightarrow> Inl (InvalidColumnType c))"

definition unsigned_of_sql :: "nat \<Rightarrow> string \<Rightarrow> int \<Rightarrow> sql_error + 'a::len word" where
  "unsigned_of_sql bits c i =
     (if 0 \<le> i \<and> i < 2 ^ bits then Inr (of_int i) else Inl (IntegralValueOutOfRange c i))"

definition get_u64 :: "sql_row \<Rightarrow> string \<Rightarrow> sql_error + u64" where
  "get_u64 r c = (case r c of SqlInteger i \<Rightarrow> unsigned_of_sql 64 c i | _ \<Rightarrow> Inl (InvalidColumnType c))"

definition get_u64_option :: "sql_row \<Rightarrow> string \<Rightarrow> sql_error + u64 option" where
  "get_u64_option r c =
     (case r c of
        SqlNull \<Rightarrow> Inr None
      | SqlInteger i \<Rightarrow> res_map Some (unsigned_of_sql 64 c i)
      | _ \<Rightarrow> Inl (InvalidColumnType c))"

definition get_u32 :: "sql_row \<Rightarrow> string \<Rightarrow> sql_error + u32" where
  "get_u32 r c = (case r c of SqlInteger i \<Rightarrow> unsigned_of_sql 32 c i | _ \<Rightarrow> Inl (InvalidColumnType c))"

lemma unsigned_of_sql_word [simp]:
  assumes "LENGTH('a) = n"
  shows "unsigned_of_sql n c (uint w) = Inr (w :: 'a::len word)"
  using unsigned_greater_eq [of w] unsigned_less [of w] assms
  by (simp add: unsigned_of_sql_def)

lemma get_back [simp]:
  "r c = SqlText s \<Longrightarrow> get_text r c = Inr s"
  "r c = sql_of_u32 v \<Longrightarrow> get_u32 r c = Inr v"
  by (simp_all add: get_text_def get_u32_def sql_of_u32_def)

lemma get_back_text_option [simp]: "r c = sql_of_text_option t \<Longrightarrow> get_text_option r c = Inr t"
  by (cases t) (simp_all add: get_text_option_def)

lemma sql_of_u64_Inr: "sql_of_u64 w = Inr v \<longleftrightarrow> unat w < 2 ^ 63 \<and> v = SqlInteger (uint w)"
  by (auto simp: sql_of_u64_def)

lemma get_back_u64: "sql_of_u64 w = Inr (r c) \<Longrightarrow> get_u64 r c = Inr w"
proof -
  assume "sql_of_u64 w = Inr (r c)"
  then have "r c = SqlInteger (uint w)" by (simp add: sql_of_u64_Inr)
  then show ?thesis by (simp add: get_u64_def)
qed

lemma get_back_u64_option: "sql_of_u64_option t = Inr (r c) \<Longrightarrow> get_u64_option r c = Inr t"
proof (cases t)
  case (Some w)
  assume "sql_of_u64_option t = Inr (r c)"
  then have "r c = SqlInteger (uint w)" by (simp add: Some sql_of_u64_Inr)
  then show ?thesis by (simp add: get_u64_option_def Some)
qed (auto simp: get_u64_option_def)

section \<open>Enumerations\<close>

fun encode_capability :: "capability \<Rightarrow> string" where
  "encode_capability BtcSpend = ''btc_spend''"
| "encode_capability BtcReceive = ''btc_receive''"
| "encode_capability FeeSupport = ''fee_support''"
| "encode_capability ReserveSupport = ''reserve_support''"
| "encode_capability SingleTargetReserve = ''single_target_reserve''"
| "encode_capability L2Settlement = ''l2_settlement''"
| "encode_capability ConsolidationSource = ''consolidation_source''"
| "encode_capability ConsolidationTarget = ''consolidation_target''"

definition capability_names :: "(string \<times> capability) list" where
  "capability_names =
     [(''btc_spend'', BtcSpend), (''btc_receive'', BtcReceive), (''fee_support'', FeeSupport),
      (''reserve_support'', ReserveSupport), (''single_target_reserve'', SingleTargetReserve),
      (''rgb_receive'', SingleTargetReserve), (''l2_settlement'', L2Settlement),
      (''consolidation_source'', ConsolidationSource), (''consolidation_target'', ConsolidationTarget)]"

fun encode_onchain :: "onchain_state \<Rightarrow> string" where
  "encode_onchain OsUnknown = ''unknown''"
| "encode_onchain UnconfirmedIncoming = ''unconfirmed_incoming''"
| "encode_onchain Confirmed = ''confirmed''"
| "encode_onchain SpendingInFlight = ''spending_in_flight''"
| "encode_onchain Spent = ''spent''"

definition onchain_names :: "(string \<times> onchain_state) list" where
  "onchain_names = map (\<lambda>s. (encode_onchain s, s))
     [OsUnknown, UnconfirmedIncoming, Confirmed, SpendingInFlight, Spent]"

fun encode_availability :: "availability \<Rightarrow> string" where
  "encode_availability AvUnknown = ''unknown''"
| "encode_availability Selectable = ''selectable''"
| "encode_availability Reserved = ''reserved''"
| "encode_availability Locked = ''locked''"
| "encode_availability BlockedByPolicy = ''blocked_by_policy''"
| "encode_availability BlockedByL2 = ''blocked_by_l2''"
| "encode_availability Recovering = ''recovering''"

definition availability_names :: "(string \<times> availability) list" where
  "availability_names = map (\<lambda>a. (encode_availability a, a))
     [AvUnknown, Selectable, Reserved, Locked, BlockedByPolicy, BlockedByL2, Recovering]"

fun encode_role :: "utxo_role \<Rightarrow> string" where
  "encode_role RoleUnknown = ''unknown''"
| "encode_role General = ''general''"
| "encode_role SpendPreferred = ''spend_preferred''"
| "encode_role Reserve = ''reserve''"
| "encode_role RecoveryOutput = ''recovery_output''"
| "encode_role ConsolidationCandidate = ''consolidation_candidate''"

definition role_names :: "(string \<times> utxo_role) list" where
  "role_names = map (\<lambda>r. (encode_role r, r))
     [RoleUnknown, General, SpendPreferred, Reserve, RecoveryOutput, ConsolidationCandidate]"

fun encode_purpose :: "lock_purpose \<Rightarrow> string" where
  "encode_purpose ManualReservation = ''manual_reservation''"
| "encode_purpose BtcSendLock = ''btc_send''"
| "encode_purpose FeeSupportLock = ''fee_support''"
| "encode_purpose PlannedSelectionLock = ''planned_selection''"

definition purpose_names :: "(string \<times> lock_purpose) list" where
  "purpose_names =
     [(''manual_reservation'', ManualReservation), (''btc_send'', BtcSendLock),
      (''fee_support'', FeeSupportLock), (''planned_selection'', PlannedSelectionLock),
      (''single_target_reserve'', PlannedSelectionLock),
      (''anchor_with_fee_support'', PlannedSelectionLock),
      (''rgb_receive_preparation'', PlannedSelectionLock), (''rgb_l1_send'', PlannedSelectionLock),
      (''channel_funding'', PlannedSelectionLock)]"

fun encode_phase :: "operation_phase \<Rightarrow> string" where
  "encode_phase PhSelected = ''selected''"
| "encode_phase PhConstructing = ''constructing''"
| "encode_phase PhSigned = ''signed''"
| "encode_phase PhBroadcast = ''broadcast''"
| "encode_phase PhAwaitingConfirmation = ''awaiting_confirmation''"
| "encode_phase PhAwaitingL2Finality = ''awaiting_l2_finality''"
| "encode_phase PhRollingBack = ''rolling_back''"

definition phase_names :: "(string \<times> operation_phase) list" where
  "phase_names = map (\<lambda>p. (encode_phase p, p))
     [PhSelected, PhConstructing, PhSigned, PhBroadcast, PhAwaitingConfirmation,
      PhAwaitingL2Finality, PhRollingBack]"

fun encode_status :: "intent_status \<Rightarrow> string" where
  "encode_status Pending = ''pending''"
| "encode_status Committed = ''committed''"
| "encode_status Failed = ''failed''"

definition status_names :: "(string \<times> intent_status) list" where
  "status_names = map (\<lambda>s. (encode_status s, s)) [Pending, Committed, Failed]"

text \<open>\<open>decode\<close>: the derived \<open>FromStr\<close> looks the text up among the declared names.\<close>

definition decode :: "string \<Rightarrow> (string \<times> 'a) list \<Rightarrow> string \<Rightarrow> sql_error + 'a" where
  "decode type_name names encoded =
     ok_or (corrupted_state_error (''invalid '' @ type_name @ '' value in sqlite row: '' @ encoded))
       (map_of names encoded)"

abbreviation "decode_onchain \<equiv> decode ''txoscope_core::state::OnchainState'' onchain_names"
abbreviation "decode_availability \<equiv> decode ''txoscope_core::state::Availability'' availability_names"
abbreviation "decode_role \<equiv> decode ''txoscope_core::state::UtxoRole'' role_names"
abbreviation "decode_purpose \<equiv> decode ''txoscope_core::lock::LockPurpose'' purpose_names"
abbreviation "decode_phase \<equiv> decode ''txoscope_core::operation::OperationPhase'' phase_names"
abbreviation "decode_status \<equiv> decode ''txoscope_core::operation::IntentStatus'' status_names"

lemma decode_encode [simp]:
  "decode ty capability_names (encode_capability c) = Inr c"
  "decode ty onchain_names (encode_onchain st) = Inr st"
  "decode ty availability_names (encode_availability av) = Inr av"
  "decode ty role_names (encode_role ro) = Inr ro"
  "decode ty purpose_names (encode_purpose pu) = Inr pu"
  "decode ty phase_names (encode_phase ph) = Inr ph"
  "decode ty status_names (encode_status s) = Inr s"
  by (cases c, simp_all add: decode_def capability_names_def)
    (cases st, simp_all add: decode_def onchain_names_def,
     cases av, simp_all add: decode_def availability_names_def,
     cases ro, simp_all add: decode_def role_names_def,
     cases pu, simp_all add: decode_def purpose_names_def,
     cases ph, simp_all add: decode_def phase_names_def,
     cases s, simp_all add: decode_def status_names_def)

lemma encode_status_inject [simp]: "encode_status s = encode_status t \<longleftrightarrow> s = t"
  by (cases s; cases t) simp_all

lemma decode_status_encoded: "decode ty status_names x = Inr s \<Longrightarrow> x = encode_status s"
  by (auto simp: decode_def ok_or_eq status_names_def split: if_splits)

section \<open>Outpoints and capability sets\<close>

definition decode_outpoint :: "'db sql_engine \<Rightarrow> string \<Rightarrow> sql_error + outpoint" where
  "decode_outpoint E encoded =
     res_bind
       (case outpoint_from_str (eng_quote E) encoded of
          Inl error \<Rightarrow> Inl (corrupted_state_error
            (''invalid outpoint in sqlite row: '' @ encoded @ '': '' @ error_text error))
        | Inr p \<Rightarrow> Inr p) (\<lambda>p.
     if outpoint_string p \<noteq> encoded
     then Inl (corrupted_state_error (''noncanonical outpoint in sqlite row: '' @ encoded))
     else Inr p)"

lemma decode_outpoint_string [simp]: "decode_outpoint E (outpoint_string p) = Inr p"
  by (simp add: decode_outpoint_def outpoint_from_str_roundtrip)

lemma decode_outpoint_Inr: "decode_outpoint E s = Inr p \<longleftrightarrow> s = outpoint_string p"
proof
  assume "decode_outpoint E s = Inr p"
  then show "s = outpoint_string p" by (auto simp: decode_outpoint_def res_bind_eq_Inr split: if_splits)
qed simp

text \<open>A \<open>BTreeSet\<close> is iterated in the declaration order of the capabilities.\<close>

definition capability_order :: "capability list" where
  "capability_order =
     [BtcSpend, BtcReceive, FeeSupport, ReserveSupport, SingleTargetReserve, L2Settlement,
      ConsolidationSource, ConsolidationTarget]"

definition encode_capabilities :: "capability_set \<Rightarrow> string" where
  "encode_capabilities capabilities =
     join_with '','' (map encode_capability (filter (\<lambda>c. c \<in> capabilities) capability_order))"

definition decode_capabilities :: "string \<Rightarrow> sql_error + capability_set" where
  "decode_capabilities encoded =
     res_map set
       (if encoded = [] then Inr []
        else res_collect (decode ''txoscope_core::capability::Capability'' capability_names)
               (split_char CHR '','' encoded))"

lemma encode_capability_text: "CHR '','' \<notin> set (encode_capability c)" "encode_capability c \<noteq> []"
  by (cases c; simp)+

lemma join_with_not_Nil: "x \<noteq> [] \<Longrightarrow> join_with sep (x # xs) \<noteq> []"
  by (cases xs) simp_all

lemma capability_order_all [simp]: "set capability_order = UNIV"
proof -
  have "c \<in> set capability_order" for c by (cases c; simp add: capability_order_def)
  then show ?thesis by blast
qed

lemma decode_capabilities_encode [simp]: "decode_capabilities (encode_capabilities cs) = Inr cs"
proof -
  let ?l = "filter (\<lambda>c. c \<in> cs) capability_order"
  have all: "set ?l = cs"
    by simp
  have collect: "res_collect (decode ty capability_names) (map encode_capability l) = Inr l" for ty l
    by (induction l) auto
  show ?thesis
  proof (cases "?l = []")
    case True
    with all show ?thesis by (simp add: decode_capabilities_def encode_capabilities_def)
  next
    case False
    then have "split_char CHR '','' (join_with '','' (map encode_capability ?l)) = map encode_capability ?l"
      using encode_capability_text(1) by (intro split_join) auto
    moreover have "join_with '','' (map encode_capability ?l) \<noteq> []"
      using False encode_capability_text(2) join_with_not_Nil by (cases ?l) auto
    ultimately show ?thesis
      by (simp add: decode_capabilities_def encode_capabilities_def collect all)
  qed
qed

end
