(* ===== verification/Sqlite_Store.thy ===== *)
theory Sqlite_Store
  imports Sqlite_Codec
begin

text \<open>
  The SQLite backend (\<open>txoscope-store-sqlite/src/sqlite.rs\<close>): its schema, its rows, and every operation
  of \<open>StateRead\<close> and \<open>StateStore\<close>, each statement and transaction as the source has it, over any
  connection \<open>E\<close>.
\<close>

section \<open>Talking to the connection\<close>

text \<open>\<open>execute(sql, params)\<close>: a parameter that cannot be converted fails before the statement runs.\<close>

definition execute_sql :: "'db sql_engine \<Rightarrow> sql_error + sql_statement \<Rightarrow> ('db, nat) command" where
  "execute_sql E st db =
     (case st of
        Inl e \<Rightarrow> (Inl (map_sql_error E e), db)
      | Inr s \<Rightarrow> (case eng_execute E s db of (r, db') \<Rightarrow> (map_err E r, db')))"

definition run_statement :: "'db sql_engine \<Rightarrow> sql_error + sql_statement \<Rightarrow> ('db, unit) command" where
  "run_statement E st = cmd_bind (execute_sql E st) (\<lambda>_. cmd_return ())"

text \<open>\<open>query_map\<close> with \<open>collect_rows\<close>, \<open>query_row\<close> with \<open>optional\<close>, and \<open>query_row\<close>.\<close>

definition collect_rows ::
  "'db sql_engine \<Rightarrow> sql_query \<Rightarrow> (sql_row \<Rightarrow> sql_error + 'a) \<Rightarrow> 'db \<Rightarrow> 'a list result" where
  "collect_rows E q f db = map_err E (res_bind (eng_query E db q) (res_collect f))"

definition query_optional ::
  "'db sql_engine \<Rightarrow> sql_query \<Rightarrow> (sql_row \<Rightarrow> sql_error + 'a) \<Rightarrow> 'db \<Rightarrow> 'a option result" where
  "query_optional E q f db =
     map_err E (res_bind (eng_query E db q) (\<lambda>rows.
       case rows of [] \<Rightarrow> Inr None | r # rs \<Rightarrow> res_map Some (f r)))"

definition query_row ::
  "'db sql_engine \<Rightarrow> sql_query \<Rightarrow> (sql_row \<Rightarrow> sql_error + 'a) \<Rightarrow> 'db \<Rightarrow> 'a result" where
  "query_row E q f db =
     map_err E (res_bind (eng_query E db q) (\<lambda>rows.
       case rows of [] \<Rightarrow> Inl QueryReturnedNoRows | r # rs \<Rightarrow> f r))"

text \<open>
  A transaction: its body ends with \<open>commit\<close>, or returns a value without it. A transaction that is
  dropped, by such a return, an error, or a failed commit, is rolled back.
\<close>

datatype 'a tx_end = CommitTx 'a | DropTx 'a

definition in_transaction ::
  "'db sql_engine \<Rightarrow> ('db, 'a tx_end) command \<Rightarrow> ('db, 'a) command" where
  "in_transaction E body db =
     (case eng_begin E db of
        (Inl e, db1) \<Rightarrow> (Inl (map_sql_error E e), db1)
      | (Inr _, db1) \<Rightarrow>
          (case body db1 of
             (Inl e, db2) \<Rightarrow> (Inl e, eng_rollback E db2)
           | (Inr (DropTx x), db2) \<Rightarrow> (Inr x, eng_rollback E db2)
           | (Inr (CommitTx x), db2) \<Rightarrow>
               (case eng_commit E db2 of
                  (Inl e, db3) \<Rightarrow> (Inl (map_sql_error E e), eng_rollback E db3)
                | (Inr _, db3) \<Rightarrow> (Inr x, db3))))"

definition commit_with :: "'a \<Rightarrow> ('db, 'a tx_end) command" where
  "commit_with x = cmd_return (CommitTx x)"

abbreviation select_where :: "string list \<Rightarrow> string \<Rightarrow> string \<Rightarrow> sql_value \<Rightarrow> sql_query" where
  "select_where columns t c v \<equiv>
     \<lparr>q_columns = columns, q_from = t, q_where = Some (c, v), q_order = []\<rparr>"

section \<open>The clock\<close>

definition tick_query :: sql_query where
  "tick_query = select_where [''value''] ''meta'' ''key'' (SqlText ''tick'')"

definition sqlite_read_tick :: "'db sql_engine \<Rightarrow> 'db \<Rightarrow> u64 result" where
  "sqlite_read_tick E db =
     res_bind (query_row E tick_query (\<lambda>r. get_text r ''value'') db) (\<lambda>value.
     res_map of_nat (ok_or (CorruptedState (''invalid tick value in sqlite meta table: '' @ value))
       (parse_uint (2 ^ 64 - 1) value)))"

definition write_tick :: "u64 \<Rightarrow> sql_statement" where
  "write_tick next = UpdateWhere ''meta'' (''value'', SqlText (show_nat (unat next))) (''key'', SqlText ''tick'')"

definition next_tick_tx :: "'db sql_engine \<Rightarrow> ('db, u64) command" where
  "next_tick_tx E =
     cmd_bind (cmd_read (sqlite_read_tick E)) (\<lambda>current.
     let next = sat_add current 1 in
     cmd_bind (run_statement E (Inr (write_tick next))) (\<lambda>_. cmd_return next))"

section \<open>Rows\<close>

definition account_scopes ::
  "'db sql_engine \<Rightarrow> 'db \<Rightarrow> account_id \<Rightarrow> sql_error + wallet_scope_id list" where
  "account_scopes E db i =
     res_bind (eng_query E db \<lparr>q_columns = [''scope_id''], q_from = ''scopes'',
         q_where = Some (''account_id'', SqlText (account_id_str i)),
         q_order = [''priority'', ''scope_id'']\<rparr>)
       (res_collect (\<lambda>r. res_map WalletScopeId (get_text r ''scope_id'')))"

definition account_from_row ::
  "(sql_error + wallet_scope_id list) \<Rightarrow> sql_row \<Rightarrow> sql_error + account" where
  "account_from_row scopes r =
     res_bind (get_text r ''account_id'') (\<lambda>i.
     res_bind (get_text r ''name'') (\<lambda>name.
     res_bind scopes (\<lambda>scope_ids.
     res_bind (res_bind (get_text r ''capabilities'') decode_capabilities) (\<lambda>capabilities.
     Inr \<lparr>ac_id = AccountId i, ac_name = name, ac_scopes = scope_ids, ac_capabilities = capabilities\<rparr>))))"

definition sqlite_read_account :: "'db sql_engine \<Rightarrow> 'db \<Rightarrow> account_id \<Rightarrow> account option result" where
  "sqlite_read_account E db i =
     query_optional E
       (select_where [''account_id'', ''name'', ''capabilities''] ''accounts'' ''account_id''
         (SqlText (account_id_str i)))
       (account_from_row (account_scopes E db i)) db"

definition scope_from_row :: "sql_row \<Rightarrow> sql_error + wallet_scope" where
  "scope_from_row r =
     res_bind (get_text r ''scope_id'') (\<lambda>i.
     res_bind (get_text r ''account_id'') (\<lambda>a.
     res_bind (get_text r ''descriptor_ref'') (\<lambda>descriptor.
     res_bind (get_text r ''derivation_scope'') (\<lambda>derivation.
     res_bind (res_bind (get_text r ''capabilities'') decode_capabilities) (\<lambda>capabilities.
     res_bind (get_u32 r ''priority'') (\<lambda>priority.
     Inr \<lparr>ws_id = WalletScopeId i, ws_account_id = AccountId a, ws_descriptor_ref = descriptor,
          ws_derivation_scope = derivation, ws_capabilities = capabilities, ws_priority = priority\<rparr>))))))"

definition sqlite_read_scope ::
  "'db sql_engine \<Rightarrow> 'db \<Rightarrow> wallet_scope_id \<Rightarrow> wallet_scope option result" where
  "sqlite_read_scope E db i =
     query_optional E
       (select_where [''scope_id'', ''account_id'', ''descriptor_ref'', ''derivation_scope'',
          ''capabilities'', ''priority''] ''scopes'' ''scope_id'' (SqlText (wallet_scope_id_str i)))
       scope_from_row db"

definition binding_of_columns ::
  "string option \<Rightarrow> string option \<Rightarrow> sql_error + operation_binding option" where
  "binding_of_columns operation phase =
     (case (operation, phase) of
        (Some i, Some ph) \<Rightarrow>
          res_map (\<lambda>p. Some \<lparr>bd_operation_id = OperationId i, bd_phase = p\<rparr>) (decode_phase ph)
      | _ \<Rightarrow> Inr None)"

definition conflict_of_columns ::
  "string option \<Rightarrow> u64 option \<Rightarrow> observation_conflict option" where
  "conflict_of_columns message recorded_at =
     (case (message, recorded_at) of
        (Some m, Some t) \<Rightarrow> Some \<lparr>oc_message = m, oc_recorded_at = t\<rparr>
      | _ \<Rightarrow> None)"

definition utxo_from_row :: "'db sql_engine \<Rightarrow> sql_row \<Rightarrow> sql_error + managed_utxo" where
  "utxo_from_row E r =
     res_bind (get_text_option r ''binding_operation_id'') (\<lambda>binding_operation_id.
     res_bind (get_text_option r ''binding_phase'') (\<lambda>binding_phase.
     res_bind (get_text_option r ''conflict_message'') (\<lambda>conflict_message.
     res_bind (get_u64_option r ''conflict_recorded_at'') (\<lambda>conflict_recorded_at.
     if (binding_operation_id \<noteq> None) \<noteq> (binding_phase \<noteq> None)
     then Inl (corrupted_state_error
       ''sqlite utxos row has mismatched binding_operation_id and binding_phase columns'')
     else if (conflict_message \<noteq> None) \<noteq> (conflict_recorded_at \<noteq> None)
     then Inl (corrupted_state_error
       ''sqlite utxos row has mismatched conflict_message and conflict_recorded_at columns'')
     else
     res_bind (res_bind (get_text r ''outpoint'') (decode_outpoint E)) (\<lambda>p.
     res_bind (get_text r ''txid'') (\<lambda>transaction.
     res_bind (get_u32 r ''vout'') (\<lambda>index.
     if p \<noteq> OutPoint transaction index
     then Inl (corrupted_state_error ''sqlite utxos outpoint disagrees with txid/vout columns'')
     else
     res_bind (get_text r ''account_id'') (\<lambda>a.
     res_bind (get_text r ''scope_id'') (\<lambda>sc.
     res_bind (get_u64 r ''value_sats'') (\<lambda>value.
     res_bind (res_bind (get_text r ''onchain_state'') decode_onchain) (\<lambda>st.
     res_bind (res_bind (get_text r ''availability'') decode_availability) (\<lambda>av.
     res_bind (res_bind (get_text r ''role'') decode_role) (\<lambda>ro.
     res_bind (binding_of_columns binding_operation_id binding_phase) (\<lambda>binding.
     Inr \<lparr>mu_outpoint = p, mu_account_id = AccountId a, mu_scope_id = WalletScopeId sc,
          mu_value_sats = value, mu_onchain_state = st, mu_availability = av, mu_role = ro,
          mu_operation_binding = binding,
          mu_observation_conflict = conflict_of_columns conflict_message conflict_recorded_at\<rparr>))))))))))))))"

definition sqlite_read_utxo :: "'db sql_engine \<Rightarrow> 'db \<Rightarrow> outpoint \<Rightarrow> managed_utxo option result" where
  "sqlite_read_utxo E db p =
     query_optional E (select_where [] ''utxos'' ''outpoint'' (SqlText (outpoint_string p)))
       (utxo_from_row E) db"

definition lock_from_row :: "sql_row \<Rightarrow> sql_error + operation_lock" where
  "lock_from_row r =
     res_bind (get_text r ''operation_id'') (\<lambda>i.
     res_bind (get_text r ''account_id'') (\<lambda>a.
     res_bind (get_text r ''scope_id'') (\<lambda>sc.
     res_bind (res_bind (get_text r ''purpose'') decode_purpose) (\<lambda>purpose.
     res_bind (get_text r ''owner'') (\<lambda>owner.
     res_bind (get_u64 r ''created_at'') (\<lambda>created_at.
     res_bind (get_u64_option r ''expires_at'') (\<lambda>expires_at.
     Inr \<lparr>lk_operation_id = OperationId i, lk_account_id = AccountId a, lk_scope_id = WalletScopeId sc,
          lk_purpose = purpose, lk_owner = owner, lk_created_at = created_at,
          lk_expires_at = expires_at\<rparr>)))))))"

definition sqlite_read_lock :: "'db sql_engine \<Rightarrow> 'db \<Rightarrow> outpoint \<Rightarrow> operation_lock option result" where
  "sqlite_read_lock E db p =
     query_optional E
       (select_where [''operation_id'', ''account_id'', ''scope_id'', ''purpose'', ''owner'',
          ''created_at'', ''expires_at''] ''locks'' ''outpoint'' (SqlText (outpoint_string p)))
       lock_from_row db"

definition operation_from_row :: "sql_row \<Rightarrow> sql_error + persisted_operation" where
  "operation_from_row r =
     res_bind (get_text r ''operation_id'') (\<lambda>i.
     res_bind (res_bind (get_text r ''phase'') decode_phase) (\<lambda>ph.
     res_bind (get_u64 r ''updated_at'') (\<lambda>updated_at.
     res_bind (get_u64_option r ''expires_at'') (\<lambda>expires_at.
     Inr \<lparr>po_operation_id = OperationId i, po_phase = ph, po_updated_at = updated_at,
          po_expires_at = expires_at\<rparr>))))"

abbreviation operation_columns :: "string list" where
  "operation_columns \<equiv> [''operation_id'', ''phase'', ''updated_at'', ''expires_at'']"

definition sqlite_read_operation ::
  "'db sql_engine \<Rightarrow> 'db \<Rightarrow> operation_id \<Rightarrow> persisted_operation option result" where
  "sqlite_read_operation E db i =
     query_optional E
       (select_where operation_columns ''operations'' ''operation_id'' (SqlText (operation_id_str i)))
       operation_from_row db"

text \<open>The phase alone, which two transactions read.\<close>

definition read_phase :: "'db sql_engine \<Rightarrow> 'db \<Rightarrow> operation_id \<Rightarrow> operation_phase option result" where
  "read_phase E db i =
     query_optional E
       (select_where [''phase''] ''operations'' ''operation_id'' (SqlText (operation_id_str i)))
       (\<lambda>r. res_bind (get_text r ''phase'') decode_phase) db"

section \<open>Intents\<close>

type_synonym intent_header = "wallet_scope_id \<times> intent_status \<times> u64 \<times> u64 option"

definition header_from_row :: "sql_row \<Rightarrow> sql_error + intent_header" where
  "header_from_row r =
     res_bind (get_text r ''change_scope_id'') (\<lambda>sc.
     res_bind (res_bind (get_text r ''status'') decode_status) (\<lambda>status.
     res_bind (get_u64 r ''recorded_at'') (\<lambda>recorded_at.
     res_bind (get_u64_option r ''expires_at'') (\<lambda>expires_at.
     Inr (WalletScopeId sc, status, recorded_at, expires_at)))))"

definition read_intent_header ::
  "'db sql_engine \<Rightarrow> 'db \<Rightarrow> operation_id \<Rightarrow> intent_header option result" where
  "read_intent_header E db i =
     query_optional E
       (select_where [''change_scope_id'', ''status'', ''recorded_at'', ''expires_at''] ''intents''
         ''operation_id'' (SqlText (operation_id_str i)))
       header_from_row db"

definition input_from_row :: "'db sql_engine \<Rightarrow> sql_row \<Rightarrow> sql_error + outpoint" where
  "input_from_row E r = res_bind (get_text r ''outpoint'') (decode_outpoint E)"

definition effect_from_row :: "'db sql_engine \<Rightarrow> operation_id \<Rightarrow> sql_row \<Rightarrow> sql_error + selection_effect" where
  "effect_from_row E i r =
     res_bind (get_text r ''effect_kind'') (\<lambda>kind.
     if kind = ''lock_utxo''
     then res_bind (res_bind (get_text r ''outpoint'') (decode_outpoint E)) (\<lambda>p.
          res_bind (res_bind (get_text r ''purpose'') decode_purpose) (\<lambda>purpose.
          Inr (LockUtxo p purpose)))
     else Inl (corrupted_state_error (''unknown intent effect kind '' @ [CHR 0x27] @ kind @ [CHR 0x27] @
            '' for operation '' @ operation_id_str i)))"

definition inputs_query :: "operation_id \<Rightarrow> sql_query" where
  "inputs_query i =
     \<lparr>q_columns = [''outpoint''], q_from = ''intent_inputs'',
      q_where = Some (''operation_id'', SqlText (operation_id_str i)), q_order = [''position'']\<rparr>"

definition effects_query :: "operation_id \<Rightarrow> sql_query" where
  "effects_query i =
     \<lparr>q_columns = [''effect_kind'', ''outpoint'', ''purpose''], q_from = ''intent_effects'',
      q_where = Some (''operation_id'', SqlText (operation_id_str i)), q_order = [''position'']\<rparr>"

definition read_intent_selection ::
  "'db sql_engine \<Rightarrow> 'db \<Rightarrow> operation_id \<Rightarrow> wallet_scope_id \<Rightarrow> u64 option \<Rightarrow> operation_selection result"
  where
  "read_intent_selection E db i change_scope_id expires_at =
     res_bind (collect_rows E (inputs_query i) (input_from_row E) db) (\<lambda>selected_outpoints.
     res_bind (collect_rows E (effects_query i) (effect_from_row E i) db) (\<lambda>effects.
     Inr \<lparr>os_operation_id = i, os_selected_outpoints = selected_outpoints,
          os_change_scope_id = change_scope_id, os_effects = effects, os_expires_at = expires_at\<rparr>))"

definition sqlite_read_intent ::
  "'db sql_engine \<Rightarrow> 'db \<Rightarrow> operation_id \<Rightarrow> operation_intent option result" where
  "sqlite_read_intent E db i =
     res_bind (read_intent_header E db i) (\<lambda>found.
     case found of
       None \<Rightarrow> Inr None
     | Some (change_scope_id, status, recorded_at, expires_at) \<Rightarrow>
         res_bind (read_intent_selection E db i change_scope_id expires_at) (\<lambda>selection.
         Inr (Some \<lparr>oi_selection = selection, oi_status = status, oi_recorded_at = recorded_at\<rparr>)))"

section \<open>Listings\<close>

definition sqlite_list_utxos :: "'db sql_engine \<Rightarrow> 'db \<Rightarrow> managed_utxo list result" where
  "sqlite_list_utxos E db =
     collect_rows E \<lparr>q_columns = [], q_from = ''utxos'', q_where = None, q_order = [''outpoint'']\<rparr>
       (utxo_from_row E) db"

definition sqlite_list_operations :: "'db sql_engine \<Rightarrow> 'db \<Rightarrow> persisted_operation list result" where
  "sqlite_list_operations E db =
     collect_rows E \<lparr>q_columns = operation_columns, q_from = ''operations'', q_where = None,
         q_order = [''operation_id'']\<rparr>
       operation_from_row db"

definition pending_from_row :: "sql_row \<Rightarrow> sql_error + operation_id \<times> intent_header" where
  "pending_from_row r =
     res_bind (get_text r ''operation_id'') (\<lambda>i.
     res_bind (header_from_row r) (\<lambda>header. Inr (OperationId i, header)))"

definition pending_query :: sql_query where
  "pending_query =
     \<lparr>q_columns = [''operation_id'', ''change_scope_id'', ''status'', ''recorded_at'', ''expires_at''],
      q_from = ''intents'', q_where = Some (''status'', SqlText ''pending''),
      q_order = [''operation_id'']\<rparr>"

definition sqlite_list_pending_intents :: "'db sql_engine \<Rightarrow> 'db \<Rightarrow> operation_intent list result" where
  "sqlite_list_pending_intents E db =
     res_bind (map_err E (eng_query E db pending_query)) (\<lambda>rows.
     res_collect (\<lambda>row.
       res_bind (map_err E (pending_from_row row)) (\<lambda>(i, change_scope_id, status, recorded_at, expires_at).
       res_bind (read_intent_selection E db i change_scope_id expires_at) (\<lambda>selection.
       Inr \<lparr>oi_selection = selection, oi_status = status, oi_recorded_at = recorded_at\<rparr>))) rows)"

section \<open>Statements of the transactions\<close>

definition utxo_statement :: "managed_utxo \<Rightarrow> sql_error + sql_statement" where
  "utxo_statement utxo =
     (let binding = mu_operation_binding utxo; conflict = mu_observation_conflict utxo;
          binding_operation_id = map_option (\<lambda>b. operation_id_str (bd_operation_id b)) binding;
          binding_phase = map_option (\<lambda>b. encode_phase (bd_phase b)) binding
      in res_bind (sql_of_u64 (mu_value_sats utxo)) (\<lambda>value.
         res_bind (sql_of_u64_option (map_option oc_recorded_at conflict)) (\<lambda>conflict_recorded_at.
         Inr (InsertOrReplace ''utxos''
           [(''outpoint'', SqlText (outpoint_string (mu_outpoint utxo))),
            (''txid'', SqlText (txid (mu_outpoint utxo))),
            (''vout'', sql_of_u32 (vout (mu_outpoint utxo))),
            (''account_id'', SqlText (account_id_str (mu_account_id utxo))),
            (''scope_id'', SqlText (wallet_scope_id_str (mu_scope_id utxo))),
            (''value_sats'', value),
            (''onchain_state'', SqlText (encode_onchain (mu_onchain_state utxo))),
            (''availability'', SqlText (encode_availability (mu_availability utxo))),
            (''role'', SqlText (encode_role (mu_role utxo))),
            (''binding_operation_id'', sql_of_text_option binding_operation_id),
            (''binding_phase'', sql_of_text_option binding_phase),
            (''conflict_message'', sql_of_text_option (map_option oc_message conflict)),
            (''conflict_recorded_at'', conflict_recorded_at)]))))"

definition write_utxo_tx :: "'db sql_engine \<Rightarrow> managed_utxo \<Rightarrow> ('db, unit) command" where
  "write_utxo_tx E utxo = run_statement E (utxo_statement utxo)"

definition operation_statement :: "persisted_operation \<Rightarrow> sql_error + sql_statement" where
  "operation_statement operation =
     res_bind (sql_of_u64 (po_updated_at operation)) (\<lambda>updated.
     res_bind (sql_of_u64_option (po_expires_at operation)) (\<lambda>expires.
     Inr (InsertOrReplace ''operations''
       [(''operation_id'', SqlText (operation_id_str (po_operation_id operation))),
        (''phase'', SqlText (encode_phase (po_phase operation))),
        (''updated_at'', updated), (''expires_at'', expires)])))"

definition write_operation_tx :: "'db sql_engine \<Rightarrow> persisted_operation \<Rightarrow> ('db, unit) command" where
  "write_operation_tx E operation = run_statement E (operation_statement operation)"

definition lock_statement :: "outpoint \<Rightarrow> operation_lock \<Rightarrow> sql_error + sql_statement" where
  "lock_statement p lock =
     res_bind (sql_of_u64 (lk_created_at lock)) (\<lambda>created.
     res_bind (sql_of_u64_option (lk_expires_at lock)) (\<lambda>expires.
     Inr (InsertOrReplace ''locks''
       [(''outpoint'', SqlText (outpoint_string p)),
        (''operation_id'', SqlText (operation_id_str (lk_operation_id lock))),
        (''account_id'', SqlText (account_id_str (lk_account_id lock))),
        (''scope_id'', SqlText (wallet_scope_id_str (lk_scope_id lock))),
        (''purpose'', SqlText (encode_purpose (lk_purpose lock))),
        (''owner'', SqlText (lk_owner lock)), (''created_at'', created), (''expires_at'', expires)])))"

definition write_lock_tx ::
  "'db sql_engine \<Rightarrow> outpoint \<Rightarrow> operation_lock \<Rightarrow> ('db, unit) command" where
  "write_lock_tx E p lock = run_statement E (lock_statement p lock)"

definition owned_query :: "operation_id \<Rightarrow> sql_query" where
  "owned_query i =
     \<lparr>q_columns = [''outpoint''], q_from = ''utxos'',
      q_where = Some (''binding_operation_id'', SqlText (operation_id_str i)), q_order = [''outpoint'']\<rparr>"

definition read_owned :: "'db sql_engine \<Rightarrow> operation_id \<Rightarrow> 'db \<Rightarrow> outpoint list result" where
  "read_owned E i = collect_rows E (owned_query i) (input_from_row E)"

text \<open>The loop over the outputs an operation owns: read, change, write.\<close>

fun change_owned ::
  "'db sql_engine \<Rightarrow> (managed_utxo \<Rightarrow> managed_utxo) \<Rightarrow> outpoint list \<Rightarrow> ('db, outpoint list) command" where
  "change_owned E f [] = cmd_return []"
| "change_owned E f (p # ps) =
     cmd_bind (cmd_read (\<lambda>db. sqlite_read_utxo E db p)) (\<lambda>found.
     cmd_bind (cmd_read (\<lambda>_. ok_or (UtxoNotFound p) found)) (\<lambda>utxo.
     cmd_bind (write_utxo_tx E (f utxo)) (\<lambda>_.
     cmd_bind (change_owned E f ps) (\<lambda>rest. cmd_return (p # rest)))))"

definition release_operation_tx ::
  "'db sql_engine \<Rightarrow> operation_id \<Rightarrow> operation_phase \<Rightarrow> ('db, outpoint list) command" where
  "release_operation_tx E i released_phase =
     cmd_bind (cmd_read (read_owned E i)) (\<lambda>outpoints.
     cmd_bind (change_owned E release_binding outpoints) (\<lambda>released.
     cmd_bind (run_statement E (Inr (DeleteWhere ''locks'' (''operation_id'', SqlText (operation_id_str i))))) (\<lambda>_.
     cmd_bind (next_tick_tx E) (\<lambda>updated_at.
     cmd_bind (write_operation_tx E \<lparr>po_operation_id = i, po_phase = released_phase,
       po_updated_at = updated_at, po_expires_at = None\<rparr>) (\<lambda>_.
     cmd_return released)))))"

definition validate_lock_effect_tx ::
  "'db sql_engine \<Rightarrow> operation_selection \<Rightarrow> operation_phase \<Rightarrow> outpoint \<Rightarrow> 'db \<Rightarrow> unit result" where
  "validate_lock_effect_tx E sel ph p db =
     res_bind (sqlite_read_utxo E db p) (\<lambda>found.
     res_bind (ok_or (UtxoNotFound p) found) (\<lambda>u.
     res_bind (sqlite_read_lock E db p) (\<lambda>lock.
     let lock_present = (lock \<noteq> None) in
     if can_be_locked u lock_present then Inr ()
     else if is_some_and (mu_operation_binding u)
               (\<lambda>b. bd_operation_id b = os_operation_id sel \<and> bd_phase b = ph) \<and>
             is_some_and lock (\<lambda>l. lk_operation_id l = os_operation_id sel)
     then Inr ()
     else if mu_availability u \<noteq> Selectable then Inl (UtxoUnavailable p (mu_availability u))
     else if mu_observation_conflict u \<noteq> None
     then Inl (ObservationConflictError p (mu_onchain_state u))
     else Inl (UtxoPolicyBlocked p
            (''utxo is not safely spendable: onchain_state='' @ onchain_debug (mu_onchain_state u) @
             '', lock_present='' @ bool_debug lock_present)))))"

definition apply_effect_tx :: "'db sql_engine \<Rightarrow> state_batch \<Rightarrow> selection_effect \<Rightarrow> ('db, unit) command" where
  "apply_effect_tx E b e =
     (let sel = sb_selection b; p = effect_outpoint e; purpose = effect_purpose e in
      cmd_bind (cmd_read (validate_lock_effect_tx E sel (sb_phase b) p)) (\<lambda>_.
      cmd_bind (cmd_read (\<lambda>db. sqlite_read_utxo E db p)) (\<lambda>found.
      cmd_bind (cmd_read (\<lambda>_. ok_or (UtxoNotFound p) found)) (\<lambda>utxo.
      cmd_bind (cmd_read (\<lambda>db. sqlite_read_lock E db p)) (\<lambda>existing_lock.
      let already_applied =
            (is_some_and (mu_operation_binding utxo)
               (\<lambda>bd. bd_operation_id bd = os_operation_id sel \<and> bd_phase bd = sb_phase b) \<and>
             is_some_and existing_lock (\<lambda>l. lk_operation_id l = os_operation_id sel))
      in if already_applied
         then (if is_some_and existing_lock
                    (\<lambda>lock. lk_purpose lock \<noteq> purpose \<or> lk_expires_at lock \<noteq> os_expires_at sel \<or>
                       lk_account_id lock \<noteq> mu_account_id utxo \<or> lk_scope_id lock \<noteq> mu_scope_id utxo)
               then cmd_fail (IntentConflict (os_operation_id sel))
               else cmd_return ())
         else
           let reserved = reserve_utxo (os_operation_id sel) (sb_phase b) utxo in
           cmd_bind (write_utxo_tx E reserved) (\<lambda>_.
           cmd_bind (cmd_read (sqlite_read_tick E)) (\<lambda>tick.
           write_lock_tx E p
             \<lparr>lk_operation_id = os_operation_id sel, lk_account_id = mu_account_id reserved,
              lk_scope_id = mu_scope_id reserved, lk_purpose = purpose, lk_owner = sb_owner b,
              lk_created_at = sat_add tick 1, lk_expires_at = os_expires_at sel\<rparr>)))))))"

text \<open>Read an output and, when it is recorded, write it back changed.\<close>

definition change_utxo_tx ::
  "'db sql_engine \<Rightarrow> outpoint \<Rightarrow> (managed_utxo \<Rightarrow> managed_utxo) \<Rightarrow> ('db, unit) command \<Rightarrow> ('db, unit) command"
  where
  "change_utxo_tx E p f after =
     cmd_bind (cmd_read (\<lambda>db. sqlite_read_utxo E db p)) (\<lambda>found.
     case found of
       None \<Rightarrow> cmd_return ()
     | Some utxo \<Rightarrow> cmd_bind (write_utxo_tx E (f utxo)) (\<lambda>_. after))"

fun apply_action_tx :: "'db sql_engine \<Rightarrow> reconciliation_action \<Rightarrow> ('db, unit) command" where
  "apply_action_tx E (DiscoverNew ob) =
     cmd_bind (cmd_read (\<lambda>db. sqlite_read_utxo E db (ob_outpoint ob))) (\<lambda>found.
     if found \<noteq> None then cmd_return ()
     else write_utxo_tx E (discover_from_observed (ob_outpoint ob) (ob_account_id ob) (ob_scope_id ob)
            (ob_value_sats ob) (ob_confirmation ob)))"
| "apply_action_tx E (RefreshObserved ob) = cmd_return ()"
| "apply_action_tx E (UpdateOnchainState p new_state) =
     change_utxo_tx E p (\<lambda>u. if mu_onchain_state u \<in> {Spent, SpendingInFlight} then u
       else u\<lparr>mu_onchain_state := new_state\<rparr>) (cmd_return ())"
| "apply_action_tx E (MarkSpent p tx) =
     change_utxo_tx E p mark_spent
       (run_statement E (Inr (DeleteWhere ''locks'' (''outpoint'', SqlText (outpoint_string p)))))"
| "apply_action_tx E (ReportConflict p m t) =
     change_utxo_tx E p (\<lambda>u. u\<lparr>mu_observation_conflict := Some \<lparr>oc_message = m, oc_recorded_at = t\<rparr>\<rparr>)
       (cmd_return ())"
| "apply_action_tx E (ClearConflict p) =
     change_utxo_tx E p (\<lambda>u. u\<lparr>mu_observation_conflict := None\<rparr>) (cmd_return ())"
| "apply_action_tx E (UpdateAvailability p av) =
     change_utxo_tx E p (\<lambda>u. u\<lparr>mu_availability := av\<rparr>) (cmd_return ())"
| "apply_action_tx E (MarkMissing p) = change_utxo_tx E p mark_missing (cmd_return ())"

section \<open>Writes\<close>

definition sqlite_put_account :: "'db sql_engine \<Rightarrow> account \<Rightarrow> ('db, unit) command" where
  "sqlite_put_account E a =
     in_transaction E
       (cmd_bind (run_statement E (Inr (InsertOrReplace ''accounts''
          [(''account_id'', SqlText (account_id_str (ac_id a))), (''name'', SqlText (ac_name a)),
           (''capabilities'', SqlText (encode_capabilities (ac_capabilities a)))]))) (\<lambda>_.
        cmd_bind (next_tick_tx E) (\<lambda>_. commit_with ())))"

definition sqlite_put_scope :: "'db sql_engine \<Rightarrow> wallet_scope \<Rightarrow> ('db, unit) command" where
  "sqlite_put_scope E sc =
     in_transaction E
       (cmd_bind (cmd_read (query_optional E
          (select_where [] ''accounts'' ''account_id'' (SqlText (account_id_str (ws_account_id sc))))
          (\<lambda>_. Inr ()))) (\<lambda>exists.
        if exists = None then cmd_fail (AccountNotFound (ws_account_id sc))
        else
        cmd_bind (run_statement E (Inr (InsertOrReplace ''scopes''
          [(''scope_id'', SqlText (wallet_scope_id_str (ws_id sc))),
           (''account_id'', SqlText (account_id_str (ws_account_id sc))),
           (''descriptor_ref'', SqlText (ws_descriptor_ref sc)),
           (''derivation_scope'', SqlText (ws_derivation_scope sc)),
           (''capabilities'', SqlText (encode_capabilities (ws_capabilities sc))),
           (''priority'', sql_of_u32 (ws_priority sc))]))) (\<lambda>_.
        cmd_bind (next_tick_tx E) (\<lambda>_. commit_with ()))))"

definition sqlite_put_utxo :: "'db sql_engine \<Rightarrow> managed_utxo \<Rightarrow> ('db, unit) command" where
  "sqlite_put_utxo E u =
     in_transaction E
       (cmd_bind (write_utxo_tx E u) (\<lambda>_. cmd_bind (next_tick_tx E) (\<lambda>_. commit_with ())))"

definition sqlite_advance_tick :: "'db sql_engine \<Rightarrow> u64 \<Rightarrow> ('db, unit) command" where
  "sqlite_advance_tick E delta =
     cmd_bind (cmd_read (sqlite_read_tick E)) (\<lambda>current.
     run_statement E (Inr (write_tick (sat_add current (max delta 1)))))"

definition insert_input :: "operation_id \<Rightarrow> nat \<Rightarrow> outpoint \<Rightarrow> sql_statement" where
  "insert_input i position p =
     InsertInto ''intent_inputs''
       [(''operation_id'', SqlText (operation_id_str i)), (''position'', SqlInteger (int position)),
        (''outpoint'', SqlText (outpoint_string p))]"

definition insert_effect :: "operation_id \<Rightarrow> nat \<Rightarrow> selection_effect \<Rightarrow> sql_statement" where
  "insert_effect i position e =
     InsertInto ''intent_effects''
       [(''operation_id'', SqlText (operation_id_str i)), (''position'', SqlInteger (int position)),
        (''effect_kind'', SqlText ''lock_utxo''),
        (''outpoint'', SqlText (outpoint_string (effect_outpoint e))),
        (''purpose'', SqlText (encode_purpose (effect_purpose e)))]"

definition header_statement :: "operation_selection \<Rightarrow> u64 \<Rightarrow> sql_error + sql_statement" where
  "header_statement sel recorded_at =
     res_bind (sql_of_u64 recorded_at) (\<lambda>recorded.
     res_bind (sql_of_u64_option (os_expires_at sel)) (\<lambda>expires.
     Inr (InsertOrReplace ''intents''
       [(''operation_id'', SqlText (operation_id_str (os_operation_id sel))),
        (''change_scope_id'', SqlText (wallet_scope_id_str (os_change_scope_id sel))),
        (''status'', SqlText (encode_status Pending)), (''recorded_at'', recorded),
        (''expires_at'', expires)])))"

definition persist_intent_tx :: "'db sql_engine \<Rightarrow> operation_selection \<Rightarrow> ('db, operation_intent tx_end) command"
  where
  "persist_intent_tx E sel =
     (let i = os_operation_id sel; key = (''operation_id'', SqlText (operation_id_str i)) in
      cmd_bind (next_tick_tx E) (\<lambda>recorded_at.
      cmd_bind (run_statement E (header_statement sel recorded_at)) (\<lambda>_.
      cmd_bind (run_statement E (Inr (DeleteWhere ''intent_inputs'' key))) (\<lambda>_.
      cmd_bind (run_statement E (Inr (DeleteWhere ''intent_effects'' key))) (\<lambda>_.
      cmd_bind (cmd_each (\<lambda>(position, p). run_statement E (Inr (insert_input i position p)))
        (enumerate 0 (os_selected_outpoints sel))) (\<lambda>_.
      cmd_bind (cmd_each (\<lambda>(position, e). run_statement E (Inr (insert_effect i position e)))
        (enumerate 0 (os_effects sel))) (\<lambda>_.
      commit_with \<lparr>oi_selection = sel, oi_status = Pending, oi_recorded_at = recorded_at\<rparr>)))))))"

definition sqlite_persist_intent ::
  "'db sql_engine \<Rightarrow> operation_selection \<Rightarrow> ('db, operation_intent) command" where
  "sqlite_persist_intent E sel =
     cmd_bind (cmd_read (\<lambda>db. sqlite_read_intent E db (os_operation_id sel))) (\<lambda>found.
     case found of
       Some existing \<Rightarrow>
         if oi_selection existing \<noteq> sel then cmd_fail (IntentConflict (os_operation_id sel))
         else cmd_return existing
     | None \<Rightarrow> in_transaction E (persist_intent_tx E sel))"

definition update_status :: "operation_id \<Rightarrow> intent_status \<Rightarrow> sql_statement" where
  "update_status i status =
     UpdateWhere ''intents'' (''status'', SqlText (encode_status status))
       (''operation_id'', SqlText (operation_id_str i))"

definition sqlite_mark_intent_committed :: "'db sql_engine \<Rightarrow> operation_id \<Rightarrow> ('db, unit) command" where
  "sqlite_mark_intent_committed E i =
     in_transaction E
       (cmd_bind (cmd_read (\<lambda>db. read_intent_header E db i)) (\<lambda>header.
        if is_some_and header (\<lambda>(_, status, _, _). status = Failed) then cmd_fail (IntentNotPending i)
        else
        cmd_bind (execute_sql E (Inr (update_status i Committed))) (\<lambda>changed.
        if changed = 0 then cmd_fail (IntentNotFound i)
        else cmd_bind (next_tick_tx E) (\<lambda>_. commit_with ()))))"

definition sqlite_mark_intent_failed :: "'db sql_engine \<Rightarrow> operation_id \<Rightarrow> ('db, unit) command" where
  "sqlite_mark_intent_failed E i =
     in_transaction E
       (cmd_bind (cmd_read (\<lambda>db. read_intent_header E db i)) (\<lambda>found.
        cmd_bind (cmd_read (\<lambda>_. ok_or (IntentNotFound i) found)) (\<lambda>(_, status, _, _).
        case status of
          Committed \<Rightarrow> cmd_fail (IntentNotPending i)
        | Failed \<Rightarrow> cmd_return (DropTx ())
        | Pending \<Rightarrow>
            cmd_bind (cmd_read (\<lambda>db. read_phase E db i)) (\<lambda>phase.
            cmd_bind
              (case phase of
                 None \<Rightarrow> cmd_return ()
               | Some ph \<Rightarrow>
                   if ph = PhSelected
                   then cmd_bind (release_operation_tx E i PhRollingBack) (\<lambda>_. cmd_return ())
                   else if ph = PhRollingBack then cmd_return ()
                   else cmd_fail (InvalidOperationTransition i ph PhRollingBack)) (\<lambda>_.
            cmd_bind (run_statement E (Inr (update_status i Failed))) (\<lambda>_.
            cmd_bind (next_tick_tx E) (\<lambda>_. commit_with ())))))))"

definition check_batch_intent :: "'db sql_engine \<Rightarrow> state_batch \<Rightarrow> 'db \<Rightarrow> unit result" where
  "check_batch_intent E b db =
     (let sel = sb_selection b; i = os_operation_id sel in
      res_bind (read_intent_header E db i) (\<lambda>header.
      case header of
        None \<Rightarrow> Inr ()
      | Some (change_scope_id, status, _, expires_at) \<Rightarrow>
          if status = Failed then Inl (IntentNotPending i)
          else res_bind (read_intent_selection E db i change_scope_id expires_at) (\<lambda>recorded.
               if recorded \<noteq> sel then Inl (IntentConflict i) else Inr ())))"

definition check_batch_phase :: "'db sql_engine \<Rightarrow> state_batch \<Rightarrow> 'db \<Rightarrow> unit result" where
  "check_batch_phase E b db =
     (let i = os_operation_id (sb_selection b) in
      res_bind (read_phase E db i) (\<lambda>existing.
      case existing of
        None \<Rightarrow> Inr ()
      | Some phase \<Rightarrow>
          if phase \<noteq> sb_phase b \<or> phase = PhRollingBack
          then Inl (InvalidOperationTransition i phase (sb_phase b)) else Inr ()))"

definition apply_batch_tx :: "'db sql_engine \<Rightarrow> state_batch \<Rightarrow> ('db, unit tx_end) command" where
  "apply_batch_tx E b =
     (let sel = sb_selection b in
      cmd_bind (cmd_read (check_batch_intent E b)) (\<lambda>_.
      cmd_bind (cmd_read (check_batch_phase E b)) (\<lambda>_.
      cmd_bind (cmd_read (\<lambda>db. validate_capabilities (sqlite_read_account E db) (sqlite_read_scope E db)
        (sqlite_read_utxo E db) sel)) (\<lambda>_.
      cmd_bind (cmd_each (apply_effect_tx E b) (os_effects sel)) (\<lambda>_.
      cmd_bind (next_tick_tx E) (\<lambda>updated_at.
      cmd_bind (write_operation_tx E \<lparr>po_operation_id = os_operation_id sel, po_phase = sb_phase b,
        po_updated_at = updated_at, po_expires_at = os_expires_at sel\<rparr>) (\<lambda>_.
      commit_with ())))))))"

definition sqlite_apply_batch :: "'db sql_engine \<Rightarrow> state_batch \<Rightarrow> ('db, unit) command" where
  "sqlite_apply_batch E b = in_transaction E (apply_batch_tx E b)"

definition sqlite_apply_reconciliation :: "'db sql_engine \<Rightarrow> reconcile_plan \<Rightarrow> ('db, unit) command" where
  "sqlite_apply_reconciliation E plan =
     in_transaction E
       (cmd_bind (cmd_each (apply_action_tx E) (rp_actions plan)) (\<lambda>_.
        cmd_bind (next_tick_tx E) (\<lambda>_. commit_with ())))"

definition sqlite_release_operation ::
  "'db sql_engine \<Rightarrow> operation_id \<Rightarrow> operation_phase \<Rightarrow> ('db, outpoint list) command" where
  "sqlite_release_operation E i released_phase =
     in_transaction E (cmd_bind (release_operation_tx E i released_phase) commit_with)"

definition sqlite_release_selected_operation ::
  "'db sql_engine \<Rightarrow> operation_id \<Rightarrow> ('db, outpoint list option) command" where
  "sqlite_release_selected_operation E i =
     in_transaction E
       (cmd_bind (cmd_read (\<lambda>db. sqlite_read_operation E db i)) (\<lambda>operation.
        if \<not> is_some_and operation (\<lambda>x. po_phase x = PhSelected) then cmd_return (DropTx None)
        else cmd_bind (release_operation_tx E i PhRollingBack) (\<lambda>released. commit_with (Some released))))"

definition sqlite_complete_operation ::
  "'db sql_engine \<Rightarrow> operation_id \<Rightarrow> operation_phase \<Rightarrow> ('db, outpoint list) command" where
  "sqlite_complete_operation E i completed_phase =
     in_transaction E
       (cmd_bind (cmd_read (\<lambda>db. sqlite_read_operation E db i)) (\<lambda>found_operation.
        cmd_bind (cmd_read (\<lambda>_. ok_or (OperationNotFound i) found_operation)) (\<lambda>operation.
        cmd_bind (cmd_read (\<lambda>db. read_intent_header E db i)) (\<lambda>found_header.
        cmd_bind (cmd_read (\<lambda>_. ok_or (IntentNotFound i) found_header)) (\<lambda>(_, status, _, _).
        if status \<noteq> Committed then cmd_fail (IntentNotCommitted i)
        else
        cmd_bind (cmd_read (\<lambda>_. validate_advance operation completed_phase)) (\<lambda>advances.
        if \<not> advances then cmd_return (DropTx [])
        else
        cmd_bind (cmd_read (read_owned E i)) (\<lambda>outpoints.
        cmd_bind (change_owned E (advance_binding completed_phase) outpoints) (\<lambda>completed.
        cmd_bind (run_statement E (Inr (UpdateWhere ''locks'' (''expires_at'', SqlNull)
          (''operation_id'', SqlText (operation_id_str i))))) (\<lambda>_.
        cmd_bind (next_tick_tx E) (\<lambda>updated_at.
        cmd_bind (write_operation_tx E \<lparr>po_operation_id = i, po_phase = completed_phase,
          po_updated_at = updated_at, po_expires_at = None\<rparr>) (\<lambda>_.
        commit_with completed)))))))))))"

text \<open>The trait implementation over a connection.\<close>

definition sqlite_ops :: "'db sql_engine \<Rightarrow> 'db state_store" where
  "sqlite_ops E =
     \<lparr>get_account = sqlite_read_account E, get_scope = sqlite_read_scope E,
      get_utxo = sqlite_read_utxo E, get_lock = sqlite_read_lock E,
      get_operation = sqlite_read_operation E, get_intent = sqlite_read_intent E,
      list_utxos = sqlite_list_utxos E, list_operations = sqlite_list_operations E,
      list_pending_intents = sqlite_list_pending_intents E, current_tick = sqlite_read_tick E,
      put_account = sqlite_put_account E, put_scope = sqlite_put_scope E,
      put_utxo = sqlite_put_utxo E, advance_tick = sqlite_advance_tick E,
      persist_intent = sqlite_persist_intent E,
      mark_intent_committed = sqlite_mark_intent_committed E,
      mark_intent_failed = sqlite_mark_intent_failed E, apply_batch = sqlite_apply_batch E,
      apply_reconciliation = sqlite_apply_reconciliation E,
      release_selected_operation = sqlite_release_selected_operation E,
      release_operation = sqlite_release_operation E,
      complete_operation = sqlite_complete_operation E\<rparr>"

end
