(* ===== verification/Sqlite_Schema.thy ===== *)
theory Sqlite_Schema
  imports Sqlite_Store
begin

text \<open>
  Opening a SQLite database (\<open>initialize\<close> and \<open>ensure_current_schema\<close> in
  \<open>txoscope-store-sqlite/src/sqlite.rs\<close>): the tables, the migration of older versions, and the check of
  the columns the queries use.
\<close>

section \<open>Tables\<close>

definition account_reference :: sql_reference where
  "account_reference = \<lparr>rf_column = ''account_id'', rf_parent = ''accounts'', rf_cascade = False\<rparr>"

definition intent_reference :: sql_reference where
  "intent_reference = \<lparr>rf_column = ''operation_id'', rf_parent = ''intents'', rf_cascade = True\<rparr>"

abbreviation utxo_columns :: "string list" where
  "utxo_columns \<equiv>
     [''outpoint'', ''txid'', ''vout'', ''account_id'', ''scope_id'', ''value_sats'', ''onchain_state'',
      ''availability'', ''role'', ''binding_operation_id'', ''binding_phase'', ''conflict_message'',
      ''conflict_recorded_at'']"

abbreviation lock_columns :: "string list" where
  "lock_columns \<equiv>
     [''outpoint'', ''operation_id'', ''account_id'', ''scope_id'', ''purpose'', ''owner'', ''created_at'',
      ''expires_at'']"

abbreviation intent_columns :: "string list" where
  "intent_columns \<equiv> [''operation_id'', ''change_scope_id'', ''status'', ''recorded_at'', ''expires_at'']"

definition create_tables :: "sql_statement list" where
  "create_tables =
     [CreateTableIfNotExists ''meta'' [''key'', ''value''] [''key''] None,
      CreateTableIfNotExists ''accounts'' [''account_id'', ''name'', ''capabilities''] [''account_id''] None,
      CreateTableIfNotExists ''scopes''
        [''scope_id'', ''account_id'', ''descriptor_ref'', ''derivation_scope'', ''capabilities'', ''priority'']
        [''scope_id''] (Some account_reference),
      CreateTableIfNotExists ''utxos'' utxo_columns [''outpoint''] None,
      CreateTableIfNotExists ''locks'' lock_columns [''outpoint''] None,
      CreateTableIfNotExists ''operations'' operation_columns [''operation_id''] None,
      CreateTableIfNotExists ''intents'' intent_columns [''operation_id''] None,
      CreateTableIfNotExists ''intent_inputs'' [''operation_id'', ''position'', ''outpoint'']
        [''operation_id'', ''position''] (Some intent_reference),
      CreateTableIfNotExists ''intent_effects''
        [''operation_id'', ''position'', ''effect_kind'', ''outpoint'', ''purpose'']
        [''operation_id'', ''position''] (Some intent_reference)]"

definition initialize_batch :: "sql_statement list" where
  "initialize_batch =
     [Pragma ''journal_mode'' ''WAL'', Pragma ''synchronous'' ''FULL'', Pragma ''foreign_keys'' ''ON''] @
     create_tables"

section \<open>Migration\<close>

definition schema_version :: int where
  "schema_version = 3"

definition table_columns :: "'db sql_engine \<Rightarrow> string \<Rightarrow> 'db \<Rightarrow> string list result" where
  "table_columns E t db = map_err E (eng_columns E db t)"

definition add_column :: "'db sql_engine \<Rightarrow> string list \<Rightarrow> string \<Rightarrow> string \<Rightarrow> ('db, unit) command" where
  "add_column E present t c =
     (if c \<notin> set present then run_statement E (Inr (AlterTableAddColumn t c)) else cmd_return ())"

definition migrate_to_2 :: "'db sql_engine \<Rightarrow> ('db, unit) command" where
  "migrate_to_2 E =
     cmd_bind (cmd_read (table_columns E ''utxos'')) (\<lambda>utxo_info.
     cmd_bind (add_column E utxo_info ''utxos'' ''conflict_message'') (\<lambda>_.
     cmd_bind (add_column E utxo_info ''utxos'' ''conflict_recorded_at'') (\<lambda>_.
     run_statement E (Inr (SetUserVersion 2)))))"

definition migrate_to_3 :: "'db sql_engine \<Rightarrow> ('db, unit) command" where
  "migrate_to_3 E =
     cmd_each (\<lambda>t.
       cmd_bind (cmd_read (table_columns E t)) (\<lambda>columns.
       add_column E columns t ''expires_at'')) [''locks'', ''operations'', ''intents'']"

definition checked_tables :: "(string \<times> string list) list" where
  "checked_tables =
     [(''utxos'', utxo_columns), (''locks'', lock_columns), (''operations'', operation_columns),
      (''intents'', intent_columns)]"

definition check_table :: "'db sql_engine \<Rightarrow> 'db \<Rightarrow> string \<times> string list \<Rightarrow> unit result" where
  "check_table E db tc =
     (case eng_prepare E db \<lparr>q_columns = snd tc, q_from = fst tc, q_where = None, q_order = []\<rparr> of
        Inl err \<Rightarrow> Inl (Storage (''unsupported sqlite schema in table '' @ [CHR 0x27] @ fst tc @ [CHR 0x27] @
            '': '' @ eng_show E err))
      | Inr _ \<Rightarrow> Inr ())"

definition ensure_current_schema :: "'db sql_engine \<Rightarrow> ('db, unit) command" where
  "ensure_current_schema E =
     cmd_bind (cmd_read (\<lambda>db. map_err E (eng_version E db))) (\<lambda>current_version.
     if current_version > schema_version
     then cmd_fail (Storage (''unsupported sqlite schema version: '' @ show_nat (nat current_version)))
     else
     cmd_bind (if current_version < 2 then migrate_to_2 E else cmd_return ()) (\<lambda>_.
     cmd_bind (if current_version < 3 then migrate_to_3 E else cmd_return ()) (\<lambda>_.
     cmd_bind (cmd_read (\<lambda>db. res_each (check_table E db) checked_tables)) (\<lambda>_.
     run_statement E (Inr (SetUserVersion schema_version))))))"

definition initialize :: "'db sql_engine \<Rightarrow> ('db, unit) command" where
  "initialize E =
     cmd_bind (cmd_each (\<lambda>st. run_statement E (Inr st)) initialize_batch) (\<lambda>_.
     cmd_bind (ensure_current_schema E) (\<lambda>_.
     run_statement E (Inr (InsertOrIgnore ''meta'' [(''key'', SqlText ''tick''), (''value'', SqlText ''0'')]))))"

text \<open>
  \<open>open\<close> and \<open>open_in_memory\<close>: the driver's attempt to connect (to a file with the given flags, or to a new
  database in memory) is a parameter; the store is handed out only when its schema could be set up.
\<close>

definition sqlite_open :: "'db sql_engine \<Rightarrow> sql_error + 'db \<Rightarrow> 'db result" where
  "sqlite_open E connected =
     res_bind (map_err E connected) (\<lambda>conn.
     case initialize E conn of (Inl e, _) \<Rightarrow> Inl e | (Inr _, store) \<Rightarrow> Inr store)"

definition sqlite_open_in_memory :: "'db sql_engine \<Rightarrow> sql_error + 'db \<Rightarrow> 'db result" where
  "sqlite_open_in_memory E connected =
     res_bind (map_err E connected) (\<lambda>conn.
     case initialize E conn of (Inl e, _) \<Rightarrow> Inl e | (Inr _, store) \<Rightarrow> Inr store)"

end
