(* ===== verification/Sqlite_Tables.thy ===== *)
theory Sqlite_Tables
  imports Sqlite_Schema
begin

text \<open>
  A database table read as a finite map: its rows decode, and the decoded values have distinct keys.
  What each kind of statement and query does to the map.
\<close>

lemma res_collect_set: "res_collect f xs = Inr ys \<Longrightarrow> set ys = {y. \<exists>x\<in>set xs. f x = Inr y}"
  by (induction xs arbitrary: ys) (auto simp: res_bind_eq_Inr res_map_eq)

lemma distinct_singleton: "distinct xs \<Longrightarrow> set xs = {x} \<Longrightarrow> xs = [x]"
  by (cases xs) (auto simp: subset_singleton_iff)

section \<open>Tables as maps\<close>

definition table_values_of :: "(sql_row \<Rightarrow> sql_error + 'v) \<Rightarrow> sql_row list \<Rightarrow> 'v list" where
  "table_values_of f rows = (case res_collect f rows of Inl e \<Rightarrow> [] | Inr vs \<Rightarrow> vs)"

definition table_map :: "(sql_row \<Rightarrow> sql_error + 'v) \<Rightarrow> ('v \<Rightarrow> 'k) \<Rightarrow> sql_row list \<Rightarrow> 'k \<rightharpoonup> 'v" where
  "table_map f key rows = map_of (map (\<lambda>v. (key v, v)) (table_values_of f rows))"

definition table_ok :: "(sql_row \<Rightarrow> sql_error + 'v) \<Rightarrow> ('v \<Rightarrow> 'k) \<Rightarrow> sql_row list \<Rightarrow> bool" where
  "table_ok f key rows \<longleftrightarrow>
     (\<exists>vs. res_collect f rows = Inr vs \<and> distinct (map key vs))"

lemma table_ok_iff:
  "table_ok f key rows \<longleftrightarrow>
     (\<forall>r\<in>set rows. \<exists>v. f r = Inr v) \<and> distinct (map (\<lambda>r. key (projr (f r))) rows)"
proof
  assume "table_ok f key rows"
  then obtain vs where vs: "res_collect f rows = Inr vs" "distinct (map key vs)"
    by (auto simp: table_ok_def)
  have "vs = map (\<lambda>r. projr (f r)) rows"
    using vs(1) by (rule res_collect_map) simp
  with vs show "(\<forall>r\<in>set rows. \<exists>v. f r = Inr v) \<and> distinct (map (\<lambda>r. key (projr (f r))) rows)"
    using res_collect_each [OF vs(1)] by (auto simp: comp_def)
next
  assume h: "(\<forall>r\<in>set rows. \<exists>v. f r = Inr v) \<and> distinct (map (\<lambda>r. key (projr (f r))) rows)"
  then have "res_collect f rows = Inr (map (\<lambda>r. projr (f r)) rows)"
    by (intro res_collect_pure) force
  with h show "table_ok f key rows" by (simp add: table_ok_def comp_def)
qed

lemma table_ok_Nil [simp]: "table_ok f key []"
  by (simp add: table_ok_iff)

lemma table_okD: "table_ok f key rows \<Longrightarrow> r \<in> set rows \<Longrightarrow> \<exists>v. f r = Inr v"
  by (simp add: table_ok_iff)

lemma table_ok_unique:
  assumes "table_ok f key rows" and "r \<in> set rows" and "r' \<in> set rows"
    and "f r = Inr v" and "f r' = Inr v'" and "key v = key v'"
  shows "r = r'"
  using assms by (auto simp: table_ok_iff distinct_map inj_on_def)

lemma table_ok_distinct: "table_ok f key rows \<Longrightarrow> distinct rows"
  by (auto simp: table_ok_iff distinct_map)

lemma table_map_iff:
  assumes "table_ok f key rows"
  shows "table_map f key rows k = Some v \<longleftrightarrow> (\<exists>r\<in>set rows. f r = Inr v \<and> key v = k)"
proof -
  obtain vs where vs: "res_collect f rows = Inr vs" "distinct (map key vs)"
    using assms by (auto simp: table_ok_def)
  have set: "set vs = {v. \<exists>r\<in>set rows. f r = Inr v}"
    using vs(1) by (rule res_collect_set)
  have "distinct (map fst (map (\<lambda>v. (key v, v)) vs))" using vs(2) by (simp add: comp_def)
  then have "map_of (map (\<lambda>v. (key v, v)) vs) k = Some v \<longleftrightarrow> (k, v) \<in> set (map (\<lambda>v. (key v, v)) vs)"
    by (rule map_of_eq_Some_iff)
  then show ?thesis using set by (auto simp: table_map_def table_values_of_def vs(1))
qed

lemma table_map_row:
  "table_ok f key rows \<Longrightarrow> r \<in> set rows \<Longrightarrow> f r = Inr v \<Longrightarrow> table_map f key rows (key v) = Some v"
  using table_map_iff by fast

lemma table_map_key: "table_ok f key rows \<Longrightarrow> table_map f key rows k = Some v \<Longrightarrow> key v = k"
  by (auto simp: table_map_iff)

lemma table_map_None:
  "table_ok f key rows \<Longrightarrow> table_map f key rows k = None \<longleftrightarrow> (\<forall>r\<in>set rows. \<forall>v. f r = Inr v \<longrightarrow> key v \<noteq> k)"
proof -
  assume ok: "table_ok f key rows"
  have "table_map f key rows k = None \<longleftrightarrow> (\<forall>v. table_map f key rows k \<noteq> Some v)" by simp
  then show ?thesis by (auto simp: table_map_iff [OF ok])
qed

lemma table_map_ran: "table_ok f key rows \<Longrightarrow> ran (table_map f key rows) = {v. \<exists>r\<in>set rows. f r = Inr v}"
  by (auto simp: ran_def table_map_iff)

lemma table_map_eqI:
  assumes "table_ok f key rows" and "\<And>k v. m k = Some v \<longleftrightarrow> (\<exists>r\<in>set rows. f r = Inr v \<and> key v = k)"
  shows "table_map f key rows = m"
proof
  fix k
  show "table_map f key rows k = m k"
    using table_map_iff [OF assms(1)] assms(2) by (cases "m k") (metis not_Some_eq)+
qed

lemma table_map_Nil [simp]: "table_map f key [] = Map.empty"
  by (simp add: table_map_def table_values_of_def)

section \<open>Statements\<close>

lemma table_ok_filter: "table_ok f key rows \<Longrightarrow> table_ok f key (filter P rows)"
  by (simp add: table_ok_iff distinct_map_filter)

lemma table_map_filter:
  assumes "table_ok f key rows"
    and "\<And>r v. r \<in> set rows \<Longrightarrow> f r = Inr v \<Longrightarrow> P r \<longleftrightarrow> Q v"
  shows "table_map f key (filter P rows) =
    (\<lambda>k. case table_map f key rows k of None \<Rightarrow> None | Some v \<Rightarrow> if Q v then Some v else None)"
proof (rule table_map_eqI [OF table_ok_filter [OF assms(1)]])
  fix k v
  show "(case table_map f key rows k of None \<Rightarrow> None | Some v \<Rightarrow> if Q v then Some v else None) = Some v
    \<longleftrightarrow> (\<exists>r\<in>set (filter P rows). f r = Inr v \<and> key v = k)"
    using assms(2) by (auto simp: table_map_iff [OF assms(1)] split: option.splits if_splits)
      (metis option.distinct(1) table_map_row assms(1) option.inject)+
qed

text \<open>A new row replaces the one with its key, if there is one.\<close>

lemma table_upsert:
  assumes "table_ok f key rows" and "f new = Inr v"
    and "\<And>r w. r \<in> set rows \<Longrightarrow> f r = Inr w \<Longrightarrow> same new r \<longleftrightarrow> key w = key v"
  shows "table_ok f key (filter (\<lambda>r. \<not> same new r) rows @ [new])"
    and "table_map f key (filter (\<lambda>r. \<not> same new r) rows @ [new]) = (table_map f key rows)(key v \<mapsto> v)"
proof -
  let ?rows = "filter (\<lambda>r. \<not> same new r) rows"
  have other: "key w \<noteq> key v" if "r \<in> set ?rows" "f r = Inr w" for r w
    using that assms(3) by auto
  have "table_ok f key ?rows" using assms(1) by (rule table_ok_filter)
  then show ok: "table_ok f key (?rows @ [new])"
    using assms(2) other by (fastforce simp: table_ok_iff)
  show "table_map f key (?rows @ [new]) = (table_map f key rows)(key v \<mapsto> v)"
  proof (rule table_map_eqI [OF ok])
    fix k w
    have row: "(\<exists>r\<in>set (?rows @ [new]). f r = Inr w \<and> key w = k) \<longleftrightarrow>
        (\<exists>r\<in>set ?rows. f r = Inr w \<and> key w = k) \<or> v = w \<and> key w = k"
      using assms(2) by auto
    have old: "(\<exists>r\<in>set ?rows. f r = Inr w \<and> key w = k) \<longleftrightarrow>
        k \<noteq> key v \<and> (\<exists>r\<in>set rows. f r = Inr w \<and> key w = k)"
      using assms(3) by auto
    show "((table_map f key rows)(key v \<mapsto> v)) k = Some w \<longleftrightarrow>
        (\<exists>r\<in>set (?rows @ [new]). f r = Inr w \<and> key w = k)"
      unfolding row old by (auto simp: table_map_iff [OF assms(1)])
  qed
qed

text \<open>Changing the values of the rows a condition picks.\<close>

lemma table_update:
  assumes "table_ok f key rows"
    and "\<And>r v. r \<in> set rows \<Longrightarrow> f r = Inr v \<Longrightarrow> f (g r) = Inr (h v)"
    and "\<And>v. key (h v) = key v"
  shows "table_ok f key (map g rows)"
    and "table_map f key (map g rows) = (\<lambda>k. map_option h (table_map f key rows k))"
proof -
  have keys: "key (projr (f (g r))) = key (projr (f r))" if "r \<in> set rows" for r
    using table_okD [OF assms(1) that] assms(2) [OF that] assms(3) by auto
  have same: "map (\<lambda>r. key (projr (f r))) (map g rows) = map (\<lambda>r. key (projr (f r))) rows"
    using keys by simp
  have "distinct (map (\<lambda>r. key (projr (f r))) (map g rows))"
    unfolding same using assms(1) unfolding table_ok_iff by (rule conjunct2)
  moreover have "\<exists>v. f r = Inr v" if "r \<in> set (map g rows)" for r
    using that table_okD [OF assms(1)] assms(2) by fastforce
  ultimately show ok: "table_ok f key (map g rows)"
    unfolding table_ok_iff by (intro conjI ballI)
  show "table_map f key (map g rows) = (\<lambda>k. map_option h (table_map f key rows k))"
  proof (rule table_map_eqI [OF ok])
    fix k w
    have "map_option h (table_map f key rows k) = Some w \<longleftrightarrow>
        (\<exists>r\<in>set rows. \<exists>v. f r = Inr v \<and> key v = k \<and> h v = w)"
      unfolding map_option_eq_Some table_map_iff [OF assms(1)] by blast
    also have "\<dots> \<longleftrightarrow> (\<exists>r\<in>set (map g rows). f r = Inr w \<and> key w = k)"
    proof
      assume "\<exists>r\<in>set rows. \<exists>v. f r = Inr v \<and> key v = k \<and> h v = w"
      then show "\<exists>r\<in>set (map g rows). f r = Inr w \<and> key w = k"
        using assms(2,3) by fastforce
    next
      assume "\<exists>r\<in>set (map g rows). f r = Inr w \<and> key w = k"
      then obtain r where r: "r \<in> set rows" "f (g r) = Inr w" "key w = k" by auto
      obtain v where v: "f r = Inr v" using table_okD [OF assms(1) r(1)] by blast
      with assms(2) [OF r(1)] r(2) have "h v = w" by simp
      with r v assms(3) [of v] show "\<exists>r\<in>set rows. \<exists>v. f r = Inr v \<and> key v = k \<and> h v = w"
        by (intro bexI [of _ r] exI [of _ v]) simp_all
    qed
    finally show "map_option h (table_map f key rows k) = Some w \<longleftrightarrow>
        (\<exists>r\<in>set (map g rows). f r = Inr w \<and> key w = k)" .
  qed
qed

section \<open>Queries\<close>

text \<open>The rows with a key: none, or the one the map has.\<close>

lemma table_lookup:
  assumes "table_ok f key rows"
    and "\<And>r v. r \<in> set rows \<Longrightarrow> f r = Inr v \<Longrightarrow> P r \<longleftrightarrow> key v = k"
  shows "case table_map f key rows k of
      None \<Rightarrow> filter P rows = []
    | Some v \<Rightarrow> \<exists>r\<in>set rows. filter P rows = [r] \<and> f r = Inr v"
proof (cases "table_map f key rows k")
  case None
  then show ?thesis
    using table_map_None [OF assms(1)] table_okD [OF assms(1)] assms(2) by (fastforce simp: filter_empty_conv)
next
  case (Some v)
  then obtain r where r: "r \<in> set rows" "f r = Inr v" "key v = k"
    using table_map_iff [OF assms(1)] by blast
  have "r' = r" if r': "r' \<in> set rows" "P r'" for r'
  proof -
    obtain w where w: "f r' = Inr w" using table_okD [OF assms(1) r'(1)] by blast
    with assms(2) [OF r'(1)] r'(2) r(3) have "key w = key v" by simp
    with table_ok_unique [OF assms(1) r'(1) r(1) w r(2)] show "r' = r" .
  qed
  moreover have "P r" using assms(2) [OF r(1,2)] r(3) by simp
  ultimately have "set (filter P rows) = {r}" unfolding set_filter using r(1) by blast
  then have "filter P rows = [r]"
    using distinct_filter [OF table_ok_distinct [OF assms(1)]] by (intro distinct_singleton)
  then show ?thesis using Some r by auto
qed

text \<open>A sorted selection enumerates the values it picks.\<close>

lemma table_listing:
  assumes "table_ok f key rows"
    and "\<And>r v. r \<in> set rows \<Longrightarrow> f r = Inr v \<Longrightarrow> P r \<longleftrightarrow> Q v"
  shows "\<exists>vs. res_collect f (sort_key g (filter P rows)) = Inr vs \<and> distinct (map key vs) \<and>
    set vs = {v \<in> ran (table_map f key rows). Q v}"
proof -
  let ?rows = "sort_key g (filter P rows)"
  have "mset (map (\<lambda>r. key (projr (f r))) ?rows) = mset (map (\<lambda>r. key (projr (f r))) (filter P rows))"
    by simp
  then have "distinct (map (\<lambda>r. key (projr (f r))) ?rows)"
    using table_ok_filter [OF assms(1), of P] unfolding table_ok_iff by (metis mset_eq_imp_distinct_iff)
  moreover have "\<exists>v. f r = Inr v" if "r \<in> set ?rows" for r
    using that table_okD [OF assms(1)] by simp
  ultimately have "table_ok f key ?rows" by (simp add: table_ok_iff)
  then obtain vs where vs: "res_collect f ?rows = Inr vs" "distinct (map key vs)" by (auto simp: table_ok_def)
  have "set vs = {v. \<exists>r\<in>set ?rows. f r = Inr v}"
    using vs(1) by (rule res_collect_set)
  also have "\<dots> = {v \<in> ran (table_map f key rows). Q v}"
    using assms(2) by (auto simp: table_map_ran [OF assms(1)])
  finally show ?thesis using vs by blast
qed

end
