(* ===== verification/Sqlite_Ledger.thy ===== *)
theory Sqlite_Ledger
  imports Sqlite_Tables
begin

text \<open>
  The ledger a SQLite database stores, when its tables have the declared keys and every row decodes;
  what each kind of statement and query does to it.
\<close>

section \<open>Databases\<close>

definition table_rows :: "sql_database \<Rightarrow> string \<Rightarrow> sql_row list" where
  "table_rows c t = (case db_tables c t of None \<Rightarrow> [] | Some tb \<Rightarrow> tb_rows tb)"

fun declared :: "sql_database \<Rightarrow> sql_statement \<Rightarrow> bool" where
  "declared c (CreateTableIfNotExists t columns key ref) \<longleftrightarrow>
     (\<exists>tb. db_tables c t = Some tb \<and> set columns \<subseteq> set (tb_columns tb) \<and> tb_key tb = key \<and>
        tb_reference tb = ref)"
| "declared c st \<longleftrightarrow> True"

text \<open>Only the deletion of intents cascades.\<close>

definition cascades_ok :: "sql_database \<Rightarrow> bool" where
  "cascades_ok c \<longleftrightarrow>
     (\<forall>t tb rf. db_tables c t = Some tb \<longrightarrow> tb_reference tb = Some rf \<longrightarrow> rf_cascade rf \<longrightarrow>
        rf_parent rf = ''intents'')"

definition schema_ok :: "sql_database \<Rightarrow> bool" where
  "schema_ok c \<longleftrightarrow> (\<forall>st\<in>set create_tables. declared c st) \<and> cascades_ok c"

lemma cascade_none:
  assumes "cascades_ok c" and "t \<noteq> ''intents'' \<or> deleted = []"
  shows "cascade t deleted c = c"
proof -
  have "(\<lambda>u. map_option (\<lambda>tb. case tb_reference tb of None \<Rightarrow> tb
      | Some rf \<Rightarrow> if rf_parent rf = t \<and> rf_cascade rf
          then tb\<lparr>tb_rows := filter (\<lambda>r. \<forall>d\<in>set deleted. d (rf_column rf) \<noteq> r (rf_column rf)) (tb_rows tb)\<rparr>
          else tb) (db_tables c u)) = db_tables c"
  proof
    fix u
    show "map_option (\<lambda>tb. case tb_reference tb of None \<Rightarrow> tb
        | Some rf \<Rightarrow> if rf_parent rf = t \<and> rf_cascade rf
            then tb\<lparr>tb_rows := filter (\<lambda>r. \<forall>d\<in>set deleted. d (rf_column rf) \<noteq> r (rf_column rf)) (tb_rows tb)\<rparr>
            else tb) (db_tables c u) = db_tables c u"
      using assms
      by (cases "db_tables c u"; cases "tb_reference (the (db_tables c u))") (auto simp: cascades_ok_def)
  qed
  then show ?thesis by (simp add: cascade_def)
qed

lemma set_rows_rows:
  "db_tables c t = Some tb \<Longrightarrow> table_rows (set_rows t rows c) = (table_rows c)(t := rows)"
  by (auto simp: table_rows_def set_rows_def fun_eq_iff)

lemma set_rows_schema:
  assumes "schema_ok c" and "db_tables c t = Some tb"
  shows "schema_ok (set_rows t rows c)"
proof -
  have "declared (set_rows t rows c) st" if "declared c st" for st
    using that assms(2) by (cases st) (auto simp: set_rows_def)
  moreover have "cascades_ok (set_rows t rows c)"
    using assms by (auto simp: schema_ok_def cascades_ok_def set_rows_def split: if_splits)
  ultimately show ?thesis using assms(1) by (simp add: schema_ok_def)
qed

definition same_columns :: "string list \<Rightarrow> sql_row \<Rightarrow> sql_row \<Rightarrow> bool" where
  "same_columns key r r' \<longleftrightarrow> (\<forall>c\<in>set key. r c = r' c)"

lemma declared_table:
  "schema_ok c \<Longrightarrow> CreateTableIfNotExists t columns key ref \<in> set create_tables \<Longrightarrow>
    \<exists>tb. db_tables c t = Some tb \<and> tb_key tb = key"
  by (force simp: schema_ok_def)

text \<open>The statements the store runs, on the rows of the table they name.\<close>

lemma run_replace:
  assumes "schema_ok c" and "CreateTableIfNotExists t columns key ref \<in> set create_tables"
    and "sql_run (InsertOrReplace t vals) c = Some (n, c')"
    and "t \<noteq> ''intents'' \<or> filter (same_columns key (row_of vals)) (table_rows c t) = []"
  shows "schema_ok c'"
    and "table_rows c' = (table_rows c)(t :=
      filter (\<lambda>r. \<not> same_columns key (row_of vals) r) (table_rows c t) @ [row_of vals])"
proof -
  obtain tb where tb: "db_tables c t = Some tb" "tb_key tb = key"
    using declared_table [OF assms(1,2)] by blast
  have key: "same_key tb = same_columns key" by (simp add: same_key_def same_columns_def tb(2) fun_eq_iff)
  have "cascade t (filter (same_columns key (row_of vals)) (tb_rows tb)) c = c"
    using assms(1,4) tb(1) by (intro cascade_none) (simp_all add: schema_ok_def table_rows_def)
  then have c': "c' = set_rows t (filter (\<lambda>r. \<not> same_columns key (row_of vals) r) (table_rows c t) @ [row_of vals]) c"
    using assms(3) tb(1) by (simp add: key table_rows_def Let_def split: if_splits)
  then show "schema_ok c'" and "table_rows c' = (table_rows c)(t :=
      filter (\<lambda>r. \<not> same_columns key (row_of vals) r) (table_rows c t) @ [row_of vals])"
    using set_rows_schema [OF assms(1) tb(1)] set_rows_rows [OF tb(1)] by simp_all
qed

lemma run_insert:
  assumes "schema_ok c" and "sql_run (InsertInto t vals) c = Some (n, c')"
  shows "schema_ok c'" and "table_rows c' = (table_rows c)(t := table_rows c t @ [row_of vals])"
  using assms set_rows_schema [OF assms(1)] set_rows_rows
  by (auto simp: table_rows_def Let_def split: option.splits if_splits)

lemma run_update:
  assumes "schema_ok c" and "sql_run (UpdateWhere t a cond) c = Some (n, c')"
  shows "schema_ok c'" and "n = length (filter (meets cond) (table_rows c t))"
    and "table_rows c' = (table_rows c)(t :=
      map (\<lambda>r. if meets cond r then r(fst a := snd a) else r) (table_rows c t))"
  using assms set_rows_schema [OF assms(1)] set_rows_rows
  by (auto simp: table_rows_def split: option.splits if_splits)

lemma run_delete:
  assumes "schema_ok c" and "sql_run (DeleteWhere t cond) c = Some (n, c')" and "t \<noteq> ''intents''"
  shows "schema_ok c'"
    and "table_rows c' = (table_rows c)(t := filter (\<lambda>r. \<not> meets cond r) (table_rows c t))"
  using assms set_rows_schema [OF assms(1)] set_rows_rows cascade_none [of c t]
  by (auto simp: table_rows_def schema_ok_def split: option.splits if_splits)

lemma select_rows:
  "sql_select q c = Some rows \<Longrightarrow> rows = sort_key (\<lambda>r. map r (q_order q))
     (filter (\<lambda>r. case q_where q of None \<Rightarrow> True | Some cond \<Rightarrow> meets cond r) (table_rows c (q_from q)))"
  by (auto simp: sql_select_def table_rows_def split: option.splits if_splits)

section \<open>Entries\<close>

definition account_entry :: "sql_row \<Rightarrow> sql_error + account" where
  "account_entry = account_from_row (Inr [])"

definition lock_entry :: "'db sql_engine \<Rightarrow> sql_row \<Rightarrow> sql_error + outpoint \<times> operation_lock" where
  "lock_entry E r = res_bind (input_from_row E r) (\<lambda>p. res_map (Pair p) (lock_from_row r))"

definition meta_entry :: "sql_row \<Rightarrow> sql_error + string \<times> string" where
  "meta_entry r = res_bind (get_text r ''key'') (\<lambda>k. res_map (Pair k) (get_text r ''value''))"

definition key_condition :: "operation_id \<Rightarrow> sql_condition" where
  "key_condition i = (''operation_id'', SqlText (operation_id_str i))"

definition by_position :: "sql_row list \<Rightarrow> sql_row list" where
  "by_position = sort_key (\<lambda>r. map r [''position''])"

definition scope_ids :: "sql_database \<Rightarrow> account_id \<Rightarrow> wallet_scope_id list" where
  "scope_ids c i =
     table_values_of (\<lambda>r. res_map WalletScopeId (get_text r ''scope_id''))
       (sort_key (\<lambda>r. map r [''priority'', ''scope_id''])
         (filter (meets (''account_id'', SqlText (account_id_str i))) (table_rows c ''scopes'')))"

definition stored_inputs :: "'db sql_engine \<Rightarrow> sql_database \<Rightarrow> operation_id \<Rightarrow> outpoint list" where
  "stored_inputs E c i =
     table_values_of (input_from_row E)
       (by_position (filter (meets (key_condition i)) (table_rows c ''intent_inputs'')))"

definition stored_effects :: "'db sql_engine \<Rightarrow> sql_database \<Rightarrow> operation_id \<Rightarrow> selection_effect list" where
  "stored_effects E c i =
     table_values_of (effect_from_row E i)
       (by_position (filter (meets (key_condition i)) (table_rows c ''intent_effects'')))"

fun intent_entry :: "'db sql_engine \<Rightarrow> sql_database \<Rightarrow> operation_id \<times> intent_header \<Rightarrow> operation_intent" where
  "intent_entry E c (i, (change_scope_id, status, recorded_at, expires_at)) =
     \<lparr>oi_selection = \<lparr>os_operation_id = i, os_selected_outpoints = stored_inputs E c i,
        os_change_scope_id = change_scope_id, os_effects = stored_effects E c i,
        os_expires_at = expires_at\<rparr>, oi_status = status, oi_recorded_at = recorded_at\<rparr>"

definition stored_tick :: "sql_database \<Rightarrow> nat option" where
  "stored_tick c =
     (case table_map meta_entry fst (table_rows c ''meta'') ''tick'' of
        None \<Rightarrow> None
      | Some (k, value) \<Rightarrow> parse_uint (2 ^ 64 - 1) value)"

definition sql_ledger :: "'db sql_engine \<Rightarrow> sql_database \<Rightarrow> ledger" where
  "sql_ledger E c =
     \<lparr>lg_accounts = (\<lambda>i. map_option (\<lambda>a. a\<lparr>ac_scopes := scope_ids c i\<rparr>)
        (table_map account_entry ac_id (table_rows c ''accounts'') i)),
      lg_scopes = table_map scope_from_row ws_id (table_rows c ''scopes''),
      lg_utxos = table_map (utxo_from_row E) mu_outpoint (table_rows c ''utxos''),
      lg_locks = (\<lambda>p. map_option snd (table_map (lock_entry E) fst (table_rows c ''locks'') p)),
      lg_operations = table_map operation_from_row po_operation_id (table_rows c ''operations''),
      lg_intents = (\<lambda>i. map_option (intent_entry E c)
        (table_map pending_from_row fst (table_rows c ''intents'') i)),
      lg_tick = of_nat (the (stored_tick c))\<rparr>"

definition db_ok :: "'db sql_engine \<Rightarrow> sql_database \<Rightarrow> bool" where
  "db_ok E c \<longleftrightarrow>
     schema_ok c \<and> table_ok meta_entry fst (table_rows c ''meta'') \<and> stored_tick c \<noteq> None \<and>
     table_ok account_entry ac_id (table_rows c ''accounts'') \<and>
     table_ok scope_from_row ws_id (table_rows c ''scopes'') \<and>
     table_ok (utxo_from_row E) mu_outpoint (table_rows c ''utxos'') \<and>
     table_ok (lock_entry E) fst (table_rows c ''locks'') \<and>
     table_ok operation_from_row po_operation_id (table_rows c ''operations'') \<and>
     table_ok pending_from_row fst (table_rows c ''intents'') \<and>
     (\<forall>r\<in>set (table_rows c ''intent_inputs''). \<exists>p. input_from_row E r = Inr p) \<and>
     (\<forall>r\<in>set (table_rows c ''intent_effects''). \<exists>e. \<forall>i. effect_from_row E i r = Inr e)"

lemma db_okD:
  assumes "db_ok E c"
  shows "schema_ok c" and "table_ok meta_entry fst (table_rows c ''meta'')" and "stored_tick c \<noteq> None"
    and "table_ok account_entry ac_id (table_rows c ''accounts'')"
    and "table_ok scope_from_row ws_id (table_rows c ''scopes'')"
    and "table_ok (utxo_from_row E) mu_outpoint (table_rows c ''utxos'')"
    and "table_ok (lock_entry E) fst (table_rows c ''locks'')"
    and "table_ok operation_from_row po_operation_id (table_rows c ''operations'')"
    and "table_ok pending_from_row fst (table_rows c ''intents'')"
    and "r \<in> set (table_rows c ''intent_inputs'') \<Longrightarrow> \<exists>p. input_from_row E r = Inr p"
    and "r \<in> set (table_rows c ''intent_effects'') \<Longrightarrow> \<exists>e. \<forall>i. effect_from_row E i r = Inr e"
  using assms by (simp_all add: db_ok_def)

section \<open>What a row says of its columns\<close>

lemma get_text_Inr [simp]: "get_text r c = Inr s \<longleftrightarrow> r c = SqlText s"
  by (simp add: get_text_def split: sql_value.split)

lemma get_text_option_Inr [simp]: "get_text_option r c = Inr t \<longleftrightarrow> r c = sql_of_text_option t"
  by (cases t) (auto simp: get_text_option_def split: sql_value.splits)

lemma text_option_eq [simp]:
  "SqlText s = sql_of_text_option t \<longleftrightarrow> t = Some s" "SqlNull = sql_of_text_option t \<longleftrightarrow> t = None"
  "sql_of_text_option t = SqlText s \<longleftrightarrow> t = Some s" "sql_of_text_option t = SqlNull \<longleftrightarrow> t = None"
  by (cases t; auto)+

lemma meets_text [simp]: "meets (c, SqlText s) r \<longleftrightarrow> r c = SqlText s"
  by (simp add: meets_def)

lemma account_entry_key: "account_entry r = Inr a \<Longrightarrow> r ''account_id'' = SqlText (account_id_str (ac_id a))"
  by (auto simp: account_entry_def account_from_row_def res_bind_eq_Inr)

lemma scope_row_key:
  "scope_from_row r = Inr sc \<Longrightarrow> r ''scope_id'' = SqlText (wallet_scope_id_str (ws_id sc))"
  by (auto simp: scope_from_row_def res_bind_eq_Inr)

lemma operation_row_key:
  "operation_from_row r = Inr x \<Longrightarrow> r ''operation_id'' = SqlText (operation_id_str (po_operation_id x))"
  by (auto simp: operation_from_row_def res_bind_eq_Inr)

lemma pending_row_key:
  "pending_from_row r = Inr h \<Longrightarrow> r ''operation_id'' = SqlText (operation_id_str (fst h))"
  by (auto simp: pending_from_row_def res_bind_eq_Inr)

lemma meta_entry_key: "meta_entry r = Inr kv \<Longrightarrow> r ''key'' = SqlText (fst kv)"
  by (auto simp: meta_entry_def res_bind_eq_Inr res_map_eq)

lemma input_row_outpoint: "input_from_row E r = Inr p \<longleftrightarrow> r ''outpoint'' = SqlText (outpoint_string p)"
  by (auto simp: input_from_row_def res_bind_eq_Inr decode_outpoint_Inr)

lemma lock_entry_key: "lock_entry E r = Inr pl \<Longrightarrow> r ''outpoint'' = SqlText (outpoint_string (fst pl))"
  by (auto simp: lock_entry_def res_bind_eq_Inr res_map_eq input_row_outpoint)

lemma lock_entry_operation:
  "lock_entry E r = Inr pl \<Longrightarrow> r ''operation_id'' = SqlText (operation_id_str (lk_operation_id (snd pl)))"
  by (auto simp: lock_entry_def lock_from_row_def res_bind_eq_Inr res_map_eq)

lemma utxo_row_key:
  "utxo_from_row E r = Inr u \<Longrightarrow> r ''outpoint'' = SqlText (outpoint_string (mu_outpoint u))"
  by (auto simp: utxo_from_row_def res_bind_eq_Inr decode_outpoint_Inr split: if_splits)

lemma binding_of_columns_Inr:
  "binding_of_columns i ph = Inr b \<Longrightarrow> (i \<noteq> None) = (ph \<noteq> None) \<Longrightarrow>
    map_option (\<lambda>x. operation_id_str (bd_operation_id x)) b = i"
  by (auto simp: binding_of_columns_def res_map_eq split: option.splits)

lemma utxo_row_binding:
  assumes "utxo_from_row E r = Inr u"
  shows "r ''binding_operation_id'' = SqlText (operation_id_str i) \<longleftrightarrow> bound_to i u"
proof -
  obtain op ph where op: "r ''binding_operation_id'' = sql_of_text_option op"
    and "binding_of_columns op ph = Inr (mu_operation_binding u)" and "(op \<noteq> None) = (ph \<noteq> None)"
  proof -
    obtain op ph where "get_text_option r ''binding_operation_id'' = Inr op"
      and "binding_of_columns op ph = Inr (mu_operation_binding u)" and "(op \<noteq> None) = (ph \<noteq> None)"
      using assms
      by (auto simp: utxo_from_row_def res_bind_eq_Inr simp del: get_text_option_Inr split: if_splits)
    then show thesis by (intro that [of op ph]) simp_all
  qed
  then have "map_option (\<lambda>x. operation_id_str (bd_operation_id x)) (mu_operation_binding u) = op"
    by (intro binding_of_columns_Inr)
  with op show ?thesis
    by (cases "mu_operation_binding u") (auto simp: bound_to_def operation_id.expand)
qed

lemma id_text_eq [simp]:
  "SqlText (account_id_str a) = SqlText (account_id_str b) \<longleftrightarrow> a = b"
  "SqlText (wallet_scope_id_str s) = SqlText (wallet_scope_id_str t) \<longleftrightarrow> s = t"
  "SqlText (operation_id_str i) = SqlText (operation_id_str j) \<longleftrightarrow> i = j"
  by (auto simp: account_id.expand wallet_scope_id.expand operation_id.expand)

end
