(* ===== verification/Sqlite_Statements.thy ===== *)
theory Sqlite_Statements
  imports Sqlite_Ledger
begin

text \<open>
  What each statement of the store does to the ledger its database holds: the written row decodes to
  the value it was written from, and the ledger changes at its key alone.
\<close>

definition statement_does :: "'db sql_engine \<Rightarrow> sql_error + sql_statement \<Rightarrow> (ledger \<Rightarrow> ledger) \<Rightarrow> bool" where
  "statement_does E st g \<longleftrightarrow>
     (\<forall>e. st = Inl e \<longrightarrow> e = ToSqlConversionFailure) \<and>
     (\<forall>s c n c'. st = Inr s \<longrightarrow> db_ok E c \<longrightarrow> sql_run s c = Some (n, c') \<longrightarrow>
        db_ok E c' \<and> sql_ledger E c' = g (sql_ledger E c))"

lemma sql_of_u64_Inl: "sql_of_u64 w = Inl e \<Longrightarrow> e = ToSqlConversionFailure"
  by (auto simp: sql_of_u64_def split: if_splits)

lemma sql_of_u64_option_Inl: "sql_of_u64_option t = Inl e \<Longrightarrow> e = ToSqlConversionFailure"
  by (cases t) (auto dest: sql_of_u64_Inl)

section \<open>Written rows are read back\<close>

lemma row_of_simps [simp]:
  "row_of [] c = SqlNull" "row_of ((k, v) # vals) c = (if c = k then v else row_of vals c)"
  by (simp_all add: row_of_def)

lemma get_back_cells [simp]:
  "r c = SqlText s \<Longrightarrow> get_text r c = Inr s"
  "r c = sql_of_text_option t \<Longrightarrow> get_text_option r c = Inr t"
  by simp_all

lemma utxo_row_roundtrip:
  assumes "utxo_statement u = Inr (InsertOrReplace t vals)"
  shows "t = ''utxos''" and "utxo_from_row E (row_of vals) = Inr u"
proof -
  obtain val recorded where v: "sql_of_u64 (mu_value_sats u) = Inr val"
    "sql_of_u64_option (map_option oc_recorded_at (mu_observation_conflict u)) = Inr recorded"
    using assms by (auto simp: utxo_statement_def Let_def res_bind_eq_Inr)
  have conflict: "conflict_of_columns (map_option oc_message k) (map_option oc_recorded_at k) = k" for k
    by (cases k) (simp_all add: conflict_of_columns_def)
  have binding: "binding_of_columns (map_option (\<lambda>b. operation_id_str (bd_operation_id b)) k)
      (map_option (\<lambda>b. encode_phase (bd_phase b)) k) = Inr k" for k
    by (cases k) (simp_all add: binding_of_columns_def)
  have point: "OutPoint (txid p) (vout p) = p" for p by simp
  show "t = ''utxos''" using assms v by (simp add: utxo_statement_def Let_def)
  have "get_u64_option (row_of vals) ''conflict_recorded_at'' =
      Inr (map_option oc_recorded_at (mu_observation_conflict u))"
    and "get_u64 (row_of vals) ''value_sats'' = Inr (mu_value_sats u)"
    using assms v by (auto simp: utxo_statement_def Let_def intro: get_back_u64 get_back_u64_option)
  then show "utxo_from_row E (row_of vals) = Inr u"
    using assms v
    by (auto simp: utxo_statement_def utxo_from_row_def Let_def binding conflict point)
qed

lemma operation_row_roundtrip:
  assumes "operation_statement x = Inr (InsertOrReplace t vals)"
  shows "t = ''operations''" and "operation_from_row (row_of vals) = Inr x"
proof -
  obtain updated expires where v: "sql_of_u64 (po_updated_at x) = Inr updated"
    "sql_of_u64_option (po_expires_at x) = Inr expires"
    using assms by (auto simp: operation_statement_def res_bind_eq_Inr)
  show "t = ''operations''" using assms v by (simp add: operation_statement_def)
  have "get_u64_option (row_of vals) ''expires_at'' = Inr (po_expires_at x)"
    and "get_u64 (row_of vals) ''updated_at'' = Inr (po_updated_at x)"
    using assms v by (auto simp: operation_statement_def intro: get_back_u64 get_back_u64_option)
  then show "operation_from_row (row_of vals) = Inr x"
    using assms v by (auto simp: operation_statement_def operation_from_row_def)
qed

lemma lock_row_roundtrip:
  assumes "lock_statement p l = Inr (InsertOrReplace t vals)"
  shows "t = ''locks''" and "lock_entry E (row_of vals) = Inr (p, l)"
proof -
  obtain created expires where v: "sql_of_u64 (lk_created_at l) = Inr created"
    "sql_of_u64_option (lk_expires_at l) = Inr expires"
    using assms by (auto simp: lock_statement_def res_bind_eq_Inr)
  show "t = ''locks''" using assms v by (simp add: lock_statement_def)
  have "get_u64_option (row_of vals) ''expires_at'' = Inr (lk_expires_at l)"
    and "get_u64 (row_of vals) ''created_at'' = Inr (lk_created_at l)"
    using assms v by (auto simp: lock_statement_def intro: get_back_u64 get_back_u64_option)
  then show "lock_entry E (row_of vals) = Inr (p, l)"
    using assms v by (auto simp: lock_statement_def lock_entry_def input_from_row_def lock_from_row_def)
qed

lemma header_row_roundtrip:
  assumes "header_statement sel recorded = Inr (InsertOrReplace t vals)"
  shows "t = ''intents''"
    and "pending_from_row (row_of vals) =
      Inr (os_operation_id sel, os_change_scope_id sel, Pending, recorded, os_expires_at sel)"
proof -
  obtain at expires where v: "sql_of_u64 recorded = Inr at"
    "sql_of_u64_option (os_expires_at sel) = Inr expires"
    using assms by (auto simp: header_statement_def res_bind_eq_Inr)
  show "t = ''intents''" using assms v by (simp add: header_statement_def)
  have "get_u64_option (row_of vals) ''expires_at'' = Inr (os_expires_at sel)"
    and "get_u64 (row_of vals) ''recorded_at'' = Inr recorded"
    using assms v by (auto simp: header_statement_def intro: get_back_u64 get_back_u64_option)
  moreover have "decode_status ''pending'' = Inr Pending" using decode_encode(7) [of _ Pending] by simp
  ultimately show "pending_from_row (row_of vals) =
      Inr (os_operation_id sel, os_change_scope_id sel, Pending, recorded, os_expires_at sel)"
    using assms v by (auto simp: header_statement_def pending_from_row_def header_from_row_def)
qed

section \<open>One table at a time\<close>

definition changes_only :: "string \<Rightarrow> sql_database \<Rightarrow> sql_database \<Rightarrow> bool" where
  "changes_only t c c' \<longleftrightarrow> (\<forall>u. u \<noteq> t \<longrightarrow> table_rows c' u = table_rows c u)"

lemma other_tables:
  assumes "changes_only t c c'"
  shows "u \<noteq> t \<Longrightarrow> table_rows c' u = table_rows c u"
    and "t \<noteq> ''meta'' \<Longrightarrow> stored_tick c' = stored_tick c"
    and "t \<noteq> ''scopes'' \<Longrightarrow> scope_ids c' = scope_ids c"
    and "t \<notin> {''intent_inputs'', ''intent_effects''} \<Longrightarrow> intent_entry E c' = intent_entry E c"
  using assms
  by (auto simp: changes_only_def stored_tick_def scope_ids_def fun_eq_iff stored_inputs_def stored_effects_def)

text \<open>The text column a table is keyed by.\<close>

definition key_column ::
  "(sql_row \<Rightarrow> sql_error + 'v) \<Rightarrow> string \<Rightarrow> ('k \<Rightarrow> string) \<Rightarrow> ('v \<Rightarrow> 'k) \<Rightarrow> bool" where
  "key_column f kc kt key \<longleftrightarrow> inj kt \<and> (\<forall>r v. f r = Inr v \<longrightarrow> r kc = SqlText (kt (key v)))"

lemma key_column_eq:
  "key_column f kc kt key \<Longrightarrow> f r = Inr v \<Longrightarrow> r kc = SqlText (kt k) \<longleftrightarrow> key v = k"
  unfolding key_column_def by (metis injD sql_value.inject(2))

lemma key_columns:
  "key_column account_entry ''account_id'' account_id_str ac_id"
  "key_column scope_from_row ''scope_id'' wallet_scope_id_str ws_id"
  "key_column (utxo_from_row E) ''outpoint'' outpoint_string mu_outpoint"
  "key_column (lock_entry E) ''outpoint'' outpoint_string fst"
  "key_column operation_from_row ''operation_id'' operation_id_str po_operation_id"
  "key_column pending_from_row ''operation_id'' operation_id_str fst"
  "key_column meta_entry ''key'' (\<lambda>s. s) fst"
  unfolding key_column_def
  by (simp_all add: inj_def account_id.expand wallet_scope_id.expand operation_id.expand
      account_entry_key scope_row_key utxo_row_key lock_entry_key operation_row_key
      pending_row_key meta_entry_key del: split_paired_All)

text \<open>Replacing a row in a table with one key column.\<close>

lemma replace_row:
  assumes "key_column f kc kt key" and "table_ok f key (table_rows c t)"
    and "schema_ok c" and "CreateTableIfNotExists t columns [kc] ref \<in> set create_tables"
    and "sql_run (InsertOrReplace t vals) c = Some (n, c')"
    and "f (row_of vals) = Inr v"
    and "t \<noteq> ''intents'' \<or> table_map f key (table_rows c t) (key v) = None"
  shows "schema_ok c'"
    and "changes_only t c c'"
    and "table_ok f key (table_rows c' t)"
    and "table_map f key (table_rows c' t) = (table_map f key (table_rows c t))(key v \<mapsto> v)"
proof -
  have key: "row_of vals kc = SqlText (kt (key v))" using assms(1,6) by (simp add: key_column_def)
  have same: "same_columns [kc] (row_of vals) r \<longleftrightarrow> key w = key v" if "f r = Inr w" for r w
    using key_column_eq [OF assms(1) that, of "key v"] key by (auto simp: same_columns_def)
  have fresh: "filter (same_columns [kc] (row_of vals)) (table_rows c t) = []"
    if "table_map f key (table_rows c t) (key v) = None"
    using that table_okD [OF assms(2)] same unfolding filter_empty_conv table_map_None [OF assms(2)]
    by metis
  note run = run_replace [OF assms(3-5)]
  have "t \<noteq> ''intents'' \<or> filter (same_columns [kc] (row_of vals)) (table_rows c t) = []"
    using assms(7) fresh by blast
  note run = run [OF this]
  then have rows: "table_rows c' = (table_rows c)(t :=
      filter (\<lambda>r. \<not> same_columns [kc] (row_of vals) r) (table_rows c t) @ [row_of vals])"
    by blast
  show "schema_ok c'" using run(1) .
  show "changes_only t c c'" by (simp add: changes_only_def rows)
  show "table_ok f key (table_rows c' t)"
    and "table_map f key (table_rows c' t) = (table_map f key (table_rows c t))(key v \<mapsto> v)"
    using table_upsert [OF assms(2,6), of "same_columns [kc]"] same by (simp_all add: rows)
qed

text \<open>The table declarations, one by one.\<close>

lemma declared_tables:
  "CreateTableIfNotExists ''meta'' [''key'', ''value''] [''key''] None \<in> set create_tables"
  "CreateTableIfNotExists ''accounts'' [''account_id'', ''name'', ''capabilities''] [''account_id''] None
     \<in> set create_tables"
  "CreateTableIfNotExists ''utxos'' utxo_columns [''outpoint''] None \<in> set create_tables"
  "CreateTableIfNotExists ''locks'' lock_columns [''outpoint''] None \<in> set create_tables"
  "CreateTableIfNotExists ''operations'' operation_columns [''operation_id''] None \<in> set create_tables"
  "CreateTableIfNotExists ''intents'' intent_columns [''operation_id''] None \<in> set create_tables"
  "CreateTableIfNotExists ''scopes''
     [''scope_id'', ''account_id'', ''descriptor_ref'', ''derivation_scope'', ''capabilities'', ''priority'']
     [''scope_id''] (Some account_reference) \<in> set create_tables"
  by (simp_all add: create_tables_def)

lemma statement_doesI:
  assumes "\<And>e. st = Inl e \<Longrightarrow> e = ToSqlConversionFailure"
    and "\<And>s c n c'. st = Inr s \<Longrightarrow> db_ok E c \<Longrightarrow> sql_run s c = Some (n, c') \<Longrightarrow>
      db_ok E c' \<and> sql_ledger E c' = g (sql_ledger E c)"
  shows "statement_does E st g"
  using assms by (auto simp: statement_does_def)

lemma write_utxo_does:
  "statement_does E (utxo_statement u) (\<lambda>L. L\<lparr>lg_utxos := (lg_utxos L)(mu_outpoint u \<mapsto> u)\<rparr>)"
proof (rule statement_doesI)
  show "utxo_statement u = Inl e \<Longrightarrow> e = ToSqlConversionFailure" for e
    by (auto simp: utxo_statement_def Let_def res_bind_eq_Inl dest: sql_of_u64_Inl sql_of_u64_option_Inl)
  fix s c n c'
  assume s: "utxo_statement u = Inr s" and ok: "db_ok E c" and run: "sql_run s c = Some (n, c')"
  obtain t vals where st: "s = InsertOrReplace t vals"
    using s by (auto simp: utxo_statement_def Let_def res_bind_eq_Inr)
  note read = utxo_row_roundtrip [OF s [unfolded st]]
  note eff = replace_row [OF key_columns(3) db_okD(6) [OF ok] db_okD(1) [OF ok] declared_tables(3)
      run [unfolded st read(1)] read(2), simplified]
  note other = other_tables [OF eff(2)]
  show "db_ok E c' \<and> sql_ledger E c' = (sql_ledger E c)\<lparr>lg_utxos := (lg_utxos (sql_ledger E c))(mu_outpoint u \<mapsto> u)\<rparr>"
    using ok eff by (simp add: other db_ok_def sql_ledger_def)
qed

lemma write_operation_does:
  "statement_does E (operation_statement x)
     (\<lambda>L. L\<lparr>lg_operations := (lg_operations L)(po_operation_id x \<mapsto> x)\<rparr>)"
proof (rule statement_doesI)
  show "operation_statement x = Inl e \<Longrightarrow> e = ToSqlConversionFailure" for e
    by (auto simp: operation_statement_def res_bind_eq_Inl dest: sql_of_u64_Inl sql_of_u64_option_Inl)
  fix s c n c'
  assume s: "operation_statement x = Inr s" and ok: "db_ok E c" and run: "sql_run s c = Some (n, c')"
  obtain t vals where st: "s = InsertOrReplace t vals"
    using s by (auto simp: operation_statement_def res_bind_eq_Inr)
  note read = operation_row_roundtrip [OF s [unfolded st]]
  note eff = replace_row [OF key_columns(5) db_okD(8) [OF ok] db_okD(1) [OF ok] declared_tables(5)
      run [unfolded st read(1)] read(2), simplified]
  note other = other_tables [OF eff(2)]
  show "db_ok E c' \<and> sql_ledger E c' =
      (sql_ledger E c)\<lparr>lg_operations := (lg_operations (sql_ledger E c))(po_operation_id x \<mapsto> x)\<rparr>"
    using ok eff by (simp add: other db_ok_def sql_ledger_def)
qed

lemma write_lock_does:
  "statement_does E (lock_statement p l) (\<lambda>L. L\<lparr>lg_locks := (lg_locks L)(p \<mapsto> l)\<rparr>)"
proof (rule statement_doesI)
  show "lock_statement p l = Inl e \<Longrightarrow> e = ToSqlConversionFailure" for e
    by (auto simp: lock_statement_def res_bind_eq_Inl dest: sql_of_u64_Inl sql_of_u64_option_Inl)
  fix s c n c'
  assume s: "lock_statement p l = Inr s" and ok: "db_ok E c" and run: "sql_run s c = Some (n, c')"
  obtain t vals where st: "s = InsertOrReplace t vals"
    using s by (auto simp: lock_statement_def res_bind_eq_Inr)
  note read = lock_row_roundtrip [OF s [unfolded st]]
  note eff = replace_row [OF key_columns(4) db_okD(7) [OF ok] db_okD(1) [OF ok] declared_tables(4)
      run [unfolded st read(1)] read(2), simplified]
  note other = other_tables [OF eff(2)]
  show "db_ok E c' \<and> sql_ledger E c' = (sql_ledger E c)\<lparr>lg_locks := (lg_locks (sql_ledger E c))(p \<mapsto> l)\<rparr>"
    using ok eff by (simp add: other db_ok_def sql_ledger_def fun_eq_iff)
qed

section \<open>Updates and deletions\<close>

text \<open>A statement on a table whose rows stay decodable changes what the table is read as.\<close>

lemma update_rows:
  assumes "table_ok f key (table_rows c t)" and "schema_ok c"
    and "sql_run (UpdateWhere t a cond) c = Some (n, c')"
    and "\<And>r v. f r = Inr v \<Longrightarrow> f (if meets cond r then r(fst a := snd a) else r) = Inr (h v)"
    and "\<And>v. key (h v) = key v"
  shows "schema_ok c'" and "changes_only t c c'" and "table_ok f key (table_rows c' t)"
    and "table_map f key (table_rows c' t) = (\<lambda>k. map_option h (table_map f key (table_rows c t) k))"
  using run_update [OF assms(2,3)] table_update [OF assms(1,4,5)] by (simp_all add: changes_only_def)

lemma delete_rows:
  assumes "table_ok f key (table_rows c t)" and "schema_ok c"
    and "sql_run (DeleteWhere t cond) c = Some (n, c')" and "t \<noteq> ''intents''"
    and "\<And>r v. f r = Inr v \<Longrightarrow> meets cond r \<longleftrightarrow> \<not> Q v"
  shows "schema_ok c'" and "changes_only t c c'" and "table_ok f key (table_rows c' t)"
    and "table_map f key (table_rows c' t) =
      (\<lambda>k. case table_map f key (table_rows c t) k of None \<Rightarrow> None | Some v \<Rightarrow> if Q v then Some v else None)"
  using run_delete [OF assms(2-4)] table_ok_filter [OF assms(1)]
    table_map_filter [OF assms(1), of "\<lambda>r. \<not> meets cond r" Q] assms(5)
  by (simp_all add: changes_only_def)

lemma statement_does_plain:
  assumes "\<And>c n c'. db_ok E c \<Longrightarrow> sql_run s c = Some (n, c') \<Longrightarrow>
    db_ok E c' \<and> sql_ledger E c' = g (sql_ledger E c)"
  shows "statement_does E (Inr s) g"
  using assms by (auto simp: statement_does_def)

lemma get_other [simp]:
  "c \<noteq> k \<Longrightarrow> get_u64 (r(k := v)) c = get_u64 r c"
  "c \<noteq> k \<Longrightarrow> get_u64_option (r(k := v)) c = get_u64_option r c"
  "c \<noteq> k \<Longrightarrow> get_u32 (r(k := v)) c = get_u32 r c"
  by (simp_all add: get_u64_def get_u64_option_def get_u32_def)

lemma write_tick_does: "statement_does E (Inr (write_tick t)) (\<lambda>L. L\<lparr>lg_tick := t\<rparr>)"
proof (rule statement_does_plain)
  fix c n c'
  assume ok: "db_ok E c" and run: "sql_run (write_tick t) c = Some (n, c')"
  let ?s = "show_nat (unat t)"
  note eff = update_rows [OF db_okD(2) [OF ok] db_okD(1) [OF ok] run [unfolded write_tick_def],
      of "\<lambda>(k, v). (k, if k = ''tick'' then ?s else v)"]
  have eff: "schema_ok c'" "changes_only ''meta'' c c'" "table_ok meta_entry fst (table_rows c' ''meta'')"
    "table_map meta_entry fst (table_rows c' ''meta'') = (\<lambda>k. map_option
      (\<lambda>(k, v). (k, if k = ''tick'' then ?s else v)) (table_map meta_entry fst (table_rows c ''meta'') k))"
    by (rule eff; auto simp: meta_entry_def res_bind_eq_Inr res_map_eq)+
  have key: "table_map meta_entry fst (table_rows c ''meta'') ''tick'' = Some (k, v) \<Longrightarrow> k = ''tick''" for k v
    using table_map_key [OF db_okD(2) [OF ok], of "''tick''" "(k, v)"] by simp
  have "stored_tick c' = Some (unat t)"
    using db_okD(3) [OF ok] key unat_bound [of t]
    by (auto simp: stored_tick_def eff(4) parse_uint_show_nat split: option.splits)
  then show "db_ok E c' \<and> sql_ledger E c' = (sql_ledger E c)\<lparr>lg_tick := t\<rparr>"
    using ok eff(1-3) by (simp add: other_tables [OF eff(2)] db_ok_def sql_ledger_def)
qed

lemma delete_locks_does:
  "statement_does E (Inr (DeleteWhere ''locks'' (''operation_id'', SqlText (operation_id_str i))))
     (\<lambda>L. L\<lparr>lg_locks := (\<lambda>p. case lg_locks L p of
        None \<Rightarrow> None | Some l \<Rightarrow> if lk_operation_id l = i then None else Some l)\<rparr>)"
proof (rule statement_does_plain)
  fix c n c'
  assume ok: "db_ok E c"
    and run: "sql_run (DeleteWhere ''locks'' (''operation_id'', SqlText (operation_id_str i))) c = Some (n, c')"
  have "meets (''operation_id'', SqlText (operation_id_str i)) r \<longleftrightarrow> \<not> lk_operation_id (snd pl) \<noteq> i"
    if "lock_entry E r = Inr pl" for r pl
    using lock_entry_operation [OF that] by (auto simp: operation_id.expand)
  note eff = delete_rows [OF db_okD(7) [OF ok] db_okD(1) [OF ok] run _ this, simplified]
  show "db_ok E c' \<and> sql_ledger E c' = (sql_ledger E c)\<lparr>lg_locks := (\<lambda>p. case lg_locks (sql_ledger E c) p of
        None \<Rightarrow> None | Some l \<Rightarrow> if lk_operation_id l = i then None else Some l)\<rparr>"
    using ok eff
    by (simp add: other_tables [OF eff(2)] db_ok_def sql_ledger_def fun_eq_iff split: option.split)
qed

lemma delete_lock_does:
  "statement_does E (Inr (DeleteWhere ''locks'' (''outpoint'', SqlText (outpoint_string p))))
     (\<lambda>L. L\<lparr>lg_locks := (lg_locks L)(p := None)\<rparr>)"
proof (rule statement_does_plain)
  fix c n c'
  assume ok: "db_ok E c"
    and run: "sql_run (DeleteWhere ''locks'' (''outpoint'', SqlText (outpoint_string p))) c = Some (n, c')"
  have "meets (''outpoint'', SqlText (outpoint_string p)) r \<longleftrightarrow> \<not> fst pl \<noteq> p"
    if "lock_entry E r = Inr pl" for r pl
    using lock_entry_key [OF that] by auto
  note eff = delete_rows [OF db_okD(7) [OF ok] db_okD(1) [OF ok] run _ this, simplified]
  have "table_map (lock_entry E) fst (table_rows c ''locks'') q = Some pl \<Longrightarrow> fst pl = q" for q pl
    by (rule table_map_key [OF db_okD(7) [OF ok]])
  then show "db_ok E c' \<and> sql_ledger E c' = (sql_ledger E c)\<lparr>lg_locks := (lg_locks (sql_ledger E c))(p := None)\<rparr>"
    using ok eff
    by (auto simp: other_tables [OF eff(2)] db_ok_def sql_ledger_def fun_eq_iff split: option.split)
qed

lemma expire_locks_does:
  "statement_does E (Inr (UpdateWhere ''locks'' (''expires_at'', SqlNull)
       (''operation_id'', SqlText (operation_id_str i))))
     (\<lambda>L. L\<lparr>lg_locks := (\<lambda>p. map_option
        (\<lambda>l. if lk_operation_id l = i then l\<lparr>lk_expires_at := None\<rparr> else l) (lg_locks L p))\<rparr>)"
proof (rule statement_does_plain)
  fix c n c'
  assume ok: "db_ok E c" and run: "sql_run (UpdateWhere ''locks'' (''expires_at'', SqlNull)
       (''operation_id'', SqlText (operation_id_str i))) c = Some (n, c')"
  let ?h = "\<lambda>l. if lk_operation_id l = i then l\<lparr>lk_expires_at := None\<rparr> else l"
  have null: "get_u64_option (r(''expires_at'' := SqlNull)) ''expires_at'' = Inr None" for r
    by (simp add: get_u64_option_def)
  have step: "lock_entry E (if meets (''operation_id'', SqlText (operation_id_str i)) r
      then r(fst (''expires_at'', SqlNull) := snd (''expires_at'', SqlNull)) else r) = Inr (map_prod id ?h pl)"
    if "lock_entry E r = Inr pl" for r pl
    using that lock_entry_operation [OF that] operation_id.expand [of "lk_operation_id (snd pl)" i]
    by (cases pl; cases "snd pl") (auto simp: lock_entry_def lock_from_row_def input_from_row_def
      res_bind_eq_Inr res_map_eq null)
  note eff = update_rows [OF db_okD(7) [OF ok] db_okD(1) [OF ok] run step, simplified]
  show "db_ok E c' \<and> sql_ledger E c' =
      (sql_ledger E c)\<lparr>lg_locks := (\<lambda>p. map_option ?h (lg_locks (sql_ledger E c) p))\<rparr>"
    using ok eff
    by (simp add: other_tables [OF eff(2)] db_ok_def sql_ledger_def fun_eq_iff option.map_comp comp_def)
qed

definition with_status ::
  "operation_id \<Rightarrow> intent_status \<Rightarrow> operation_id \<times> intent_header \<Rightarrow> operation_id \<times> intent_header" where
  "with_status i st v = (fst v, fst (snd v), if fst v = i then st else fst (snd (snd v)), snd (snd (snd v)))"

lemma with_status_entry:
  "fst (with_status i st v) = fst v"
  "intent_entry E c (with_status i st v) =
     (if fst v = i then (intent_entry E c v)\<lparr>oi_status := st\<rparr> else intent_entry E c v)"
  by (cases v; simp add: with_status_def)+

lemma update_status_rows:
  assumes ok: "db_ok E c" and run: "sql_run (update_status i st) c = Some (n, c')"
  shows "schema_ok c'" and "changes_only ''intents'' c c'"
    and "table_ok pending_from_row fst (table_rows c' ''intents'')"
    and "table_map pending_from_row fst (table_rows c' ''intents'') =
      (\<lambda>j. map_option (with_status i st) (table_map pending_from_row fst (table_rows c ''intents'') j))"
proof -
  have step: "pending_from_row (if meets (''operation_id'', SqlText (operation_id_str i)) r
      then r(fst (''status'', SqlText (encode_status st)) := snd (''status'', SqlText (encode_status st))) else r) =
      Inr (with_status i st v)" if "pending_from_row r = Inr v" for r v
    using that pending_row_key [OF that] operation_id.expand [of "fst v" i]
    by (cases v) (auto simp: pending_from_row_def header_from_row_def res_bind_eq_Inr with_status_def)
  note eff = update_rows [where f = pending_from_row and key = fst and h = "with_status i st"
      and a = "(''status'', SqlText (encode_status st))" and cond = "(''operation_id'', SqlText (operation_id_str i))",
      OF db_okD(9) [OF ok] db_okD(1) [OF ok] run [unfolded update_status_def] step with_status_entry(1)]
  show "schema_ok c'" and "changes_only ''intents'' c c'"
    and "table_ok pending_from_row fst (table_rows c' ''intents'')"
    and "table_map pending_from_row fst (table_rows c' ''intents'') =
      (\<lambda>j. map_option (with_status i st) (table_map pending_from_row fst (table_rows c ''intents'') j))"
    by (rule eff; assumption)+
qed

lemma update_status_does: "statement_does E (Inr (update_status i st)) (set_intent_status i st)"
proof (rule statement_does_plain)
  fix c n c'
  assume ok: "db_ok E c" and run: "sql_run (update_status i st) c = Some (n, c')"
  note eff = update_status_rows [OF this]
  let ?m = "table_map pending_from_row fst (table_rows c ''intents'')"
  have intents: "lg_intents (sql_ledger E c') j = lg_intents (set_intent_status i st (sql_ledger E c)) j" for j
    using table_map_key [OF db_okD(9) [OF ok], of j]
    by (cases "j = i"; cases "?m j") (simp_all add: sql_ledger_def set_intent_status_def
      other_tables [OF eff(2)] eff(4) with_status_entry)
  have "sql_ledger E c' = (sql_ledger E c)\<lparr>lg_intents := lg_intents (sql_ledger E c')\<rparr>"
    by (simp add: sql_ledger_def other_tables [OF eff(2)])
  moreover have "lg_intents (sql_ledger E c') = lg_intents (set_intent_status i st (sql_ledger E c))"
    using intents by (rule ext)
  ultimately have "sql_ledger E c' = set_intent_status i st (sql_ledger E c)"
    by (simp add: set_intent_status_def)
  moreover have "db_ok E c'" using ok eff(1,3) by (simp add: other_tables [OF eff(2)] db_ok_def)
  ultimately show "db_ok E c' \<and> sql_ledger E c' = set_intent_status i st (sql_ledger E c)" by simp
qed

end
