(* ===== verification/Sqlite_Reads.thy ===== *)
theory Sqlite_Reads
  imports Sqlite_Statements
begin

text \<open>
  Every query of the store returns what its ledger holds, or fails in the connection.
\<close>

section \<open>Reading the ledger\<close>

definition tx_reads ::
  "'db sql_engine \<Rightarrow> ('db \<Rightarrow> sql_database) \<Rightarrow> ('db \<Rightarrow> 'a result) \<Rightarrow> (ledger \<Rightarrow> 'a result) \<Rightarrow> bool" where
  "tx_reads E content m v \<longleftrightarrow>
     (\<forall>db. db_ok E (content db) \<longrightarrow>
        m db = v (sql_ledger E (content db)) \<or> (\<exists>msg. m db = Inl (Storage msg)))"

lemma tx_readsD:
  "tx_reads E content m v \<Longrightarrow> db_ok E (content db) \<Longrightarrow>
    m db = v (sql_ledger E (content db)) \<or> (\<exists>msg. m db = Inl (Storage msg))"
  by (simp add: tx_reads_def)

lemma tx_reads_const: "tx_reads E content (\<lambda>_. r) (\<lambda>_. r)"
  by (simp add: tx_reads_def)

lemma tx_reads_bind:
  assumes "tx_reads E content m v" and "\<And>x. tx_reads E content (f x) (g x)"
  shows "tx_reads E content (\<lambda>db. res_bind (m db) (\<lambda>x. f x db)) (\<lambda>L. res_bind (v L) (\<lambda>x. g x L))"
  unfolding tx_reads_def
proof (intro allI impI)
  fix db
  assume ok: "db_ok E (content db)"
  let ?L = "sql_ledger E (content db)"
  show "res_bind (m db) (\<lambda>x. f x db) = res_bind (v ?L) (\<lambda>x. g x ?L) \<or>
    (\<exists>msg. res_bind (m db) (\<lambda>x. f x db) = Inl (Storage msg))"
  proof (cases "m db")
    case (Inl e)
    with tx_readsD [OF assms(1) ok] show ?thesis by (metis res_bind_simps(1))
  next
    case (Inr x)
    with tx_readsD [OF assms(1) ok] have "v ?L = Inr x" by auto
    with Inr tx_readsD [OF assms(2) ok, of x] show ?thesis by simp
  qed
qed

lemma tx_reads_if:
  "tx_reads E content m v \<Longrightarrow> tx_reads E content m' v' \<Longrightarrow>
    tx_reads E content (\<lambda>db. if b then m db else m' db) (\<lambda>L. if b then v L else v' L)"
  by (simp add: tx_reads_def)

lemma tx_reads_each:
  assumes "\<And>x. tx_reads E content (f x) (g x)"
  shows "tx_reads E content (\<lambda>db. res_each (\<lambda>x. f x db) xs) (\<lambda>L. res_each (\<lambda>x. g x L) xs)"
proof (induction xs)
  case Nil
  then show ?case by (simp add: tx_reads_const)
next
  case (Cons x xs)
  from tx_reads_bind [OF assms [of x] Cons.IH] show ?case by simp
qed

text \<open>What a ledger shows of an intent's header, and the outputs an operation owns in the order of their text.\<close>

definition ledger_header :: "ledger \<Rightarrow> operation_id \<Rightarrow> intent_header option" where
  "ledger_header L i = map_option (\<lambda>n. (os_change_scope_id (oi_selection n), oi_status n,
     oi_recorded_at n, os_expires_at (oi_selection n))) (lg_intents L i)"

definition owned_outpoints :: "ledger \<Rightarrow> operation_id \<Rightarrow> outpoint list" where
  "owned_outpoints L i =
     map (\<lambda>s. the (parse_outpoint s)) (sorted_list_of_set (outpoint_string ` bound_outpoints L i))"

section \<open>Queries on a table\<close>

lemma table_listing_where:
  assumes "table_ok f key rows" and "\<And>r v. f r = Inr v \<Longrightarrow> P r \<longleftrightarrow> Q v"
  obtains vs where "res_collect f (sort_key g (filter P rows)) = Inr vs" and "distinct (map key vs)"
    and "set vs = {v \<in> ran (table_map f key rows). Q v}"
proof -
  have "\<exists>vs. res_collect f (sort_key g (filter P rows)) = Inr vs \<and> distinct (map key vs) \<and>
      set vs = {v \<in> ran (table_map f key rows). Q v}"
    by (rule table_listing [OF assms(1)]) (rule assms(2))
  then show thesis using that by blast
qed

lemma sort_key_const [simp]: "sort_key (\<lambda>x. k) xs = xs"
  by (rule sort_key_id_if_sorted) (induction xs; simp)

lemma meets_texts [simp]: "meets (c, SqlText s) = (\<lambda>r. r c = SqlText s)"
  by (rule ext) simp

context sqlite_engine
begin

lemma query_storage: "eng_query E db q = Inl e \<Longrightarrow> \<exists>m. map_sql_error E e = Storage m"
  using query_fault engine_fault_storage by blast

lemma query_rows:
  "eng_query E db q = Inr rows \<Longrightarrow> rows = sort_key (\<lambda>r. map r (q_order q))
     (filter (\<lambda>r. case q_where q of None \<Rightarrow> True | Some cond \<Rightarrow> meets cond r)
       (table_rows (content db) (q_from q)))"
  using query_law select_rows by blast

text \<open>A query for one key.\<close>

lemma query_key:
  assumes "table_ok f key (table_rows (content db) t)" and "key_column f kc kt key"
    and "\<And>r v. f r = Inr v \<Longrightarrow> key v = k \<Longrightarrow> f' r = Inr (h v) \<or> (\<exists>e. f' r = Inl e \<and> engine_fault e)"
  shows "query_optional E (select_where columns t kc (SqlText (kt k))) f' db =
      Inr (map_option h (table_map f key (table_rows (content db) t) k)) \<or>
    (\<exists>m. query_optional E (select_where columns t kc (SqlText (kt k))) f' db = Inl (Storage m))"
proof (cases "eng_query E db (select_where columns t kc (SqlText (kt k)))")
  case (Inl e)
  then show ?thesis using query_storage [OF Inl] by (simp add: query_optional_def)
next
  case (Inr rows)
  have rows: "rows = filter (meets (kc, SqlText (kt k))) (table_rows (content db) t)"
    using query_rows [OF Inr] by (simp add: meets_def [abs_def])
  have "meets (kc, SqlText (kt k)) r \<longleftrightarrow> key v = k" if "f r = Inr v" for r v
    using key_column_eq [OF assms(2) that] by simp
  then have found: "case table_map f key (table_rows (content db) t) k of
      None \<Rightarrow> rows = [] | Some v \<Rightarrow> \<exists>r\<in>set (table_rows (content db) t). rows = [r] \<and> f r = Inr v"
    unfolding rows by (intro table_lookup [OF assms(1)])
  show ?thesis
  proof (cases "table_map f key (table_rows (content db) t) k")
    case None
    with found show ?thesis by (simp add: query_optional_def Inr)
  next
    case (Some v)
    with found obtain r where r: "rows = [r]" "f r = Inr v" by auto
    have "key v = k" using table_map_key [OF assms(1) Some] .
    then show ?thesis
      using assms(3) [OF r(2)] engine_fault_storage [where E = E] by (auto simp: query_optional_def Inr r(1) Some)
  qed
qed

lemma read_utxo: "tx_reads E content (\<lambda>db. sqlite_read_utxo E db p) (\<lambda>L. Inr (lg_utxos L p))"
  unfolding tx_reads_def
proof (intro allI impI)
  fix db
  assume ok: "db_ok E (content db)"
  show "sqlite_read_utxo E db p = Inr (lg_utxos (sql_ledger E (content db)) p) \<or>
      (\<exists>msg. sqlite_read_utxo E db p = Inl (Storage msg))"
    using query_key [OF db_okD(6) [OF ok] key_columns(3), where f' = "utxo_from_row E" and h = "\<lambda>u. u" and k = p]
    by (simp add: sqlite_read_utxo_def sql_ledger_def option.map_ident)
qed

lemma read_lock: "tx_reads E content (\<lambda>db. sqlite_read_lock E db p) (\<lambda>L. Inr (lg_locks L p))"
  unfolding tx_reads_def
proof (intro allI impI)
  fix db
  assume ok: "db_ok E (content db)"
  have "lock_entry E r = Inr pl \<Longrightarrow> lock_from_row r = Inr (snd pl)" for r pl
    by (auto simp: lock_entry_def res_bind_eq_Inr res_map_eq)
  then show "sqlite_read_lock E db p = Inr (lg_locks (sql_ledger E (content db)) p) \<or>
      (\<exists>msg. sqlite_read_lock E db p = Inl (Storage msg))"
    using query_key [OF db_okD(7) [OF ok] key_columns(4), where f' = lock_from_row and h = snd and k = p]
    by (simp add: sqlite_read_lock_def sql_ledger_def)
qed

lemma read_operation: "tx_reads E content (\<lambda>db. sqlite_read_operation E db i) (\<lambda>L. Inr (lg_operations L i))"
  unfolding tx_reads_def
proof (intro allI impI)
  fix db
  assume ok: "db_ok E (content db)"
  show "sqlite_read_operation E db i = Inr (lg_operations (sql_ledger E (content db)) i) \<or>
      (\<exists>msg. sqlite_read_operation E db i = Inl (Storage msg))"
    using query_key [OF db_okD(8) [OF ok] key_columns(5), where f' = operation_from_row and h = "\<lambda>x. x" and k = i]
    by (simp add: sqlite_read_operation_def sql_ledger_def option.map_ident)
qed

lemma read_phase: "tx_reads E content (\<lambda>db. read_phase E db i) (\<lambda>L. Inr (map_option po_phase (lg_operations L i)))"
  unfolding tx_reads_def
proof (intro allI impI)
  fix db
  assume ok: "db_ok E (content db)"
  have "operation_from_row r = Inr x \<Longrightarrow> res_bind (get_text r ''phase'') decode_phase = Inr (po_phase x)" for r x
    by (auto simp: operation_from_row_def res_bind_eq_Inr)
  then show "Sqlite_Store.read_phase E db i = Inr (map_option po_phase (lg_operations (sql_ledger E (content db)) i)) \<or>
      (\<exists>msg. Sqlite_Store.read_phase E db i = Inl (Storage msg))"
    using query_key [OF db_okD(8) [OF ok] key_columns(5), where h = po_phase and k = i
      and f' = "\<lambda>r. res_bind (get_text r ''phase'') decode_phase"]
    by (simp add: read_phase_def sql_ledger_def)
qed

lemma read_scope: "tx_reads E content (\<lambda>db. sqlite_read_scope E db i) (\<lambda>L. Inr (lg_scopes L i))"
  unfolding tx_reads_def
proof (intro allI impI)
  fix db
  assume ok: "db_ok E (content db)"
  show "sqlite_read_scope E db i = Inr (lg_scopes (sql_ledger E (content db)) i) \<or>
      (\<exists>msg. sqlite_read_scope E db i = Inl (Storage msg))"
    using query_key [OF db_okD(5) [OF ok] key_columns(2), where f' = scope_from_row and h = "\<lambda>x. x" and k = i]
    by (simp add: sqlite_read_scope_def sql_ledger_def option.map_ident)
qed

text \<open>A query whose rows all decode.\<close>

lemma query_all:
  assumes "\<forall>r\<in>set (table_rows (content db) (q_from q)). \<exists>v. f r = Inr v"
  shows "(\<exists>vs. collect_rows E q f db = Inr vs \<and> res_collect f (sort_key (\<lambda>r. map r (q_order q))
     (filter (\<lambda>r. case q_where q of None \<Rightarrow> True | Some cond \<Rightarrow> meets cond r)
       (table_rows (content db) (q_from q)))) = Inr vs) \<or>
    (\<exists>m. collect_rows E q f db = Inl (Storage m))"
proof (cases "eng_query E db q")
  case (Inl e)
  then show ?thesis using query_storage [OF Inl] by (simp add: collect_rows_def)
next
  case (Inr rows)
  have "\<exists>v. f r = Inr v" if "r \<in> set rows" for r
    using that assms unfolding query_rows [OF Inr] by simp
  then have "res_collect f rows = Inr (map (\<lambda>r. projr (f r)) rows)"
    by (intro res_collect_pure) force
  then show ?thesis using query_rows [OF Inr] by (simp add: collect_rows_def Inr)
qed

text \<open>Accounts, with the scopes in their order.\<close>

lemma read_scope_ids:
  assumes "db_ok E (content db)"
  shows "account_scopes E db i = Inr (scope_ids (content db) i) \<or>
    (\<exists>e. account_scopes E db i = Inl e \<and> engine_fault e)"
proof (cases "eng_query E db \<lparr>q_columns = [''scope_id''], q_from = ''scopes'',
    q_where = Some (''account_id'', SqlText (account_id_str i)), q_order = [''priority'', ''scope_id'']\<rparr>")
  case (Inl e)
  then show ?thesis using query_fault [OF Inl] by (simp add: account_scopes_def)
next
  case (Inr rows)
  let ?f = "\<lambda>r. res_map WalletScopeId (get_text r ''scope_id'')"
  have "\<exists>s. ?f r = Inr s" if "r \<in> set rows" for r
  proof -
    have "r \<in> set (table_rows (content db) ''scopes'')" using that unfolding query_rows [OF Inr] by simp
    then show ?thesis
      using table_okD [OF db_okD(5) [OF assms]] scope_row_key by (fastforce simp: res_map_eq)
  qed
  then have "res_collect ?f rows = Inr (map (\<lambda>r. projr (?f r)) rows)"
    by (intro res_collect_pure) force
  then show ?thesis
    using query_rows [OF Inr] by (simp add: account_scopes_def Inr scope_ids_def table_values_of_def)
qed

lemma read_account: "tx_reads E content (\<lambda>db. sqlite_read_account E db i) (\<lambda>L. Inr (lg_accounts L i))"
  unfolding tx_reads_def
proof (intro allI impI)
  fix db
  assume ok: "db_ok E (content db)"
  have "account_from_row (account_scopes E db i) r = Inr (a\<lparr>ac_scopes := scope_ids (content db) i\<rparr>) \<or>
      (\<exists>e. account_from_row (account_scopes E db i) r = Inl e \<and> engine_fault e)"
    if "account_entry r = Inr a" for r a
    using that read_scope_ids [OF ok, of i]
    by (auto simp: account_entry_def account_from_row_def res_bind_eq_Inr)
  then show "sqlite_read_account E db i = Inr (lg_accounts (sql_ledger E (content db)) i) \<or>
      (\<exists>msg. sqlite_read_account E db i = Inl (Storage msg))"
    using query_key [OF db_okD(4) [OF ok] key_columns(1), where k = i
      and f' = "account_from_row (account_scopes E db i)" and h = "\<lambda>a. a\<lparr>ac_scopes := scope_ids (content db) i\<rparr>"]
    by (simp add: sqlite_read_account_def sql_ledger_def)
qed

text \<open>Intents, from their three tables.\<close>

lemma read_header: "tx_reads E content (\<lambda>db. read_intent_header E db i) (\<lambda>L. Inr (ledger_header L i))"
  unfolding tx_reads_def
proof (intro allI impI)
  fix db
  assume ok: "db_ok E (content db)"
  have row: "pending_from_row r = Inr v \<Longrightarrow> header_from_row r = Inr (snd v)" for r v
    by (auto simp: pending_from_row_def res_bind_eq_Inr)
  have "ledger_header (sql_ledger E (content db)) i =
      map_option snd (table_map pending_from_row fst (table_rows (content db) ''intents'') i)"
    by (auto simp: ledger_header_def sql_ledger_def option.map_comp comp_def intro!: option.map_cong)
  then show "read_intent_header E db i = Inr (ledger_header (sql_ledger E (content db)) i) \<or>
      (\<exists>msg. read_intent_header E db i = Inl (Storage msg))"
    using query_key [OF db_okD(9) [OF ok] key_columns(6), where f' = header_from_row and h = snd and k = i] row
    by (simp add: read_intent_header_def)
qed

lemma read_selection:
  assumes "db_ok E (content db)"
  shows "read_intent_selection E db i sc t =
      Inr \<lparr>os_operation_id = i, os_selected_outpoints = stored_inputs E (content db) i,
        os_change_scope_id = sc, os_effects = stored_effects E (content db) i, os_expires_at = t\<rparr> \<or>
    (\<exists>m. read_intent_selection E db i sc t = Inl (Storage m))"
proof -
  have inputs: "\<forall>r\<in>set (table_rows (content db) (q_from (inputs_query i))). \<exists>p. input_from_row E r = Inr p"
    using db_okD(10) [OF assms] by (simp add: inputs_query_def)
  have effects: "\<forall>r\<in>set (table_rows (content db) (q_from (effects_query i))). \<exists>e. effect_from_row E i r = Inr e"
    using db_okD(11) [OF assms] by (fastforce simp: effects_query_def)
  show ?thesis
    using query_all [OF inputs] query_all [OF effects]
    by (auto simp: read_intent_selection_def stored_inputs_def stored_effects_def by_position_def
      key_condition_def inputs_query_def effects_query_def table_values_of_def)
qed

lemma read_intent: "tx_reads E content (\<lambda>db. sqlite_read_intent E db i) (\<lambda>L. Inr (lg_intents L i))"
  unfolding tx_reads_def
proof (intro allI impI)
  fix db
  assume ok: "db_ok E (content db)"
  let ?m = "table_map pending_from_row fst (table_rows (content db) ''intents'') i"
  have header: "ledger_header (sql_ledger E (content db)) i = map_option snd ?m"
    by (auto simp: ledger_header_def sql_ledger_def option.map_comp comp_def intro!: option.map_cong)
  show "sqlite_read_intent E db i = Inr (lg_intents (sql_ledger E (content db)) i) \<or>
      (\<exists>msg. sqlite_read_intent E db i = Inl (Storage msg))"
  proof (cases ?m)
    case None
    then show ?thesis
      using tx_readsD [OF read_header ok, of i] header by (auto simp: sqlite_read_intent_def sql_ledger_def)
  next
    case (Some v)
    obtain sc st at ex where v: "v = (i, sc, st, at, ex)"
      using table_map_key [OF db_okD(9) [OF ok] Some] by (cases v) auto
    show ?thesis
      using tx_readsD [OF read_header ok, of i] header read_selection [OF ok, of i sc ex]
      by (auto simp: sqlite_read_intent_def sql_ledger_def Some v)
  qed
qed

section \<open>Listings\<close>

lemma listing:
  assumes "table_ok f key (table_rows (content db) (q_from q))"
    and "\<And>r v. f r = Inr v \<Longrightarrow> (case q_where q of None \<Rightarrow> True | Some cond \<Rightarrow> meets cond r) \<longleftrightarrow> Q v"
  shows "(\<exists>vs. collect_rows E q f db = Inr vs \<and> distinct (map key vs) \<and>
      set vs = {v \<in> ran (table_map f key (table_rows (content db) (q_from q))). Q v}) \<or>
    (\<exists>m. collect_rows E q f db = Inl (Storage m))"
  using query_all [of db q f] assms(1) [unfolded table_ok_iff]
    table_listing [OF assms(1), of "\<lambda>r. case q_where q of None \<Rightarrow> True | Some cond \<Rightarrow> meets cond r" Q
      "\<lambda>r. map r (q_order q)", OF assms(2)]
  by auto

lemma list_utxos_read:
  assumes "db_ok E (content db)"
  shows "lists_as (sqlite_list_utxos E db) (ran (lg_utxos (sql_ledger E (content db))))"
  using listing [where f = "utxo_from_row E" and key = mu_outpoint and db = db and Q = "\<lambda>_. True"
      and q = "\<lparr>q_columns = [], q_from = ''utxos'', q_where = None, q_order = [''outpoint'']\<rparr>"]
    db_okD(6) [OF assms]
  by (auto simp: lists_as_def sqlite_list_utxos_def sql_ledger_def distinct_map)

lemma list_operations_read:
  assumes "db_ok E (content db)"
  shows "lists_as (sqlite_list_operations E db) (ran (lg_operations (sql_ledger E (content db))))"
  using listing [where f = operation_from_row and key = po_operation_id and db = db and Q = "\<lambda>_. True"
      and q = "\<lparr>q_columns = operation_columns, q_from = ''operations'', q_where = None,
        q_order = [''operation_id'']\<rparr>"]
    db_okD(8) [OF assms]
  by (auto simp: lists_as_def sqlite_list_operations_def sql_ledger_def distinct_map)

lemma list_pending_read:
  assumes "db_ok E (content db)"
  shows "lists_as (sqlite_list_pending_intents E db)
     {n \<in> ran (lg_intents (sql_ledger E (content db))). oi_status n = Pending}"
proof (cases "eng_query E db pending_query")
  case (Inl e)
  then show ?thesis using query_storage [OF Inl] by (auto simp: lists_as_def sqlite_list_pending_intents_def)
next
  case (Inr rows)
  let ?c = "content db" and ?t = "table_rows (content db) ''intents''"
  let ?read = "\<lambda>row. res_bind (map_err E (pending_from_row row)) (\<lambda>(i, sc, status, at, ex).
       res_bind (read_intent_selection E db i sc ex) (\<lambda>selection.
       Inr \<lparr>oi_selection = selection, oi_status = status, oi_recorded_at = at\<rparr>))"
  have rows: "rows = sort_key (\<lambda>r. map r [''operation_id'']) (filter (\<lambda>r. r ''status'' = SqlText ''pending'') ?t)"
    using query_rows [OF Inr] by (simp add: pending_query_def)
  have status: "r ''status'' = SqlText ''pending'' \<longleftrightarrow> fst (snd (snd v)) = Pending"
    if "pending_from_row r = Inr v" for r v
    using that encode_status_inject [of "fst (snd (snd v))" Pending] decode_status_encoded
    by (fastforce simp: pending_from_row_def header_from_row_def res_bind_eq_Inr)
  obtain vs where vs: "res_collect pending_from_row rows = Inr vs" "distinct (map fst vs)"
    "set vs = {v \<in> ran (table_map pending_from_row fst ?t). fst (snd (snd v)) = Pending}"
    unfolding rows by (rule table_listing_where [OF db_okD(9) [OF assms], where P = "\<lambda>r. r ''status'' = SqlText ''pending''"
        and Q = "\<lambda>v. fst (snd (snd v)) = Pending" and g = "\<lambda>r. map r [''operation_id'']"]) (rule status)
  have step: "?read r = Inr (intent_entry E ?c v) \<or> (\<exists>m. ?read r = Inl (Storage m))"
    if "pending_from_row r = Inr v" for r v
  proof -
    obtain i sc st at ex where v: "v = (i, sc, st, at, ex)" by (cases v) auto
    show ?thesis using read_selection [OF assms, of i sc ex] by (auto simp: that v)
  qed
  have "res_collect ?read rs = Inr (map (intent_entry E ?c) ws) \<or> (\<exists>m. res_collect ?read rs = Inl (Storage m))"
    if "res_collect pending_from_row rs = Inr ws" for rs ws
    using that
  proof (induction rs arbitrary: ws)
    case (Cons r rs)
    then obtain v us where "pending_from_row r = Inr v" "res_collect pending_from_row rs = Inr us" "ws = v # us"
      by (auto simp: res_bind_eq_Inr res_map_eq)
    with step [of r v] Cons.IH [of us] show ?case by (auto simp: res_bind_def)
  qed simp
  from this [OF vs(1)]
  consider "sqlite_list_pending_intents E db = Inr (map (intent_entry E ?c) vs)"
    | m where "sqlite_list_pending_intents E db = Inl (Storage m)"
    by (auto simp: sqlite_list_pending_intents_def Inr)
  then show ?thesis
  proof cases
    case 1
    have id: "os_operation_id (oi_selection (intent_entry E ?c v)) = fst v" for v
      by (cases v) simp
    have "distinct (map (intent_entry E ?c) vs)"
      using vs(2) id by (auto simp: distinct_map inj_on_def)
    moreover have "set (map (intent_entry E ?c) vs) =
        {n \<in> ran (lg_intents (sql_ledger E ?c)). oi_status n = Pending}"
      using vs(3) by (fastforce simp: sql_ledger_def ran_def image_iff)
    ultimately show ?thesis using 1 by (auto simp: lists_as_def)
  qed (auto simp: lists_as_def)
qed

text \<open>The outputs an operation owns, in the order of their text.\<close>

lemma read_owned_outpoints: "tx_reads E content (read_owned E i) (\<lambda>L. Inr (owned_outpoints L i))"
  unfolding tx_reads_def
proof (intro allI impI)
  fix db
  assume ok: "db_ok E (content db)"
  let ?t = "table_rows (content db) ''utxos''" and ?L = "sql_ledger E (content db)"
  let ?rows = "sort_key (\<lambda>r. map r [''outpoint'']) (filter (\<lambda>r. r ''binding_operation_id'' = SqlText (operation_id_str i)) ?t)"
  note t = db_okD(6) [OF ok]
  have input: "utxo_from_row E r = Inr u \<Longrightarrow> input_from_row E r = Inr (mu_outpoint u)" for r u
    using utxo_row_key by (fastforce simp: input_row_outpoint)
  have "\<forall>r\<in>set ?t. \<exists>p. input_from_row E r = Inr p"
    using table_okD [OF t] input by blast
  then have "(\<exists>ps. read_owned E i db = Inr ps \<and> res_collect (input_from_row E) ?rows = Inr ps) \<or>
      (\<exists>m. read_owned E i db = Inl (Storage m))"
    using query_all [of db "owned_query i" "input_from_row E"] by (simp add: read_owned_def owned_query_def)
  moreover have "ps = owned_outpoints ?L i" if ps: "res_collect (input_from_row E) ?rows = Inr ps" for ps
  proof -
    obtain us where us: "res_collect (utxo_from_row E) ?rows = Inr us" "distinct (map mu_outpoint us)"
      "set us = {u \<in> ran (table_map (utxo_from_row E) mu_outpoint ?t). bound_to i u}"
      by (rule table_listing_where [OF t, where P = "\<lambda>r. r ''binding_operation_id'' = SqlText (operation_id_str i)"
          and Q = "bound_to i" and g = "\<lambda>r. map r [''outpoint'']"]) (rule utxo_row_binding)
    have same: "res_collect (input_from_row E) rs = Inr (map mu_outpoint vs)"
      if "res_collect (utxo_from_row E) rs = Inr vs" for rs vs
      using that by (induction rs arbitrary: vs) (auto simp: res_bind_eq_Inr res_map_eq input)
    then have ps_us: "ps = map mu_outpoint us" using ps us(1) by simp
    have texts: "map (\<lambda>r. r ''outpoint'') rs = map (\<lambda>p. SqlText (outpoint_string p)) qs"
      if "res_collect (input_from_row E) rs = Inr qs" for rs qs
      using that by (induction rs arbitrary: qs) (auto simp: res_bind_eq_Inr res_map_eq input_row_outpoint)
    have "sorted (map (\<lambda>r. map r [''outpoint'']) ?rows)" by simp
    then have "sorted (map (\<lambda>r. r ''outpoint'') ?rows)"
      unfolding sorted_map by (rule sorted_wrt_mono_rel [rotated]) (auto simp: le_less)
    then have "sorted (map (\<lambda>p. SqlText (outpoint_string p)) ps)" using texts [OF ps] by simp
    then have "sorted (map outpoint_string ps)" unfolding sorted_map by simp
    moreover have "distinct (map outpoint_string ps)"
      using us(2) by (simp add: ps_us distinct_map inj_on_def)
    moreover have "set ps = bound_outpoints ?L i"
      using us(3) table_map_key [OF t] by (force simp: ps_us bound_outpoints_def ran_def sql_ledger_def)
    ultimately have "map outpoint_string ps = sorted_list_of_set (outpoint_string ` bound_outpoints ?L i)"
      using sorted_list_of_set.idem_if_sorted_distinct [of "map outpoint_string ps"] by simp
    then have "owned_outpoints ?L i = map (\<lambda>s. the (parse_outpoint s)) (map outpoint_string ps)"
      by (simp add: owned_outpoints_def)
    then show ?thesis by (simp add: comp_def)
  qed
  ultimately show "read_owned E i db = Inr (owned_outpoints ?L i) \<or> (\<exists>msg. read_owned E i db = Inl (Storage msg))"
    by blast
qed

lemma db_ok_finite: "db_ok E c \<Longrightarrow> finite (bound_outpoints (sql_ledger E c) i)"
proof -
  assume "db_ok E c"
  have "bound_outpoints (sql_ledger E c) i \<subseteq> dom (lg_utxos (sql_ledger E c))"
    by (auto simp: bound_outpoints_def)
  also have "finite (dom (lg_utxos (sql_ledger E c)))"
    by (simp add: sql_ledger_def table_map_def finite_dom_map_of)
  finally (finite_subset) show ?thesis .
qed

text \<open>The clock.\<close>

lemma read_tick: "tx_reads E content (sqlite_read_tick E) (\<lambda>L. Inr (lg_tick L))"
  unfolding tx_reads_def
proof (intro allI impI)
  fix db
  assume ok: "db_ok E (content db)"
  let ?m = "table_map meta_entry fst (table_rows (content db) ''meta'') ''tick''"
  obtain k v n where m: "?m = Some (k, v)" "parse_uint (2 ^ 64 - 1) v = Some n"
    using db_okD(3) [OF ok] by (auto simp: stored_tick_def split: option.splits)
  show "sqlite_read_tick E db = Inr (lg_tick (sql_ledger E (content db))) \<or>
      (\<exists>msg. sqlite_read_tick E db = Inl (Storage msg))"
  proof (cases "eng_query E db tick_query")
    case (Inl e)
    then show ?thesis using query_storage [OF Inl] by (auto simp: sqlite_read_tick_def query_row_def)
  next
    case (Inr rows)
    have "rows = filter (\<lambda>r. r ''key'' = SqlText ''tick'') (table_rows (content db) ''meta'')"
      using query_rows [OF Inr] by (simp add: tick_query_def)
    moreover have "r ''key'' = SqlText ''tick'' \<longleftrightarrow> fst kv = ''tick''" if "meta_entry r = Inr kv" for r kv
      using meta_entry_key [OF that] by auto
    ultimately obtain r where "rows = [r]" "meta_entry r = Inr (k, v)"
      using table_lookup [OF db_okD(2) [OF ok], where P = "\<lambda>r. r ''key'' = SqlText ''tick''" and k = "''tick''"] m(1)
      by auto
    then show ?thesis
      using m by (auto simp: sqlite_read_tick_def query_row_def Inr meta_entry_def res_bind_eq_Inr res_map_eq
        sql_ledger_def stored_tick_def)
  qed
qed

end

end
