(* ===== verification/Sqlite_Transactions.thy ===== *)
theory Sqlite_Transactions
  imports Sqlite_Reads
begin

text \<open>
  Commands inside an open transaction, against programs over the ledger: the rules that compose
  them, and the transaction around them, which keeps what its body did or nothing.
\<close>

section \<open>Runs of a transaction's body\<close>

text \<open>
  A triple over the contents a body sees. A failure in the storage layer leaves the contents open; no
  run touches the committed database, and a run that succeeds leaves the transaction open.
\<close>

definition tx_triple ::
  "('db \<Rightarrow> sql_database) \<Rightarrow> ('db \<Rightarrow> sql_database) \<Rightarrow> ('db \<Rightarrow> bool) \<Rightarrow> (sql_database \<Rightarrow> bool) \<Rightarrow>
   ('db, 'a) command \<Rightarrow> ('a result \<Rightarrow> sql_database \<Rightarrow> bool) \<Rightarrow> bool" where
  "tx_triple content committed open_tx P m Q \<longleftrightarrow>
     (\<forall>db r db'. open_tx db \<longrightarrow> P (content db) \<longrightarrow> m db = (r, db') \<longrightarrow>
        committed db' = committed db \<and>
        ((\<exists>msg. r = Inl (Storage msg)) \<or> Q r (content db') \<and> (\<forall>x. r = Inr x \<longrightarrow> open_tx db')))"

lemma tx_tripleI:
  assumes "\<And>db r db'. open_tx db \<Longrightarrow> P (content db) \<Longrightarrow> m db = (r, db') \<Longrightarrow>
      committed db' = committed db \<and>
      ((\<exists>msg. r = Inl (Storage msg)) \<or> Q r (content db') \<and> (\<forall>x. r = Inr x \<longrightarrow> open_tx db'))"
  shows "tx_triple content committed open_tx P m Q"
  using assms by (simp add: tx_triple_def)

lemma tx_tripleD:
  assumes "tx_triple content committed open_tx P m Q" and "open_tx db" and "P (content db)" and "m db = (r, db')"
  shows "committed db' = committed db"
    and "(\<exists>msg. r = Inl (Storage msg)) \<or> Q r (content db') \<and> (\<forall>x. r = Inr x \<longrightarrow> open_tx db')"
  using assms by (simp_all add: tx_triple_def)

lemma tx_triple_conseq:
  assumes "tx_triple content committed open_tx P m Q"
    and "\<And>c. P' c \<Longrightarrow> P c" and "\<And>r c. Q r c \<Longrightarrow> Q' r c"
  shows "tx_triple content committed open_tx P' m Q'"
proof (rule tx_tripleI)
  fix db r db'
  assume "open_tx db" and "P' (content db)" and "m db = (r, db')"
  with tx_tripleD [OF assms(1), of db r db'] assms(2,3)
  show "committed db' = committed db \<and>
      ((\<exists>msg. r = Inl (Storage msg)) \<or> Q' r (content db') \<and> (\<forall>x. r = Inr x \<longrightarrow> open_tx db'))" by blast
qed

lemma tx_triple_bind:
  assumes "tx_triple content committed open_tx P m R"
    and "\<And>e c. R (Inl e) c \<Longrightarrow> Q (Inl e) c"
    and "\<And>x. tx_triple content committed open_tx (R (Inr x)) (f x) Q"
  shows "tx_triple content committed open_tx P (cmd_bind m f) Q"
proof (rule tx_tripleI)
  fix db r db'
  assume db: "open_tx db" "P (content db)" and run: "cmd_bind m f db = (r, db')"
  obtain r1 db1 where m: "m db = (r1, db1)" by fastforce
  note first = tx_tripleD [OF assms(1) db m]
  show "committed db' = committed db \<and>
      ((\<exists>msg. r = Inl (Storage msg)) \<or> Q r (content db') \<and> (\<forall>x. r = Inr x \<longrightarrow> open_tx db'))"
  proof (cases r1)
    case (Inl e)
    with run m have "r = Inl e" "db' = db1" by (simp_all add: cmd_bind_run)
    with first Inl assms(2) show ?thesis by blast
  next
    case (Inr x)
    with run m have run: "f x db1 = (r, db')" by (simp add: cmd_bind_run)
    from first(2) Inr have "open_tx db1" and "R (Inr x) (content db1)" by auto
    from tx_tripleD [OF assms(3) this run] first(1) show ?thesis by simp
  qed
qed

lemma tx_triple_pure:
  assumes "\<And>c. P c \<Longrightarrow> Q r c"
  shows "tx_triple content committed open_tx P (\<lambda>s. (r, s)) Q"
  using assms by (auto simp: tx_triple_def)

lemma tx_triple_return: "(\<And>c. P c \<Longrightarrow> Q (Inr x) c) \<Longrightarrow> tx_triple content committed open_tx P (cmd_return x) Q"
  by (auto simp: tx_triple_def)

lemma tx_triple_fail: "(\<And>c. P c \<Longrightarrow> Q (Inl e) c) \<Longrightarrow> tx_triple content committed open_tx P (cmd_fail e) Q"
  by (auto simp: tx_triple_def)

lemma tx_triple_each:
  assumes "\<And>xs x ys. zs = xs @ x # ys \<Longrightarrow>
      tx_triple content committed open_tx (I xs) (f x) (\<lambda>r. case r of Inl e \<Rightarrow> (\<lambda>_. False) | Inr _ \<Rightarrow> I (xs @ [x]))"
  shows "tx_triple content committed open_tx (I []) (cmd_each f zs)
    (\<lambda>r. case r of Inl e \<Rightarrow> (\<lambda>_. False) | Inr _ \<Rightarrow> I zs)"
proof -
  have "tx_triple content committed open_tx (I xs) (cmd_each f ys)
      (\<lambda>r. case r of Inl e \<Rightarrow> (\<lambda>_. False) | Inr _ \<Rightarrow> I zs)" if "zs = xs @ ys" for xs ys
    using that
  proof (induction ys arbitrary: xs)
    case Nil
    then show ?case by (auto simp: tx_triple_def)
  next
    case (Cons y ys)
    from Cons.IH [of "xs @ [y]"] Cons.prems
    show ?case by (auto intro!: tx_triple_bind [OF assms [of xs y ys]])
  qed
  from this [of "[]" zs] show ?thesis by simp
qed

text \<open>A body that does to the ledger what a program over ledgers says.\<close>

definition tx_does ::
  "'db sql_engine \<Rightarrow> ('db \<Rightarrow> sql_database) \<Rightarrow> ('db \<Rightarrow> sql_database) \<Rightarrow> ('db \<Rightarrow> bool) \<Rightarrow>
   ('db, 'a) command \<Rightarrow> (ledger, 'a) command \<Rightarrow> bool" where
  "tx_does E content committed open_tx m spec \<longleftrightarrow>
     (\<forall>L. tx_triple content committed open_tx (\<lambda>c. db_ok E c \<and> sql_ledger E c = L) m
        (\<lambda>r c. r = fst (spec L) \<and> (\<forall>x. r = Inr x \<longrightarrow> db_ok E c \<and> sql_ledger E c = snd (spec L))))"

lemma tx_doesD:
  "tx_does E content committed open_tx m spec \<Longrightarrow>
    tx_triple content committed open_tx (\<lambda>c. db_ok E c \<and> sql_ledger E c = L) m
      (\<lambda>r c. r = fst (spec L) \<and> (\<forall>x. r = Inr x \<longrightarrow> db_ok E c \<and> sql_ledger E c = snd (spec L)))"
  by (simp add: tx_does_def)

lemma tx_does_cong:
  "tx_does E content committed open_tx m spec \<Longrightarrow> (\<And>L. spec L = spec' L) \<Longrightarrow>
    tx_does E content committed open_tx m spec'"
  by (simp add: tx_does_def)

lemma tx_does_return: "tx_does E content committed open_tx (cmd_return x) (cmd_return x)"
  by (auto simp: tx_does_def tx_triple_def)

lemma tx_does_fail: "tx_does E content committed open_tx (cmd_fail e) (cmd_fail e)"
  by (auto simp: tx_does_def tx_triple_def)

lemma tx_does_commit_with: "tx_does E content committed open_tx (commit_with x) (commit_with x)"
  by (simp add: commit_with_def tx_does_return)

lemma tx_does_read:
  assumes "tx_reads E content m v"
  shows "tx_does E content committed open_tx (cmd_read m) (cmd_read v)"
  unfolding tx_does_def
proof (intro allI tx_tripleI)
  fix L db r db'
  assume "open_tx db" and ok: "db_ok E (content db) \<and> sql_ledger E (content db) = L"
    and "cmd_read m db = (r, db')"
  then show "committed db' = committed db \<and>
      ((\<exists>msg. r = Inl (Storage msg)) \<or> (r = fst (cmd_read v L) \<and> (\<forall>x. r = Inr x \<longrightarrow>
        db_ok E (content db') \<and> sql_ledger E (content db') = snd (cmd_read v L))) \<and>
        (\<forall>x. r = Inr x \<longrightarrow> open_tx db'))"
    using tx_readsD [OF assms, of db] by auto
qed

lemma tx_does_const: "tx_does E content committed open_tx (cmd_read (\<lambda>_. r)) (cmd_read (\<lambda>_. r))"
  by (rule tx_does_read [OF tx_reads_const])

lemma tx_does_bind:
  assumes "tx_does E content committed open_tx m spec"
    and "\<And>x. tx_does E content committed open_tx (f x) (g x)"
  shows "tx_does E content committed open_tx (cmd_bind m f) (cmd_bind spec g)"
  unfolding tx_does_def
proof
  fix L
  show "tx_triple content committed open_tx (\<lambda>c. db_ok E c \<and> sql_ledger E c = L) (cmd_bind m f)
      (\<lambda>r c. r = fst (cmd_bind spec g L) \<and>
        (\<forall>x. r = Inr x \<longrightarrow> db_ok E c \<and> sql_ledger E c = snd (cmd_bind spec g L)))"
  proof (rule tx_triple_bind [OF tx_doesD [OF assms(1)]])
    fix e c
    assume "Inl e = fst (spec L) \<and> (\<forall>x. Inl e = Inr x \<longrightarrow> db_ok E c \<and> sql_ledger E c = snd (spec L))"
    then show "Inl e = fst (cmd_bind spec g L) \<and>
        (\<forall>x. Inl e = Inr x \<longrightarrow> db_ok E c \<and> sql_ledger E c = snd (cmd_bind spec g L))"
      by (cases "spec L") (auto simp: cmd_bind_def)
  next
    fix x
    show "tx_triple content committed open_tx
        (\<lambda>c. Inr x = fst (spec L) \<and> (\<forall>x'. Inr x = Inr x' \<longrightarrow> db_ok E c \<and> sql_ledger E c = snd (spec L))) (f x)
        (\<lambda>r c. r = fst (cmd_bind spec g L) \<and>
          (\<forall>x. r = Inr x \<longrightarrow> db_ok E c \<and> sql_ledger E c = snd (cmd_bind spec g L)))"
    proof (cases "fst (spec L) = Inr x")
      case True
      then have "cmd_bind spec g L = g x (snd (spec L))" by (cases "spec L") (simp add: cmd_bind_def)
      then show ?thesis by (auto intro: tx_triple_conseq [OF tx_doesD [OF assms(2) [of x], of "snd (spec L)"]])
    next
      case False
      then show ?thesis by (auto simp: tx_triple_def)
    qed
  qed
qed

lemma tx_does_if:
  "tx_does E content committed open_tx m spec \<Longrightarrow> tx_does E content committed open_tx m' spec' \<Longrightarrow>
    tx_does E content committed open_tx (if b then m else m') (if b then spec else spec')"
  by simp

lemma tx_does_each:
  assumes "\<And>x. tx_does E content committed open_tx (f x) (g x)"
  shows "tx_does E content committed open_tx (cmd_each f xs) (cmd_each g xs)"
  by (induction xs) (simp_all only: cmd_each.simps tx_does_return tx_does_bind [OF assms])

lemmas tx_does_rules = tx_does_return tx_does_fail tx_does_commit_with tx_does_const tx_does_bind tx_does_if tx_does_each

section \<open>Statements\<close>

text \<open>The contents of a store at rest: its tables decode, and no transaction is open.\<close>

definition sql_inv ::
  "'db sql_engine \<Rightarrow> ('db \<Rightarrow> sql_database) \<Rightarrow> ('db \<Rightarrow> sql_database) \<Rightarrow> ('db \<Rightarrow> bool) \<Rightarrow> 'db \<Rightarrow> bool" where
  "sql_inv E content committed open_tx db \<longleftrightarrow>
     \<not> open_tx db \<and> content db = committed db \<and> db_ok E (content db) \<and>
     ledger_wf (sql_ledger E (content db))"

text \<open>What a transaction leaves of its body's result.\<close>

fun tx_outcome :: "('a \<Rightarrow> 'b) \<Rightarrow> ledger \<Rightarrow> 'a tx_end result \<times> ledger \<Rightarrow> 'b result \<times> ledger" where
  "tx_outcome view L (Inl e, L') = (Inl e, L)"
| "tx_outcome view L (Inr (DropTx x), L') = (Inr (view x), L)"
| "tx_outcome view L (Inr (CommitTx x), L') = (Inr (view x), L')"

definition finite_owned :: "ledger \<Rightarrow> bool" where
  "finite_owned L \<longleftrightarrow> (\<forall>i. finite (bound_outpoints L i))"

lemma to_sql_storage: "\<exists>msg. map_sql_error E ToSqlConversionFailure = Storage msg"
  by (simp add: map_sql_error_def)

context sqlite_engine
begin

abbreviation triple ::
  "(sql_database \<Rightarrow> bool) \<Rightarrow> ('db, 'b) command \<Rightarrow> ('b result \<Rightarrow> sql_database \<Rightarrow> bool) \<Rightarrow> bool" where
  "triple \<equiv> tx_triple content committed open_tx"

abbreviation does :: "('db, 'b) command \<Rightarrow> (ledger, 'b) command \<Rightarrow> bool" where
  "does \<equiv> tx_does E content committed open_tx"

abbreviation at_rest :: "'db \<Rightarrow> bool" where
  "at_rest \<equiv> sql_inv E content committed open_tx"

abbreviation stored :: "'db \<Rightarrow> ledger" where
  "stored db \<equiv> sql_ledger E (content db)"

lemma execute_triple:
  assumes "\<And>e. st = Inl e \<Longrightarrow> e = ToSqlConversionFailure"
    and "\<And>s c n c'. st = Inr s \<Longrightarrow> P c \<Longrightarrow> sql_run s c = Some (n, c') \<Longrightarrow> Q (Inr n) c'"
  shows "triple P (execute_sql E st) Q"
proof (rule tx_tripleI)
  fix db r db'
  assume db: "open_tx db" "P (content db)" and run: "execute_sql E st db = (r, db')"
  show "committed db' = committed db \<and>
      ((\<exists>msg. r = Inl (Storage msg)) \<or> Q r (content db') \<and> (\<forall>x. r = Inr x \<longrightarrow> open_tx db'))"
  proof (cases st)
    case (Inl e)
    with run assms(1) to_sql_storage [of E] show ?thesis by (auto simp: execute_sql_def)
  next
    case (Inr s)
    obtain r1 where r1: "eng_execute E s db = (r1, db')" "r = map_err E r1"
      using run Inr by (auto simp: execute_sql_def split: prod.splits)
    show ?thesis
    proof (cases r1)
      case (Inl e)
      then show ?thesis
        using execute_fault [OF r1(1) [unfolded Inl]] engine_fault_storage [of e E] r1(2) by simp
    next
      case n: (Inr n)
      then show ?thesis using execute_law [OF r1(1) [unfolded n]] assms(2) [OF Inr db(2)] r1(2) db(1) by auto
    qed
  qed
qed

lemma statement_triple:
  assumes "\<And>e. st = Inl e \<Longrightarrow> e = ToSqlConversionFailure"
    and "\<And>s c n c'. st = Inr s \<Longrightarrow> P c \<Longrightarrow> sql_run s c = Some (n, c') \<Longrightarrow> Q (Inr ()) c'"
  shows "triple P (run_statement E st) Q"
  unfolding run_statement_def
proof (rule tx_triple_bind)
  show "triple P (execute_sql E st) (\<lambda>r c. (\<exists>n. r = Inr n) \<and> Q (Inr ()) c)"
    by (rule execute_triple) (use assms in blast)+
qed (auto intro: tx_triple_return)

lemma statement_does_tx:
  assumes "statement_does E st g"
  shows "does (run_statement E st) (\<lambda>L. (Inr (), g L))"
  unfolding tx_does_def
  by (intro allI statement_triple) (use assms in \<open>auto simp: statement_does_def\<close>)

text \<open>A transaction commits what its body did, or leaves the contents as they were.\<close>

lemma transaction_run:
  assumes "\<not> open_tx db" and "content db = committed db" and "P (content db)"
    and "in_transaction E body db = (r, db')" and "triple P body Q"
  shows "\<not> open_tx db'" and "content db' = committed db'"
    and "(\<exists>msg. r = Inl (Storage msg)) \<and> content db' = content db \<or>
      (\<exists>e c. r = Inl e \<and> Q (Inl e) c) \<and> content db' = content db \<or>
      (\<exists>x c. r = Inr x \<and> Q (Inr (DropTx x)) c) \<and> content db' = content db \<or>
      (\<exists>x. r = Inr x \<and> Q (Inr (CommitTx x)) (content db'))"
proof -
  let ?goal = "\<not> open_tx db' \<and> content db' = committed db' \<and>
     ((\<exists>msg. r = Inl (Storage msg)) \<and> content db' = content db \<or>
      (\<exists>e c. r = Inl e \<and> Q (Inl e) c) \<and> content db' = content db \<or>
      (\<exists>x c. r = Inr x \<and> Q (Inr (DropTx x)) c) \<and> content db' = content db \<or>
      (\<exists>x. r = Inr x \<and> Q (Inr (CommitTx x)) (content db')))"
  obtain r1 db1 where started: "eng_begin E db = (r1, db1)" by fastforce
  have ?goal
  proof (cases r1)
    case (Inl e)
    with begin_fault [OF assms(1) started [unfolded Inl]] engine_fault_storage [of e E] assms(2,4) started
    show ?thesis by (auto simp: in_transaction_def)
  next
    case (Inr u)
    note begun = begin_law [OF assms(1) started [unfolded Inr]]
    obtain r2 db2 where body: "body db1 = (r2, db2)" by fastforce
    from begun assms(3) have P: "open_tx db1" "P (content db1)" by simp_all
    note ran = tx_tripleD [OF assms(5) P body]
    note undone = rollback_law [of db2]
    show ?thesis
    proof (cases r2)
      case (Inl e)
      with assms(4) started Inr body have "r = Inl e" "db' = eng_rollback E db2"
        by (simp_all add: in_transaction_def)
      with ran Inl undone begun assms(2) show ?thesis by auto
    next
      case ended: (Inr x)
      show ?thesis
      proof (cases x)
        case (DropTx y)
        with assms(4) started Inr body ended have "r = Inr y" "db' = eng_rollback E db2"
          by (simp_all add: in_transaction_def)
        with ran ended DropTx undone begun assms(2) show ?thesis by auto
      next
        case (CommitTx y)
        obtain r3 db3 where commit: "eng_commit E db2 = (r3, db3)" by fastforce
        from ran ended have open2: "open_tx db2" by auto
        show ?thesis
        proof (cases r3)
          case (Inl e)
          with assms(4) started Inr body ended CommitTx commit
          have "r = Inl (map_sql_error E e)" "db' = eng_rollback E db3" by (simp_all add: in_transaction_def)
          with commit_fault [OF open2 commit [unfolded Inl]] engine_fault_storage [of e E] rollback_law [of db3]
            ran(1) begun assms(2)
          show ?thesis by auto
        next
          case (Inr u')
          with assms(4) started \<open>r1 = Inr u\<close> body ended CommitTx commit have "r = Inr y" "db' = db3"
            by (simp_all add: in_transaction_def)
          with commit_law [OF open2 commit [unfolded Inr]] ran(2) ended CommitTx show ?thesis by auto
        qed
      qed
    qed
  qed
  then show "\<not> open_tx db'" and "content db' = committed db'"
    and "(\<exists>msg. r = Inl (Storage msg)) \<and> content db' = content db \<or>
      (\<exists>e c. r = Inl e \<and> Q (Inl e) c) \<and> content db' = content db \<or>
      (\<exists>x c. r = Inr x \<and> Q (Inr (DropTx x)) c) \<and> content db' = content db \<or>
      (\<exists>x. r = Inr x \<and> Q (Inr (CommitTx x)) (content db'))"
    by blast+
qed

lemma finite_owned_stored: "db_ok E c \<Longrightarrow> finite_owned (sql_ledger E c)"
  by (simp add: finite_owned_def db_ok_finite)

text \<open>A transaction whose body does a program's work implements a specified command.\<close>

lemma transaction_implements:
  assumes "does body spec'"
    and "\<And>L. ledger_wf L \<Longrightarrow> finite_owned L \<Longrightarrow> tx_outcome view L (spec' L) = spec L"
    and "\<And>L. ledger_wf L \<Longrightarrow> ledger_wf (snd (spec L))"
  shows "implements at_rest stored view (in_transaction E body) spec"
  unfolding implements_def
proof (intro allI impI)
  fix db r db'
  assume rest: "at_rest db" and run: "in_transaction E body db = (r, db')"
  let ?L = "stored db"
  have pre: "\<not> open_tx db" "content db = committed db" "db_ok E (content db) \<and> stored db = ?L"
    and wf: "ledger_wf ?L"
    using rest unfolding sql_inv_def by blast+
  note out = assms(2) [OF wf finite_owned_stored [of "content db"]]
  note ran = transaction_run [where Q = "\<lambda>r c. r = fst (spec' ?L) \<and>
      (\<forall>x. r = Inr x \<longrightarrow> db_ok E c \<and> sql_ledger E c = snd (spec' ?L))",
      OF pre run tx_doesD [OF assms(1), of ?L]]
  have wf': "ledger_wf (snd (spec ?L))" by (rule assms(3) [OF wf])
  from ran(3) consider "\<exists>msg. r = Inl (Storage msg)" "content db' = content db"
    | e where "r = Inl e" "fst (spec' ?L) = Inl e" "content db' = content db"
    | x where "r = Inr x" "fst (spec' ?L) = Inr (DropTx x)" "content db' = content db"
    | x where "r = Inr x" "fst (spec' ?L) = Inr (CommitTx x)" "db_ok E (content db')" "stored db' = snd (spec' ?L)"
    by fastforce
  then show "at_rest db' \<and> ((res_map view r, stored db') = spec ?L \<or>
      (\<exists>msg. r = Inl (Storage msg)) \<and> stored db' = ?L)"
  proof cases
    case 1
    with ran(1,2) pre wf show ?thesis by (simp add: sql_inv_def)
  next
    case 2
    with ran(1,2) pre wf out show ?thesis by (cases "spec' ?L") (simp add: sql_inv_def)
  next
    case 3
    with ran(1,2) pre wf out show ?thesis by (cases "spec' ?L") (simp add: sql_inv_def)
  next
    case 4
    then have "spec ?L = (Inr (view x), stored db')" using out pre(3) by (cases "spec' ?L") simp
    with 4 ran(1,2) wf' show ?thesis by (simp add: sql_inv_def)
  qed
qed

end

end
