(* ===== verification/Sqlite_Operations.thy ===== *)
theory Sqlite_Operations
  imports Sqlite_Transactions
begin

text \<open>
  Every transaction of the SQLite store does to its ledger what the store contract specifies.
\<close>

section \<open>Specified commands keep the ledger well formed\<close>

lemma ledger_wf_bump_tick [simp]: "ledger_wf (bump_tick L) = ledger_wf L"
  by (simp add: ledger_wf_def bump_tick_def)

lemma ledger_wf_put_utxo: "ledger_wf L \<Longrightarrow> ledger_wf (snd (ledger_put_utxo u L))"
  by (auto simp: ledger_put_utxo_def ledger_wf_def bump_tick_def)

lemma ledger_wf_advance_tick: "ledger_wf L \<Longrightarrow> ledger_wf (snd (ledger_advance_tick d L))"
  by (simp add: ledger_advance_tick_def ledger_wf_def)

lemma ledger_wf_persist: "ledger_wf L \<Longrightarrow> ledger_wf (snd (ledger_persist_intent sel L))"
  by (auto simp: ledger_persist_intent_def ledger_wf_def bump_tick_def Let_def split: option.split)

lemma ledger_wf_status: "ledger_wf L \<Longrightarrow> ledger_wf (set_intent_status i st L)"
  by (auto simp: set_intent_status_def ledger_wf_def)

lemma ledger_wf_on_owned:
  assumes "ledger_wf L" and "\<And>u. mu_outpoint (f u) = mu_outpoint u"
  shows "ledger_wf (L\<lparr>lg_utxos := on_owned i f (lg_utxos L)\<rparr>)"
  using assms by (auto simp: ledger_wf_def on_owned_def dom_def)

lemma ledger_wf_released: "ledger_wf L \<Longrightarrow> ledger_wf (released_ledger i ph L)"
  using ledger_wf_on_owned [of L release_binding i]
  by (auto simp: released_ledger_def ledger_wf_def Let_def dom_def split: option.splits if_splits)

lemma ledger_wf_completed: "ledger_wf L \<Longrightarrow> ledger_wf (completed_ledger i ph L)"
  using ledger_wf_on_owned [of L "advance_binding ph" i]
  by (auto simp: completed_ledger_def ledger_wf_def Let_def dom_def)

lemma ledger_wf_mark_committed: "ledger_wf L \<Longrightarrow> ledger_wf (snd (ledger_mark_committed i L))"
  by (simp add: ledger_mark_committed_def ledger_wf_status split: option.split)

lemma ledger_wf_mark_failed: "ledger_wf L \<Longrightarrow> ledger_wf (snd (ledger_mark_failed i L))"
  by (simp add: ledger_mark_failed_def ledger_wf_status ledger_wf_released split: option.split intent_status.split)

lemma ledger_wf_complete: "ledger_wf L \<Longrightarrow> ledger_wf (snd (ledger_complete i ph L))"
  by (simp add: ledger_complete_def ledger_wf_completed split: option.split sum.split)

lemma ledger_wf_release: "ledger_wf L \<Longrightarrow> ledger_wf (snd (ledger_release i ph L))"
  by (simp add: ledger_release_def ledger_wf_released)

lemma ledger_wf_release_selected: "ledger_wf L \<Longrightarrow> ledger_wf (snd (ledger_release_selected i L))"
  by (simp add: ledger_release_selected_def ledger_wf_released)

text \<open>One output and its lock, at the key they are filed under.\<close>

definition entry_wf :: "outpoint \<Rightarrow> managed_utxo option \<Rightarrow> operation_lock option \<Rightarrow> bool" where
  "entry_wf p u l \<longleftrightarrow> (\<forall>x. u = Some x \<longrightarrow> mu_outpoint x = p) \<and> (u = None \<longrightarrow> l = None)"

definition holdings_wf :: "holdings \<Rightarrow> bool" where
  "holdings_wf h \<longleftrightarrow> (\<forall>p. entry_wf p (fst h p) (snd h p))"

lemma holdings_wf_upd:
  "holdings_wf h \<Longrightarrow> entry_wf p u l \<Longrightarrow> holdings_wf ((fst h)(p := u), (snd h)(p := l))"
  by (simp add: holdings_wf_def)

lemma holdings_wf_iff:
  "holdings_wf h \<longleftrightarrow> (\<forall>p u. fst h p = Some u \<longrightarrow> mu_outpoint u = p) \<and> dom (snd h) \<subseteq> dom (fst h)"
  by (auto simp: holdings_wf_def entry_wf_def dom_def)

lemma ledger_wf_holdings: "ledger_wf L \<Longrightarrow> holdings_wf (lg_utxos L, lg_locks L)"
  by (simp add: ledger_wf_def holdings_wf_iff)

lemma ledger_wf_set_holdings:
  "ledger_wf L \<Longrightarrow> holdings_wf h \<Longrightarrow> ledger_wf (L\<lparr>lg_utxos := fst h, lg_locks := snd h\<rparr>)"
  by (simp add: ledger_wf_def holdings_wf_iff)

lemma holdings_wf_effect:
  assumes "ledger_apply_effect b t e h = Inr h'" and "holdings_wf h"
  shows "holdings_wf h'"
proof -
  let ?p = "effect_outpoint e"
  obtain u where u: "fst h ?p = Some u"
    and h': "h' = h \<or> h' = ((fst h)(?p \<mapsto> reserve_utxo (os_operation_id (sb_selection b)) (sb_phase b) u),
      (snd h)(?p \<mapsto> batch_lock b t (effect_purpose e) u))"
    using assms(1) by (auto simp: ledger_apply_effect_def Let_def res_bind_eq_Inr split: option.splits if_splits)
  have "mu_outpoint u = ?p" using assms(2) u by (simp add: holdings_wf_iff)
  with h' assms(2) show ?thesis by (auto intro: holdings_wf_upd simp: entry_wf_def)
qed

lemma action_effect_wf:
  assumes "entry_wf (action_outpoint a) u l"
  shows "entry_wf (action_outpoint a) (action_effect a u) l"
  using assms by (cases a; cases u) (auto simp: entry_wf_def discovered_def discover_from_observed_def)

lemma holdings_wf_action:
  assumes "holdings_wf h"
  shows "holdings_wf (ledger_apply_action a h)"
proof -
  let ?p = "action_outpoint a"
  have wf: "entry_wf ?p (fst h ?p) (snd h ?p)" using assms by (simp add: holdings_wf_def)
  have "ledger_apply_action a h = ((fst h)(?p := action_effect a (fst h ?p)),
      (snd h)(?p := (if clears_lock a then None else snd h ?p)))"
    by (simp add: ledger_apply_action_def Let_def)
  moreover have "entry_wf ?p (action_effect a (fst h ?p)) (if clears_lock a then None else snd h ?p)"
    using action_effect_wf [OF wf] by (simp add: entry_wf_def)
  ultimately show ?thesis using holdings_wf_upd [OF assms] by simp
qed

lemma ledger_wf_apply_batch:
  assumes "ledger_wf L"
  shows "ledger_wf (snd (ledger_apply_batch b L))"
proof (cases "fst (ledger_apply_batch b L)")
  case (Inl e)
  then show ?thesis using assms ledger_commands_atomic(4) [of b L e "snd (ledger_apply_batch b L)"] by (metis prod.collapse)
next
  case (Inr u)
  then obtain h where h: "res_fold (ledger_apply_effect b (lg_tick L)) (os_effects (sb_selection b))
      (lg_utxos L, lg_locks L) = Inr h"
    and L': "snd (ledger_apply_batch b L) = (L\<lparr>lg_utxos := fst h, lg_locks := snd h\<rparr>)\<lparr>lg_tick := sat_add (lg_tick L) 1,
      lg_operations := (lg_operations L)(os_operation_id (sb_selection b) \<mapsto> batch_operation b (sat_add (lg_tick L) 1))\<rparr>"
    by (auto simp: ledger_apply_batch_def Let_def res_bind_eq_Inr split: sum.splits prod.splits)
  have "holdings_wf h"
    using h ledger_wf_holdings [OF assms] holdings_wf_effect by (rule res_fold_invariant)
  from ledger_wf_set_holdings [OF assms this] show ?thesis
    by (simp add: L' ledger_wf_def batch_operation_def)
qed

lemma ledger_wf_apply_reconciliation:
  assumes "ledger_wf L"
  shows "ledger_wf (snd (ledger_apply_reconciliation plan L))"
proof -
  have "holdings_wf (fold ledger_apply_action as h)" if "holdings_wf h" for as h
    using that by (induction as arbitrary: h) (simp_all add: holdings_wf_action)
  from ledger_wf_set_holdings [OF assms this [OF ledger_wf_holdings [OF assms]]] show ?thesis
    by (simp add: ledger_apply_reconciliation_def Let_def)
qed

section \<open>Programs over the ledger\<close>

text \<open>The parts of the transactions, over a ledger: the same steps, with reads and writes of its maps.\<close>

definition write_output :: "managed_utxo \<Rightarrow> (ledger, unit) command" where
  "write_output u L = (Inr (), L\<lparr>lg_utxos := (lg_utxos L)(mu_outpoint u \<mapsto> u)\<rparr>)"

definition write_operation :: "persisted_operation \<Rightarrow> (ledger, unit) command" where
  "write_operation x L = (Inr (), L\<lparr>lg_operations := (lg_operations L)(po_operation_id x \<mapsto> x)\<rparr>)"

definition write_lock :: "outpoint \<Rightarrow> operation_lock \<Rightarrow> (ledger, unit) command" where
  "write_lock p l L = (Inr (), L\<lparr>lg_locks := (lg_locks L)(p \<mapsto> l)\<rparr>)"

definition tick_once :: "(ledger, u64) command" where
  "tick_once L = (Inr (lg_tick (bump_tick L)), bump_tick L)"

fun change_outputs ::
  "(managed_utxo \<Rightarrow> managed_utxo) \<Rightarrow> outpoint list \<Rightarrow> (ledger, outpoint list) command" where
  "change_outputs f [] = cmd_return []"
| "change_outputs f (p # ps) =
     cmd_bind (cmd_read (\<lambda>L. Inr (lg_utxos L p))) (\<lambda>found.
     cmd_bind (cmd_read (\<lambda>_. ok_or (UtxoNotFound p) found)) (\<lambda>utxo.
     cmd_bind (write_output (f utxo)) (\<lambda>_.
     cmd_bind (change_outputs f ps) (\<lambda>rest. cmd_return (p # rest)))))"

lemma change_outputs_run:
  assumes "distinct ps" and "\<And>p. p \<in> set ps \<Longrightarrow> \<exists>u. lg_utxos L p = Some u \<and> mu_outpoint (f u) = p"
  shows "change_outputs f ps L =
    (Inr ps, L\<lparr>lg_utxos := (\<lambda>p. if p \<in> set ps then map_option f (lg_utxos L p) else lg_utxos L p)\<rparr>)"
  using assms
proof (induction ps arbitrary: L)
  case Nil
  then show ?case by simp
next
  case (Cons p ps)
  obtain u where u: "lg_utxos L p = Some u" "mu_outpoint (f u) = p" using Cons.prems(2) by auto
  let ?L = "L\<lparr>lg_utxos := (lg_utxos L)(p \<mapsto> f u)\<rparr>"
  have "change_outputs f ps ?L =
      (Inr ps, ?L\<lparr>lg_utxos := (\<lambda>q. if q \<in> set ps then map_option f (lg_utxos ?L q) else lg_utxos ?L q)\<rparr>)"
    by (rule Cons.IH) (use Cons.prems in auto)
  then show ?case using Cons.prems(1) u by (auto simp: write_output_def cmd_bind_def fun_eq_iff)
qed

lemma owned_outpoints_set:
  assumes "finite_owned L"
  shows "set (owned_outpoints L i) = bound_outpoints L i" and "distinct (owned_outpoints L i)"
proof -
  let ?S = "outpoint_string ` bound_outpoints L i"
  have fin: "finite ?S" using assms by (simp add: finite_owned_def)
  have "set (owned_outpoints L i) = (\<lambda>s. the (parse_outpoint s)) ` ?S"
    by (simp add: owned_outpoints_def fin)
  then show "set (owned_outpoints L i) = bound_outpoints L i" by (simp add: image_image)
  have "inj_on (\<lambda>s. the (parse_outpoint s)) ?S" by (auto simp: inj_on_def)
  then show "distinct (owned_outpoints L i)"
    by (simp add: owned_outpoints_def distinct_map fin)
qed

lemma change_owned_run:
  assumes "ledger_wf L" and "finite_owned L" and "\<And>u. mu_outpoint (f u) = mu_outpoint u"
  shows "change_outputs f (owned_outpoints L i) L =
    (Inr (owned_outpoints L i), L\<lparr>lg_utxos := on_owned i f (lg_utxos L)\<rparr>)"
proof -
  note owned = owned_outpoints_set [OF assms(2), of i]
  have "(\<lambda>p. if p \<in> bound_outpoints L i then map_option f (lg_utxos L p) else lg_utxos L p) =
      on_owned i f (lg_utxos L)"
  proof
    fix p
    show "(if p \<in> bound_outpoints L i then map_option f (lg_utxos L p) else lg_utxos L p) =
        on_owned i f (lg_utxos L) p"
      by (cases "lg_utxos L p") (auto simp: bound_outpoints_def on_owned_def)
  qed
  moreover have "change_outputs f (owned_outpoints L i) L = (Inr (owned_outpoints L i), L\<lparr>lg_utxos :=
      (\<lambda>p. if p \<in> set (owned_outpoints L i) then map_option f (lg_utxos L p) else lg_utxos L p)\<rparr>)"
    using ledger_wfD(1) [OF assms(1)]
    by (intro change_outputs_run) (auto simp: owned bound_outpoints_def assms(3))
  ultimately show ?thesis by (simp add: owned)
qed

definition release_program :: "operation_id \<Rightarrow> operation_phase \<Rightarrow> (ledger, outpoint list) command" where
  "release_program i ph =
     cmd_bind (cmd_read (\<lambda>L. Inr (owned_outpoints L i))) (\<lambda>outpoints.
     cmd_bind (change_outputs release_binding outpoints) (\<lambda>released.
     cmd_bind (\<lambda>L. (Inr (), L\<lparr>lg_locks := (\<lambda>p. case lg_locks L p of
        None \<Rightarrow> None | Some l \<Rightarrow> if lk_operation_id l = i then None else Some l)\<rparr>)) (\<lambda>_.
     cmd_bind tick_once (\<lambda>updated_at.
     cmd_bind (write_operation \<lparr>po_operation_id = i, po_phase = ph, po_updated_at = updated_at,
       po_expires_at = None\<rparr>) (\<lambda>_.
     cmd_return released)))))"

lemma release_program_run:
  assumes "ledger_wf L" and "finite_owned L"
  shows "release_program i ph L = (Inr (owned_outpoints L i), released_ledger i ph L)"
  using change_owned_run [OF assms mu_outpoint_ops(4)]
  by (simp add: release_program_def cmd_bind_def tick_once_def write_operation_def released_ledger_def bump_tick_def Let_def)

context sqlite_engine
begin

lemma does_case_option:
  "does m spec \<Longrightarrow> (\<And>x. does (f x) (g x)) \<Longrightarrow>
    does (case opt of None \<Rightarrow> m | Some x \<Rightarrow> f x) (case opt of None \<Rightarrow> spec | Some x \<Rightarrow> g x)"
  by (cases opt) simp_all

lemma does_write_utxo: "does (write_utxo_tx E u) (write_output u)"
  using statement_does_tx [OF write_utxo_does] by (simp add: write_utxo_tx_def write_output_def [abs_def])

lemma does_write_operation: "does (write_operation_tx E x) (write_operation x)"
  using statement_does_tx [OF write_operation_does] by (simp add: write_operation_tx_def write_operation_def [abs_def])

lemma does_write_lock: "does (write_lock_tx E p l) (write_lock p l)"
  using statement_does_tx [OF write_lock_does] by (simp add: write_lock_tx_def write_lock_def [abs_def])

lemma does_next_tick: "does (next_tick_tx E) tick_once"
proof (rule tx_does_cong)
  show "does (next_tick_tx E) (cmd_bind (cmd_read (\<lambda>L. Inr (lg_tick L))) (\<lambda>current.
      cmd_bind (\<lambda>L. (Inr (), L\<lparr>lg_tick := sat_add current 1\<rparr>)) (\<lambda>_. cmd_return (sat_add current 1))))"
    unfolding next_tick_tx_def Let_def
    by (intro tx_does_rules tx_does_read [OF read_tick] statement_does_tx [OF write_tick_does])
  show "cmd_bind (cmd_read (\<lambda>L. Inr (lg_tick L))) (\<lambda>current.
      cmd_bind (\<lambda>L. (Inr (), L\<lparr>lg_tick := sat_add current 1\<rparr>)) (\<lambda>_. cmd_return (sat_add current 1))) L =
      tick_once L" for L
    by (simp add: tick_once_def bump_tick_def cmd_bind_def)
qed

lemmas does_reads = tx_does_read [OF read_utxo] tx_does_read [OF read_lock] tx_does_read [OF read_operation]
  tx_does_read [OF read_phase] tx_does_read [OF read_header] tx_does_read [OF read_owned_outpoints] tx_does_read [OF read_tick]

lemmas does_steps = tx_does_rules does_case_option does_reads does_write_utxo does_write_operation
  does_write_lock does_next_tick

lemma does_change_owned: "does (change_owned E f ps) (change_outputs f ps)"
  by (induction ps) (simp_all only: change_owned.simps change_outputs.simps, intro does_steps, (intro does_steps | assumption)+)

lemma does_release: "does (release_operation_tx E i ph) (release_program i ph)"
  unfolding release_operation_tx_def release_program_def
  by (intro does_steps does_change_owned statement_does_tx [OF delete_locks_does])

end

end
