(* ===== verification/Sqlite_Commands.thy ===== *)
theory Sqlite_Commands
  imports Sqlite_Operations
begin

text \<open>
  The commands of the SQLite store, each against the specified command of the contract.
\<close>

section \<open>Programs of the commands\<close>

definition put_utxo_program :: "managed_utxo \<Rightarrow> (ledger, unit tx_end) command" where
  "put_utxo_program u = cmd_bind (write_output u) (\<lambda>_. cmd_bind tick_once (\<lambda>_. commit_with ()))"

definition release_selected_program :: "operation_id \<Rightarrow> (ledger, outpoint list option tx_end) command" where
  "release_selected_program i =
     cmd_bind (cmd_read (\<lambda>L. Inr (lg_operations L i))) (\<lambda>operation.
     if \<not> is_some_and operation (\<lambda>x. po_phase x = PhSelected) then cmd_return (DropTx None)
     else cmd_bind (release_program i PhRollingBack) (\<lambda>released. commit_with (Some released)))"

definition set_status :: "operation_id \<Rightarrow> intent_status \<Rightarrow> (ledger, unit) command" where
  "set_status i st L = (Inr (), set_intent_status i st L)"

definition count_status :: "operation_id \<Rightarrow> intent_status \<Rightarrow> (ledger, nat) command" where
  "count_status i st L = (Inr (if lg_intents L i = None then 0 else 1), set_intent_status i st L)"

definition mark_committed_program :: "operation_id \<Rightarrow> (ledger, unit tx_end) command" where
  "mark_committed_program i =
     cmd_bind (cmd_read (\<lambda>L. Inr (ledger_header L i))) (\<lambda>header.
     if is_some_and header (\<lambda>(_, status, _, _). status = Failed) then cmd_fail (IntentNotPending i)
     else
     cmd_bind (count_status i Committed) (\<lambda>changed.
     if changed = 0 then cmd_fail (IntentNotFound i)
     else cmd_bind tick_once (\<lambda>_. commit_with ())))"

definition mark_failed_program :: "operation_id \<Rightarrow> (ledger, unit tx_end) command" where
  "mark_failed_program i =
     cmd_bind (cmd_read (\<lambda>L. Inr (ledger_header L i))) (\<lambda>found.
     cmd_bind (cmd_read (\<lambda>_. ok_or (IntentNotFound i) found)) (\<lambda>(_, status, _, _).
     case status of
       Committed \<Rightarrow> cmd_fail (IntentNotPending i)
     | Failed \<Rightarrow> cmd_return (DropTx ())
     | Pending \<Rightarrow>
         cmd_bind (cmd_read (\<lambda>L. Inr (map_option po_phase (lg_operations L i)))) (\<lambda>phase.
         cmd_bind
           (case phase of
              None \<Rightarrow> cmd_return ()
            | Some ph \<Rightarrow>
                if ph = PhSelected
                then cmd_bind (release_program i PhRollingBack) (\<lambda>_. cmd_return ())
                else if ph = PhRollingBack then cmd_return ()
                else cmd_fail (InvalidOperationTransition i ph PhRollingBack)) (\<lambda>_.
         cmd_bind (set_status i Failed) (\<lambda>_.
         cmd_bind tick_once (\<lambda>_. commit_with ()))))))"

definition complete_program :: "operation_id \<Rightarrow> operation_phase \<Rightarrow> (ledger, outpoint list tx_end) command" where
  "complete_program i ph =
     cmd_bind (cmd_read (\<lambda>L. Inr (lg_operations L i))) (\<lambda>found_operation.
     cmd_bind (cmd_read (\<lambda>_. ok_or (OperationNotFound i) found_operation)) (\<lambda>operation.
     cmd_bind (cmd_read (\<lambda>L. Inr (ledger_header L i))) (\<lambda>found_header.
     cmd_bind (cmd_read (\<lambda>_. ok_or (IntentNotFound i) found_header)) (\<lambda>(_, status, _, _).
     if status \<noteq> Committed then cmd_fail (IntentNotCommitted i)
     else
     cmd_bind (cmd_read (\<lambda>_. validate_advance operation ph)) (\<lambda>advances.
     if \<not> advances then cmd_return (DropTx [])
     else
     cmd_bind (cmd_read (\<lambda>L. Inr (owned_outpoints L i))) (\<lambda>outpoints.
     cmd_bind (change_outputs (advance_binding ph) outpoints) (\<lambda>completed.
     cmd_bind (\<lambda>L. (Inr (), L\<lparr>lg_locks := (\<lambda>p. map_option
        (\<lambda>l. if lk_operation_id l = i then l\<lparr>lk_expires_at := None\<rparr> else l) (lg_locks L p))\<rparr>)) (\<lambda>_.
     cmd_bind tick_once (\<lambda>updated_at.
     cmd_bind (write_operation \<lparr>po_operation_id = i, po_phase = ph, po_updated_at = updated_at,
       po_expires_at = None\<rparr>) (\<lambda>_.
     commit_with completed))))))))))"

text \<open>What each program does, on a well-formed ledger with finitely many outputs.\<close>

lemma header_Some:
  "ledger_header L i = Some h \<longleftrightarrow> (\<exists>n. lg_intents L i = Some n \<and>
     h = (os_change_scope_id (oi_selection n), oi_status n, oi_recorded_at n, os_expires_at (oi_selection n)))"
  "ledger_header L i = None \<longleftrightarrow> lg_intents L i = None"
  by (auto simp: ledger_header_def)

lemma set_status_bump: "set_intent_status i st (bump_tick L) = bump_tick (set_intent_status i st L)"
  by (simp add: set_intent_status_def bump_tick_def)

lemma commit_with_apply [simp]: "commit_with x L = (Inr (CommitTx x), L)"
  by (simp add: commit_with_def)

lemma put_utxo_outcome: "tx_outcome id L (put_utxo_program u L) = ledger_put_utxo u L"
  by (simp add: put_utxo_program_def cmd_bind_def write_output_def tick_once_def ledger_put_utxo_def)

lemma release_outcome:
  assumes "ledger_wf L" and "finite_owned L"
  shows "tx_outcome set L (cmd_bind (release_program i ph) commit_with L) = ledger_release i ph L"
  by (simp add: cmd_bind_def release_program_run [OF assms] ledger_release_def owned_outpoints_set [OF assms(2)])

lemma release_selected_outcome:
  assumes "ledger_wf L" and "finite_owned L"
  shows "tx_outcome (map_option set) L (release_selected_program i L) = ledger_release_selected i L"
  by (simp add: release_selected_program_def cmd_bind_def [of "release_program i PhRollingBack"]
      release_program_run [OF assms] ledger_release_selected_def owned_outpoints_set [OF assms(2)])

lemma mark_committed_outcome: "tx_outcome id L (mark_committed_program i L) = ledger_mark_committed i L"
  by (cases "lg_intents L i")
    (simp_all add: mark_committed_program_def ledger_mark_committed_def ledger_header_def is_some_and_def
      cmd_bind_def count_status_def tick_once_def)

lemma mark_failed_outcome:
  assumes "ledger_wf L" and "finite_owned L"
  shows "tx_outcome id L (mark_failed_program i L) = ledger_mark_failed i L"
proof (cases "lg_intents L i")
  case None
  then show ?thesis
    by (simp add: mark_failed_program_def ledger_mark_failed_def ledger_header_def)
next
  case (Some n)
  show ?thesis
  proof (cases "oi_status n")
    case Pending
    with Some show ?thesis
      by (cases "lg_operations L i")
        (simp_all add: mark_failed_program_def ledger_mark_failed_def ledger_header_def
          cmd_bind_def set_status_def tick_once_def release_program_run [OF assms])
  qed (simp_all add: Some mark_failed_program_def ledger_mark_failed_def ledger_header_def)
qed

lemma complete_outcome:
  assumes "ledger_wf L" and "finite_owned L"
  shows "tx_outcome set L (complete_program i ph L) = ledger_complete i ph L"
proof (cases "lg_operations L i")
  case None
  then show ?thesis by (simp add: complete_program_def ledger_complete_def)
next
  case op: (Some x)
  show ?thesis
  proof (cases "lg_intents L i")
    case None
    with op show ?thesis by (simp add: complete_program_def ledger_complete_def ledger_header_def)
  next
    case (Some n)
    with op change_owned_run [OF assms, of "advance_binding ph" i] owned_outpoints_set [OF assms(2), of i]
    show ?thesis
      by (cases "validate_advance x ph")
        (simp_all add: complete_program_def ledger_complete_def ledger_header_def completed_ledger_def
          cmd_bind_def [of "change_outputs f ps" for f ps] cmd_bind_def [of tick_once] cmd_bind_def [of "write_operation y" for y]
          cmd_bind_def [of "\<lambda>L. (Inr (), f L)" for f]
          tick_once_def write_operation_def bump_tick_def Let_def)
  qed
qed

section \<open>Programs of the batches and reconciliations\<close>

definition change_program :: "reconciliation_action \<Rightarrow> (ledger, unit) command" where
  "change_program a =
     cmd_bind (cmd_read (\<lambda>L. Inr (lg_utxos L (action_outpoint a)))) (\<lambda>found.
     case found of
       None \<Rightarrow> cmd_return ()
     | Some u \<Rightarrow> cmd_bind (write_output (update_managed a u)) (\<lambda>_ L.
         (Inr (), if clears_lock a then L\<lparr>lg_locks := (lg_locks L)(action_outpoint a := None)\<rparr> else L)))"

fun action_program :: "reconciliation_action \<Rightarrow> (ledger, unit) command" where
  "action_program (DiscoverNew ob) =
     cmd_bind (cmd_read (\<lambda>L. Inr (lg_utxos L (ob_outpoint ob)))) (\<lambda>found.
     if found \<noteq> None then cmd_return () else write_output (discovered ob))"
| "action_program (RefreshObserved ob) = cmd_return ()"
| "action_program a = change_program a"

lemma change_program_run:
  assumes "holdings_wf (lg_utxos L, lg_locks L)" and "\<And>ob. a \<noteq> DiscoverNew ob"
  shows "change_program a L =
    (Inr (), let h = ledger_apply_action a (lg_utxos L, lg_locks L) in L\<lparr>lg_utxos := fst h, lg_locks := snd h\<rparr>)"
proof (cases "lg_utxos L (action_outpoint a)")
  case None
  then have "lg_locks L (action_outpoint a) = None" using assms by (auto simp: holdings_wf_iff)
  moreover have "action_effect a None = None" using assms(2) by (cases a) auto
  ultimately show ?thesis
    using None by (simp add: change_program_def ledger_apply_action_def Let_def fun_upd_idem)
next
  case (Some u)
  then have "mu_outpoint u = action_outpoint a" using assms by (simp add: holdings_wf_iff)
  moreover have "mu_outpoint (update_managed a u) = mu_outpoint u" by (cases a) auto
  ultimately show ?thesis
    using Some by (simp add: change_program_def ledger_apply_action_def Let_def write_output_def cmd_bind_def)
qed

lemma action_program_run:
  assumes "holdings_wf (lg_utxos L, lg_locks L)"
  shows "action_program a L =
    (Inr (), let h = ledger_apply_action a (lg_utxos L, lg_locks L) in L\<lparr>lg_utxos := fst h, lg_locks := snd h\<rparr>)"
proof (cases a)
  case (DiscoverNew ob)
  then show ?thesis
    by (cases "lg_utxos L (ob_outpoint ob)")
      (simp_all add: ledger_apply_action_def Let_def write_output_def discovered_def discover_from_observed_def fun_upd_idem)
next
  case (RefreshObserved ob)
  then show ?thesis
    by (cases "lg_utxos L (ob_outpoint ob)") (simp_all add: ledger_apply_action_def Let_def fun_upd_idem)
qed (simp_all add: change_program_run [OF assms])

lemma actions_program_run:
  assumes "holdings_wf (lg_utxos L, lg_locks L)"
  shows "cmd_each action_program as L =
    (Inr (), let h = fold ledger_apply_action as (lg_utxos L, lg_locks L) in L\<lparr>lg_utxos := fst h, lg_locks := snd h\<rparr>)"
  using assms
proof (induction as arbitrary: L)
  case Nil
  then show ?case by simp
next
  case (Cons a as)
  let ?h = "ledger_apply_action a (lg_utxos L, lg_locks L)"
  have "cmd_each action_program (a # as) L = cmd_each action_program as (L\<lparr>lg_utxos := fst ?h, lg_locks := snd ?h\<rparr>)"
    using action_program_run [OF Cons.prems, of a] by (simp add: cmd_bind_def Let_def)
  moreover have "holdings_wf ?h" by (rule holdings_wf_action [OF Cons.prems])
  ultimately show ?case
    using Cons.IH [of "L\<lparr>lg_utxos := fst ?h, lg_locks := snd ?h\<rparr>"] by (simp add: Let_def)
qed

definition reconciliation_program :: "reconcile_plan \<Rightarrow> (ledger, unit tx_end) command" where
  "reconciliation_program plan =
     cmd_bind (cmd_each action_program (rp_actions plan)) (\<lambda>_.
     cmd_bind tick_once (\<lambda>_. commit_with ()))"

lemma reconciliation_outcome:
  assumes "ledger_wf L"
  shows "tx_outcome id L (reconciliation_program plan L) = ledger_apply_reconciliation plan L"
  using actions_program_run [OF ledger_wf_holdings [OF assms], of "rp_actions plan"]
  by (simp add: reconciliation_program_def ledger_apply_reconciliation_def cmd_bind_def tick_once_def Let_def)

definition effect_program :: "state_batch \<Rightarrow> selection_effect \<Rightarrow> (ledger, unit) command" where
  "effect_program b e =
     (let sel = sb_selection b; p = effect_outpoint e; purpose = effect_purpose e in
      cmd_bind (cmd_read (\<lambda>L. lock_effect_verdict sel (sb_phase b) p (lg_utxos L p) (lg_locks L p))) (\<lambda>_.
      cmd_bind (cmd_read (\<lambda>L. Inr (lg_utxos L p))) (\<lambda>found.
      cmd_bind (cmd_read (\<lambda>_. ok_or (UtxoNotFound p) found)) (\<lambda>u.
      cmd_bind (cmd_read (\<lambda>L. Inr (lg_locks L p))) (\<lambda>lock.
      if held_by sel (sb_phase b) u lock
      then (if is_some_and lock (lock_mismatch b purpose u)
            then cmd_fail (IntentConflict (os_operation_id sel)) else cmd_return ())
      else
        cmd_bind (write_output (reserve_utxo (os_operation_id sel) (sb_phase b) u)) (\<lambda>_.
        cmd_bind (cmd_read (\<lambda>L. Inr (lg_tick L))) (\<lambda>tick.
        write_lock p (batch_lock b tick purpose u))))))))"

lemma effect_program_run:
  assumes "holdings_wf (lg_utxos L, lg_locks L)"
  shows "effect_program b e L =
    (case ledger_apply_effect b (lg_tick L) e (lg_utxos L, lg_locks L) of
       Inl err \<Rightarrow> (Inl err, L)
     | Inr h \<Rightarrow> (Inr (), L\<lparr>lg_utxos := fst h, lg_locks := snd h\<rparr>))"
proof (cases "lg_utxos L (effect_outpoint e)")
  case None
  then show ?thesis
    by (simp add: effect_program_def ledger_apply_effect_def Let_def lock_effect_verdict_def)
next
  case (Some u)
  moreover from this have "mu_outpoint u = effect_outpoint e" using assms by (simp add: holdings_wf_iff)
  ultimately show ?thesis
    by (cases "lock_effect_verdict (sb_selection b) (sb_phase b) (effect_outpoint e) (Some u) (lg_locks L (effect_outpoint e))")
      (simp_all add: effect_program_def ledger_apply_effect_def Let_def write_output_def write_lock_def cmd_bind_def)
qed

lemma effects_program_run:
  assumes "holdings_wf (lg_utxos L, lg_locks L)"
  shows "case res_fold (ledger_apply_effect b (lg_tick L)) es (lg_utxos L, lg_locks L) of
       Inl err \<Rightarrow> fst (cmd_each (effect_program b) es L) = Inl err
     | Inr h \<Rightarrow> cmd_each (effect_program b) es L = (Inr (), L\<lparr>lg_utxos := fst h, lg_locks := snd h\<rparr>)"
  using assms
proof (induction es arbitrary: L)
  case Nil
  then show ?case by simp
next
  case (Cons e es)
  note step = effect_program_run [OF Cons.prems, of b e]
  show ?case
  proof (cases "ledger_apply_effect b (lg_tick L) e (lg_utxos L, lg_locks L)")
    case (Inl err)
    with step show ?thesis by (simp add: cmd_bind_def)
  next
    case (Inr h)
    with step have "cmd_each (effect_program b) (e # es) L =
        cmd_each (effect_program b) es (L\<lparr>lg_utxos := fst h, lg_locks := snd h\<rparr>)"
      by (simp add: cmd_bind_def)
    moreover have "holdings_wf h" by (rule holdings_wf_effect [OF Inr Cons.prems])
    ultimately show ?thesis
      using Inr Cons.IH [of "L\<lparr>lg_utxos := fst h, lg_locks := snd h\<rparr>"] by (simp split: sum.splits)
  qed
qed

definition batch_program :: "state_batch \<Rightarrow> (ledger, unit tx_end) command" where
  "batch_program b =
     (let sel = sb_selection b; i = os_operation_id sel in
      cmd_bind (cmd_read (\<lambda>L. batch_precheck b (lg_intents L i) None)) (\<lambda>_.
      cmd_bind (cmd_read (\<lambda>L. batch_precheck b None (lg_operations L i))) (\<lambda>_.
      cmd_bind (cmd_read (\<lambda>L. ledger_validate L sel)) (\<lambda>_.
      cmd_bind (cmd_each (effect_program b) (os_effects sel)) (\<lambda>_.
      cmd_bind tick_once (\<lambda>updated_at.
      cmd_bind (write_operation (batch_operation b updated_at)) (\<lambda>_.
      commit_with ())))))))"

lemma batch_precheck_split:
  "batch_precheck b intent operation =
     res_bind (batch_precheck b intent None) (\<lambda>_. batch_precheck b None operation)"
  by (simp add: batch_precheck_def Let_def)

lemma batch_outcome:
  assumes "ledger_wf L"
  shows "tx_outcome id L (batch_program b L) = ledger_apply_batch b L"
proof -
  let ?sel = "sb_selection b"
  let ?i = "os_operation_id ?sel"
  let ?fold = "res_fold (ledger_apply_effect b (lg_tick L)) (os_effects ?sel) (lg_utxos L, lg_locks L)"
  have guards: "res_bind (batch_precheck b (lg_intents L ?i) (lg_operations L ?i)) f =
      res_bind (batch_precheck b (lg_intents L ?i) None) (\<lambda>_. res_bind (batch_precheck b None (lg_operations L ?i)) f)" for f
    unfolding batch_precheck_split [of b "lg_intents L ?i" "lg_operations L ?i"]
    by (cases "batch_precheck b (lg_intents L ?i) None") simp_all
  note run = effects_program_run [OF ledger_wf_holdings [OF assms], of b "os_effects ?sel"]
  show ?thesis
  proof (cases "res_bind (batch_precheck b (lg_intents L ?i) None) (\<lambda>_.
      res_bind (batch_precheck b None (lg_operations L ?i)) (\<lambda>_. ledger_validate L ?sel))")
    case (Inl e)
    then show ?thesis
      by (auto simp: batch_program_def ledger_apply_batch_def Let_def guards res_bind_eq_Inl)
  next
    case (Inr u)
    then have ok: "batch_precheck b (lg_intents L ?i) None = Inr ()"
      "batch_precheck b None (lg_operations L ?i) = Inr ()" "ledger_validate L ?sel = Inr ()"
      by (simp_all add: res_bind_eq_Inr)
    show ?thesis
    proof (cases ?fold)
      case (Inl e)
      with run show ?thesis
        by (cases "cmd_each (effect_program b) (os_effects ?sel) L")
          (simp add: batch_program_def ledger_apply_batch_def Let_def guards ok cmd_bind_def)
    next
      case (Inr h)
      with run show ?thesis
        by (cases h) (simp add: batch_program_def ledger_apply_batch_def Let_def guards ok cmd_bind_def tick_once_def
          write_operation_def batch_operation_def bump_tick_def)
    qed
  qed
qed

section \<open>The commands do what their programs do\<close>

lemma tx_reads_cong:
  "tx_reads E content m v \<Longrightarrow> (\<And>L. v L = v' L) \<Longrightarrow> tx_reads E content m v'"
  by (simp add: tx_reads_def)

context sqlite_engine
begin

lemma read_lock_effect:
  "tx_reads E content (validate_lock_effect_tx E sel ph p)
     (\<lambda>L. lock_effect_verdict sel ph p (lg_utxos L p) (lg_locks L p))"
proof -
  let ?g = "\<lambda>u lock. if can_be_locked u (lock \<noteq> None) then Inr ()
     else if held_by sel ph u lock then Inr ()
     else if mu_availability u \<noteq> Selectable then Inl (UtxoUnavailable p (mu_availability u))
     else if mu_observation_conflict u \<noteq> None
     then Inl (ObservationConflictError p (mu_onchain_state u))
     else Inl (UtxoPolicyBlocked p (unsafe_reason u lock))"
  have "tx_reads E content (\<lambda>db. res_bind (sqlite_read_utxo E db p) (\<lambda>found.
      res_bind (ok_or (UtxoNotFound p) found) (\<lambda>u. res_bind (sqlite_read_lock E db p) (?g u))))
    (\<lambda>L. res_bind (Inr (lg_utxos L p)) (\<lambda>found.
      res_bind (ok_or (UtxoNotFound p) found) (\<lambda>u. res_bind (Inr (lg_locks L p)) (?g u))))"
    by (rule tx_reads_bind [OF read_utxo], rule tx_reads_bind [OF tx_reads_const],
      rule tx_reads_bind [OF read_lock], rule tx_reads_const)
  moreover have "validate_lock_effect_tx E sel ph p = (\<lambda>db. res_bind (sqlite_read_utxo E db p) (\<lambda>found.
      res_bind (ok_or (UtxoNotFound p) found) (\<lambda>u. res_bind (sqlite_read_lock E db p) (?g u))))"
    unfolding validate_lock_effect_tx_def Let_def held_by_def bound_in_phase_def unsafe_reason_def by (rule ext) (rule refl)
  ultimately have "tx_reads E content (validate_lock_effect_tx E sel ph p) (\<lambda>L. res_bind (Inr (lg_utxos L p)) (\<lambda>found.
      res_bind (ok_or (UtxoNotFound p) found) (\<lambda>u. res_bind (Inr (lg_locks L p)) (?g u))))"
    by simp
  then show ?thesis
    by (rule tx_reads_cong) (simp add: lock_effect_verdict_def split: option.split)
qed

lemma reserve_utxo_owner:
  "mu_account_id (reserve_utxo i ph u) = mu_account_id u" "mu_scope_id (reserve_utxo i ph u) = mu_scope_id u"
  by (simp_all add: reserve_utxo_def)

lemma does_effect: "does (apply_effect_tx E b e) (effect_program b e)"
proof -
  have "apply_effect_tx E b e =
     (let sel = sb_selection b; p = effect_outpoint e; purpose = effect_purpose e in
      cmd_bind (cmd_read (validate_lock_effect_tx E sel (sb_phase b) p)) (\<lambda>_.
      cmd_bind (cmd_read (\<lambda>db. sqlite_read_utxo E db p)) (\<lambda>found.
      cmd_bind (cmd_read (\<lambda>_. ok_or (UtxoNotFound p) found)) (\<lambda>u.
      cmd_bind (cmd_read (\<lambda>db. sqlite_read_lock E db p)) (\<lambda>lock.
      if held_by sel (sb_phase b) u lock
      then (if is_some_and lock (lock_mismatch b purpose u)
            then cmd_fail (IntentConflict (os_operation_id sel)) else cmd_return ())
      else
        cmd_bind (write_utxo_tx E (reserve_utxo (os_operation_id sel) (sb_phase b) u)) (\<lambda>_.
        cmd_bind (cmd_read (sqlite_read_tick E)) (\<lambda>tick.
        write_lock_tx E p (batch_lock b tick purpose u))))))))"
    unfolding apply_effect_tx_def Let_def held_by_def bound_in_phase_def lock_mismatch_def [abs_def]
      batch_lock_def reserve_utxo_owner by (rule refl)
  then show ?thesis
    unfolding effect_program_def Let_def
    by (simp only:) (intro does_steps tx_does_read [OF read_lock_effect])
qed

lemma does_change_utxo:
  assumes "does m spec"
  shows "does (change_utxo_tx E p f m) (cmd_bind (cmd_read (\<lambda>L. Inr (lg_utxos L p))) (\<lambda>found.
     case found of None \<Rightarrow> cmd_return () | Some u \<Rightarrow> cmd_bind (write_output (f u)) (\<lambda>_. spec)))"
  unfolding change_utxo_tx_def by (intro does_steps assms)

lemma does_change_action:
  assumes "does m (\<lambda>L. (Inr (), if clears_lock a then L\<lparr>lg_locks := (lg_locks L)(action_outpoint a := None)\<rparr> else L))"
  shows "does (change_utxo_tx E (action_outpoint a) (update_managed a) m) (change_program a)"
  using does_change_utxo [OF assms] by (simp only: change_program_def)

lemma does_action: "does (apply_action_tx E a) (action_program a)"
proof (cases a)
  case (DiscoverNew ob)
  show ?thesis
    unfolding DiscoverNew apply_action_tx.simps action_program.simps discovered_def [symmetric] by (intro does_steps)
next
  case (RefreshObserved ob)
  show ?thesis unfolding RefreshObserved apply_action_tx.simps action_program.simps by (rule tx_does_return)
next
  case (MarkSpent p tx)
  show ?thesis
    using does_change_action [where a = a, unfolded MarkSpent, simplified, OF statement_does_tx [OF delete_lock_does]]
    by (simp add: MarkSpent update_managed.simps(2) [abs_def])
qed (use does_change_action [where a = a, OF tx_does_cong [OF tx_does_return]] in \<open>simp_all add: update_managed.simps [abs_def]\<close>)

text \<open>The checks of a batch.\<close>

lemma read_recorded_selection:
  assumes "db_ok E (content db)" and "lg_intents (stored db) i = Some n"
  shows "read_intent_selection E db i (os_change_scope_id (oi_selection n)) (os_expires_at (oi_selection n)) =
      Inr (oi_selection n) \<or>
    (\<exists>m. read_intent_selection E db i (os_change_scope_id (oi_selection n)) (os_expires_at (oi_selection n)) =
      Inl (Storage m))"
proof -
  obtain v where v: "table_map pending_from_row fst (table_rows (content db) ''intents'') i = Some v"
    "n = intent_entry E (content db) v"
    using assms(2) by (auto simp: sql_ledger_def)
  obtain sc st at ex where "v = (i, sc, st, at, ex)"
    using table_map_key [OF db_okD(9) [OF assms(1)] v(1)] by (cases v) auto
  then show ?thesis using read_selection [OF assms(1), of i sc ex] by (simp add: v(2))
qed

lemma read_batch_intent:
  "tx_reads E content (check_batch_intent E b)
     (\<lambda>L. batch_precheck b (lg_intents L (os_operation_id (sb_selection b))) None)"
  unfolding tx_reads_def
proof (intro allI impI)
  fix db
  assume ok: "db_ok E (content db)"
  let ?i = "os_operation_id (sb_selection b)"
  show "check_batch_intent E b db = batch_precheck b (lg_intents (stored db) ?i) None \<or>
      (\<exists>msg. check_batch_intent E b db = Inl (Storage msg))"
  proof (cases "lg_intents (stored db) ?i")
    case None
    then show ?thesis
      using tx_readsD [OF read_header ok, of ?i]
      by (auto simp: check_batch_intent_def batch_precheck_def Let_def ledger_header_def)
  next
    case (Some n)
    then show ?thesis
      using tx_readsD [OF read_header ok, of ?i] read_recorded_selection [OF ok Some]
      by (auto simp: check_batch_intent_def batch_precheck_def Let_def ledger_header_def is_some_and_def)
  qed
qed

lemma read_batch_phase:
  "tx_reads E content (check_batch_phase E b)
     (\<lambda>L. batch_precheck b None (lg_operations L (os_operation_id (sb_selection b))))"
  unfolding tx_reads_def
proof (intro allI impI)
  fix db
  assume ok: "db_ok E (content db)"
  let ?i = "os_operation_id (sb_selection b)"
  show "check_batch_phase E b db = batch_precheck b None (lg_operations (stored db) ?i) \<or>
      (\<exists>msg. check_batch_phase E b db = Inl (Storage msg))"
    using tx_readsD [OF read_phase ok, of ?i]
    by (cases "lg_operations (stored db) ?i")
      (auto simp: check_batch_phase_def batch_precheck_def Let_def is_some_and_def)
qed

lemmas reads_rules = tx_reads_const tx_reads_bind tx_reads_if tx_reads_each read_account read_scope read_utxo

lemma read_validate_scope:
  "tx_reads E content (\<lambda>db. validate_scope (sqlite_read_account E db) (sqlite_read_scope E db) a s required)
     (\<lambda>L. validate_scope (\<lambda>a. Inr (lg_accounts L a)) (\<lambda>s. Inr (lg_scopes L s)) a s required)"
  unfolding validate_scope_def by (intro reads_rules)

lemma read_validate_effect:
  "tx_reads E content
     (\<lambda>db. validate_effect (sqlite_read_account E db) (sqlite_read_scope E db) (sqlite_read_utxo E db) e)
     (\<lambda>L. validate_effect (\<lambda>a. Inr (lg_accounts L a)) (\<lambda>s. Inr (lg_scopes L s)) (\<lambda>p. Inr (lg_utxos L p)) e)"
  unfolding validate_effect_def by (intro reads_rules read_validate_scope)

lemma read_validate:
  "tx_reads E content
     (\<lambda>db. validate_capabilities (sqlite_read_account E db) (sqlite_read_scope E db) (sqlite_read_utxo E db) sel)
     (\<lambda>L. ledger_validate L sel)"
  unfolding validate_capabilities_def ledger_validate_def
  by (intro reads_rules read_validate_scope read_validate_effect)

lemma does_batch: "does (apply_batch_tx E b) (batch_program b)"
  unfolding apply_batch_tx_def batch_program_def Let_def batch_operation_def
  by (intro does_steps tx_does_read [OF read_batch_intent] tx_does_read [OF read_batch_phase]
      tx_does_read [OF read_validate] does_effect)

text \<open>An update of an intent's status changes one row, or none.\<close>

lemma does_count_status: "does (execute_sql E (Inr (update_status i st))) (count_status i st)"
  unfolding tx_does_def
proof (intro allI execute_triple)
  fix L s c n c'
  assume s: "Inr (update_status i st) = Inr s" and c: "db_ok E c \<and> sql_ledger E c = L"
    and run: "sql_run s c = Some (n, c')"
  have ok: "db_ok E c" and run: "sql_run (update_status i st) c = Some (n, c')" using s c run by auto
  have eff: "db_ok E c' \<and> sql_ledger E c' = set_intent_status i st L"
    using update_status_does [of E i st] ok run c unfolding statement_does_def by blast
  have "r ''operation_id'' = SqlText (operation_id_str i) \<longleftrightarrow> fst v = i" if "pending_from_row r = Inr v" for r v
    using pending_row_key [OF that] operation_id.expand [of "fst v" i] by auto
  then have "case table_map pending_from_row fst (table_rows c ''intents'') i of
      None \<Rightarrow> filter (\<lambda>r. r ''operation_id'' = SqlText (operation_id_str i)) (table_rows c ''intents'') = []
    | Some v \<Rightarrow> \<exists>r\<in>set (table_rows c ''intents'').
        filter (\<lambda>r. r ''operation_id'' = SqlText (operation_id_str i)) (table_rows c ''intents'') = [r] \<and>
        pending_from_row r = Inr v"
    by (intro table_lookup [OF db_okD(9) [OF ok]])
  moreover have "n = length (filter (\<lambda>r. r ''operation_id'' = SqlText (operation_id_str i)) (table_rows c ''intents''))"
    using run_update(2) [OF db_okD(1) [OF ok] run [unfolded update_status_def]] by simp
  moreover have "lg_intents L i = None \<longleftrightarrow> table_map pending_from_row fst (table_rows c ''intents'') i = None"
    using c by (auto simp: sql_ledger_def)
  ultimately have "n = (if lg_intents L i = None then 0 else 1)" by (auto split: option.splits)
  with eff show "Inr n = fst (count_status i st L) \<and>
      (\<forall>x. Inr n = Inr x \<longrightarrow> db_ok E c' \<and> sql_ledger E c' = snd (count_status i st L))"
    by (simp add: count_status_def)
qed auto

lemma does_set_status: "does (run_statement E (Inr (update_status i st))) (set_status i st)"
  using statement_does_tx [OF update_status_does] by (simp add: set_status_def [abs_def])

section \<open>The commands implement the contract\<close>

lemma put_utxo_implements: "implements at_rest stored id (sqlite_put_utxo E u) (ledger_put_utxo u)"
  unfolding sqlite_put_utxo_def
proof (rule transaction_implements)
  show "does (cmd_bind (write_utxo_tx E u) (\<lambda>_. cmd_bind (next_tick_tx E) (\<lambda>_. commit_with ()))) (put_utxo_program u)"
    unfolding put_utxo_program_def by (intro does_steps)
qed (simp_all add: put_utxo_outcome ledger_wf_put_utxo)

lemma release_implements: "implements at_rest stored set (sqlite_release_operation E i ph) (ledger_release i ph)"
  unfolding sqlite_release_operation_def
proof (rule transaction_implements)
  show "does (cmd_bind (release_operation_tx E i ph) commit_with) (cmd_bind (release_program i ph) commit_with)"
    by (intro does_steps does_release)
qed (simp_all add: release_outcome ledger_wf_release)

lemma release_selected_implements:
  "implements at_rest stored (map_option set) (sqlite_release_selected_operation E i) (ledger_release_selected i)"
  unfolding sqlite_release_selected_operation_def
proof (rule transaction_implements)
  show "does (cmd_bind (cmd_read (\<lambda>db. sqlite_read_operation E db i)) (\<lambda>operation.
      if \<not> is_some_and operation (\<lambda>x. po_phase x = PhSelected) then cmd_return (DropTx None)
      else cmd_bind (release_operation_tx E i PhRollingBack) (\<lambda>released. commit_with (Some released))))
    (release_selected_program i)"
    unfolding release_selected_program_def by (intro does_steps does_release)
qed (simp_all add: release_selected_outcome ledger_wf_release_selected)

lemma mark_committed_implements:
  "implements at_rest stored id (sqlite_mark_intent_committed E i) (ledger_mark_committed i)"
  unfolding sqlite_mark_intent_committed_def
proof (rule transaction_implements)
  show "does (cmd_bind (cmd_read (\<lambda>db. read_intent_header E db i)) (\<lambda>header.
        if is_some_and header (\<lambda>(_, status, _, _). status = Failed) then cmd_fail (IntentNotPending i)
        else
        cmd_bind (execute_sql E (Inr (update_status i Committed))) (\<lambda>changed.
        if changed = 0 then cmd_fail (IntentNotFound i)
        else cmd_bind (next_tick_tx E) (\<lambda>_. commit_with ())))) (mark_committed_program i)"
    unfolding mark_committed_program_def by (intro does_steps does_count_status)
qed (simp_all add: mark_committed_outcome ledger_wf_mark_committed)

lemma apply_batch_implements: "implements at_rest stored id (sqlite_apply_batch E b) (ledger_apply_batch b)"
  unfolding sqlite_apply_batch_def
  by (rule transaction_implements [OF does_batch]) (simp_all add: batch_outcome ledger_wf_apply_batch)

lemma apply_reconciliation_implements:
  "implements at_rest stored id (sqlite_apply_reconciliation E plan) (ledger_apply_reconciliation plan)"
  unfolding sqlite_apply_reconciliation_def
proof (rule transaction_implements)
  show "does (cmd_bind (cmd_each (apply_action_tx E) (rp_actions plan)) (\<lambda>_.
        cmd_bind (next_tick_tx E) (\<lambda>_. commit_with ()))) (reconciliation_program plan)"
    unfolding reconciliation_program_def by (intro does_steps does_action)
qed (simp_all add: reconciliation_outcome ledger_wf_apply_reconciliation)

end

end
