(* ===== verification/Sqlite_Intents.thy ===== *)
theory Sqlite_Intents
  imports Sqlite_Commands
begin

text \<open>
  Recording an intent writes three tables: the header, then the inputs and the effects in their order,
  after the rows an earlier recording of the same operation may have left. Read back, they are the
  selection that was recorded.
\<close>

section \<open>The rows of a selection\<close>

definition input_row :: "operation_id \<Rightarrow> nat \<times> outpoint \<Rightarrow> sql_row" where
  "input_row i x = row_of
     [(''operation_id'', SqlText (operation_id_str i)), (''position'', SqlInteger (int (fst x))),
      (''outpoint'', SqlText (outpoint_string (snd x)))]"

definition effect_row :: "operation_id \<Rightarrow> nat \<times> selection_effect \<Rightarrow> sql_row" where
  "effect_row i x = row_of
     [(''operation_id'', SqlText (operation_id_str i)), (''position'', SqlInteger (int (fst x))),
      (''effect_kind'', SqlText ''lock_utxo''), (''outpoint'', SqlText (outpoint_string (effect_outpoint (snd x)))),
      (''purpose'', SqlText (encode_purpose (effect_purpose (snd x))))]"

lemma selection_rows_key:
  "meets (key_condition j) (input_row i x) \<longleftrightarrow> i = j" "meets (key_condition j) (effect_row i e) \<longleftrightarrow> i = j"
  using operation_id.expand [of i j] by (auto simp: key_condition_def input_row_def effect_row_def)

lemma input_row_roundtrip: "input_from_row E (input_row i x) = Inr (snd x)"
  by (simp add: input_row_def input_from_row_def)

lemma effect_row_roundtrip: "effect_from_row E j (effect_row i x) = Inr (snd x)"
  by (cases "snd x") (simp add: effect_row_def effect_from_row_def)

lemma enumerate_sorted:
  assumes "\<And>x. r x ''position'' = SqlInteger (int (fst x))"
  shows "sorted (map (\<lambda>r. map r [''position'']) (map r (enumerate n xs)))"
proof (induction xs arbitrary: n)
  case Nil
  then show ?case by simp
next
  case (Cons x xs)
  have "[SqlInteger (int n)] \<le> [SqlInteger (int (fst y))]" if "y \<in> set (enumerate (Suc n) xs)" for y
  proof -
    have "Suc n \<le> fst y" using that by (simp add: in_set_enumerate_eq)
    then show ?thesis by (simp add: less_le)
  qed
  with Cons.IH [of "Suc n"] show ?case by (simp add: assms)
qed

lemma collected_rows:
  assumes "\<And>x. f (r x) = Inr (snd x)"
  shows "table_values_of f (map r (enumerate n xs)) = xs"
proof -
  have "res_collect f (map r ys) = Inr (map snd ys)" for ys
    by (induction ys) (simp_all add: assms)
  then show ?thesis by (simp add: table_values_of_def)
qed

lemma selection_rows_back:
  "table_values_of (input_from_row E) (by_position (map (input_row i) (enumerate 0 ps))) = ps"
  "table_values_of (effect_from_row E j) (by_position (map (effect_row i) (enumerate 0 es))) = es"
proof -
  have "by_position (map (input_row i) (enumerate 0 ps)) = map (input_row i) (enumerate 0 ps)"
    unfolding by_position_def by (intro sort_key_id_if_sorted enumerate_sorted) (simp add: input_row_def)
  then show "table_values_of (input_from_row E) (by_position (map (input_row i) (enumerate 0 ps))) = ps"
    by (simp add: collected_rows input_row_roundtrip)
  have "by_position (map (effect_row i) (enumerate 0 es)) = map (effect_row i) (enumerate 0 es)"
    unfolding by_position_def by (intro sort_key_id_if_sorted enumerate_sorted) (simp add: effect_row_def)
  then show "table_values_of (effect_from_row E j) (by_position (map (effect_row i) (enumerate 0 es))) = es"
    by (simp add: collected_rows effect_row_roundtrip)
qed

section \<open>Recording\<close>

text \<open>
  The tables while the selection of an operation is being written: the header is there, the rows of its
  selection so far are the given ones, and everything else is the ledger it started from.
\<close>

definition recording ::
  "'db sql_engine \<Rightarrow> operation_id \<Rightarrow> intent_header \<Rightarrow> ledger \<Rightarrow> sql_row list \<Rightarrow> sql_row list \<Rightarrow> sql_database \<Rightarrow> bool"
  where
  "recording E i h L inputs effects c \<longleftrightarrow>
     db_ok E c \<and> (sql_ledger E c)\<lparr>lg_intents := lg_intents L\<rparr> = L \<and>
     (\<forall>j. j \<noteq> i \<longrightarrow> lg_intents (sql_ledger E c) j = lg_intents L j) \<and>
     table_map pending_from_row fst (table_rows c ''intents'') i = Some (i, h) \<and>
     filter (meets (key_condition i)) (table_rows c ''intent_inputs'') = inputs \<and>
     filter (meets (key_condition i)) (table_rows c ''intent_effects'') = effects"

text \<open>A complete recording holds the intent.\<close>

lemma recording_done:
  assumes "recording E i (sc, st, at, ex) L (map (input_row i) (enumerate 0 ps)) (map (effect_row i) (enumerate 0 es)) c"
  shows "db_ok E c \<and> sql_ledger E c = L\<lparr>lg_intents := (lg_intents L)(i \<mapsto>
    \<lparr>oi_selection = \<lparr>os_operation_id = i, os_selected_outpoints = ps, os_change_scope_id = sc, os_effects = es,
       os_expires_at = ex\<rparr>, oi_status = st, oi_recorded_at = at\<rparr>)\<rparr>" (is "_ \<and> _ = L\<lparr>lg_intents := ?m\<rparr>")
proof -
  have "stored_inputs E c i = ps" and "stored_effects E c i = es"
    using assms by (simp_all add: recording_def stored_inputs_def stored_effects_def selection_rows_back)
  then have "lg_intents (sql_ledger E c) i = ?m i"
    using assms by (simp add: recording_def sql_ledger_def)
  then have "lg_intents (sql_ledger E c) = ?m"
    using assms by (auto simp: recording_def fun_eq_iff)
  moreover have "sql_ledger E c = L\<lparr>lg_intents := lg_intents (sql_ledger E c)\<rparr>"
    using assms by (cases L; cases "sql_ledger E c") (simp add: recording_def)
  ultimately show ?thesis using assms by (simp add: recording_def)
qed

text \<open>A change of the two tables of the selection that leaves the other operations' rows alone.\<close>

definition others_rows :: "operation_id \<Rightarrow> sql_database \<Rightarrow> sql_database \<Rightarrow> bool" where
  "others_rows i c c' \<longleftrightarrow>
     (\<forall>u. u \<notin> {''intent_inputs'', ''intent_effects''} \<longrightarrow> table_rows c' u = table_rows c u) \<and>
     (\<forall>j t. j \<noteq> i \<longrightarrow> filter (meets (key_condition j)) (table_rows c' t) = filter (meets (key_condition j)) (table_rows c t))"

lemma recording_step:
  assumes "recording E i h L xs ys c" and "others_rows i c c'" and "schema_ok c'"
    and "\<And>r. r \<in> set (table_rows c' ''intent_inputs'') \<Longrightarrow> \<exists>p. input_from_row E r = Inr p"
    and "\<And>r. r \<in> set (table_rows c' ''intent_effects'') \<Longrightarrow> \<exists>e. \<forall>i. effect_from_row E i r = Inr e"
  shows "recording E i h L (filter (meets (key_condition i)) (table_rows c' ''intent_inputs''))
    (filter (meets (key_condition i)) (table_rows c' ''intent_effects'')) c'"
proof -
  have rows: "table_rows c' u = table_rows c u" if "u \<notin> {''intent_inputs'', ''intent_effects''}" for u
    using that assms(2) by (simp add: others_rows_def)
  note tables = rows [of "''meta''", simplified] rows [of "''accounts''", simplified] rows [of "''scopes''", simplified]
    rows [of "''utxos''", simplified] rows [of "''locks''", simplified] rows [of "''operations''", simplified]
    rows [of "''intents''", simplified]
  have ok: "db_ok E c" using assms(1) by (simp add: recording_def)
  have tick: "stored_tick c' = stored_tick c" and scopes: "scope_ids c' = scope_ids c"
    by (simp_all add: stored_tick_def scope_ids_def tables fun_eq_iff)
  have other: "intent_entry E c' v = intent_entry E c v" if "fst v \<noteq> i" for v
    using that assms(2) by (cases v) (simp add: stored_inputs_def stored_effects_def others_rows_def)
  have "lg_intents (sql_ledger E c') j = lg_intents (sql_ledger E c) j" if "j \<noteq> i" for j
  proof (cases "table_map pending_from_row fst (table_rows c ''intents'') j")
    case (Some v)
    with other [of v] table_map_key [OF db_okD(9) [OF ok] Some] that show ?thesis
      by (simp add: sql_ledger_def tables)
  qed (simp add: sql_ledger_def tables)
  moreover have "db_ok E c'" using ok assms(3-5) by (simp add: db_ok_def tables tick)
  moreover have "(sql_ledger E c')\<lparr>lg_intents := lg_intents L\<rparr> = (sql_ledger E c)\<lparr>lg_intents := lg_intents L\<rparr>"
    by (simp add: sql_ledger_def tables tick scopes)
  ultimately show ?thesis using assms(1) by (simp add: recording_def tables)
qed

text \<open>The statements, one by one.\<close>

lemma filter_other_key:
  "j \<noteq> i \<Longrightarrow> filter (\<lambda>r. \<not> meets (key_condition i) r \<and> meets (key_condition j) r) rows =
    filter (meets (key_condition j)) rows"
  using operation_id.expand [of i j] by (auto simp: key_condition_def intro!: filter_cong)

lemma filter_own_key: "filter (meets (key_condition i)) (filter (\<lambda>r. \<not> meets (key_condition i) r) rows) = []"
  by simp

lemma recording_delete:
  assumes "recording E i h L xs ys c" and "t \<in> {''intent_inputs'', ''intent_effects''}"
    and "sql_run (DeleteWhere t (key_condition i)) c = Some (n, c')"
  shows "recording E i h L (if t = ''intent_inputs'' then [] else xs) (if t = ''intent_effects'' then [] else ys) c'"
proof -
  have ok: "db_ok E c" using assms(1) by (simp add: recording_def)
  have t: "t \<noteq> ''intents''" using assms(2) by auto
  note run = run_delete [OF db_okD(1) [OF ok] assms(3) t]
  have others: "others_rows i c c'"
    using assms(2) by (auto simp: others_rows_def run(2) filter_other_key)
  have "recording E i h L (filter (meets (key_condition i)) (table_rows c' ''intent_inputs''))
      (filter (meets (key_condition i)) (table_rows c' ''intent_effects'')) c'"
    by (rule recording_step [OF assms(1) others run(1)])
      (use db_okD(10,11) [OF ok] in \<open>auto simp: run(2) split: if_splits\<close>)
  then show ?thesis using assms(1,2) by (auto simp: run(2) filter_own_key recording_def)
qed

lemma recording_insert:
  assumes "recording E i h L xs ys c" and "t = ''intent_inputs'' \<and> row_of vals = input_row i x \<or>
      t = ''intent_effects'' \<and> row_of vals = effect_row i y"
    and "sql_run (InsertInto t vals) c = Some (n, c')"
  shows "recording E i h L (if t = ''intent_inputs'' then xs @ [row_of vals] else xs)
    (if t = ''intent_effects'' then ys @ [row_of vals] else ys) c'"
proof -
  have ok: "db_ok E c" using assms(1) by (simp add: recording_def)
  note run = run_insert [OF db_okD(1) [OF ok] assms(3)]
  have key: "meets (key_condition j) (row_of vals) \<longleftrightarrow> i = j" for j
    using assms(2) by (auto simp: selection_rows_key)
  have others: "others_rows i c c'"
    using assms(2) by (auto simp: others_rows_def run(2) key)
  have "recording E i h L (filter (meets (key_condition i)) (table_rows c' ''intent_inputs''))
      (filter (meets (key_condition i)) (table_rows c' ''intent_effects'')) c'"
  proof (rule recording_step [OF assms(1) others run(1)])
    have old: "r \<in> set (table_rows c u) \<or> u = t \<and> r = row_of vals" if "r \<in> set (table_rows c' u)" for r u
      using that by (auto simp: run(2) split: if_splits)
    show "\<exists>p. input_from_row E r = Inr p" if r: "r \<in> set (table_rows c' ''intent_inputs'')" for r
      using old [OF r] db_okD(10) [OF ok, of r] assms(2) by (auto simp: input_row_roundtrip)
    show "\<exists>e. \<forall>i. effect_from_row E i r = Inr e" if r: "r \<in> set (table_rows c' ''intent_effects'')" for r
      using old [OF r] db_okD(11) [OF ok, of r] assms(2) by (auto simp: effect_row_roundtrip)
  qed
  then show ?thesis using assms(1,2) by (auto simp: run(2) key recording_def)
qed

lemma recording_starts:
  assumes "db_ok E c" and "lg_intents (sql_ledger E c) (os_operation_id sel) = None"
    and "header_statement sel t = Inr s" and "sql_run s c = Some (n, c')"
  shows "\<exists>xs ys. recording E (os_operation_id sel) (os_change_scope_id sel, Pending, t, os_expires_at sel)
    (sql_ledger E c) xs ys c'"
proof -
  obtain tb vals where st: "s = InsertOrReplace tb vals"
    using assms(3) by (auto simp: header_statement_def res_bind_eq_Inr)
  note read = header_row_roundtrip [OF assms(3) [unfolded st]]
  have fresh: "''intents'' \<noteq> ''intents'' \<or> table_map pending_from_row fst (table_rows c ''intents'')
      (fst (os_operation_id sel, os_change_scope_id sel, Pending, t, os_expires_at sel)) = None"
    using assms(2) by (auto simp: sql_ledger_def)
  note eff = replace_row [OF key_columns(6) db_okD(9) [OF assms(1)] db_okD(1) [OF assms(1)] declared_tables(6)
      assms(4) [unfolded st read(1)] read(2) fresh]
  note other = other_tables [OF eff(2)]
  show ?thesis
    using assms(1) eff(1,3) by (auto simp: recording_def db_ok_def other eff(4) sql_ledger_def)
qed

section \<open>Persisting an intent\<close>

abbreviation row_values :: "sql_statement \<Rightarrow> (string \<times> sql_value) list" where
  "row_values st \<equiv> (case st of InsertInto t vals \<Rightarrow> vals | _ \<Rightarrow> [])"

lemma insert_statements:
  "insert_input i n p = InsertInto ''intent_inputs'' (row_values (insert_input i n p)) \<and>
     row_of (row_values (insert_input i n p)) = input_row i (n, p)"
  "insert_effect i n e = InsertInto ''intent_effects'' (row_values (insert_effect i n e)) \<and>
     row_of (row_values (insert_effect i n e)) = effect_row i (n, e)"
  by (simp_all add: insert_input_def insert_effect_def input_row_def effect_row_def)

context sqlite_engine
begin

abbreviation when_ok :: "(sql_database \<Rightarrow> bool) \<Rightarrow> 'e + 'x \<Rightarrow> sql_database \<Rightarrow> bool" where
  "when_ok Q \<equiv> (\<lambda>r. case r of Inl e \<Rightarrow> (\<lambda>_. False) | Inr _ \<Rightarrow> Q)"

lemma plain_triple:
  assumes "\<And>c n c'. P c \<Longrightarrow> sql_run s c = Some (n, c') \<Longrightarrow> R c'"
  shows "triple P (run_statement E (Inr s)) (when_ok R)"
  by (rule statement_triple) (simp_all add: assms del: sql_run.simps)

lemma delete_triple:
  assumes "t \<in> {''intent_inputs'', ''intent_effects''}"
  shows "triple (recording E i h L xs ys) (run_statement E (Inr (DeleteWhere t (key_condition i))))
    (when_ok (recording E i h L (if t = ''intent_inputs'' then [] else xs) (if t = ''intent_effects'' then [] else ys)))"
  by (rule plain_triple) (rule recording_delete [OF _ assms])

lemma input_triple:
  "triple (recording E i h L xs ys) (run_statement E (Inr (insert_input i n p)))
     (when_ok (recording E i h L (xs @ [input_row i (n, p)]) ys))"
proof (rule plain_triple)
  fix c k c'
  assume rec: "recording E i h L xs ys c" and "sql_run (insert_input i n p) c = Some (k, c')"
  then have "sql_run (InsertInto ''intent_inputs'' (row_values (insert_input i n p))) c = Some (k, c')"
    using insert_statements(1) [of i n p] by (simp del: sql_run.simps)
  from recording_insert [OF rec _ this, of "(n, p)"] insert_statements(1) [of i n p]
  show "recording E i h L (xs @ [input_row i (n, p)]) ys c'" by simp
qed

lemma effect_triple:
  "triple (recording E i h L xs ys) (run_statement E (Inr (insert_effect i n e)))
     (when_ok (recording E i h L xs (ys @ [effect_row i (n, e)])))"
proof (rule plain_triple)
  fix c k c'
  assume rec: "recording E i h L xs ys c" and "sql_run (insert_effect i n e) c = Some (k, c')"
  then have "sql_run (InsertInto ''intent_effects'' (row_values (insert_effect i n e))) c = Some (k, c')"
    using insert_statements(2) [of i n e] by (simp del: sql_run.simps)
  from recording_insert [OF rec _ this, of _ "(n, e)"] insert_statements(2) [of i n e]
  show "recording E i h L xs (ys @ [effect_row i (n, e)]) c'" by simp
qed

lemma inputs_triple:
  "triple (recording E i h L [] ys)
     (cmd_each (\<lambda>(position, p). run_statement E (Inr (insert_input i position p))) xs)
     (when_ok (recording E i h L (map (input_row i) xs) ys))"
  by (rule tx_triple_each [where I = "\<lambda>zs. recording E i h L (map (input_row i) zs) ys", simplified])
    (auto intro: input_triple)

lemma effects_triple:
  "triple (recording E i h L ys [])
     (cmd_each (\<lambda>(position, e). run_statement E (Inr (insert_effect i position e))) xs)
     (when_ok (recording E i h L ys (map (effect_row i) xs)))"
  by (rule tx_triple_each [where I = "\<lambda>zs. recording E i h L ys (map (effect_row i) zs)", simplified])
    (auto intro: effect_triple)

lemma triple_then:
  assumes "triple P m (when_ok R)" and "\<And>x. triple R (f x) Q"
  shows "triple P (cmd_bind m f) Q"
  by (rule tx_triple_bind [OF assms(1)]) (use assms(2) in simp_all)

lemma triple_ex: "(\<And>x. triple (P x) m Q) \<Longrightarrow> triple (\<lambda>c. \<exists>x. P x c) m Q"
proof (rule tx_tripleI)
  fix db r db'
  assume P: "\<And>x. triple (P x) m Q" and db: "open_tx db" "\<exists>x. P x (content db)" and run: "m db = (r, db')"
  from db(2) obtain x where "P x (content db)" ..
  from tx_tripleD [OF P db(1) this run]
  show "committed db' = committed db \<and>
      ((\<exists>msg. r = Inl (Storage msg)) \<or> Q r (content db') \<and> (\<forall>x. r = Inr x \<longrightarrow> open_tx db'))" by simp
qed

lemma header_triple:
  assumes "lg_intents L (os_operation_id sel) = None"
  shows "triple (\<lambda>c. db_ok E c \<and> sql_ledger E c = L) (run_statement E (header_statement sel t))
    (when_ok (\<lambda>c. \<exists>xs ys. recording E (os_operation_id sel) (os_change_scope_id sel, Pending, t, os_expires_at sel) L xs ys c))"
proof (rule statement_triple)
  show "header_statement sel t = Inl e \<Longrightarrow> e = ToSqlConversionFailure" for e
    by (auto simp: header_statement_def res_bind_eq_Inl dest: sql_of_u64_Inl sql_of_u64_option_Inl)
  show "when_ok (\<lambda>c. \<exists>xs ys. recording E (os_operation_id sel)
      (os_change_scope_id sel, Pending, t, os_expires_at sel) L xs ys c) (Inr ()) c'"
    if "header_statement sel t = Inr s" and "db_ok E c \<and> sql_ledger E c = L" and "sql_run s c = Some (n, c')"
    for s c n c'
    using recording_starts [of E c sel t s n c'] that assms by auto
qed

text \<open>The whole body records the intent it returns.\<close>

lemma persist_triple:
  fixes sel :: operation_selection
  assumes "lg_intents L (os_operation_id sel) = None"
  defines "intent \<equiv> \<lparr>oi_selection = sel, oi_status = Pending, oi_recorded_at = lg_tick (bump_tick L)\<rparr>"
  shows "triple (\<lambda>c. db_ok E c \<and> sql_ledger E c = L) (persist_intent_tx E sel)
    (\<lambda>r c. r = Inr (CommitTx intent) \<and> db_ok E c \<and> sql_ledger E c =
       (bump_tick L)\<lparr>lg_intents := (lg_intents L)(os_operation_id sel \<mapsto> intent)\<rparr>)"
proof -
  let ?i = "os_operation_id sel" and ?t = "lg_tick (bump_tick L)"
  let ?h = "(os_change_scope_id sel, Pending, ?t, os_expires_at sel)"
  let ?ps = "map (input_row ?i) (enumerate 0 (os_selected_outpoints sel))"
  let ?es = "map (effect_row ?i) (enumerate 0 (os_effects sel))"
  let ?rec = "recording E ?i ?h (bump_tick L)"
  have finished: "db_ok E c \<and> sql_ledger E c = (bump_tick L)\<lparr>lg_intents := (lg_intents L)(?i \<mapsto> intent)\<rparr>"
    if "?rec ?ps ?es c" for c
  proof -
    have "\<lparr>os_operation_id = ?i, os_selected_outpoints = os_selected_outpoints sel,
        os_change_scope_id = os_change_scope_id sel, os_effects = os_effects sel,
        os_expires_at = os_expires_at sel\<rparr> = sel" by (cases sel) simp
    with recording_done [OF that] show ?thesis by (simp add: intent_def bump_tick_def)
  qed
  have fresh: "lg_intents (bump_tick L) ?i = None" using assms(1) by (simp add: bump_tick_def)
  show ?thesis
    unfolding persist_intent_tx_def Let_def key_condition_def [symmetric]
  proof (rule tx_triple_bind [OF tx_doesD [OF does_next_tick]])
    fix at
    show "triple (\<lambda>c. Inr at = fst (tick_once L) \<and>
          (\<forall>x. Inr at = Inr x \<longrightarrow> db_ok E c \<and> sql_ledger E c = snd (tick_once L)))
      (cmd_bind (run_statement E (header_statement sel at)) (\<lambda>_.
       cmd_bind (run_statement E (Inr (DeleteWhere ''intent_inputs'' (key_condition ?i)))) (\<lambda>_.
       cmd_bind (run_statement E (Inr (DeleteWhere ''intent_effects'' (key_condition ?i)))) (\<lambda>_.
       cmd_bind (cmd_each (\<lambda>(position, p). run_statement E (Inr (insert_input ?i position p)))
         (enumerate 0 (os_selected_outpoints sel))) (\<lambda>_.
       cmd_bind (cmd_each (\<lambda>(position, e). run_statement E (Inr (insert_effect ?i position e)))
         (enumerate 0 (os_effects sel))) (\<lambda>_.
       commit_with \<lparr>oi_selection = sel, oi_status = Pending, oi_recorded_at = at\<rparr>))))))
      (\<lambda>r c. r = Inr (CommitTx intent) \<and> db_ok E c \<and>
        sql_ledger E c = (bump_tick L)\<lparr>lg_intents := (lg_intents L)(?i \<mapsto> intent)\<rparr>)"
    proof (cases "at = ?t")
      case True
      show ?thesis
        unfolding True
        apply (rule tx_triple_conseq [where P = "\<lambda>c. db_ok E c \<and> sql_ledger E c = bump_tick L"])
        apply (rule triple_then [OF header_triple [OF fresh]])
        apply (rule triple_ex)+
        apply (rule triple_then [OF delete_triple], simp)
        apply (rule triple_then [OF delete_triple], simp)
        apply simp
        apply (rule triple_then [OF inputs_triple])
        apply (rule triple_then [OF effects_triple])
        unfolding commit_with_def
        apply (rule tx_triple_return)
        by (simp_all add: finished tick_once_def intent_def)
    qed (auto simp: tx_triple_def tick_once_def)
  qed (simp add: tick_once_def)
qed

lemma persist_implements:
  "implements at_rest stored id (sqlite_persist_intent E sel) (ledger_persist_intent sel)"
  unfolding implements_def
proof (intro allI impI)
  fix db r db'
  assume rest: "at_rest db" and run: "sqlite_persist_intent E sel db = (r, db')"
  let ?i = "os_operation_id sel" and ?L = "stored db"
  have ok: "db_ok E (content db)" and wf: "ledger_wf ?L" and pre: "\<not> open_tx db" "content db = committed db"
    using rest unfolding sql_inv_def by blast+
  show "at_rest db' \<and> ((res_map id r, stored db') = ledger_persist_intent sel ?L \<or>
      (\<exists>msg. r = Inl (Storage msg)) \<and> stored db' = ?L)"
  proof (cases "sqlite_read_intent E db ?i")
    case (Inl e)
    with run have "r = Inl e" "db' = db" by (simp_all add: sqlite_persist_intent_def)
    with tx_readsD [OF read_intent ok, of ?i] Inl rest show ?thesis by auto
  next
    case (Inr found)
    with tx_readsD [OF read_intent ok, of ?i] have found: "found = lg_intents ?L ?i" by auto
    show ?thesis
    proof (cases "lg_intents ?L ?i")
      case (Some n)
      with run Inr found rest show ?thesis
        by (auto simp: sqlite_persist_intent_def ledger_persist_intent_def split: if_splits)
    next
      case None
      let ?n = "\<lparr>oi_selection = sel, oi_status = Pending, oi_recorded_at = lg_tick (bump_tick ?L)\<rparr>"
      let ?M = "(bump_tick ?L)\<lparr>lg_intents := (lg_intents ?L)(?i \<mapsto> ?n)\<rparr>"
      have tx: "in_transaction E (persist_intent_tx E sel) db = (r, db')"
        using run Inr found None by (simp add: sqlite_persist_intent_def)
      have spec: "ledger_persist_intent sel ?L = (Inr ?n, ?M)"
        using None by (simp add: ledger_persist_intent_def Let_def)
      have body: "triple (\<lambda>c. db_ok E c \<and> sql_ledger E c = ?L) (persist_intent_tx E sel)
          (\<lambda>r c. r = Inr (CommitTx ?n) \<and> db_ok E c \<and> sql_ledger E c = ?M)"
        by (rule persist_triple [OF None])
      note ran = transaction_run [where P = "\<lambda>c. db_ok E c \<and> sql_ledger E c = ?L", OF pre _ tx body]
      from ran(3) ok consider "\<exists>msg. r = Inl (Storage msg)" "content db' = content db"
        | "r = Inr ?n" "db_ok E (content db')" "stored db' = ?M" by fastforce
      then show ?thesis
      proof cases
        case 1
        with ran(1,2) ok pre wf show ?thesis by (simp add: sql_inv_def)
      next
        case 2
        moreover have "ledger_wf ?M" using ledger_wf_persist [OF wf, of sel] by (simp add: spec)
        ultimately show ?thesis using ran(1,2) ok spec by (simp add: sql_inv_def)
      qed
    qed
  qed
qed

end

end
