(* ===== verification/Sqlite_Contract.thy ===== *)
theory Sqlite_Contract
  imports Sqlite_Intents
begin

text \<open>
  The remaining commands of the SQLite store, and the store contract: over every connection that behaves
  as SQLite documents, the backend refines the ledger.
\<close>

section \<open>Failing and completing an operation\<close>

context sqlite_engine
begin

lemma does_case_prod:
  "(\<And>a b. does (f a b) (g a b)) \<Longrightarrow> does (case_prod f x) (case_prod g x)"
  by (cases x) simp

lemma does_case_status:
  "does a a' \<Longrightarrow> does b b' \<Longrightarrow> does c c' \<Longrightarrow>
    does (case st of Pending \<Rightarrow> a | Committed \<Rightarrow> b | Failed \<Rightarrow> c)
      (case st of Pending \<Rightarrow> a' | Committed \<Rightarrow> b' | Failed \<Rightarrow> c')"
  by (cases st) simp_all

lemma mark_failed_implements:
  "implements at_rest stored id (sqlite_mark_intent_failed E i) (ledger_mark_failed i)"
  unfolding sqlite_mark_intent_failed_def
  apply (rule transaction_implements [where spec' = "mark_failed_program i"])
  subgoal unfolding mark_failed_program_def
    by (intro does_steps does_case_prod does_case_status does_release does_set_status)
  by (simp_all add: mark_failed_outcome ledger_wf_mark_failed)

lemma complete_implements:
  "implements at_rest stored set (sqlite_complete_operation E i ph) (ledger_complete i ph)"
  unfolding sqlite_complete_operation_def
  apply (rule transaction_implements [where spec' = "complete_program i ph"])
  subgoal unfolding complete_program_def
    by (intro does_steps does_case_prod does_change_owned statement_does_tx [OF expire_locks_does])
  by (simp_all add: complete_outcome ledger_wf_complete)

section \<open>The clock\<close>

lemma advance_tick_implements:
  "implements at_rest stored id (sqlite_advance_tick E d) (ledger_advance_tick d)"
  unfolding implements_def
proof (intro allI impI)
  fix db r db'
  assume rest: "at_rest db" and run: "sqlite_advance_tick E d db = (r, db')"
  have ok: "db_ok E (content db)" and wf: "ledger_wf (stored db)" and pre: "\<not> open_tx db" "content db = committed db"
    using rest unfolding sql_inv_def by blast+
  let ?t = "sat_add (lg_tick (stored db)) (max d 1)"
  from tx_readsD [OF read_tick ok] consider m where "sqlite_read_tick E db = Inl (Storage m)"
    | "sqlite_read_tick E db = Inr (lg_tick (stored db))" by auto
  then show "at_rest db' \<and> ((res_map id r, stored db') = ledger_advance_tick d (stored db) \<or>
      (\<exists>msg. r = Inl (Storage msg)) \<and> stored db' = stored db)"
  proof cases
    case (1 m)
    with run rest show ?thesis by (auto simp: sqlite_advance_tick_def)
  next
    case 2
    obtain r1 db1 where started: "eng_execute E (write_tick ?t) db = (r1, db1)" by fastforce
    then have r1: "eng_execute E (write_tick ?t) db = (r1, db')" "r = map_err E (res_map (\<lambda>_. ()) r1)"
      using run 2 by (cases r1; simp add: sqlite_advance_tick_def run_statement_def execute_sql_def cmd_bind_def)+
    show ?thesis
    proof (cases r1)
      case (Inl e)
      then show ?thesis
        using execute_fault [OF r1(1) [unfolded Inl]] engine_fault_storage [of e E] r1(2) rest
        by (auto simp: sql_inv_def)
    next
      case (Inr n)
      note ran = execute_law [OF r1(1) [unfolded Inr]]
      have "db_ok E (content db') \<and> stored db' = (stored db)\<lparr>lg_tick := ?t\<rparr>"
        using write_tick_does [of E ?t] ok ran unfolding statement_does_def by blast
      then show ?thesis
        using ran pre wf r1(2) Inr by (simp add: sql_inv_def ledger_advance_tick_def ledger_wf_def)
    qed
  qed
qed

end

section \<open>Accounts and scopes\<close>

text \<open>Registering an account or a scope replaces one row of its table, and touches no holdings.\<close>

lemma scopes_by_key: "db_ok E c \<Longrightarrow> lg_scopes (sql_ledger E c) i = Some sc \<Longrightarrow> ws_id sc = i"
  using table_map_key [OF db_okD(5)] by (simp add: sql_ledger_def)

lemma accounts_by_key: "db_ok E c \<Longrightarrow> lg_accounts (sql_ledger E c) i = Some a \<Longrightarrow> ac_id a = i"
  using table_map_key [OF db_okD(4)] by (auto simp: sql_ledger_def)

lemma ledger_wf_same_holdings:
  assumes "ledger_wf L" and "same_holdings L (sql_ledger E c)" and "db_ok E c"
  shows "ledger_wf (sql_ledger E c)"
  using assms(1,2) accounts_by_key [OF assms(3)] scopes_by_key [OF assms(3)]
  by (auto simp: ledger_wf_def same_holdings_def)

abbreviation account_row :: "account \<Rightarrow> (string \<times> sql_value) list" where
  "account_row a \<equiv>
     [(''account_id'', SqlText (account_id_str (ac_id a))), (''name'', SqlText (ac_name a)),
      (''capabilities'', SqlText (encode_capabilities (ac_capabilities a)))]"

abbreviation scope_row :: "wallet_scope \<Rightarrow> (string \<times> sql_value) list" where
  "scope_row sc \<equiv>
     [(''scope_id'', SqlText (wallet_scope_id_str (ws_id sc))),
      (''account_id'', SqlText (account_id_str (ws_account_id sc))),
      (''descriptor_ref'', SqlText (ws_descriptor_ref sc)), (''derivation_scope'', SqlText (ws_derivation_scope sc)),
      (''capabilities'', SqlText (encode_capabilities (ws_capabilities sc))),
      (''priority'', sql_of_u32 (ws_priority sc))]"

lemma account_row_roundtrip: "account_entry (row_of (account_row a)) = Inr (a\<lparr>ac_scopes := []\<rparr>)"
  by (simp add: account_entry_def account_from_row_def)

lemma scope_row_roundtrip: "scope_from_row (row_of (scope_row sc)) = Inr sc"
  by (simp add: scope_from_row_def)

lemma same_holdings_trans: "same_holdings L M \<Longrightarrow> same_holdings M N \<Longrightarrow> same_holdings L N"
  by (simp add: same_holdings_def)

lemma replace_account_rows:
  assumes "db_ok E c"
    and "sql_run (InsertOrReplace ''accounts'' (account_row a)) c = Some (n, c')"
  shows "db_ok E c'" and "same_holdings (sql_ledger E c) (sql_ledger E c')"
proof -
  note eff = replace_row [OF key_columns(1) db_okD(4) [OF assms(1)] db_okD(1) [OF assms(1)] declared_tables(2)
      assms(2) account_row_roundtrip [of a], simplified]
  note other = other_tables [OF eff(2)]
  show "db_ok E c'" using assms(1) eff by (simp add: other db_ok_def)
  show "same_holdings (sql_ledger E c) (sql_ledger E c')" by (simp add: same_holdings_def sql_ledger_def other)
qed

lemma replace_scope_rows:
  assumes "db_ok E c"
    and "sql_run (InsertOrReplace ''scopes'' (scope_row sc)) c = Some (n, c')"
  shows "db_ok E c'" and "same_holdings (sql_ledger E c) (sql_ledger E c')"
proof -
  note eff = replace_row [OF key_columns(2) db_okD(5) [OF assms(1)] db_okD(1) [OF assms(1)] declared_tables(7)
      assms(2) scope_row_roundtrip [of sc], simplified]
  note other = other_tables [OF eff(2)]
  show "db_ok E c'" using assms(1) eff by (simp add: other db_ok_def)
  show "same_holdings (sql_ledger E c) (sql_ledger E c')" by (simp add: same_holdings_def sql_ledger_def other)
qed

context sqlite_engine
begin

lemma next_tick_holdings:
  "triple (\<lambda>c. db_ok E c \<and> same_holdings L (sql_ledger E c)) (next_tick_tx E)
     (\<lambda>r c. db_ok E c \<and> same_holdings L (sql_ledger E c))"
proof (rule tx_tripleI)
  fix db r db'
  assume db: "open_tx db" "db_ok E (content db) \<and> same_holdings L (stored db)" and run: "next_tick_tx E db = (r, db')"
  have "same_holdings (stored db) (bump_tick (stored db))" by (simp add: same_holdings_def bump_tick_def)
  with tx_tripleD [OF tx_doesD [OF does_next_tick] db(1) _ run, of "stored db"] db(2)
  show "committed db' = committed db \<and> ((\<exists>msg. r = Inl (Storage msg)) \<or>
      (db_ok E (content db') \<and> same_holdings L (stored db')) \<and> (\<forall>x. r = Inr x \<longrightarrow> open_tx db'))"
    by (auto simp: tick_once_def intro: same_holdings_trans)
qed

text \<open>A transaction that keeps the tables readable and the holdings keeps the store at rest with its holdings.\<close>

lemma transaction_holdings:
  assumes "at_rest db" and "in_transaction E body db = (r, db')"
    and "triple (\<lambda>c. db_ok E c \<and> sql_ledger E c = stored db) body
      (\<lambda>r c. \<forall>x. r = Inr x \<longrightarrow> db_ok E c \<and> same_holdings (stored db) (sql_ledger E c))"
  shows "at_rest db' \<and> same_holdings (stored db) (stored db')"
proof -
  have pre: "\<not> open_tx db" "content db = committed db" "db_ok E (content db) \<and> stored db = stored db"
    and wf: "ledger_wf (stored db)"
    using assms(1) unfolding sql_inv_def by blast+
  have refl: "same_holdings (stored db) (stored db)" by (simp add: same_holdings_def)
  note ran = transaction_run [where P = "\<lambda>c. db_ok E c \<and> sql_ledger E c = stored db", OF pre assms(2,3)]
  from ran(3) consider "content db' = content db"
    | "db_ok E (content db')" "same_holdings (stored db) (stored db')" by fastforce
  then show ?thesis
  proof cases
    case 1
    with ran(1,2) pre wf refl show ?thesis by (simp add: sql_inv_def)
  next
    case 2
    with ran(1,2) ledger_wf_same_holdings [OF wf 2(2,1)] show ?thesis by (simp add: sql_inv_def)
  qed
qed

lemma put_account_holdings:
  assumes "at_rest db" and "sqlite_put_account E a db = (r, db')"
  shows "at_rest db' \<and> same_holdings (stored db) (stored db')"
proof (rule transaction_holdings [OF assms(1) assms(2) [unfolded sqlite_put_account_def]])
  let ?Q = "\<lambda>r c. db_ok E c \<and> same_holdings (stored db) (sql_ledger E c)"
  show "triple (\<lambda>c. db_ok E c \<and> sql_ledger E c = stored db)
     (cmd_bind (run_statement E (Inr (InsertOrReplace ''accounts'' (account_row a)))) (\<lambda>_.
        cmd_bind (next_tick_tx E) (\<lambda>_. commit_with ())))
     (\<lambda>r c. \<forall>x. r = Inr x \<longrightarrow> db_ok E c \<and> same_holdings (stored db) (sql_ledger E c))"
    unfolding commit_with_def
    by (rule tx_triple_bind [where R = ?Q], rule statement_triple)
      (auto simp del: sql_run.simps dest: replace_account_rows [where E = E]
        intro!: tx_triple_bind [OF next_tick_holdings] tx_triple_return)
qed

lemma put_scope_holdings:
  assumes "at_rest db" and "sqlite_put_scope E sc db = (r, db')"
  shows "at_rest db' \<and> same_holdings (stored db) (stored db')"
proof (rule transaction_holdings [OF assms(1) assms(2) [unfolded sqlite_put_scope_def]])
  let ?P = "\<lambda>c. db_ok E c \<and> sql_ledger E c = stored db"
  let ?Q = "\<lambda>r c. db_ok E c \<and> same_holdings (stored db) (sql_ledger E c)"
  let ?read = "query_optional E (select_where [] ''accounts'' ''account_id''
    (SqlText (account_id_str (ws_account_id sc)))) (\<lambda>_. Inr ())"
  let ?insert = "run_statement E (Inr (InsertOrReplace ''scopes'' (scope_row sc)))"
  have insert: "triple ?P (cmd_bind ?insert (\<lambda>_. cmd_bind (next_tick_tx E) (\<lambda>_. commit_with ())))
      (\<lambda>r c. \<forall>x. r = Inr x \<longrightarrow> db_ok E c \<and> same_holdings (stored db) (sql_ledger E c))"
    unfolding commit_with_def
    by (rule tx_triple_bind [where R = ?Q], rule statement_triple)
      (auto simp del: sql_run.simps dest: replace_scope_rows [where E = E]
        intro!: tx_triple_bind [OF next_tick_holdings] tx_triple_return)
  show "triple ?P (cmd_bind (cmd_read ?read) (\<lambda>exists.
        if exists = None then cmd_fail (AccountNotFound (ws_account_id sc))
        else cmd_bind ?insert (\<lambda>_. cmd_bind (next_tick_tx E) (\<lambda>_. commit_with ()))))
     (\<lambda>r c. \<forall>x. r = Inr x \<longrightarrow> db_ok E c \<and> same_holdings (stored db) (sql_ledger E c))"
  proof (rule tx_triple_bind [where R = "\<lambda>r c. ?P c"])
    show "triple ?P (cmd_read ?read) (\<lambda>r c. ?P c)" by (auto simp: tx_triple_def)
  next
    fix x
    show "triple ?P (if x = None then cmd_fail (AccountNotFound (ws_account_id sc))
        else cmd_bind ?insert (\<lambda>_. cmd_bind (next_tick_tx E) (\<lambda>_. commit_with ())))
      (\<lambda>r c. \<forall>x. r = Inr x \<longrightarrow> db_ok E c \<and> same_holdings (stored db) (sql_ledger E c))"
      using insert by (auto intro!: tx_triple_fail)
  qed auto
qed

section \<open>The contract\<close>

lemma reads_as_stored:
  assumes "tx_reads E content m (\<lambda>L. Inr (v L))" and "at_rest db"
  shows "reads_as (m db) (v (stored db))"
proof -
  have "db_ok E (content db)" using assms(2) unfolding sql_inv_def by blast
  from tx_readsD [OF assms(1) this] show ?thesis by (auto simp: reads_as_def)
qed

lemmas sqlite_reads = reads_as_stored [OF read_account] reads_as_stored [OF read_scope]
  reads_as_stored [OF read_utxo] reads_as_stored [OF read_lock] reads_as_stored [OF read_operation]
  reads_as_stored [OF read_intent] reads_as_stored [OF read_tick]

lemmas sqlite_commands = put_utxo_implements advance_tick_implements persist_implements
  mark_committed_implements mark_failed_implements apply_batch_implements apply_reconciliation_implements
  release_selected_implements release_implements complete_implements

end

text \<open>Over every connection that keeps the documented laws, the backend is a store of the contract.\<close>

sublocale sqlite_engine \<subseteq> sqlite: state_store_contract "sqlite_ops E" "sql_inv E content committed open_tx"
  "\<lambda>db. sql_ledger E (content db)"
proof unfold_locales
  fix db
  assume rest: "sql_inv E content committed open_tx db"
  then have ok: "db_ok E (content db)" unfolding sql_inv_def by blast
  show "ledger_wf (sql_ledger E (content db))" using rest unfolding sql_inv_def by blast
  show "lists_as (list_utxos (sqlite_ops E) db) (ran (lg_utxos (sql_ledger E (content db))))"
    using list_utxos_read [OF ok] by (simp add: sqlite_ops_def)
  show "lists_as (list_operations (sqlite_ops E) db) (ran (lg_operations (sql_ledger E (content db))))"
    using list_operations_read [OF ok] by (simp add: sqlite_ops_def)
  show "lists_as (list_pending_intents (sqlite_ops E) db)
      {n \<in> ran (lg_intents (sql_ledger E (content db))). oi_status n = Pending}"
    using list_pending_read [OF ok] by (simp add: sqlite_ops_def)
qed (unfold sqlite_ops_def state_read.simps state_store.simps,
  (rule sqlite_commands | (rule sqlite_reads, assumption) |
    (rule put_account_holdings put_scope_holdings, assumption, assumption))+)

interpretation plain_sqlite: state_store_contract "sqlite_ops plain_engine"
  "sql_inv plain_engine pc_content pc_committed pc_open" "\<lambda>c. sql_ledger plain_engine (pc_content c)"
  by (rule plain.sqlite.state_store_contract_axioms)

end
