(* ===== verification/Store_Calls.thy ===== *)
theory Store_Calls
  imports Sqlite_Contract Memory_Store
begin

text \<open>
  The write operations of the store trait as data, and runs of any sequence of them over a backend. Two
  backends that keep the contract, started from the same ledger, give the same replies and end with the
  same ledger, as long as neither reports a failure of its storage.
\<close>

section \<open>Calls and replies\<close>

datatype store_call =
    CallPutAccount account
  | CallPutScope wallet_scope
  | CallPutUtxo managed_utxo
  | CallAdvanceTick u64
  | CallPersistIntent operation_selection
  | CallMarkCommitted operation_id
  | CallMarkFailed operation_id
  | CallApplyBatch state_batch
  | CallApplyReconciliation reconcile_plan
  | CallReleaseSelected operation_id
  | CallRelease operation_id operation_phase
  | CallComplete operation_id operation_phase

text \<open>A reply keeps the value of a call; the outpoints it lists are compared as a set.\<close>

datatype store_reply =
    Finished
  | Recorded operation_intent
  | Outpoints "outpoint set"
  | MaybeOutpoints "outpoint set option"

definition replies :: "('a \<Rightarrow> store_reply) \<Rightarrow> ('s, 'a) command \<Rightarrow> ('s, store_reply) command" where
  "replies f m s = (res_map f (fst (m s)), snd (m s))"

fun run_call :: "'s state_store \<Rightarrow> store_call \<Rightarrow> ('s, store_reply) command" where
  "run_call ops (CallPutAccount a) = replies (\<lambda>_. Finished) (put_account ops a)"
| "run_call ops (CallPutScope sc) = replies (\<lambda>_. Finished) (put_scope ops sc)"
| "run_call ops (CallPutUtxo u) = replies (\<lambda>_. Finished) (put_utxo ops u)"
| "run_call ops (CallAdvanceTick d) = replies (\<lambda>_. Finished) (advance_tick ops d)"
| "run_call ops (CallPersistIntent sel) = replies Recorded (persist_intent ops sel)"
| "run_call ops (CallMarkCommitted i) = replies (\<lambda>_. Finished) (mark_intent_committed ops i)"
| "run_call ops (CallMarkFailed i) = replies (\<lambda>_. Finished) (mark_intent_failed ops i)"
| "run_call ops (CallApplyBatch b) = replies (\<lambda>_. Finished) (apply_batch ops b)"
| "run_call ops (CallApplyReconciliation plan) = replies (\<lambda>_. Finished) (apply_reconciliation ops plan)"
| "run_call ops (CallReleaseSelected i) =
     replies (\<lambda>ps. MaybeOutpoints (map_option set ps)) (release_selected_operation ops i)"
| "run_call ops (CallRelease i ph) = replies (\<lambda>ps. Outpoints (set ps)) (release_operation ops i ph)"
| "run_call ops (CallComplete i ph) = replies (\<lambda>ps. Outpoints (set ps)) (complete_operation ops i ph)"

fun run_calls :: "'s state_store \<Rightarrow> store_call list \<Rightarrow> 's \<Rightarrow> store_reply result list \<times> 's" where
  "run_calls ops [] s = ([], s)"
| "run_calls ops (call # calls) s =
     (case run_call ops call s of
        (r, s1) \<Rightarrow> (case run_calls ops calls s1 of (rs, s2) \<Rightarrow> (r # rs, s2)))"

text \<open>The registration of accounts and scopes, whose effect on the list of an account's scopes the contract leaves to
  the backend (the theory \<open>Registration\<close> has what each makes of it).\<close>

fun registers :: "store_call \<Rightarrow> bool" where
  "registers (CallPutAccount a) = True"
| "registers (CallPutScope sc) = True"
| "registers call = False"

fun ledger_call :: "store_call \<Rightarrow> (ledger, store_reply) command" where
  "ledger_call (CallPutUtxo u) = replies (\<lambda>_. Finished) (ledger_put_utxo u)"
| "ledger_call (CallAdvanceTick d) = replies (\<lambda>_. Finished) (ledger_advance_tick d)"
| "ledger_call (CallPersistIntent sel) = replies Recorded (ledger_persist_intent sel)"
| "ledger_call (CallMarkCommitted i) = replies (\<lambda>_. Finished) (ledger_mark_committed i)"
| "ledger_call (CallMarkFailed i) = replies (\<lambda>_. Finished) (ledger_mark_failed i)"
| "ledger_call (CallApplyBatch b) = replies (\<lambda>_. Finished) (ledger_apply_batch b)"
| "ledger_call (CallApplyReconciliation plan) = replies (\<lambda>_. Finished) (ledger_apply_reconciliation plan)"
| "ledger_call (CallReleaseSelected i) = replies MaybeOutpoints (ledger_release_selected i)"
| "ledger_call (CallRelease i ph) = replies Outpoints (ledger_release i ph)"
| "ledger_call (CallComplete i ph) = replies Outpoints (ledger_complete i ph)"
| "ledger_call call = replies (\<lambda>_. Finished) (cmd_return ())"

definition storage_failed :: "store_reply result list \<Rightarrow> bool" where
  "storage_failed rs \<longleftrightarrow> (\<exists>m. Inl (Storage m) \<in> set rs)"

lemma implements_replies:
  assumes "implements sinv lof view m spec"
  shows "implements sinv lof id (replies (\<lambda>x. f (view x)) m) (replies f spec)"
  unfolding implements_def
proof (intro allI impI)
  fix s r s'
  assume s: "sinv s" and run: "replies (\<lambda>x. f (view x)) m s = (r, s')"
  obtain r0 where m: "m s = (r0, s')" and r: "r = res_map (\<lambda>x. f (view x)) r0"
    using run by (cases "m s") (auto simp: replies_def)
  note law = implementsD [OF assms s m]
  have "res_map f (res_map view r0) = r" by (cases r0) (simp_all add: r)
  moreover have "(\<exists>msg. r0 = Inl (Storage msg)) \<Longrightarrow> \<exists>msg. r = Inl (Storage msg)" by (auto simp: r)
  ultimately show "sinv s' \<and> ((res_map id r, lof s') = replies f spec (lof s) \<or>
      (\<exists>msg. r = Inl (Storage msg)) \<and> lof s' = lof s)"
    using law by (cases "spec (lof s)"; cases r) (auto simp: replies_def)
qed

context state_store_contract
begin

lemma run_call_implements:
  "\<not> registers call \<Longrightarrow> implements sinv ledger_of id (run_call ops call) (ledger_call call)"
  using implements_replies [OF put_utxo_law] implements_replies [OF advance_tick_law]
    implements_replies [OF persist_intent_law] implements_replies [OF mark_committed_law]
    implements_replies [OF mark_failed_law] implements_replies [OF apply_batch_law]
    implements_replies [OF apply_reconciliation_law] implements_replies [OF release_selected_law]
    implements_replies [OF release_law] implements_replies [OF complete_law]
  by (cases call) simp_all

lemma run_call_inv: "sinv s \<Longrightarrow> run_call ops call s = (r, s') \<Longrightarrow> sinv s'"
proof (cases "registers call")
  case True
  assume s: "sinv s" and run: "run_call ops call s = (r, s')"
  show ?thesis
    using True run put_account_law [OF s prod.collapse [symmetric]] put_scope_law [OF s prod.collapse [symmetric]]
    by (cases call) (auto simp: replies_def)
next
  case False
  assume "sinv s" and "run_call ops call s = (r, s')"
  with run_call_implements [OF False] show ?thesis by (rule implementsD(1))
qed

lemma run_calls_inv: "sinv s \<Longrightarrow> run_calls ops calls s = (rs, s') \<Longrightarrow> sinv s'"
  by (induction calls arbitrary: s rs) (auto split: prod.splits dest: run_call_inv)

end

text \<open>Two backends in step.\<close>

lemma contracts_agree:
  assumes A: "state_store_contract opsA invA lofA" and B: "state_store_contract opsB invB lofB"
    and "\<forall>call\<in>set calls. \<not> registers call"
    and "invA s" and "invB t" and "lofA s = lofB t"
    and "run_calls opsA calls s = (rs, s')" and "run_calls opsB calls t = (ts, t')"
    and "\<not> storage_failed rs" and "\<not> storage_failed ts"
  shows "rs = ts \<and> lofA s' = lofB t'"
  using assms(3-)
proof (induction calls arbitrary: s t rs ts)
  case Nil
  then show ?case by simp
next
  case (Cons call calls)
  obtain r s1 rs1 where a: "run_call opsA call s = (r, s1)" "run_calls opsA calls s1 = (rs1, s')" "rs = r # rs1"
    using Cons.prems(5) by (auto split: prod.splits)
  obtain q t1 ts1 where b: "run_call opsB call t = (q, t1)" "run_calls opsB calls t1 = (ts1, t')" "ts = q # ts1"
    using Cons.prems(6) by (auto split: prod.splits)
  have call: "\<not> registers call" using Cons.prems(1) by simp
  have ok: "\<nexists>m. r = Inl (Storage m)" "\<nexists>m. q = Inl (Storage m)"
    using Cons.prems(7,8) by (auto simp: storage_failed_def a(3) b(3))
  note la = implementsD [OF state_store_contract.run_call_implements [OF A call] Cons.prems(2) a(1)]
  note lb = implementsD [OF state_store_contract.run_call_implements [OF B call] Cons.prems(3) b(1)]
  have id: "res_map id x = x" for x :: "store_reply result" by (cases x) simp_all
  have "(r, lofA s1) = (q, lofB t1)" using la(2) lb(2) ok Cons.prems(4) by (simp add: id)
  moreover have "rs1 = ts1 \<and> lofA s' = lofB t'"
    by (rule Cons.IH [OF _ la(1) lb(1) _ a(2) b(2)])
      (use Cons.prems(1,7,8) \<open>(r, lofA s1) = (q, lofB t1)\<close> in \<open>auto simp: storage_failed_def a(3) b(3)\<close>)
  ultimately show ?case by (simp add: a(3) b(3))
qed

end
