(* ===== verification/Registration.thy ===== *)
theory Registration
  imports Store_Calls
begin

text \<open>
  Registering accounts and scopes. The contract of the backends leaves open which scopes an account lists;
  here is what each backend makes of it, as operations of the ledger: the memory backend keeps the list it is
  given and appends to it, the SQLite backend lists the scopes of an account from its table of scopes, by
  priority and then by id. The two agree until an account is registered again.
\<close>

section \<open>The memory backend\<close>

definition ledger_put_account :: "account \<Rightarrow> (ledger, unit) command" where
  "ledger_put_account a L = (Inr (), bump_tick (L\<lparr>lg_accounts := (lg_accounts L)(ac_id a \<mapsto> a)\<rparr>))"

definition ledger_put_scope :: "wallet_scope \<Rightarrow> (ledger, unit) command" where
  "ledger_put_scope sc L =
     (case lg_accounts L (ws_account_id sc) of
        None \<Rightarrow> (Inl (AccountNotFound (ws_account_id sc)), L)
      | Some a \<Rightarrow> (Inr (), bump_tick (L\<lparr>
          lg_accounts := (lg_accounts L)(ws_account_id sc \<mapsto> a\<lparr>ac_scopes := ac_scopes a @ [ws_id sc]\<rparr>),
          lg_scopes := (lg_scopes L)(ws_id sc \<mapsto> sc)\<rparr>)))"

lemma mem_put_account_implements:
  "implements mem_inv mem_ledger id (mem_put_account a) (ledger_put_account a)"
proof -
  have "mem_inv (snd (mem_put_account a s))" if "mem_inv s" for s
    using mem.put_account_law [OF that prod.collapse [symmetric]]
    by (simp add: memory_ops_def)
  then show ?thesis
    by (simp add: implements_def mem_put_account_def ledger_put_account_def next_tick_def bump_tick_def
        mem_ledger_def update_conv')
qed

lemma mem_put_scope_implements:
  "implements mem_inv mem_ledger id (mem_put_scope sc) (ledger_put_scope sc)"
proof -
  have "mem_inv (snd (mem_put_scope sc s))" if "mem_inv s" for s
    using mem.put_scope_law [OF that prod.collapse [symmetric]]
    by (simp add: memory_ops_def)
  then have inv: "mem_put_scope sc s = (r, s') \<Longrightarrow> mem_inv s \<Longrightarrow> mem_inv s'" for s r s'
    by (metis snd_conv)
  have run: "(fst (mem_put_scope sc s), mem_ledger (snd (mem_put_scope sc s))) = ledger_put_scope sc (mem_ledger s)" for s
    by (simp add: mem_put_scope_def ledger_put_scope_def next_tick_def bump_tick_def mem_ledger_def update_conv'
        split: option.split)
  have id: "res_map id r = r" for r :: "unit result" by (cases r) simp_all
  show ?thesis
    unfolding implements_def using inv run by (metis fst_conv id snd_conv)
qed

lemma mem_registration_reliable:
  "no_storage_error (fst (mem_put_account a s))" "no_storage_error (fst (mem_put_scope sc s))"
  "no_storage_error (fst (mem_put_utxo u s))"
  by (simp_all add: mem_put_account_def mem_put_scope_def mem_put_utxo_def no_storage_error_def split: option.split)

section \<open>The SQLite backend\<close>

text \<open>The scopes of an account, by priority and then by id.\<close>

definition account_scope_order :: "ledger \<Rightarrow> account_id \<Rightarrow> wallet_scope_id list" where
  "account_scope_order L i =
     map snd (sorted_list_of_set
       ((\<lambda>sc. (ws_priority sc, ws_id sc)) ` {sc \<in> ran (lg_scopes L). ws_account_id sc = i}))"

definition relisted :: "ledger \<Rightarrow> ledger" where
  "relisted L = L\<lparr>lg_accounts := \<lambda>i. map_option (\<lambda>a. a\<lparr>ac_scopes := account_scope_order L i\<rparr>) (lg_accounts L i)\<rparr>"

definition ledger_list_account :: "account \<Rightarrow> (ledger, unit) command" where
  "ledger_list_account a L = (Inr (), bump_tick (relisted (L\<lparr>lg_accounts := (lg_accounts L)(ac_id a \<mapsto> a)\<rparr>)))"

definition ledger_list_scope :: "wallet_scope \<Rightarrow> (ledger, unit) command" where
  "ledger_list_scope sc L =
     (if lg_accounts L (ws_account_id sc) = None then (Inl (AccountNotFound (ws_account_id sc)), L)
      else (Inr (), bump_tick (relisted (L\<lparr>lg_scopes := (lg_scopes L)(ws_id sc \<mapsto> sc)\<rparr>))))"

text \<open>The order the query for the scopes of an account asks for is that of the scopes.\<close>

lemma sql_value_less [simp]:
  "SqlInteger i < SqlInteger j \<longleftrightarrow> i < j" "SqlText s < SqlText t \<longleftrightarrow> s < t"
  by (simp_all add: less_le)

lemma get_u32_cell: "get_u32 r c = Inr w \<Longrightarrow> r c = SqlInteger (uint w)"
  by (auto simp: get_u32_def unsigned_of_sql_def uint_word_of_int_eq take_bit_int_eq_self
      split: sql_value.splits if_splits)

lemma scope_row_order:
  assumes "scope_from_row r = Inr x" and "scope_from_row q = Inr y"
  shows "map r [''priority'', ''scope_id''] \<le> map q [''priority'', ''scope_id''] \<longleftrightarrow>
    (ws_priority x, ws_id x) \<le> (ws_priority y, ws_id y)"
proof -
  have cells: "r ''priority'' = SqlInteger (uint (ws_priority x)) \<and> r ''scope_id'' = SqlText (wallet_scope_id_str (ws_id x))"
    if "scope_from_row r = Inr x" for r x
  proof -
    have "get_u32 r ''priority'' = Inr (ws_priority x)"
      using that by (auto simp: scope_from_row_def res_bind_eq_Inr)
    with get_u32_cell scope_row_key [OF that] show ?thesis by blast
  qed
  show ?thesis
    using cells [OF assms(1)] cells [OF assms(2)]
    by (auto simp: less_eq_wallet_scope_id_def word_less_def word_le_def simp flip: word_uint_eq_iff)
qed

lemma stored_scope_order:
  assumes "db_ok E c"
  shows "account_scope_order (sql_ledger E c) i = scope_ids c i"
proof -
  let ?P = "meets (''account_id'', SqlText (account_id_str i))"
  let ?rows = "sort_key (\<lambda>r. map r [''priority'', ''scope_id'']) (filter ?P (table_rows c ''scopes''))"
  let ?sc = "\<lambda>r. projr (scope_from_row r)" and ?rank = "\<lambda>sc. (ws_priority sc, ws_id sc)"
  note ok = db_okD(5) [OF assms]
  have read: "scope_from_row r = Inr (?sc r)" if "r \<in> set ?rows" for r
    using table_okD [OF ok, of r] that by auto
  have own: "?P r \<longleftrightarrow> ws_account_id sc = i" if "scope_from_row r = Inr sc" for r sc
    using that account_id.expand [of "ws_account_id sc" i]
    by (auto simp: scope_from_row_def res_bind_eq_Inr get_text_def meets_def split: sql_value.splits)
  have "sorted (map (\<lambda>r. map r [''priority'', ''scope_id'']) ?rows)" by (rule sorted_sort_key)
  then have "sorted (map (\<lambda>r. ?rank (?sc r)) ?rows)"
    unfolding sorted_map by (rule sorted_wrt_mono_rel [rotated]) (use scope_row_order read in blast)
  moreover have "distinct (map (\<lambda>r. ?rank (?sc r)) ?rows)"
  proof -
    have "distinct (map (\<lambda>r. ws_id (?sc r)) (filter ?P (table_rows c ''scopes'')))"
      using ok by (simp add: table_ok_iff distinct_map_filter)
    then have "distinct (map (\<lambda>r. ws_id (?sc r)) ?rows)" by (simp add: distinct_map)
    then show ?thesis by (auto simp: distinct_map inj_on_def)
  qed
  moreover have "set (map (\<lambda>r. ?rank (?sc r)) ?rows) =
      ?rank ` {sc \<in> ran (lg_scopes (sql_ledger E c)). ws_account_id sc = i}"
    using own table_okD [OF ok] by (fastforce simp: sql_ledger_def table_map_ran [OF ok] image_iff)
  ultimately have order: "sorted_list_of_set (?rank ` {sc \<in> ran (lg_scopes (sql_ledger E c)). ws_account_id sc = i}) =
      map (\<lambda>r. ?rank (?sc r)) ?rows"
    using sorted_list_of_set.idem_if_sorted_distinct [of "map (\<lambda>r. ?rank (?sc r)) ?rows"] by simp
  have id: "res_map WalletScopeId (get_text r ''scope_id'') = Inr (ws_id (?sc r))" if "r \<in> set ?rows" for r
    using scope_row_key [OF read [OF that]] by (simp add: get_text_def)
  have "res_collect (\<lambda>r. res_map WalletScopeId (get_text r ''scope_id'')) ?rows = Inr (map (\<lambda>r. ws_id (?sc r)) ?rows)"
    by (rule res_collect_pure) (use id in blast)
  then show ?thesis by (simp add: account_scope_order_def order scope_ids_def table_values_of_def)
qed

lemma put_account_does:
  "statement_does E (Inr (InsertOrReplace ''accounts'' (account_row a)))
     (\<lambda>L. relisted (L\<lparr>lg_accounts := (lg_accounts L)(ac_id a \<mapsto> a)\<rparr>))"
  unfolding statement_does_def
proof (intro conjI allI impI)
  fix s c n c'
  assume s: "Inr (InsertOrReplace ''accounts'' (account_row a)) = (Inr s :: sql_error + sql_statement)" and ok: "db_ok E c"
    and "sql_run s c = Some (n, c')"
  then have run: "sql_run (InsertOrReplace ''accounts'' (account_row a)) c = Some (n, c')" by simp
  show ok': "db_ok E c'" by (rule replace_account_rows(1) [OF ok run])
  note eff = replace_row [OF key_columns(1) db_okD(4) [OF ok] db_okD(1) [OF ok] declared_tables(2)
      run account_row_roundtrip [of a], simplified]
  note other = other_tables [OF eff(2)]
  have order: "account_scope_order (L\<lparr>lg_accounts := m\<rparr>) = account_scope_order L" for L m
    by (simp add: account_scope_order_def fun_eq_iff)
  show "sql_ledger E c' = relisted ((sql_ledger E c)\<lparr>lg_accounts := (lg_accounts (sql_ledger E c))(ac_id a \<mapsto> a)\<rparr>)"
    unfolding relisted_def order stored_scope_order [OF ok]
    using eff(4) by (auto simp: sql_ledger_def other fun_eq_iff option.map_comp comp_def)
qed simp

lemma put_scope_does:
  "statement_does E (Inr (InsertOrReplace ''scopes'' (scope_row sc)))
     (\<lambda>L. relisted (L\<lparr>lg_scopes := (lg_scopes L)(ws_id sc \<mapsto> sc)\<rparr>))"
  unfolding statement_does_def
proof (intro conjI allI impI)
  fix s c n c'
  assume s: "Inr (InsertOrReplace ''scopes'' (scope_row sc)) = (Inr s :: sql_error + sql_statement)" and ok: "db_ok E c"
    and "sql_run s c = Some (n, c')"
  then have run: "sql_run (InsertOrReplace ''scopes'' (scope_row sc)) c = Some (n, c')" by simp
  show ok': "db_ok E c'" by (rule replace_scope_rows(1) [OF ok run])
  note eff = replace_row [OF key_columns(2) db_okD(5) [OF ok] db_okD(1) [OF ok] declared_tables(7)
      run scope_row_roundtrip [of sc], simplified]
  note other = other_tables [OF eff(2)]
  have scopes: "lg_scopes (sql_ledger E c') = (lg_scopes (sql_ledger E c))(ws_id sc \<mapsto> sc)"
    using eff(4) by (simp add: sql_ledger_def)
  have order: "account_scope_order ((sql_ledger E c)\<lparr>lg_scopes := (lg_scopes (sql_ledger E c))(ws_id sc \<mapsto> sc)\<rparr>) =
      scope_ids c'"
    using stored_scope_order [OF ok'] by (simp add: account_scope_order_def scopes fun_eq_iff del: fun_upd_apply)
  show "sql_ledger E c' = relisted ((sql_ledger E c)\<lparr>lg_scopes := (lg_scopes (sql_ledger E c))(ws_id sc \<mapsto> sc)\<rparr>)"
    unfolding relisted_def order
    using eff(4) by (simp add: sql_ledger_def other fun_eq_iff option.map_comp comp_def)
qed simp

context sqlite_engine
begin

lemma put_account_implements: "implements at_rest stored id (sqlite_put_account E a) (ledger_list_account a)"
  unfolding sqlite_put_account_def
proof (rule transaction_implements)
  show "does (cmd_bind (run_statement E (Inr (InsertOrReplace ''accounts'' (account_row a)))) (\<lambda>_.
      cmd_bind (next_tick_tx E) (\<lambda>_. commit_with ())))
    (cmd_bind (\<lambda>L. (Inr (), relisted (L\<lparr>lg_accounts := (lg_accounts L)(ac_id a \<mapsto> a)\<rparr>)))
      (\<lambda>_. cmd_bind tick_once (\<lambda>_. commit_with ())))"
    by (intro does_steps statement_does_tx [OF put_account_does])
qed (auto simp: cmd_bind_def tick_once_def ledger_list_account_def ledger_wf_def relisted_def bump_tick_def)

lemma account_present:
  "tx_reads E content (query_optional E (select_where [] ''accounts'' ''account_id'' (SqlText (account_id_str i)))
     (\<lambda>_. Inr ())) (\<lambda>L. Inr (map_option (\<lambda>_. ()) (lg_accounts L i)))"
  unfolding tx_reads_def
proof (intro allI impI)
  fix db
  assume "db_ok E (content db)"
  from query_key [OF db_okD(4) [OF this] key_columns(1), where k = i and f' = "\<lambda>_. Inr ()" and h = "\<lambda>_. ()"
      and columns = "[]"]
  show "query_optional E (select_where [] ''accounts'' ''account_id'' (SqlText (account_id_str i))) (\<lambda>_. Inr ()) db =
      Inr (map_option (\<lambda>_. ()) (lg_accounts (sql_ledger E (content db)) i)) \<or>
    (\<exists>msg. query_optional E (select_where [] ''accounts'' ''account_id'' (SqlText (account_id_str i))) (\<lambda>_. Inr ()) db =
      Inl (Storage msg))"
    by (simp add: sql_ledger_def option.map_comp comp_def)
qed

lemma put_scope_implements: "implements at_rest stored id (sqlite_put_scope E sc) (ledger_list_scope sc)"
  unfolding sqlite_put_scope_def
proof (rule transaction_implements)
  show "does (cmd_bind (cmd_read (query_optional E
        (select_where [] ''accounts'' ''account_id'' (SqlText (account_id_str (ws_account_id sc)))) (\<lambda>_. Inr ()))) (\<lambda>exists.
      if exists = None then cmd_fail (AccountNotFound (ws_account_id sc))
      else cmd_bind (run_statement E (Inr (InsertOrReplace ''scopes'' (scope_row sc)))) (\<lambda>_.
        cmd_bind (next_tick_tx E) (\<lambda>_. commit_with ()))))
    (cmd_bind (cmd_read (\<lambda>L. Inr (map_option (\<lambda>_. ()) (lg_accounts L (ws_account_id sc))))) (\<lambda>exists.
      if exists = None then cmd_fail (AccountNotFound (ws_account_id sc))
      else cmd_bind (\<lambda>L. (Inr (), relisted (L\<lparr>lg_scopes := (lg_scopes L)(ws_id sc \<mapsto> sc)\<rparr>)))
        (\<lambda>_. cmd_bind tick_once (\<lambda>_. commit_with ()))))"
    by (intro does_steps tx_does_read [OF account_present] statement_does_tx [OF put_scope_does])
qed (auto simp: cmd_bind_def tick_once_def ledger_list_scope_def ledger_wf_def relisted_def bump_tick_def)

end

text \<open>Registering an account again: memory takes the scope list it is given, SQLite keeps the scopes.\<close>

theorem reregistered_account_differs:
  assumes "sqlite_engine E content committed open_tx" and "sql_inv E content committed open_tx db"
    and "mem_ledger s = sql_ledger E (content db)" and "lg_accounts (mem_ledger s) (ac_id a) = Some b"
    and "sqlite_put_account E a db = (Inr (), db')"
  shows "lg_accounts (mem_ledger (snd (mem_put_account a s))) (ac_id a) = Some a"
    and "lg_accounts (sql_ledger E (content db')) (ac_id a) = Some (a\<lparr>ac_scopes := ac_scopes b\<rparr>)"
proof -
  show "lg_accounts (mem_ledger (snd (mem_put_account a s))) (ac_id a) = Some a"
    by (simp add: mem_put_account_def next_tick_def mem_ledger_def update_conv')
  let ?L = "sql_ledger E (content db)"
  have ok: "db_ok E (content db)" using assms(2) unfolding sql_inv_def by blast
  have "sql_ledger E (content db') = snd (ledger_list_account a ?L)"
    using implements_Inr(2) [OF sqlite_engine.put_account_implements [OF assms(1)] assms(2,5)] by (metis snd_conv)
  moreover have "ac_scopes b = scope_ids (content db) (ac_id a)"
    using assms(3,4) by (auto simp: sql_ledger_def)
  moreover have "account_scope_order (?L\<lparr>lg_accounts := m\<rparr>) i = scope_ids (content db) i" for m i
    using stored_scope_order [OF ok, of i] by (simp add: account_scope_order_def)
  ultimately show "lg_accounts (sql_ledger E (content db')) (ac_id a) = Some (a\<lparr>ac_scopes := ac_scopes b\<rparr>)"
    by (simp add: ledger_list_account_def relisted_def bump_tick_def)
qed

end
