(* ===== verification/Memory_Service.thy ===== *)
theory Memory_Service
  imports Demo Asset_Outcomes Registration
begin

text \<open>
  The contracts instantiated: what the lemmas of the backend interface say of the service over the
  memory backend, read through the ledger of a reachable state.
\<close>

section \<open>Calls of a reachable service\<close>

lemma service_steps_trans:
  "service_steps ops dp sv1 sv2 \<Longrightarrow> service_steps ops dp sv2 sv3 \<Longrightarrow> service_steps ops dp sv1 sv3"
  by (rotate_tac, induction rule: service_steps_over.induct) (auto intro: steps_more)

lemma view_store: "mem_ledger (orch_store (sv_orchestrator sv)) = ledger_view sv"
  by (simp add: view_orch orch_ledger_def)

text \<open>A prepared operation under a fresh id: the proposal behind it, and what it holds.\<close>

lemma prepared:
  assumes "reachable hu ho hi dp sv" and "on_orchestrator (prepare_operation (memory_ops hu ho hi) req) sv = (Inr sel, sv')"
    and "lg_intents (ledger_view sv) (or_operation_id (into_operation_request req)) = None"
  shows "propose_operation (memory_ops hu ho hi) (orch_store (sv_orchestrator sv)) req = Inr sel"
    and "holds_selection (ledger_view sv') sel"
proof -
  have run: "prepare_operation (memory_ops hu ho hi) req (sv_orchestrator sv) = (Inr sel, sv_orchestrator sv')"
    using assms(2) by (auto elim: on_orchestrator_run)
  then obtain mid where pending:
    "prepare_pending_operation (memory_ops hu ho hi) req (sv_orchestrator sv) = (Inr sel, mid)"
    by (auto simp: prepare_operation_def cmd_bind_eq)
  note ok = reachable_orch [OF assms(1)] and fresh = assms(3) [unfolded view_orch]
  show "propose_operation (memory_ops hu ho hi) (orch_store (sv_orchestrator sv)) req = Inr sel"
    by (rule mem.prepare_pending_Inr(5) [OF ok pending fresh])
  show "holds_selection (ledger_view sv') sel"
    using mem.prepare_Inr(1) [OF ok run fresh] by (simp add: view_orch)
qed

text \<open>A prepared operation whose id has a committed intent already: nothing is reserved for it.\<close>

context state_store_contract
begin

lemma prepare_settled:
  assumes ok: "ook orch" and run: "prepare_operation ops req orch = (Inr sel, orch')"
    and settled: "lg_intents (olg orch) (or_operation_id (into_operation_request req)) = Some n" "oi_status n = Committed"
  shows "olg orch' = olg orch" and "oi_selection n = sel"
    and "propose_operation ops (orch_store orch) req = Inr sel"
proof -
  obtain mid u where pending: "prepare_pending_operation ops req orch = (Inr sel, mid)"
    and commit: "commit_recorded_intent ops (os_operation_id sel) mid = (Inr u, orch')"
    using run by (auto simp: prepare_operation_def cmd_bind_eq)
  note s = orch_ok_parts(1) [OF ok]
  obtain m where propose: "propose_operation ops (orch_store orch) req = Inr sel"
    and persist: "on_store (persist_intent ops sel) orch = (Inr m, mid)"
    using pending
    by (auto simp: prepare_pending_operation_def from_store_def persist_selection_intent_def
        cmd_bind_eq split: sum.splits)
  show "propose_operation ops (orch_store orch) req = Inr sel" by (rule propose)
  have i: "lg_intents (olg orch) (os_operation_id sel) = Some n"
    using settled(1) propose_operation_id [OF propose] by simp
  have "ledger_persist_intent sel (olg orch) = (Inr m, olg mid)"
    using on_store_Inr [OF persist_intent_law s persist] by simp
  then have n: "oi_selection n = sel" and mid: "olg mid = olg orch"
    using i by (auto simp: ledger_persist_intent_def split: if_splits)
  show "oi_selection n = sel" by (rule n)
  have "ook mid" using safe_runD [OF safe_prepare_pending ok pending] by simp
  then show "olg orch' = olg orch"
    using commit
  proof (cases rule: commit_recorded_Inr)
    case (already k)
    with mid show ?thesis by simp
  next
    case (committed k M)
    with i mid settled(2) show ?thesis by simp
  qed
qed

end

text \<open>A reconciliation of a reachable service: the plan it applies to its ledger, at a later tick.\<close>

lemma reconcile_view:
  assumes "reachable hu ho hi dp sv"
    and "reconcile_snapshot (memory_ops hu ho hi) sn sv = (Inr summary, sv')"
  obtains us t where "lists_utxos us (ledger_view sv)" and "ledger_ok ((ledger_view sv)\<lparr>lg_tick := t\<rparr>)"
    and "lists_utxos us ((ledger_view sv)\<lparr>lg_tick := t\<rparr>)"
    and "ledger_apply_reconciliation \<lparr>rp_actions = plan_actions us sn\<rparr> ((ledger_view sv)\<lparr>lg_tick := t\<rparr>) =
      (Inr (), ledger_view sv')"
    and "rc_actions_applied summary = length (plan_actions us sn)"
  by (rule mem.service_reconcile_run [OF reachable_ok [OF assms(1)] assms(2)])
    (rule that, auto simp: ledger_view_def lists_utxos_def)

lemma reconcile_succeeds:
  "\<exists>summary sv'. reconcile_snapshot (memory_ops hu ho hi) sn sv = (Inr summary, sv')"
  by (simp add: reconcile_snapshot_def on_orchestrator_def orch_advance_tick_def orch_reconcile_snapshot_def
      orch_current_tick_def plan_reconciliation_def on_store_def from_store_def cmd_bind_apply
      mem_advance_tick_def mem_list_utxos_def mem_apply_reconciliation_def mem_current_tick_def)

text \<open>The service's query: an output is selectable when nothing stands in the way of a selection.\<close>

lemma selectable_query:
  assumes "reachable hu ho hi dp sv"
  shows "is_outpoint_selectable (memory_ops hu ho hi) p sv =
    (Inr (is_some_and (lg_utxos (ledger_view sv) p) is_policy_spendable), sv)"
  using spendable_unlocked [OF reachable_ledger(3) [OF assms], of p]
  by (cases "lg_utxos (ledger_view sv) p")
    (auto simp: is_outpoint_selectable_def on_orchestrator_def orch_is_outpoint_selectable_def from_store_def
      read_utxo_status_def mem_get_utxo_def mem_get_lock_def ledger_view_def service_ledger_def
      orch_ledger_def mem_ledger_def by_outpoint_def status_selectable_iff)

lemma unat_reservation_expiry:
  "unat (reservation_expiry now ttl) =
     min (unat now + max 1 (min (unat ttl) (7 * 24 * 60 * 60))) (2 ^ 64 - 1)"
proof -
  have "unat (clamp_word 1 (7 * 24 * 60 * 60) ttl) = max 1 (min (unat ttl) (7 * 24 * 60 * 60))"
    by (auto simp: clamp_word_def word_less_nat_alt)
  then show ?thesis by (simp add: reservation_expiry_def unat_sat_add)
qed

lemma next_reservation_run:
  "next_manual_reservation dp ttl sv = (Inr (i, t), sv') \<Longrightarrow>
    i = dp_generate dp (sv_ids_generated sv) (dp_now dp (sv_clock_reads sv)) \<and>
    t = reservation_expiry (dp_now dp (sv_clock_reads sv)) ttl \<and> sv_orchestrator sv' = sv_orchestrator sv"
  by (auto simp: next_manual_reservation_def cmd_bind_apply now_utc_unix_secs_def generate_id_def)

section \<open>Refinement\<close>

text \<open>A command of the memory backend that does to its ledger what an operation of the ledger does.\<close>

definition refines :: "('a \<Rightarrow> 'b) \<Rightarrow> (memory_store, 'a) command \<Rightarrow> (ledger, 'b) command \<Rightarrow> bool" where
  "refines view m spec \<longleftrightarrow>
     (\<forall>s. mem_inv s \<longrightarrow> mem_inv (snd (m s)) \<and>
        (res_map view (fst (m s)), mem_ledger (snd (m s))) = spec (mem_ledger s))"

lemma implements_refines:
  assumes "implements mem_inv mem_ledger view m spec"
    and "\<And>s. mem_inv s \<Longrightarrow> no_storage_error (fst (m s))"
  shows "refines view m spec"
  unfolding refines_def
proof (intro allI impI)
  fix s
  assume s: "mem_inv s"
  obtain r s' where run: "m s = (r, s')" by fastforce
  from assms(1) s run assms(2) [OF s]
  show "mem_inv (snd (m s)) \<and> (res_map view (fst (m s)), mem_ledger (snd (m s))) = spec (mem_ledger s)"
    unfolding implements_def no_storage_error_def by fastforce
qed

end
