(* ===== verification/Selection_Properties.thy ===== *)
theory Selection_Properties
  imports Memory_Service
begin

text \<open>
  Properties of selecting and reserving inputs through the service: sends, first-available and manual
  reservations, explicit and asset selections, and the status view.
\<close>

section \<open>Selecting inputs\<close>

text \<open>C15: preparing a bitcoin send under a fresh operation id (one no intent is recorded for) reserves distinct
  outputs the request may take that are worth the amount; it takes the smallest first, so no output left out is
  smaller than one taken, and without the last one the rest would fall short.\<close>

theorem send_covers_amount:
  assumes "reachable hu ho hi dp sv"
    and "on_orchestrator (prepare_operation (memory_ops hu ho hi) (BtcSendReq req)) sv = (Inr sel, sv')"
    and "lg_intents (ledger_view sv) (bs_operation_id req) = None"
  shows "holds_selection (ledger_view sv') sel \<and> distinct (os_selected_outpoints sel) \<and>
    (\<forall>p\<in>set (os_selected_outpoints sel). takeable (ledger_view sv) (requested (BtcSendReq req)) p) \<and>
    unat (bs_amount_sats req) \<le> sum_list (map (ledger_value (ledger_view sv)) (os_selected_outpoints sel)) \<and>
    (1 < length (os_selected_outpoints sel) \<longrightarrow>
      sum_list (map (ledger_value (ledger_view sv)) (butlast (os_selected_outpoints sel))) < unat (bs_amount_sats req)) \<and>
    (\<forall>p\<in>set (os_selected_outpoints sel). \<forall>q. takeable (ledger_view sv) (requested (BtcSendReq req)) q \<longrightarrow>
      q \<notin> set (os_selected_outpoints sel) \<longrightarrow> ledger_value (ledger_view sv) p \<le> ledger_value (ledger_view sv) q)"
proof -
  have "lg_intents (ledger_view sv) (or_operation_id (into_operation_request (BtcSendReq req))) = None"
    using assms(3) by (simp add: operation_request_new_def)
  note prep = prepared [OF assms(1,2) this]
  from mem.propose_amount [OF orch_ok_parts(1) [OF reachable_orch [OF assms(1)]] prep(1)] prep(2)
  show ?thesis unfolding view_store by blast
qed

definition demo_send :: btc_send_request where
  "demo_send = \<lparr>bs_operation_id = demo_id, bs_account_id = demo_account, bs_amount_sats = 2500\<rparr>"

theorem send_covers_amount_witness:
  "\<exists>sel sv'. on_orchestrator (prepare_operation demo_ops (BtcSendReq demo_send)) demo2 = (Inr sel, sv') \<and>
    2500 \<le> sum_list (map (ledger_value (ledger_view demo2)) (os_selected_outpoints sel))"
proof -
  obtain sel sv' where run: "on_orchestrator (prepare_operation demo_ops (BtcSendReq demo_send)) demo2 = (Inr sel, sv')"
    by (simp add: demo_records demo_send_def run_eval List.map_filter_def less_eq_prod_simp)
  have "lg_intents (ledger_view demo2) (bs_operation_id demo_send) = None"
    using demo_lookups(7) by (simp add: demo_send_def)
  from send_covers_amount [OF demo_reached(2) run [unfolded demo_ops_def] this] run show ?thesis
    by (auto simp: demo_send_def)
qed

text \<open>C31: a bitcoin send finds its inputs whenever the account can send and the outputs it may take,
  counted in full, are worth the amount.\<close>

theorem send_finds_funds:
  assumes "reachable hu ho hi dp sv" and "lg_accounts (ledger_view sv) (bs_account_id req) = Some a"
    and "contains_all (ac_capabilities a) {BtcSpend}"
    and "set P = {p. takeable (ledger_view sv) (requested (BtcSendReq req)) p}" and "distinct P" and "P \<noteq> []"
    and "unat (bs_amount_sats req) \<le> sum_list (map (ledger_value (ledger_view sv)) P)"
  shows "\<exists>sel. propose_operation (memory_ops hu ho hi) (orch_store (sv_orchestrator sv)) (BtcSendReq req) = Inr sel"
proof -
  note s = orch_ok_parts(1) [OF reachable_orch [OF assms(1)]]
  obtain sel where
    "propose_operation (memory_ops hu ho hi) (orch_store (sv_orchestrator sv)) (BtcSendReq req) = Inr sel"
    by (rule mem.propose_amount_complete [OF s, unfolded view_store, OF assms(2) _ assms(4-7)])
      (use assms(3) in simp_all)
  then show ?thesis by blast
qed

lemma demo_send_requested:
  "requested (BtcSendReq demo_send) =
     \<lparr>isr_account_id = demo_account, isr_spec = TargetValue 2500, isr_required_capabilities = {BtcSpend}\<rparr>"
  by (simp add: demo_send_def operation_request_new_def)

lemma demo_takeable:
  "{p. takeable (ledger_view demo2) (requested (BtcSendReq demo_send)) p} = {demo_p, demo_q}"
  unfolding demo_send_requested
  by (auto simp: takeable_def demo_views is_policy_spendable_def contains_all_def split: if_splits)

theorem send_finds_funds_witness:
  "\<exists>sel. propose_operation demo_ops (orch_store (sv_orchestrator demo2)) (BtcSendReq demo_send) = Inr sel"
  unfolding demo_ops_def
proof (rule send_finds_funds [OF demo_reached(2), where P = "[demo_p, demo_q]"])
  show "lg_accounts (ledger_view demo2) (bs_account_id demo_send) =
      Some \<lparr>ac_id = demo_account, ac_name = ''n'', ac_scopes = [demo_scope], ac_capabilities = demo_caps\<rparr>"
    by (simp add: demo_views demo_send_def)
  show "set [demo_p, demo_q] = {p. takeable (ledger_view demo2) (requested (BtcSendReq demo_send)) p}"
    unfolding demo_takeable by simp
qed (simp_all add: demo_views demo_send_def contains_all_def ledger_value_def)

text \<open>C32: reserving the first available candidate under a fresh reservation id (one no intent is recorded for)
  takes, of the candidates that are free for the account, the first in the order of their text, whatever order
  the caller gave, and reserves only that one.\<close>

theorem first_available_is_first:
  assumes "reachable hu ho hi dp sv"
    and "on_orchestrator (prepare_operation (memory_ops hu ho hi) (ManualReservationFirstAvailable req)) sv = (Inr sel, sv')"
    and "lg_intents (ledger_view sv) (mf_reservation_id req) = None"
  shows "holds_selection (ledger_view sv') sel \<and> (\<exists>p. os_selected_outpoints sel = [p] \<and>
    p \<in> set (mf_candidate_outpoints req) \<and>
    takeable (ledger_view sv) (requested (ManualReservationFirstAvailable req)) p \<and>
    (\<forall>q\<in>set (mf_candidate_outpoints req).
      takeable (ledger_view sv) (requested (ManualReservationFirstAvailable req)) q \<longrightarrow>
      outpoint_string p \<le> outpoint_string q))"
proof -
  have "lg_intents (ledger_view sv)
      (or_operation_id (into_operation_request (ManualReservationFirstAvailable req))) = None"
    using assms(3) by (simp add: operation_request_new_def)
  note prep = prepared [OF assms(1,2) this]
  show ?thesis
    by (rule mem.propose_first [OF orch_ok_parts(1) [OF reachable_orch [OF assms(1)]] prep(1)])
      (unfold view_store, use prep(2) in blast)
qed

definition demo_first :: manual_reservation_first_available_request where
  "demo_first = \<lparr>mf_reservation_id = demo_id, mf_account_id = demo_account,
     mf_candidate_outpoints = [demo_q, demo_p], mf_expires_at = 900\<rparr>"

lemma demo_text_order:
  "outpoint_string (OutPoint ''t'' 0) \<le> outpoint_string (OutPoint ''t'' 1)"
  "\<not> outpoint_string (OutPoint ''t'' 1) \<le> outpoint_string (OutPoint ''t'' 0)"
  by (simp_all add: outpoint_string_def show_nat.simps digit_char_def less_char_def)

theorem first_available_is_first_witness:
  "\<exists>sel sv'. on_orchestrator (prepare_operation demo_ops (ManualReservationFirstAvailable demo_first)) demo2 =
      (Inr sel, sv') \<and> holds_selection (ledger_view sv') sel"
proof -
  obtain sel sv' where run: "on_orchestrator (prepare_operation demo_ops
      (ManualReservationFirstAvailable demo_first)) demo2 = (Inr sel, sv')"
    by (simp add: demo_records demo_first_def run_eval demo_text_order)
  have "lg_intents (ledger_view demo2) (mf_reservation_id demo_first) = None"
    using demo_lookups(7) by (simp add: demo_first_def)
  from first_available_is_first [OF demo_reached(2) run [unfolded demo_ops_def] this] run show ?thesis by blast
qed

section \<open>Explicit and asset selections\<close>

text \<open>C30: an explicit selection under a fresh operation id reserves exactly the outputs given, which were
  free and in scopes that grant a planned selection, and touches no other output or lock.\<close>

theorem explicit_selection_reserves:
  assumes "reachable hu ho hi dp sv" and "lg_intents (ledger_view sv) (esr_operation_id req) = None"
    and "apply_explicit_selection (memory_ops hu ho hi) req sv = (Inr planned, sv')"
  shows "planned = planned_of_selection (explicit_selection req) \<and>
    holds_selection (ledger_view sv') (explicit_selection req) \<and>
    esr_selected_outpoints req \<noteq> [] \<and> distinct (esr_selected_outpoints req) \<and>
    (\<forall>p\<in>set (esr_selected_outpoints req). input_granted (ledger_view sv) (LockUtxo p PlannedSelectionLock)) \<and>
    (\<forall>p. p \<notin> set (esr_selected_outpoints req) \<longrightarrow>
      lg_utxos (ledger_view sv') p = lg_utxos (ledger_view sv) p \<and>
      lg_locks (ledger_view sv') p = lg_locks (ledger_view sv) p)"
proof -
  let ?sel = "explicit_selection req"
  have checked: "check_explicit_request req = Inr ()" and planned: "planned = planned_of_selection ?sel"
    and run: "apply_selection (memory_ops hu ho hi) ?sel (sv_orchestrator sv) = (Inr (), sv_orchestrator sv')"
    using assms(3)
    by (auto simp: apply_explicit_selection_def on_orchestrator_def from_store_def orch_get_scope_def
        mem_get_scope_def cmd_bind_eq split: prod.splits sum.splits if_splits)
  note applied = mem.apply_Inr [OF reachable_orch [OF assms(1)] run, folded view_orch]
  have "esr_selected_outpoints req \<noteq> [] \<and> distinct (esr_selected_outpoints req)"
    using checked by (auto simp: check_explicit_request_def first_duplicate_None split: if_splits option.splits)
  with applied assms(2) planned show ?thesis by (auto simp: explicit_selection_def)
qed

definition demo_explicit :: explicit_selection_request where
  "demo_explicit = \<lparr>esr_operation_id = OperationId ''e'', esr_selected_outpoints = [demo_q, demo_p],
     esr_change_scope_id = demo_scope, esr_expires_at = Some 50\<rparr>"

theorem explicit_selection_reserves_witness:
  "\<exists>planned sv'. apply_explicit_selection demo_ops demo_explicit demo2 = (Inr planned, sv') \<and>
    holds_selection (ledger_view sv') (explicit_selection demo_explicit)"
proof -
  obtain planned sv' where run: "apply_explicit_selection demo_ops demo_explicit demo2 = (Inr planned, sv')"
    by (simp add: demo_records demo_explicit_def run_eval apply_explicit_selection_def check_explicit_request_def
        explicit_selection_def)
  have "lg_intents (ledger_view demo2) (esr_operation_id demo_explicit) = None" by (simp add: demo_views)
  from explicit_selection_reserves [OF demo_reached(2) this run [unfolded demo_ops_def]] run show ?thesis by blast
qed

text \<open>C16: planning an asset selection under a fresh operation id reserves what its preview chose: distinct
  candidates of the caller, usable for the account once expired reservations are released, whose claimed
  amounts and recorded values cover what was asked, an exact request getting exactly its outputs; inputs
  without assets are locked as fee support and only when that is allowed.\<close>

theorem asset_plan_reserves:
  assumes "reachable hu ho hi dp sv" and "lg_intents (ledger_view sv) (pa_operation_id preq) = None"
    and "plan_asset_selection (memory_ops hu ho hi) dp preq sv = (Inr planned, sv')"
    and "length (ar_candidates (pa_selection preq)) < 2 ^ 64"
  shows "\<exists>ps mid sid. preview_asset_selection (memory_ops hu ho hi) dp (pa_selection preq) sv = (Inr ps, mid) \<and>
    pl_selected_outpoints planned = ps \<and> ps \<noteq> [] \<and> distinct ps \<and>
    holds_selection (ledger_view sv') (asset_selection_of (pa_operation_id preq) (pa_selection preq) ps sid) \<and>
    (\<forall>p\<in>set ps. p \<in> ai_outpoint ` set (ar_candidates (pa_selection preq)) \<and>
      asset_usable (ledger_view mid) (pa_selection preq) p) \<and>
    unat (ar_asset_amount (pa_selection preq)) \<le> sum_list (map (claimed_amount (pa_selection preq)) ps) \<and>
    unat (ar_required_value_sats (pa_selection preq)) \<le> sum_list (map (ledger_value (ledger_view mid)) ps) \<and>
    (\<forall>qs. co_exact_outpoints (ar_constraints (pa_selection preq)) = Some qs \<longrightarrow> ps = qs) \<and>
    (\<forall>p. p \<notin> set ps \<longrightarrow> lg_utxos (ledger_view sv') p = lg_utxos (ledger_view mid) p \<and>
      lg_locks (ledger_view sv') p = lg_locks (ledger_view mid) p)"
proof -
  let ?req = "pa_selection preq"
  note ok = reachable_ok [OF assms(1)]
  obtain ps mid sid where preview: "preview_asset_selection (memory_ops hu ho hi) dp ?req sv = (Inr ps, mid)"
    and run: "apply_selection (memory_ops hu ho hi) (asset_selection_of (pa_operation_id preq) ?req ps sid)
      (sv_orchestrator mid) = (Inr (), sv_orchestrator sv')"
    and planned: "planned = planned_of_selection (asset_selection_of (pa_operation_id preq) ?req ps sid)"
    by (rule mem.plan_assets_run [OF ok assms(3)])
  note mid = mem.preview_run [OF ok preview]
  have orch: "orch_ok mem_inv mem_ledger (sv_orchestrator mid)" using mid(1) by (simp add: service_ok_def)
  have fresh: "lg_intents (ledger_view mid) (pa_operation_id preq) = None"
    using mid(2) assms(2) by (simp add: ledger_view_def same_registry_def)
  note applied = mem.apply_Inr [OF orch run, folded view_orch, unfolded asset_selection_simps, OF fresh]
  note chosen = mem.asset_preview_Inr [OF orch_ok_parts(1) [OF orch] mid(4) assms(4) mid(3), unfolded view_store]
  from preview planned applied chosen show ?thesis
    by (intro exI [of _ ps] exI [of _ mid] exI [of _ sid]) (auto simp: planned_of_selection_def)
qed

definition demo_assets :: plan_asset_selection_request where
  "demo_assets = \<lparr>pa_operation_id = OperationId ''e'', pa_selection =
     \<lparr>ar_target_account_id = demo_account,
      ar_candidates = [\<lparr>ai_outpoint = demo_p, ai_asset_amount = 5\<rparr>, \<lparr>ai_outpoint = demo_q, ai_asset_amount = 0\<rparr>],
      ar_asset_amount = 5, ar_required_value_sats = 2500,
      ar_constraints = \<lparr>co_exact_outpoints = Some [demo_p, demo_q], co_allow_asset_merge = False,
        co_allow_fee_support = True\<rparr>\<rparr>\<rparr>"

lemmas asset_run_eval = plan_asset_selection_def preview_asset_selection_def
  expire_stale_candidate_reservations_def get_active_manual_reservation_def get_manual_reservation_def
  read_manual_reservation_def orch_get_utxo_def asset_selection_of_def read_asset_preview_def
  add_asset_scope_def candidate_error_def fee_input_error_def check_rejections_def status_from_records_def
  asset_eval

lemma demo_assets_run:
  "\<exists>planned sv'. plan_asset_selection demo_ops demo_deps demo_assets demo2 = (Inr planned, sv')"
  by (simp add: demo_records demo_assets_def run_eval asset_run_eval)

theorem asset_plan_reserves_witness:
  "\<exists>planned sv' sid. plan_asset_selection demo_ops demo_deps demo_assets demo2 = (Inr planned, sv') \<and>
    holds_selection (ledger_view sv')
      (asset_selection_of (OperationId ''e'') (pa_selection demo_assets) [demo_p, demo_q] sid)"
proof -
  obtain planned sv' where run: "plan_asset_selection demo_ops demo_deps demo_assets demo2 = (Inr planned, sv')"
    using demo_assets_run by blast
  have "lg_intents (ledger_view demo2) (pa_operation_id demo_assets) = None"
    and "length (ar_candidates (pa_selection demo_assets)) < 2 ^ 64"
    and i: "pa_operation_id demo_assets = OperationId ''e''"
    and exact: "co_exact_outpoints (ar_constraints (pa_selection demo_assets)) = Some [demo_p, demo_q]"
    by (simp_all add: demo_views demo_assets_def)
  from asset_plan_reserves [OF demo_reached(2) this(1) run [unfolded demo_ops_def] this(2)] run i exact
  show ?thesis by metis
qed

section \<open>Manual reservations\<close>

text \<open>C28: a manual reservation whose generated id is fresh lasts between one second and seven days from now,
  saturating instead of wrapping around, and what it reserved is what is read back: the same identifier, output
  and expiry.\<close>

theorem manual_reservation_roundtrip:
  assumes "reachable hu ho hi dp sv" and "reserve_manual_utxo (memory_ops hu ho hi) dp req sv = (Inr m, sv')"
    and "lg_intents (ledger_view sv) (dp_generate dp (sv_ids_generated sv) (dp_now dp (sv_clock_reads sv))) = None"
  shows "mr_reservation_id m = dp_generate dp (sv_ids_generated sv) (dp_now dp (sv_clock_reads sv)) \<and>
    mr_outpoint m = rmr_outpoint req \<and>
    unat (mr_expires_at m) = min (unat (dp_now dp (sv_clock_reads sv)) +
      max 1 (min (unat (rmr_ttl_secs req)) (7 * 24 * 60 * 60))) (2 ^ 64 - 1) \<and>
    get_manual_reservation (memory_ops hu ho hi) (rmr_outpoint req) sv' = (Inr (Some m), sv')"
proof -
  let ?i = "dp_generate dp (sv_ids_generated sv) (dp_now dp (sv_clock_reads sv))"
  let ?t = "reservation_expiry (dp_now dp (sv_clock_reads sv)) (rmr_ttl_secs req)"
  let ?req = "ManualReservationExact \<lparr>mx_reservation_id = ?i, mx_account_id = rmr_target_account_id req,
    mx_outpoint = rmr_outpoint req, mx_expires_at = ?t\<rparr>"
  obtain mid sel where same: "sv_orchestrator mid = sv_orchestrator sv"
    and prep: "on_orchestrator (prepare_operation (memory_ops hu ho hi) ?req) mid = (Inr sel, sv')"
    and m: "manual_reservation_from_selection sel = Inr m"
    using assms(2) by (auto simp: reserve_manual_utxo_def cmd_bind_eq dest!: next_reservation_run)
  have "on_orchestrator (prepare_operation (memory_ops hu ho hi) ?req) sv =
      (Inr sel, sv\<lparr>sv_orchestrator := sv_orchestrator sv'\<rparr>)"
    using prep same by (auto simp: on_orchestrator_def split: prod.splits)
  note prepared = prepared [OF assms(1) this]
  have propose: "propose_operation (memory_ops hu ho hi) (orch_store (sv_orchestrator sv)) ?req = Inr sel"
    and held: "holds_selection (ledger_view sv') sel"
    using prepared assms(3) by (simp_all add: operation_request_new_def view_orch)
  note s = orch_ok_parts(1) [OF reachable_orch [OF assms(1)]]
  have sel: "os_operation_id sel = ?i" "os_selected_outpoints sel = [rmr_outpoint req]" "os_expires_at sel = Some ?t"
    using mem.propose_operation_id [OF propose] mem.propose_Inr(3,4) [OF s propose]
    by (simp_all add: operation_request_new_def)
  have effects: "os_effects sel = [LockUtxo (rmr_outpoint req) ManualReservation]"
    using propose sel(2)
    by (auto simp: propose_operation_def selection_from_request_def operation_request_new_def Let_def
        res_bind_eq_Inr split: if_splits)
  have m': "m = \<lparr>mr_reservation_id = ?i, mr_outpoint = rmr_outpoint req, mr_expires_at = ?t\<rparr>"
    using m sel by (simp add: manual_reservation_from_selection_def)
  have at: "reservation_at (ledger_view sv') (rmr_outpoint req) = Some m"
    using held sel effects by (auto simp: holds_selection_def reservation_at_def is_some_and_iff m')
  have "service_ok mem_inv mem_ledger sv'"
    using safe_runD [OF mem.safe_reserve_manual reachable_ok [OF assms(1)] assms(2)] by simp
  from mem.reliable_get_manual [OF this at [unfolded ledger_view_def]] show ?thesis
    by (simp add: m' unat_reservation_expiry)
qed

definition demo_manual :: reserve_manual_request where
  "demo_manual = \<lparr>rmr_target_account_id = demo_account, rmr_outpoint = demo_p, rmr_ttl_secs = 0\<rparr>"

definition demo_reserved :: manual_reservation where
  "demo_reserved = \<lparr>mr_reservation_id = random_reservation_id ''r'' 100, mr_outpoint = demo_p, mr_expires_at = 101\<rparr>"

lemma demo_reserve: "\<exists>sv'. reserve_manual_utxo demo_ops demo_deps demo_manual demo2 = (Inr demo_reserved, sv')"
  by (simp add: demo_records demo_manual_def demo_reserved_def demo_deps_def run_eval reserve_manual_utxo_def
      next_manual_reservation_def now_utc_unix_secs_def generate_id_def manual_reservation_from_selection_def
      reservation_expiry_def clamp_word_def)

theorem manual_reservation_roundtrip_witness:
  "\<exists>sv'. reserve_manual_utxo demo_ops demo_deps demo_manual demo2 = (Inr demo_reserved, sv') \<and>
    get_manual_reservation demo_ops demo_p sv' = (Inr (Some demo_reserved), sv')"
proof -
  obtain sv' where run: "reserve_manual_utxo demo_ops demo_deps demo_manual demo2 = (Inr demo_reserved, sv')"
    using demo_reserve by blast
  have "lg_intents (ledger_view demo2)
      (dp_generate demo_deps (sv_ids_generated demo2) (dp_now demo_deps (sv_clock_reads demo2))) = None"
    and "rmr_outpoint demo_manual = demo_p"
    by (simp_all add: demo_views demo_manual_def)
  with manual_reservation_roundtrip [OF demo_reached(2) run [unfolded demo_ops_def] this(1)] run
  show ?thesis by (auto simp: demo_ops_def)
qed

text \<open>C29: asking for the active reservation of an output returns the recorded one until its expiry and
  changes nothing; from its expiry on it returns none and has released the reservation, which then owns
  nothing, its outputs being unlocked.\<close>

theorem active_reservation_expires:
  assumes "reachable hu ho hi dp sv" and "get_manual_reservation (memory_ops hu ho hi) p sv = (Inr (Some m), sv)"
  shows "if dp_now dp (sv_clock_reads sv) < mr_expires_at m
    then \<exists>sv'. get_active_manual_reservation (memory_ops hu ho hi) dp p sv = (Inr (Some m), sv') \<and>
      ledger_view sv' = ledger_view sv
    else \<exists>sv'. get_active_manual_reservation (memory_ops hu ho hi) dp p sv = (Inr None, sv') \<and>
      \<not> live (ledger_view sv') (mr_reservation_id m) \<and>
      bound_outpoints (ledger_view sv') (mr_reservation_id m) = {} \<and> lg_locks (ledger_view sv') p = None"
proof -
  note ok = reachable_ok [OF assms(1)]
  have at: "reservation_at (service_ledger mem_ledger sv) p = Some m"
    using mem.get_manual_run(2) [OF ok assms(2)] by simp
  show ?thesis
  proof (cases "dp_now dp (sv_clock_reads sv) < mr_expires_at m")
    case True
    with mem.get_active_current [OF ok at True] show ?thesis by (simp add: ledger_view_def)
  next
    case False
    then have late: "mr_expires_at m \<le> dp_now dp (sv_clock_reads sv)" by simp
    obtain sv' where run: "get_active_manual_reservation (memory_ops hu ho hi) dp p sv = (Inr None, sv')"
      and L': "service_ledger mem_ledger sv' =
        released_ledger (mr_reservation_id m) PhRollingBack (service_ledger mem_ledger sv)"
      by (rule mem.get_active_expired [OF ok at late])
    have "lg_locks (service_ledger mem_ledger sv') p = None"
      using at unfolding L' by (elim reservation_atD) (simp add: released_ledger_def Let_def)
    moreover have "\<not> live (service_ledger mem_ledger sv') (mr_reservation_id m)"
      by (simp add: L' live_def released_ledger_def Let_def)
    moreover have "bound_outpoints (service_ledger mem_ledger sv') (mr_reservation_id m) = {}"
      by (auto simp: L' bound_outpoints_def released_ledger_def on_owned_def bound_to_def Let_def is_some_and_iff
          split: if_splits)
    ultimately show ?thesis using run False by (auto simp: ledger_view_def)
  qed
qed

theorem active_reservation_expires_witness:
  "\<exists>sv sv'. reserve_manual_utxo demo_ops demo_deps demo_manual demo2 = (Inr demo_reserved, sv) \<and>
    get_active_manual_reservation demo_ops demo_deps demo_p sv = (Inr (Some demo_reserved), sv')"
proof -
  obtain sv where run: "reserve_manual_utxo demo_ops demo_deps demo_manual demo2 = (Inr demo_reserved, sv)"
    and read: "get_manual_reservation demo_ops demo_p sv = (Inr (Some demo_reserved), sv)"
    using manual_reservation_roundtrip_witness by blast
  have r: "demo_reaches sv"
    using steps_more [OF demo_reached(2) [unfolded reachable_def] step_manual [OF run [unfolded demo_ops_def]]]
    by (simp add: reachable_def)
  have "dp_now demo_deps (sv_clock_reads sv) < mr_expires_at demo_reserved"
    by (simp add: demo_deps_def demo_reserved_def)
  with active_reservation_expires [OF r read [unfolded demo_ops_def]] run show ?thesis
    by (auto simp: demo_ops_def)
qed

section \<open>Status\<close>

text \<open>C36: the service calls an output selectable exactly when a selection may take it: it is recorded as
  selectable, confirmed, unbound, free of conflicting observations and unlocked. While every snapshot that was
  reconciled named each output once, the recorded availability alone tells this.\<close>

theorem selectable_status:
  assumes "reachable hu ho hi dp sv"
  shows "\<exists>b. is_outpoint_selectable (memory_ops hu ho hi) p sv = (Inr b, sv) \<and>
    (b \<longleftrightarrow> (\<exists>u. lg_utxos (ledger_view sv) p = Some u \<and> mu_availability u = Selectable \<and>
      mu_onchain_state u = Confirmed \<and> mu_operation_binding u = None \<and> mu_observation_conflict u = None \<and>
      lg_locks (ledger_view sv) p = None)) \<and>
    (orderly_reachable hu ho hi dp sv \<longrightarrow>
      (b \<longleftrightarrow> (\<exists>u. lg_utxos (ledger_view sv) p = Some u \<and> mu_availability u = Selectable)))"
proof -
  note h = reachable_ledger(3) [OF assms]
  have "is_policy_spendable u \<longleftrightarrow> mu_availability u = Selectable \<and> mu_onchain_state u = Confirmed \<and>
      mu_operation_binding u = None \<and> mu_observation_conflict u = None \<and> lg_locks (ledger_view sv) p = None"
    if "lg_utxos (ledger_view sv) p = Some u" for u
    using spendable_unlocked [OF h that] by (auto simp: is_policy_spendable_def)
  moreover have "is_policy_spendable u"
    if "orderly_reachable hu ho hi dp sv" "lg_utxos (ledger_view sv) p = Some u" "mu_availability u = Selectable" for u
    using orderly_records [OF that(1)] that(2,3) by (auto simp: records_ok_def ran_def availability_ok_def)
  ultimately show ?thesis
    by (cases "lg_utxos (ledger_view sv) p")
      (auto simp: selectable_query [OF assms] is_policy_spendable_def)
qed

theorem selectable_status_witness:
  "is_outpoint_selectable demo_ops demo_p demo2 = (Inr True, demo2) \<and>
   is_outpoint_selectable demo_ops demo_p demo3 = (Inr False, demo3)"
  using selectable_status [OF demo_reached(2), of demo_p] selectable_status [OF demo_reached(5), of demo_p]
  by (simp add: demo_ops_def demo_lookups) (simp add: demo_records managed_utxo_new_def reserve_utxo_def)

end
