(* ===== verification/Lifecycle_Properties.thy ===== *)
theory Lifecycle_Properties
  imports Memory_Service
begin

text \<open>
  Properties of what follows a reservation: releasing, completing and expiring operations, and
  reconciling with the chain.
\<close>

section \<open>The lifecycle of an operation\<close>

text \<open>C11: releasing an operation rolls it back and frees exactly the outputs it owned: each loses its
  binding and its lock and is selectable again exactly when it is confirmed, free of conflicts and not
  missing; every other output and lock stays as it was.\<close>

theorem release_frees:
  assumes "reachable hu ho hi dp sv" and "release_operation_service (memory_ops hu ho hi) i sv = (Inr ps, sv')"
    and "lg_operations (ledger_view sv) i = Some x" and "po_phase x \<noteq> PhRollingBack"
  shows "set ps = bound_outpoints (ledger_view sv) i \<and>
    (\<exists>x'. lg_operations (ledger_view sv') i = Some x' \<and> po_phase x' = PhRollingBack) \<and>
    (\<forall>p u. lg_utxos (ledger_view sv) p = Some u \<longrightarrow> bound_to i u \<longrightarrow>
      (\<exists>u'. lg_utxos (ledger_view sv') p = Some u' \<and> mu_operation_binding u' = None \<and>
        lg_locks (ledger_view sv') p = None \<and>
        (is_policy_spendable u' \<longleftrightarrow> mu_onchain_state u = Confirmed \<and> mu_observation_conflict u = None \<and>
           mu_availability u \<noteq> Recovering))) \<and>
    (\<forall>p. p \<notin> set ps \<longrightarrow> lg_utxos (ledger_view sv') p = lg_utxos (ledger_view sv) p \<and>
      lg_locks (ledger_view sv') p = lg_locks (ledger_view sv) p)"
proof -
  have run: "orch_release_operation (memory_ops hu ho hi) i (sv_orchestrator sv) = (Inr ps, sv_orchestrator sv')"
    using assms(2) by (auto simp: release_operation_service_def elim: on_orchestrator_run)
  have ps: "set ps = bound_outpoints (ledger_view sv) i"
    and L': "ledger_view sv' = released_ledger i PhRollingBack (ledger_view sv)"
    using mem.release_Inr [OF reachable_orch [OF assms(1)] run] assms(3,4)
    unfolding view_orch [symmetric] by (metis option.inject)+
  note own = lock_iff_bound [OF reachable_ledger(3) [OF assms(1)], of _ i]
  have "lg_utxos (ledger_view sv') p = Some (release_binding u) \<and> lg_locks (ledger_view sv') p = None"
    if "lg_utxos (ledger_view sv) p = Some u" "bound_to i u" for p u
    using that own [of p] by (auto simp: L' released_ledger_def on_owned_def Let_def)
  moreover have "lg_utxos (ledger_view sv') p = lg_utxos (ledger_view sv) p \<and>
      lg_locks (ledger_view sv') p = lg_locks (ledger_view sv) p" if "p \<notin> set ps" for p
    using that own [of p] unfolding ps
    by (auto simp: L' released_ledger_def on_owned_def Let_def bound_outpoints_def split: option.splits
        intro!: option.map_ident_strong)
  moreover have "\<exists>x'. lg_operations (ledger_view sv') i = Some x' \<and> po_phase x' = PhRollingBack"
    by (simp add: L' released_ledger_def Let_def)
  ultimately show ?thesis using ps by (simp add: release_spendable_iff)
qed

theorem release_frees_witness:
  "\<exists>u'. lg_utxos (ledger_view demo4) demo_p = Some u' \<and> is_policy_spendable u' \<and>
    lg_locks (ledger_view demo4) demo_p = None"
proof -
  have "po_phase (demo_operation PhSelected 6) \<noteq> PhRollingBack" "bound_to demo_id (demo_held PhSelected)"
    "mu_onchain_state (demo_held PhSelected) = Confirmed"
    "mu_observation_conflict (demo_held PhSelected) = None"
    "mu_availability (demo_held PhSelected) \<noteq> Recovering"
    by (simp_all add: demo_records utxo_op_defs)
  with release_frees [OF demo_reached(5) demo_release [unfolded demo_ops_def] demo_lookups(6) this(1)]
    demo_lookups(2) show ?thesis by blast
qed

text \<open>C12: completing an operation into a later phase needs a committed intent and, when it leaves the
  selected phase, exactly the planned inputs; it keeps every owned output bound and locked, moves the
  bindings to the new phase, and takes the outputs into flight when the phase is a spending one.\<close>

theorem complete_advances:
  assumes "reachable hu ho hi dp sv"
    and "complete_operation_service (memory_ops hu ho hi) i ph actual sv = (Inr ps, sv')"
    and "lg_operations (ledger_view sv) i = Some x" and "po_phase x \<noteq> ph"
  shows "valid_transition (po_phase x) ph \<and> set ps = bound_outpoints (ledger_view sv) i \<and>
    (\<exists>n. lg_intents (ledger_view sv) i = Some n \<and> oi_status n = Committed \<and>
      (po_phase x = PhSelected \<longrightarrow> set (os_selected_outpoints (oi_selection n)) = set actual)) \<and>
    (\<exists>x'. lg_operations (ledger_view sv') i = Some x' \<and> po_phase x' = ph \<and> po_expires_at x' = None) \<and>
    (\<forall>p u. lg_utxos (ledger_view sv) p = Some u \<longrightarrow> bound_to i u \<longrightarrow>
      (\<exists>u' l. lg_utxos (ledger_view sv') p = Some u' \<and> bound_in_phase i ph u' \<and>
        lg_locks (ledger_view sv') p = Some l \<and> lk_operation_id l = i \<and> lk_expires_at l = None \<and>
        (spending_phase ph \<longrightarrow> mu_onchain_state u' = SpendingInFlight \<and> mu_availability u' = BlockedByL2))) \<and>
    (\<forall>p. p \<notin> set ps \<longrightarrow> lg_utxos (ledger_view sv') p = lg_utxos (ledger_view sv) p \<and>
      lg_locks (ledger_view sv') p = lg_locks (ledger_view sv) p)"
proof -
  have run: "orch_complete_operation (memory_ops hu ho hi) i ph actual (sv_orchestrator sv) =
      (Inr ps, sv_orchestrator sv')"
    using assms(2) by (auto simp: complete_operation_service_def elim: on_orchestrator_run)
  have outcome: "valid_transition (po_phase x) ph \<and> set ps = bound_outpoints (ledger_view sv) i \<and>
    (\<exists>n. lg_intents (ledger_view sv) i = Some n \<and> oi_status n = Committed \<and>
      (po_phase x = PhSelected \<longrightarrow> set (os_selected_outpoints (oi_selection n)) = set actual)) \<and>
    ledger_view sv' = completed_ledger i ph (ledger_view sv)"
    by (rule mem.complete_Inr [OF reachable_orch [OF assms(1)] run])
      (use assms(3,4) in \<open>auto simp flip: view_orch\<close>)
  then have ps: "set ps = bound_outpoints (ledger_view sv) i"
    and L': "ledger_view sv' = completed_ledger i ph (ledger_view sv)" by auto
  note h = reachable_ledger(3) [OF assms(1)]
  note own = lock_iff_bound [OF h, of _ i]
  have "\<exists>u' l. lg_utxos (ledger_view sv') p = Some u' \<and> bound_in_phase i ph u' \<and>
      lg_locks (ledger_view sv') p = Some l \<and> lk_operation_id l = i \<and> lk_expires_at l = None \<and>
      (spending_phase ph \<longrightarrow> mu_onchain_state u' = SpendingInFlight \<and> mu_availability u' = BlockedByL2)"
    if u: "lg_utxos (ledger_view sv) p = Some u" and b: "bound_to i u" for p u
  proof -
    obtain l where l: "lg_locks (ledger_view sv) p = Some l" "lk_operation_id l = i"
      using own [of p] u b by blast
    have "mu_onchain_state u \<noteq> Spent"
      using slot_ok_Some(1) [OF h u] b by (auto simp: utxo_ok_def bound_to_def is_some_and_iff)
    with u b l show ?thesis
      by (auto simp: L' completed_ledger_def on_owned_def Let_def advance_binding_def bound_to_def
          bound_in_phase_def is_some_and_iff)
  qed
  moreover have "lg_utxos (ledger_view sv') p = lg_utxos (ledger_view sv) p \<and>
      lg_locks (ledger_view sv') p = lg_locks (ledger_view sv) p" if "p \<notin> set ps" for p
    using that own [of p] unfolding ps
    by (auto simp: L' completed_ledger_def on_owned_def Let_def bound_outpoints_def split: option.splits
        intro!: option.map_ident_strong)
  moreover have "\<exists>x'. lg_operations (ledger_view sv') i = Some x' \<and> po_phase x' = ph \<and> po_expires_at x' = None"
    by (simp add: L' completed_ledger_def Let_def)
  ultimately show ?thesis using outcome by blast
qed

theorem complete_advances_witness:
  "\<exists>u'. lg_utxos (ledger_view demo_broadcast) demo_p = Some u' \<and> mu_onchain_state u' = SpendingInFlight"
proof -
  have "po_phase (demo_operation PhSelected 6) \<noteq> PhBroadcast" "bound_to demo_id (demo_held PhSelected)"
    "spending_phase PhBroadcast"
    by (simp_all add: demo_records utxo_op_defs spending_phase_def)
  with complete_advances [OF demo_reached(5) demo_complete [unfolded demo_ops_def] demo_lookups(6) this(1)]
    demo_lookups(2) show ?thesis by blast
qed

text \<open>C4: an operation that leaves the selected phase with inputs other than the planned ones is refused
  and nothing changes.\<close>

theorem wrong_inputs_refused:
  assumes "reachable hu ho hi dp sv" and "lg_operations (ledger_view sv) i = Some x"
    and "po_phase x = PhSelected" and "lg_intents (ledger_view sv) i = Some n" and "oi_status n = Committed"
    and "valid_transition PhSelected ph" and "set actual \<noteq> set (os_selected_outpoints (oi_selection n))"
  shows "complete_operation_service (memory_ops hu ho hi) i ph actual sv = (Inl (PlannedInputsMismatch i), sv)"
proof -
  let ?s = "orch_store (sv_orchestrator sv)"
  have "mem_get_operation ?s i = Inr (Some x)" "mem_get_intent ?s i = Inr (Some n)"
    using assms(2,4)
    by (simp_all add: view_orch orch_ledger_def mem_ledger_def mem_get_operation_def mem_get_intent_def)
  with assms(3,5-7) show ?thesis
    by (auto simp: complete_operation_service_def on_orchestrator_def orch_complete_operation_def
        current_operation_def orch_verify_planned_inputs_def read_verify_planned_inputs_def from_store_def
        cmd_bind_apply validate_advance_cases)
qed

theorem wrong_inputs_refused_witness:
  "complete_operation_service demo_ops demo_id PhSigned [demo_q] demo3 = (Inl (PlannedInputsMismatch demo_id), demo3)"
  unfolding demo_ops_def
  by (rule wrong_inputs_refused [OF demo_reached(5) demo_lookups(6) _ demo_lookups(8)])
    (simp_all add: demo_records valid_transition_iff)

lemma cleanup_releases:
  assumes "reachable hu ho hi dp sv"
  shows "\<exists>report sv'. cleanup_stale_reservations (memory_ops hu ho hi) max_age sv = (Inr report, sv') \<and>
    set (cr_released_operations report) =
      {i. \<exists>x. lg_operations (ledger_view sv) i = Some x \<and> po_phase x = PhSelected \<and>
         unat max_age \<le> unat (lg_tick (ledger_view sv)) - unat (po_updated_at x)} \<and>
    set (cr_released_outpoints report) =
      (\<Union>i\<in>set (cr_released_operations report). bound_outpoints (ledger_view sv) i) \<and>
    (\<forall>i\<in>set (cr_released_operations report).
      \<not> live (ledger_view sv') i \<and> bound_outpoints (ledger_view sv') i = {})"
proof -
  obtain report orch' where
    run: "orch_cleanup_stale_reservations (memory_ops hu ho hi) max_age (sv_orchestrator sv) = (Inr report, orch')"
    and ops: "set (cr_released_operations report) = {i. \<exists>x. lg_operations (ledger_view sv) i = Some x \<and>
        is_stale (lg_tick (ledger_view sv)) max_age x}"
    and outs: "set (cr_released_outpoints report) =
      (\<Union>i\<in>set (cr_released_operations report). bound_outpoints (ledger_view sv) i)"
    and freed: "\<forall>i\<in>set (cr_released_operations report). \<not> live (orch_ledger mem_ledger orch') i \<and>
      bound_outpoints (orch_ledger mem_ledger orch') i = {}"
    unfolding view_orch by (rule mem.cleanup_Inr [OF reachable_orch [OF assms]])
  have "cleanup_stale_reservations (memory_ops hu ho hi) max_age sv = (Inr report, sv\<lparr>sv_orchestrator := orch'\<rparr>)"
    using run by (simp add: cleanup_stale_reservations_def on_orchestrator_def)
  moreover have "set (cr_released_operations report) =
      {i. \<exists>x. lg_operations (ledger_view sv) i = Some x \<and> po_phase x = PhSelected \<and>
         unat max_age \<le> unat (lg_tick (ledger_view sv)) - unat (po_updated_at x)}"
    unfolding ops by (simp add: is_stale_def word_le_nat_alt unat_sat_sub)
  ultimately show ?thesis
    using outs freed by (intro exI [of _ report] exI conjI) (auto simp: view_orch)
qed

text \<open>C13: expiry releases exactly the operations that are still selected and at least max_age ticks old, an age of
  exactly max_age included; it reports them and all their outputs, and leaves them owning nothing.\<close>

theorem cleanup_releases_stale:
  assumes "reachable hu ho hi dp sv"
  shows "\<exists>report sv'. cleanup_stale_reservations (memory_ops hu ho hi) max_age sv = (Inr report, sv') \<and>
    set (cr_released_operations report) =
      {i. \<exists>x. lg_operations (ledger_view sv) i = Some x \<and> po_phase x = PhSelected \<and>
         unat max_age \<le> unat (lg_tick (ledger_view sv)) - unat (po_updated_at x)} \<and>
    set (cr_released_outpoints report) =
      (\<Union>i\<in>set (cr_released_operations report). bound_outpoints (ledger_view sv) i) \<and>
    (\<forall>i\<in>set (cr_released_operations report).
      \<not> live (ledger_view sv') i \<and> bound_outpoints (ledger_view sv') i = {})"
  by (rule cleanup_releases [OF assms])

theorem cleanup_releases_stale_witness:
  "\<exists>report sv'. cleanup_stale_reservations demo_ops 1 demo3 = (Inr report, sv') \<and>
    cr_released_operations report \<noteq> [] \<and> bound_outpoints (ledger_view sv') demo_id = {}"
proof -
  have "demo_id \<in> {i. \<exists>x. lg_operations (ledger_view demo3) i = Some x \<and> po_phase x = PhSelected \<and>
      unat (1 :: u64) \<le> unat (lg_tick (ledger_view demo3)) - unat (po_updated_at x)}"
    by (simp add: demo_views)
  then show ?thesis
    using cleanup_releases_stale [OF demo_reached(5), of 1] unfolding demo_ops_def by (metis empty_iff list.set(1))
qed

text \<open>The boundary: the service's documentation has an age that exceeds \<open>max_age\<close>, the code releases at
  \<open>max_age\<close> already.\<close>

theorem cleanup_at_max_age:
  assumes "reachable hu ho hi dp sv" and "lg_operations (ledger_view sv) i = Some x" and "po_phase x = PhSelected"
    and "unat (lg_tick (ledger_view sv)) - unat (po_updated_at x) = unat max_age"
  shows "\<exists>report sv'. cleanup_stale_reservations (memory_ops hu ho hi) max_age sv = (Inr report, sv') \<and>
    i \<in> set (cr_released_operations report)"
  using cleanup_releases [OF assms(1), of max_age] assms(2-4) by fastforce

theorem cleanup_at_max_age_witness:
  "\<exists>report sv'. cleanup_stale_reservations demo_ops 1 demo3 = (Inr report, sv') \<and>
    demo_id \<in> set (cr_released_operations report)"
  unfolding demo_ops_def by (rule cleanup_at_max_age [OF demo_reached(5) demo_lookups(6)]) (simp_all add: demo_views)

section \<open>Reconciliation\<close>

text \<open>C14: reconciling makes an output selectable only on evidence: an output that becomes spendable was
  observed in the snapshot as unspent and confirmed, and the observation agrees with what was recorded
  of it.\<close>

theorem reconcile_spends_on_evidence:
  assumes "reachable hu ho hi dp sv"
    and "reconcile_snapshot (memory_ops hu ho hi) sn sv = (Inr summary, sv')"
    and "lg_utxos (ledger_view sv') p = Some u'" and "is_policy_spendable u'"
    and "\<And>u. lg_utxos (ledger_view sv) p = Some u \<Longrightarrow> \<not> is_policy_spendable u"
  shows "\<exists>ob\<in>set (sn_utxos sn). ob_outpoint ob = p \<and> ob_spend_status ob = SpendUnspent \<and>
    (\<exists>height ts. ob_confirmation ob = ConfConfirmed height ts) \<and>
    (\<forall>u. lg_utxos (ledger_view sv) p = Some u \<longrightarrow> observed_mismatch_message u ob = None)"
proof -
  obtain us t where ok: "ledger_ok ((ledger_view sv)\<lparr>lg_tick := t\<rparr>)"
    and us: "lists_utxos us ((ledger_view sv)\<lparr>lg_tick := t\<rparr>)"
    and run: "ledger_apply_reconciliation \<lparr>rp_actions = plan_actions us sn\<rparr> ((ledger_view sv)\<lparr>lg_tick := t\<rparr>) =
      (Inr (), ledger_view sv')"
    by (rule reconcile_view [OF assms(1,2)])
  have "ledger_wf ((ledger_view sv)\<lparr>lg_tick := t\<rparr>)" using ok by (simp add: ledger_ok_def)
  from reconciled_spendable_observed [OF this us run assms(3,4)] assms(5) show ?thesis by simp
qed

theorem reconcile_spends_on_evidence_witness:
  "\<exists>ob\<in>set (sn_utxos demo_snapshot). ob_outpoint ob = demo_p \<and> ob_spend_status ob = SpendUnspent"
proof -
  have "is_policy_spendable (demo_utxo demo_p 1000)" and new: "lg_utxos (ledger_view demo1) demo_p = None"
    by (simp_all add: demo_views is_policy_spendable_def)
  from reconcile_spends_on_evidence [OF demo_reached(1) demo_reconcile [unfolded demo_ops_def]
      demo_lookups(1) this(1)] new
  show ?thesis by auto
qed

text \<open>C26: reconciling never takes an output from its owner silently: a bound output keeps its binding
  and its lock, or the snapshot reports it spent and it ends spent, unbound and unlocked.\<close>

theorem reconcile_keeps_custody:
  assumes "reachable hu ho hi dp sv"
    and "reconcile_snapshot (memory_ops hu ho hi) sn sv = (Inr summary, sv')"
    and "lg_utxos (ledger_view sv) p = Some u" and "mu_operation_binding u = Some b"
  shows "(\<exists>u'. lg_utxos (ledger_view sv') p = Some u' \<and> mu_operation_binding u' = Some b \<and>
      lg_locks (ledger_view sv') p = lg_locks (ledger_view sv) p) \<or>
    (\<exists>u' ob tx. lg_utxos (ledger_view sv') p = Some u' \<and> mu_onchain_state u' = Spent \<and>
      mu_operation_binding u' = None \<and> lg_locks (ledger_view sv') p = None \<and>
      ob \<in> set (sn_utxos sn) \<and> ob_outpoint ob = p \<and> ob_spend_status ob = SpendSpent tx)"
proof -
  obtain us t where ok: "ledger_ok ((ledger_view sv)\<lparr>lg_tick := t\<rparr>)"
    and us: "lists_utxos us ((ledger_view sv)\<lparr>lg_tick := t\<rparr>)"
    and run: "ledger_apply_reconciliation \<lparr>rp_actions = plan_actions us sn\<rparr> ((ledger_view sv)\<lparr>lg_tick := t\<rparr>) =
      (Inr (), ledger_view sv')"
    by (rule reconcile_view [OF assms(1,2)])
  show ?thesis using reconciled_keeps_custody [OF run] assms(3,4) by simp
qed

theorem reconcile_keeps_custody_witness:
  "\<exists>summary sv' u'. reconcile_snapshot demo_ops (demo_snapshot\<lparr>sn_utxos := []\<rparr>) demo3 = (Inr summary, sv') \<and>
    lg_utxos (ledger_view sv') demo_p = Some u' \<and>
    mu_operation_binding u' = Some \<lparr>bd_operation_id = demo_id, bd_phase = PhSelected\<rparr>"
proof -
  let ?sn = "demo_snapshot\<lparr>sn_utxos := []\<rparr>"
  have snap: "sn_utxos ?sn = []"
    and bound: "mu_operation_binding (demo_held PhSelected) =
      Some \<lparr>bd_operation_id = demo_id, bd_phase = PhSelected\<rparr>"
    by (simp_all add: demo_held_def)
  obtain summary sv' where run: "reconcile_snapshot demo_ops ?sn demo3 = (Inr summary, sv')"
    using reconcile_succeeds unfolding demo_ops_def by blast
  from reconcile_keeps_custody [OF demo_reached(5) run [unfolded demo_ops_def] demo_lookups(2) bound]
    snap run show ?thesis by auto
qed

text \<open>C27: reconciliation always succeeds, and where the snapshot names every output once, agrees with what is
  recorded and reports nothing missing, one reconciliation settles it: reconciling the same snapshot again
  applies no action and changes no output and no lock.\<close>

theorem reconcile_converges:
  assumes "reachable hu ho hi dp sv" and "names_outputs_once sn"
    and "reconcile_snapshot (memory_ops hu ho hi) sn sv = (Inr summary, sv')"
    and "\<And>ob. ob \<in> set (sn_utxos sn) \<Longrightarrow> settles (ledger_view sv) ob"
  shows "\<exists>again sv''. reconcile_snapshot (memory_ops hu ho hi) sn sv' = (Inr again, sv'') \<and>
    rc_actions_applied again = 0 \<and> same_outputs (ledger_view sv') (ledger_view sv'')"
proof -
  obtain us t where ok: "ledger_ok ((ledger_view sv)\<lparr>lg_tick := t\<rparr>)"
    and us: "lists_utxos us ((ledger_view sv)\<lparr>lg_tick := t\<rparr>)"
    and run: "ledger_apply_reconciliation \<lparr>rp_actions = plan_actions us sn\<rparr> ((ledger_view sv)\<lparr>lg_tick := t\<rparr>) =
      (Inr (), ledger_view sv')"
    by (rule reconcile_view [OF assms(1,3)])
  have r': "reachable hu ho hi dp sv'"
    using steps_more [OF assms(1) [unfolded reachable_def] snapshot_step [OF assms(3)]]
    by (simp add: reachable_def)
  obtain again sv'' where run': "reconcile_snapshot (memory_ops hu ho hi) sn sv' = (Inr again, sv'')"
    using reconcile_succeeds by blast
  obtain us' t' where us': "lists_utxos us' (ledger_view sv')"
    and applied: "ledger_apply_reconciliation \<lparr>rp_actions = plan_actions us' sn\<rparr>
      ((ledger_view sv')\<lparr>lg_tick := t'\<rparr>) = (Inr (), ledger_view sv'')"
    and count: "rc_actions_applied again = length (plan_actions us' sn)"
    by (rule reconcile_view [OF r' run'])
  have "settles ((ledger_view sv)\<lparr>lg_tick := t\<rparr>) ob" if "ob \<in> set (sn_utxos sn)" for ob
    using assms(4) [OF that] by (simp add: settles_def)
  moreover have "ledger_wf ((ledger_view sv)\<lparr>lg_tick := t\<rparr>)" using ok by (simp add: ledger_ok_def)
  ultimately have none: "plan_actions us' sn = []"
    using reconciled_converges [OF _ us assms(2) [unfolded names_outputs_once_def] run reachable_ledger(2) [OF r'] us']
    by blast
  have "same_outputs (ledger_view sv') (ledger_view sv'')"
    using applied [symmetric] unfolding none
    by (auto simp: ledger_apply_reconciliation_def bump_tick_def same_outputs_def Let_def)
  with run' count none show ?thesis by auto
qed

theorem reconcile_converges_witness:
  "\<exists>again sv''. reconcile_snapshot demo_ops demo_snapshot demo2 = (Inr again, sv'') \<and>
    rc_actions_applied again = 0 \<and> same_outputs (ledger_view demo2) (ledger_view sv'')"
  unfolding demo_ops_def
  by (rule reconcile_converges [OF demo_reached(1) _ demo_reconcile [unfolded demo_ops_def]])
    (auto simp: demo_views settles_def names_outputs_once_def observed_confirmed_def observed_utxo_new_def)

text \<open>
  A snapshot that names an output twice, spent and then unspent: the planner looks both entries up in the outputs
  stored before the reconciliation, so the second one restores the availability of an output that the first one
  marks spent. The record ends spent and yet selectable; no selection takes it, since the rest of the record
  still says so.
\<close>

theorem duplicate_report_leaves_selectable:
  assumes "reachable hu ho hi dp sv" and "lg_utxos (ledger_view sv) p = Some u"
    and "mu_onchain_state u \<notin> {Spent, SpendingInFlight}" and "mu_operation_binding u = None"
    and "mu_availability u \<in> {BlockedByPolicy, Recovering}"
    and "sn_utxos sn = [gone, back]" and "ob_outpoint gone = p" and "ob_outpoint back = p"
    and "ob_spend_status gone = SpendSpent tx" and "ob_spend_status back = SpendUnspent"
    and "ob_confirmation back = ConfConfirmed height ts" and "observed_mismatch_message u back = None"
  shows "\<exists>summary sv' u'. reconcile_snapshot (memory_ops hu ho hi) sn sv = (Inr summary, sv') \<and>
    lg_utxos (ledger_view sv') p = Some u' \<and> mu_onchain_state u' = Spent \<and> mu_availability u' = Selectable \<and>
    \<not> is_policy_spendable u'"
proof -
  obtain summary sv' where run: "reconcile_snapshot (memory_ops hu ho hi) sn sv = (Inr summary, sv')"
    using reconcile_succeeds by blast
  obtain us t where ok: "ledger_ok ((ledger_view sv)\<lparr>lg_tick := t\<rparr>)"
    and us: "lists_utxos us ((ledger_view sv)\<lparr>lg_tick := t\<rparr>)"
    and applied: "ledger_apply_reconciliation \<lparr>rp_actions = plan_actions us sn\<rparr> ((ledger_view sv)\<lparr>lg_tick := t\<rparr>) =
      (Inr (), ledger_view sv')"
    by (rule reconcile_view [OF assms(1) run])
  have wf: "ledger_wf ((ledger_view sv)\<lparr>lg_tick := t\<rparr>)" using ok by (simp add: ledger_ok_def)
  have p: "mu_outpoint u = p" using ledger_wfD(1) [OF wf, of p u] assms(2) by simp
  have absent: "filter (\<lambda>a. action_outpoint a = p) (concat (map (missing_actions sn) us)) = []"
  proof -
    have "a \<notin> set (missing_actions sn v)" if "action_outpoint a = p" for a v
      using that missing_actions_outpoint [of a sn v] assms(6,7) by (auto simp: missing_actions_def)
    then show ?thesis by (auto simp: filter_empty_conv)
  qed
  have acts: "filter (\<lambda>a. action_outpoint a = p) (plan_actions us sn) =
      [MarkSpent p tx, UpdateAvailability p Selectable] @
      (if mu_observation_conflict u \<noteq> None then [ClearConflict p] else []) @
      (if mu_onchain_state u \<noteq> Confirmed then [UpdateOnchainState p Confirmed] else [])"
    using assms(2-) absent lists_utxos_find [OF wf us, of p]
    by (auto simp: plan_actions_def observation_actions_def unspent_actions_def restored_unspent_availability_def
        then_some_def p)
  from reconciled_slots [OF applied, of p] assms(2) run show ?thesis
    by (auto simp: acts slot_action_Some mark_spent_def is_policy_spendable_def split: if_splits)
qed

text \<open>Such an output: first seen unconfirmed.\<close>

lemma first_sighting:
  assumes "reachable hu ho hi dp sv" and "reconcile_snapshot (memory_ops hu ho hi) sn sv = (Inr summary, sv')"
    and "sn_utxos sn = [ob]" and "ob_spend_status ob = SpendUnspent" and "lg_utxos (ledger_view sv) (ob_outpoint ob) = None"
  shows "reachable hu ho hi dp sv'" and "lg_utxos (ledger_view sv') (ob_outpoint ob) = Some (discovered ob)"
proof -
  show "reachable hu ho hi dp sv'"
    using steps_more [OF assms(1) [unfolded reachable_def] snapshot_step [OF assms(2)]]
    by (simp add: reachable_def)
  obtain us t where ok: "ledger_ok ((ledger_view sv)\<lparr>lg_tick := t\<rparr>)"
    and us: "lists_utxos us ((ledger_view sv)\<lparr>lg_tick := t\<rparr>)"
    and run: "ledger_apply_reconciliation \<lparr>rp_actions = plan_actions us sn\<rparr> ((ledger_view sv)\<lparr>lg_tick := t\<rparr>) =
      (Inr (), ledger_view sv')"
    by (rule reconcile_view [OF assms(1,2)])
  have wf: "ledger_wf ((ledger_view sv)\<lparr>lg_tick := t\<rparr>)" and once: "distinct (map ob_outpoint (sn_utxos sn))"
    and seen: "find (\<lambda>x. ob_outpoint x = ob_outpoint ob) (sn_utxos sn) = Some ob"
    using ok assms(3) by (simp_all add: ledger_ok_def)
  from reconciled_by_slot [OF wf us once run, of "ob_outpoint ob"] reconciled_discovered [OF seen] assms(4,5)
  show "lg_utxos (ledger_view sv') (ob_outpoint ob) = Some (discovered ob)" by simp
qed

theorem duplicate_report_happens:
  "\<exists>sv u. demo_reaches sv \<and> lg_utxos (ledger_view sv) demo_p = Some u \<and>
    mu_onchain_state u = Spent \<and> mu_availability u = Selectable"
proof -
  let ?new = "observed_utxo_new demo_p (AccountId ''acct'') (WalletScopeId ''scope'') 1000"
  let ?fresh = "demo_snapshot\<lparr>sn_utxos := [observed_mempool ?new]\<rparr>"
  let ?twice = "demo_snapshot\<lparr>sn_utxos := [observed_spent ''tx'' ?new, observed_confirmed 1 0 ?new]\<rparr>"
  have entry: "ob_outpoint (observed_mempool ?new) = demo_p" "ob_spend_status (observed_mempool ?new) = SpendUnspent"
    and none: "lg_utxos (ledger_view demo1) demo_p = None"
    by (simp_all add: observed_mempool_def observed_utxo_new_def demo_views)
  obtain summary sv where run: "reconcile_snapshot demo_ops ?fresh demo1 = (Inr summary, sv)"
    using reconcile_succeeds unfolding demo_ops_def by blast
  note first = first_sighting [OF demo_reached(1) run [unfolded demo_ops_def], of "observed_mempool ?new"]
  have r: "demo_reaches sv" and u: "lg_utxos (ledger_view sv) demo_p = Some (discovered (observed_mempool ?new))"
    using first entry none by simp_all
  have "observed_mismatch_message (discovered (observed_mempool ?new)) (observed_confirmed 1 0 ?new) = None"
    by (simp add: observed_mismatch_message_def discovered_def discover_from_observed_def observed_mempool_def
        observed_confirmed_def observed_utxo_new_def)
  then obtain s2 sv2 u2 where "reconcile_snapshot demo_ops ?twice sv = (Inr s2, sv2)"
    and "lg_utxos (ledger_view sv2) demo_p = Some u2" "mu_onchain_state u2 = Spent" "mu_availability u2 = Selectable"
    using duplicate_report_leaves_selectable [OF r u, of ?twice "observed_spent ''tx'' ?new" "observed_confirmed 1 0 ?new" "''tx''" 1 0]
    by (auto simp: discovered_def discover_from_observed_def observed_mempool_def observed_spent_def
        observed_confirmed_def observed_utxo_new_def demo_ops_def)
  moreover from this(1) have "demo_reaches sv2"
    using steps_more [OF r [unfolded reachable_def] snapshot_step] by (auto simp: reachable_def demo_ops_def)
  ultimately show ?thesis by blast
qed

section \<open>The length of recovery\<close>

text \<open>The loop of recovery cut off after a number of passes.\<close>

fun recovery_within ::
  "nat \<Rightarrow> 's state_store \<Rightarrow> operation_intent list \<Rightarrow> operation_id list \<Rightarrow> operation_id list \<Rightarrow>
   's orchestrator \<Rightarrow> (recovery_report result \<times> 's orchestrator) option" where
  "recovery_within 0 ops pending replayed failed orch = None"
| "recovery_within (Suc n) ops pending replayed failed orch =
     (if pending = []
      then Some (Inr \<lparr>rr_replayed_operations = replayed, rr_failed_operations = failed\<rparr>, orch)
      else case recovery_pass ops pending (recovery_start replayed failed) orch of
             (Inl e, orch') \<Rightarrow> Some (Inl e, orch')
           | (Inr rs, orch') \<Rightarrow>
               if \<not> rs_progressed rs
               then Some (Inr \<lparr>rr_replayed_operations = rs_replayed rs,
                               rr_failed_operations = rs_failed rs\<rparr>, orch')
               else recovery_within n ops (rs_deferred rs) (rs_replayed rs) (rs_failed rs) orch')"

text \<open>C25: the loop of recovery ends whatever the store replies, errors and contended outputs included: it makes
  at most one pass for each pending intent and one more, and its result is that of the bounded loop.\<close>

theorem recovery_is_bounded:
  "recovery_within (Suc (length pending)) ops pending replayed failed orch =
     Some (recovery_loop ops pending replayed failed orch)"
proof -
  have "recovery_within (Suc n) ops pending replayed failed orch = Some (recovery_loop ops pending replayed failed orch)"
    if "length pending \<le> n" for n
    using that
  proof (induction n arbitrary: pending replayed failed orch)
    case 0
    then show ?case by (simp add: recovery_loop.simps)
  next
    case (Suc n)
    obtain r mid where pass: "recovery_pass ops pending (recovery_start replayed failed) orch = (r, mid)" by fastforce
    have "length (rs_deferred rs) \<le> n" if "r = Inr rs" and "rs_progressed rs" for rs
      using recovery_pass_counts(2) [of ops pending "recovery_start replayed failed" orch rs mid] pass that Suc.prems
      by (simp add: recovery_start_def)
    then show ?case
      using Suc.IH pass by (auto simp: recovery_loop.simps [of ops pending] simp del: recovery_within.simps(2)
          simp: recovery_within.simps(2) [of "Suc n"] split: sum.split)
  qed
  then show ?thesis by blast
qed

end
