(* ===== verification/Core_Properties.thy ===== *)
theory Core_Properties
  imports Operation
begin

text \<open>
  Properties of the shared types: the text form of outpoints and the order of the lifecycle.
\<close>

section \<open>Outpoint text\<close>

lemma parse_outpoint_SomeD:
  assumes "parse_outpoint s = Some p"
  obtains ds n where "s = txid p @ '':'' @ ds" and "CHR '':'' \<notin> set ds"
    and "parse_uint (2 ^ 32 - 1) ds = Some n" and "vout p = of_nat n"
  using assms
  by (auto simp: parse_outpoint_def dest!: rsplit_once_SomeD split: option.splits prod.splits)

lemma digits_acc_bound: "digits_acc b a ds = Some n \<Longrightarrow> a \<le> b \<Longrightarrow> n \<le> b"
  by (induction ds arbitrary: a) (auto split: option.splits if_splits)

lemma parse_uint_bound: "parse_uint b ds = Some n \<Longrightarrow> n \<le> b"
  by (auto simp: parse_uint_def Let_def split: if_splits intro: digits_acc_bound)

text \<open>C38: the text of an outpoint parses back to it, whatever its transaction id holds; and a text that
  parses splits at its last colon, the index being in decimal digits within 32 bits, with nothing lost
  or wrapped around.\<close>

theorem outpoint_text_roundtrip:
  "outpoint_from_str dbg (outpoint_string p) = Inr p \<and>
   (outpoint_from_str dbg s = Inr q \<longrightarrow>
     (\<exists>ds. s = txid q @ '':'' @ ds \<and> CHR '':'' \<notin> set ds \<and>
       parse_uint (2 ^ 32 - 1) ds = Some (unat (vout q))))"
proof (intro conjI impI)
  show "outpoint_from_str dbg (outpoint_string p) = Inr p" by (rule outpoint_from_str_roundtrip)
  assume "outpoint_from_str dbg s = Inr q"
  then have "parse_outpoint s = Some q" by (simp add: outpoint_from_str_def ok_or_eq)
  then obtain ds n where ds: "s = txid q @ '':'' @ ds" "CHR '':'' \<notin> set ds"
    and n: "parse_uint (2 ^ 32 - 1) ds = Some n" "vout q = of_nat n" by (rule parse_outpoint_SomeD)
  from n(1) have "n \<le> 2 ^ 32 - 1" by (rule parse_uint_bound)
  then have "unat (vout q) = n" by (simp add: n(2) unat_of_nat take_bit_nat_eq_self)
  with ds n(1) show "\<exists>ds. s = txid q @ '':'' @ ds \<and> CHR '':'' \<notin> set ds \<and>
       parse_uint (2 ^ 32 - 1) ds = Some (unat (vout q))" by blast
qed

theorem outpoint_text_roundtrip_witness:
  "outpoint_string (OutPoint ''a:b'' 7) = ''a:b'' @ '':'' @ show_nat 7 \<and>
   (\<exists>ds. outpoint_string (OutPoint ''a:b'' 7) = ''a:b'' @ '':'' @ ds \<and> CHR '':'' \<notin> set ds \<and>
     parse_uint (2 ^ 32 - 1) ds = Some 7)"
  using outpoint_text_roundtrip [of id "OutPoint ''a:b'' 7" "outpoint_string (OutPoint ''a:b'' 7)"
      "OutPoint ''a:b'' 7"]
  by (simp add: outpoint_from_str_roundtrip outpoint_string_def)

section \<open>The lifecycle\<close>

text \<open>The transitions the code lists are exactly the steps up the order of the phases, a rolled back
  operation being final: advancing to the stored phase is a no-op, advancing upwards is accepted, and
  anything else, rolling back included, is refused with both phases named.\<close>

theorem lifecycle_is_an_order:
  "validate_advance po ph =
     (if po_phase po = ph then Inr False
      else if phase_rank (po_phase po) < phase_rank ph \<and> ph \<noteq> PhRollingBack then Inr True
      else Inl (InvalidOperationTransition (po_operation_id po) (po_phase po) ph))"
  by (simp add: validate_advance_cases valid_transition_iff)

end
