(* ===== verification/Sqlite_Opening.thy ===== *)
theory Sqlite_Opening
  imports Sqlite_Contract
begin

text \<open>
  Opening a database: the tables it lacks are created, an older schema gets its missing columns, and the
  rows it holds stay as they were, so that the store starts from the ledger the file recorded.
\<close>

section \<open>Databases that can be opened\<close>

text \<open>The columns that later schema versions added.\<close>

definition later_columns :: "string \<Rightarrow> string list" where
  "later_columns t =
     (if t = ''utxos'' then [''conflict_message'', ''conflict_recorded_at'']
      else if t \<in> {''locks'', ''operations'', ''intents''} then [''expires_at'']
      else [])"

text \<open>A table of this or an older version, or none.\<close>

fun openable_table :: "sql_database \<Rightarrow> sql_statement \<Rightarrow> bool" where
  "openable_table c (CreateTableIfNotExists t columns key ref) \<longleftrightarrow>
     (case db_tables c t of
        None \<Rightarrow> True
      | Some tb \<Rightarrow> set columns \<subseteq> set (tb_columns tb) \<union> set (later_columns t) \<and> tb_key tb = key \<and> tb_reference tb = ref)"
| "openable_table c st \<longleftrightarrow> True"

definition rows_declared :: "sql_database \<Rightarrow> bool" where
  "rows_declared c \<longleftrightarrow>
     (\<forall>t tb r col. db_tables c t = Some tb \<longrightarrow> r \<in> set (tb_rows tb) \<longrightarrow> col \<notin> set (tb_columns tb) \<longrightarrow> r col = SqlNull)"

definition openable :: "sql_database \<Rightarrow> bool" where
  "openable c \<longleftrightarrow> (\<forall>st\<in>set create_tables. openable_table c st) \<and> cascades_ok c \<and> rows_declared c"

text \<open>The rows of every table decode to the values they are read as.\<close>

definition rows_ok :: "'db sql_engine \<Rightarrow> sql_database \<Rightarrow> bool" where
  "rows_ok E c \<longleftrightarrow>
     table_ok meta_entry fst (table_rows c ''meta'') \<and>
     table_ok account_entry ac_id (table_rows c ''accounts'') \<and>
     table_ok scope_from_row ws_id (table_rows c ''scopes'') \<and>
     table_ok (utxo_from_row E) mu_outpoint (table_rows c ''utxos'') \<and>
     table_ok (lock_entry E) fst (table_rows c ''locks'') \<and>
     table_ok operation_from_row po_operation_id (table_rows c ''operations'') \<and>
     table_ok pending_from_row fst (table_rows c ''intents'') \<and>
     (\<forall>r\<in>set (table_rows c ''intent_inputs''). \<exists>p. input_from_row E r = Inr p) \<and>
     (\<forall>r\<in>set (table_rows c ''intent_effects''). \<exists>e. \<forall>i. effect_from_row E i r = Inr e)"

lemma db_ok_rows: "db_ok E c \<longleftrightarrow> schema_ok c \<and> stored_tick c \<noteq> None \<and> rows_ok E c"
  by (auto simp: db_ok_def rows_ok_def)

lemma same_rows:
  assumes "table_rows c' = table_rows c"
  shows "rows_ok E c' = rows_ok E c" and "stored_tick c' = stored_tick c" and "sql_ledger E c' = sql_ledger E c"
proof -
  have tick: "stored_tick c' = stored_tick c" and scopes: "scope_ids c' = scope_ids c"
    and "intent_entry E c' = intent_entry E c"
    using assms by (auto simp: stored_tick_def scope_ids_def fun_eq_iff stored_inputs_def stored_effects_def)
  then show "stored_tick c' = stored_tick c" and "sql_ledger E c' = sql_ledger E c"
    by (simp_all add: assms sql_ledger_def)
  show "rows_ok E c' = rows_ok E c" by (simp add: rows_ok_def assms)
qed

section \<open>Statements of the opening\<close>

text \<open>The steps of an opening keep the rows and what can be opened.\<close>

definition opening_from :: "sql_database \<Rightarrow> sql_database \<Rightarrow> bool" where
  "opening_from c0 c \<longleftrightarrow> openable c \<and> table_rows c = table_rows c0"

lemma run_create:
  assumes "openable c" and "CreateTableIfNotExists t columns key ref \<in> set create_tables"
    and "sql_run (CreateTableIfNotExists t columns key ref) c = Some (n, c')"
  shows "openable c'" and "table_rows c' = table_rows c" and "db_tables c' t \<noteq> None"
    and "db_tables c u \<noteq> None \<Longrightarrow> db_tables c' u \<noteq> None"
proof -
  show "db_tables c' t \<noteq> None" and "db_tables c u \<noteq> None \<Longrightarrow> db_tables c' u \<noteq> None"
    and "table_rows c' = table_rows c"
    using assms(3) by (auto simp: table_rows_def fun_eq_iff split: option.splits if_splits)
  show "openable c'"
  proof (cases "db_tables c t")
    case (Some tb)
    with assms(1,3) show ?thesis by simp
  next
    case None
    then have c': "db_tables c' = (db_tables c)(t \<mapsto> \<lparr>tb_columns = columns, tb_key = key, tb_reference = ref, tb_rows = []\<rparr>)"
      using assms(3) by auto
    have unique: "columns' = columns \<and> key' = key \<and> ref' = ref"
      if "CreateTableIfNotExists t columns' key' ref' \<in> set create_tables" for columns' key' ref'
      using that assms(2) by (auto simp: create_tables_def)
    have "openable_table c' st" if st: "st \<in> set create_tables" for st
    proof -
      obtain t' columns' key' ref' where d: "st = CreateTableIfNotExists t' columns' key' ref'"
        using st by (auto simp: create_tables_def)
      have "openable_table c st" using assms(1) st by (simp add: openable_def)
      then show ?thesis using unique st by (auto simp: d c')
    qed
    moreover have "cascades_ok c'"
      using assms(1,2) by (auto simp: openable_def cascades_ok_def c' create_tables_def account_reference_def intent_reference_def
        split: if_splits)
    moreover have "rows_declared c'" using assms(1) by (auto simp: openable_def rows_declared_def c' split: if_splits)
    ultimately show ?thesis by (simp add: openable_def)
  qed
qed

lemma run_alter:
  assumes "openable c" and "sql_run (AlterTableAddColumn t col) c = Some (n, c')"
  shows "openable c'" and "table_rows c' = table_rows c" and "db_tables c u \<noteq> None \<Longrightarrow> db_tables c' u \<noteq> None"
proof -
  obtain tb where tb: "db_tables c t = Some tb" "col \<notin> set (tb_columns tb)"
    and c': "db_tables c' = (db_tables c)(t \<mapsto> tb\<lparr>tb_columns := tb_columns tb @ [col],
      tb_rows := map (\<lambda>r. r(col := SqlNull)) (tb_rows tb)\<rparr>)"
    using assms(2) by (auto split: option.splits if_splits)
  have "r col = SqlNull" if "r \<in> set (tb_rows tb)" for r
    using assms(1) tb that unfolding openable_def rows_declared_def by blast
  then have "map (\<lambda>r. r(col := SqlNull)) (tb_rows tb) = tb_rows tb"
    by (intro map_idI) (simp add: fun_upd_idem)
  then have c': "db_tables c' = (db_tables c)(t \<mapsto> tb\<lparr>tb_columns := tb_columns tb @ [col]\<rparr>)" using c' by simp
  show "table_rows c' = table_rows c" by (auto simp: table_rows_def fun_eq_iff c' tb)
  show "db_tables c u \<noteq> None \<Longrightarrow> db_tables c' u \<noteq> None" by (simp add: c')
  have "openable_table c' st" if st: "st \<in> set create_tables" for st
  proof -
    obtain t' columns' key' ref' where d: "st = CreateTableIfNotExists t' columns' key' ref'"
      using st by (auto simp: create_tables_def)
    have "openable_table c st" using assms(1) st by (simp add: openable_def)
    then show ?thesis using tb by (auto simp: d c')
  qed
  moreover have "cascades_ok c'" using assms(1) tb by (auto simp: openable_def cascades_ok_def c' split: if_splits)
  moreover have "rows_declared c'" using assms(1) tb by (auto simp: openable_def rows_declared_def c' split: if_splits)
  ultimately show "openable c'" by (simp add: openable_def)
qed

lemma run_version:
  assumes "sql_run (SetUserVersion v) c = Some (n, c')"
  shows "openable c' = openable c" and "table_rows c' = table_rows c" and "db_tables c' = db_tables c"
    and "schema_ok c' = schema_ok c"
proof -
  show t: "db_tables c' = db_tables c" using assms by auto
  show "table_rows c' = table_rows c" by (simp add: table_rows_def t fun_eq_iff)
  have "openable_table c' st = openable_table c st" "declared c' st = declared c st" for st
    by (cases st; simp add: t)+
  then show "openable c' = openable c" and "schema_ok c' = schema_ok c"
    by (simp_all add: openable_def rows_declared_def cascades_ok_def schema_ok_def t)
qed

lemma checked_schema:
  assumes "openable c" and "\<And>t columns key ref. CreateTableIfNotExists t columns key ref \<in> set create_tables \<Longrightarrow> db_tables c t \<noteq> None"
    and "\<And>t columns. (t, columns) \<in> set checked_tables \<Longrightarrow>
      \<exists>tb. db_tables c t = Some tb \<and> set columns \<subseteq> set (tb_columns tb)"
  shows "schema_ok c"
proof -
  have "declared c st" if st: "st \<in> set create_tables" for st
  proof -
    obtain t columns key ref where d: "st = CreateTableIfNotExists t columns key ref"
      using st by (auto simp: create_tables_def)
    obtain tb where tb: "db_tables c t = Some tb" using assms(2) st d by blast
    have old: "set columns \<subseteq> set (tb_columns tb) \<union> set (later_columns t)" "tb_key tb = key" "tb_reference tb = ref"
      using assms(1) st tb unfolding openable_def d by fastforce+
    have "set columns \<subseteq> set (tb_columns tb)"
    proof (cases "later_columns t = []")
      case True
      with old(1) show ?thesis by simp
    next
      case False
      then have "(t, columns) \<in> set checked_tables"
        using st d by (auto simp: later_columns_def create_tables_def checked_tables_def split: if_splits)
      with assms(3) tb show ?thesis by fastforce
    qed
    with old tb show ?thesis by (simp add: d)
  qed
  with assms(1) show ?thesis by (simp add: schema_ok_def openable_def)
qed

text \<open>The first tick is written when there is none.\<close>

definition tick_readable :: "sql_database \<Rightarrow> bool" where
  "tick_readable c \<longleftrightarrow> (\<exists>r\<in>set (table_rows c ''meta''). r ''key'' = SqlText ''tick'') \<longrightarrow> stored_tick c \<noteq> None"

definition opened_ledger :: "'db sql_engine \<Rightarrow> sql_database \<Rightarrow> ledger" where
  "opened_ledger E c =
     (if stored_tick c = None then (sql_ledger E c)\<lparr>lg_tick := 0\<rparr> else sql_ledger E c)"

lemma run_first_tick:
  assumes "schema_ok c" and "rows_ok E c" and "tick_readable c"
    and "sql_run (InsertOrIgnore ''meta'' [(''key'', SqlText ''tick''), (''value'', SqlText ''0'')]) c = Some (n, c')"
  shows "db_ok E c' \<and> sql_ledger E c' = opened_ledger E c"
proof -
  let ?r = "row_of [(''key'', SqlText ''tick''), (''value'', SqlText ''0'')]"
  obtain tb where tb: "db_tables c ''meta'' = Some tb" "tb_key tb = [''key'']"
    using declared_table [OF assms(1) declared_tables(1)] by blast
  have rows: "table_rows c ''meta'' = tb_rows tb" by (simp add: table_rows_def tb)
  have key: "same_key tb ?r r \<longleftrightarrow> r ''key'' = SqlText ''tick''" for r by (auto simp: same_key_def tb)
  show ?thesis
  proof (cases "\<exists>r\<in>set (tb_rows tb). same_key tb ?r r")
    case True
    then have "c' = c" using assms(4) tb by (auto simp: Let_def split: if_splits)
    moreover have "stored_tick c \<noteq> None" using True assms(3) by (simp add: tick_readable_def rows key)
    ultimately show ?thesis using assms(1,2) by (auto simp: db_ok_rows opened_ledger_def)
  next
    case False
    then have c': "c' = set_rows ''meta'' (tb_rows tb @ [?r]) c"
      using assms(4) tb by (auto simp: Let_def split: if_splits)
    have table: "table_rows c' = (table_rows c)(''meta'' := table_rows c ''meta'' @ [?r])"
      using set_rows_rows [OF tb(1)] by (simp add: c' rows)
    note ok = assms(2) [unfolded rows_ok_def, THEN conjunct1]
    have entry: "meta_entry ?r = Inr (''tick'', ''0'')" by (simp add: meta_entry_def)
    have zero: "parse_uint 18446744073709551615 ''0'' = Some 0" by (simp add: parse_uint_def digit_val_def)
    have fresh: "table_map meta_entry fst (table_rows c ''meta'') ''tick'' = None"
      unfolding table_map_None [OF ok] using False meta_entry_key by (fastforce simp: rows key)
    have none: "filter (\<lambda>r'. \<not> same_columns [''key''] ?r r') (table_rows c ''meta'') = table_rows c ''meta''"
      using False by (auto simp: rows key same_columns_def intro!: filter_True)
    have same: "same_columns [''key''] ?r r \<longleftrightarrow> fst w = fst (''tick'', ''0'')" if "meta_entry r = Inr w" for r w
      using meta_entry_key [OF that] by (auto simp: same_columns_def)
    have up: "table_ok meta_entry fst (filter (\<lambda>r'. \<not> same_columns [''key''] ?r r') (table_rows c ''meta'') @ [?r])"
      "table_map meta_entry fst (filter (\<lambda>r'. \<not> same_columns [''key''] ?r r') (table_rows c ''meta'') @ [?r]) =
        (table_map meta_entry fst (table_rows c ''meta''))(fst (''tick'', ''0'') \<mapsto> (''tick'', ''0''))"
      by (rule table_upsert [OF ok entry], rule same, assumption)+
    have "table_ok meta_entry fst (table_rows c' ''meta'')"
      and m: "table_map meta_entry fst (table_rows c' ''meta'') = (table_map meta_entry fst (table_rows c ''meta''))(''tick'' \<mapsto> (''tick'', ''0''))"
      using up unfolding none table by simp_all
    then have "stored_tick c' = Some 0" and "stored_tick c = None"
      by (simp_all add: stored_tick_def fresh zero)
    have only: "changes_only ''meta'' c c'" by (simp add: changes_only_def table)
    have "rows_ok E c'"
      using assms(2) \<open>table_ok meta_entry fst (table_rows c' ''meta'')\<close>
      by (simp add: rows_ok_def other_tables [OF only])
    moreover have "schema_ok c'" using set_rows_schema [OF assms(1) tb(1)] by (simp add: c')
    moreover have "sql_ledger E c' = (sql_ledger E c)\<lparr>lg_tick := 0\<rparr>"
      using \<open>stored_tick c' = Some 0\<close> by (simp add: sql_ledger_def other_tables [OF only])
    ultimately show ?thesis
      using \<open>stored_tick c' = Some 0\<close> \<open>stored_tick c = None\<close> by (simp add: db_ok_rows opened_ledger_def)
  qed
qed

section \<open>The opening\<close>

definition all_created :: "sql_database \<Rightarrow> bool" where
  "all_created c \<longleftrightarrow> (\<forall>t columns key ref. CreateTableIfNotExists t columns key ref \<in> set create_tables \<longrightarrow> db_tables c t \<noteq> None)"

context sqlite_engine
begin

text \<open>Runs outside a transaction, each statement committed as it succeeds.\<close>

abbreviation auto_run ::
  "(sql_database \<Rightarrow> bool) \<Rightarrow> ('db, 'b) command \<Rightarrow> ('b result \<Rightarrow> sql_database \<Rightarrow> bool) \<Rightarrow> bool" where
  "auto_run \<equiv> tx_triple content (\<lambda>_. \<lparr>db_tables = Map.empty, db_version = 0\<rparr>)
     (\<lambda>db. \<not> open_tx db \<and> content db = committed db)"

lemma auto_statement:
  assumes "\<And>c n c'. P c \<Longrightarrow> sql_run s c = Some (n, c') \<Longrightarrow> R c'"
  shows "auto_run P (run_statement E (Inr s)) (when_ok R)"
proof (rule tx_tripleI)
  fix db r db'
  assume rest: "\<not> open_tx db \<and> content db = committed db" and P: "P (content db)"
    and run: "run_statement E (Inr s) db = (r, db')"
  obtain r1 db1 where started: "eng_execute E s db = (r1, db1)" by fastforce
  show "\<lparr>db_tables = Map.empty, db_version = 0\<rparr> = \<lparr>db_tables = Map.empty, db_version = 0\<rparr> \<and>
      ((\<exists>msg. r = Inl (Storage msg)) \<or> when_ok R r (content db') \<and>
        (\<forall>x. r = Inr x \<longrightarrow> \<not> open_tx db' \<and> content db' = committed db'))"
  proof (cases r1)
    case (Inl e)
    then have "r = Inl (map_sql_error E e)"
      using run started by (auto simp: run_statement_def execute_sql_def cmd_bind_def)
    then show ?thesis using execute_fault [OF started [unfolded Inl]] engine_fault_storage [of e E] by simp
  next
    case (Inr n)
    then have "r = Inr ()" "db' = db1"
      using run started by (auto simp: run_statement_def execute_sql_def cmd_bind_def)
    then show ?thesis
      using execute_law [OF started [unfolded Inr]] rest assms [OF P] by auto
  qed
qed

lemma auto_then:
  assumes "auto_run P m (when_ok R)" and "\<And>x. auto_run R (f x) Q"
  shows "auto_run P (cmd_bind m f) Q"
  by (rule tx_triple_bind [OF assms(1)]) (use assms(2) in simp_all)

lemma auto_if: "auto_run P m Q \<Longrightarrow> auto_run P m' Q \<Longrightarrow> auto_run P (if b then m else m') Q"
  by simp

lemma auto_each:
  assumes "\<And>x. x \<in> set xs \<Longrightarrow> auto_run P (f x) (when_ok P)"
  shows "auto_run P (cmd_each f xs) (when_ok P)"
  by (rule tx_triple_each [where I = "\<lambda>_. P", simplified]) (use assms in auto)

lemma columns_storage: "table_columns E t db = Inl e \<Longrightarrow> \<exists>m. e = Storage m"
  using columns_fault engine_fault_storage by (fastforce simp: table_columns_def map_err_def split: sum.splits)

lemma version_storage: "map_err E (eng_version E db) = Inl e \<Longrightarrow> \<exists>m. e = Storage m"
  using version_fault engine_fault_storage by (fastforce simp: map_err_def split: sum.splits)

text \<open>A read before a command.\<close>

lemma auto_after_read:
  assumes "\<And>db e. m db = Inl e \<Longrightarrow> \<exists>msg. e = Storage msg" and "\<And>x. auto_run P (f x) Q"
  shows "auto_run P (cmd_bind (cmd_read m) f) Q"
proof (rule tx_tripleI)
  fix db r db'
  assume db: "\<not> open_tx db \<and> content db = committed db" "P (content db)"
    and run: "cmd_bind (cmd_read m) f db = (r, db')"
  show "\<lparr>db_tables = Map.empty, db_version = 0\<rparr> = \<lparr>db_tables = Map.empty, db_version = 0\<rparr> \<and>
      ((\<exists>msg. r = Inl (Storage msg)) \<or> Q r (content db') \<and>
        (\<forall>x. r = Inr x \<longrightarrow> \<not> open_tx db' \<and> content db' = committed db'))"
  proof (cases "m db")
    case (Inl e)
    with run assms(1) [OF Inl] show ?thesis by auto
  next
    case (Inr x)
    with run have "f x db = (r, db')" by simp
    from tx_tripleD(2) [OF assms(2) db this] show ?thesis by simp
  qed
qed

abbreviation opened :: "sql_database \<Rightarrow> sql_database \<Rightarrow> bool" where
  "opened c0 c \<equiv> opening_from c0 c \<and> all_created c"

lemma add_column_run: "auto_run (opened c0) (add_column E present t col) (when_ok (opened c0))"
proof -
  have "auto_run (opened c0) (run_statement E (Inr (AlterTableAddColumn t col))) (when_ok (opened c0))"
  proof (rule auto_statement)
    fix c n c'
    assume c: "opened c0 c" and run: "sql_run (AlterTableAddColumn t col) c = Some (n, c')"
    then have "openable c" by (simp add: opening_from_def)
    note eff = run_alter [OF this run]
    have "db_tables c' u \<noteq> None" if "CreateTableIfNotExists u columns key ref \<in> set create_tables" for u columns key ref
      using that c eff(3) unfolding all_created_def by blast
    then show "opened c0 c'" using c eff(1,2) by (simp add: opening_from_def all_created_def)
  qed
  then show ?thesis by (auto simp: add_column_def intro: tx_triple_return)
qed

lemma version_run: "auto_run (opened c0) (run_statement E (Inr (SetUserVersion v))) (when_ok (opened c0))"
proof (rule auto_statement)
  fix c n c'
  assume c: "opened c0 c" and run: "sql_run (SetUserVersion v) c = Some (n, c')"
  note eff = run_version [OF run]
  show "opened c0 c'" using c by (simp add: opening_from_def all_created_def eff)
qed

lemma migrate_run:
  "auto_run (opened c0) (migrate_to_2 E) (when_ok (opened c0))"
  "auto_run (opened c0) (migrate_to_3 E) (when_ok (opened c0))"
proof -
  show "auto_run (opened c0) (migrate_to_2 E) (when_ok (opened c0))"
    unfolding migrate_to_2_def
    by (rule auto_after_read, rule columns_storage, assumption, (rule auto_then, rule add_column_run)+, rule version_run)
  show "auto_run (opened c0) (migrate_to_3 E) (when_ok (opened c0))"
    unfolding migrate_to_3_def
    by (rule auto_each, rule auto_after_read, rule columns_storage, assumption, rule add_column_run)
qed

lemma create_run:
  "auto_run (\<lambda>c. openable c \<and> table_rows c = table_rows c0) (cmd_each (\<lambda>st. run_statement E (Inr st)) initialize_batch)
     (when_ok (opened c0))"
proof -
  let ?I = "\<lambda>xs c. openable c \<and> table_rows c = table_rows c0 \<and>
    (\<forall>t columns key ref. CreateTableIfNotExists t columns key ref \<in> set xs \<longrightarrow> db_tables c t \<noteq> None)"
  have "auto_run (?I []) (cmd_each (\<lambda>st. run_statement E (Inr st)) initialize_batch) (when_ok (?I initialize_batch))"
  proof (rule tx_triple_each)
    fix xs st ys
    assume split: "initialize_batch = xs @ st # ys"
    have "st \<in> set initialize_batch" unfolding split by simp
    then consider name setting where "st = Pragma name setting"
      | t columns key ref where "st = CreateTableIfNotExists t columns key ref" "st \<in> set create_tables"
      by (auto simp: initialize_batch_def create_tables_def)
    then show "auto_run (?I xs) (run_statement E (Inr st)) (when_ok (?I (xs @ [st])))"
    proof cases
      case 1
      then show ?thesis by (intro auto_statement) auto
    next
      case 2
      show ?thesis
        unfolding 2(1)
      proof (rule auto_statement)
        fix c n c'
        assume c: "?I xs c" and run: "sql_run (CreateTableIfNotExists t columns key ref) c = Some (n, c')"
        note eff = run_create [OF _ 2(2) [unfolded 2(1)] run]
        show "?I (xs @ [CreateTableIfNotExists t columns key ref]) c'"
          using c eff by (auto simp del: sql_run.simps)
      qed
    qed
  qed
  then show ?thesis
    by (rule tx_triple_conseq) (auto simp: opening_from_def all_created_def initialize_batch_def split: sum.splits)
qed

lemma check_run:
  "auto_run (opened c0) (cmd_read (\<lambda>db. res_each (check_table E db) checked_tables))
     (when_ok (\<lambda>c. opened c0 c \<and> schema_ok c))"
proof (rule tx_tripleI)
  fix db r db'
  assume rest: "\<not> open_tx db \<and> content db = committed db" and c: "opened c0 (content db)"
    and run: "cmd_read (\<lambda>db. res_each (check_table E db) checked_tables) db = (r, db')"
  have r: "r = res_each (check_table E db) checked_tables" and db': "db' = db" using run by auto
  show "\<lparr>db_tables = Map.empty, db_version = 0\<rparr> = \<lparr>db_tables = Map.empty, db_version = 0\<rparr> \<and>
      ((\<exists>msg. r = Inl (Storage msg)) \<or> when_ok (\<lambda>c. opened c0 c \<and> schema_ok c) r (content db') \<and>
        (\<forall>x. r = Inr x \<longrightarrow> \<not> open_tx db' \<and> content db' = committed db'))"
  proof (cases r)
    case (Inl e)
    then show ?thesis using r by (auto simp: check_table_def dest!: res_each_Inl split: sum.splits)
  next
    case (Inr u)
    have "\<exists>tb. db_tables (content db) t = Some tb \<and> set columns \<subseteq> set (tb_columns tb)"
      if "(t, columns) \<in> set checked_tables" for t columns
    proof -
      have "check_table E db (t, columns) = Inr ()" using that Inr r by (auto simp: res_each_Inr)
      then obtain u where "eng_prepare E db \<lparr>q_columns = columns, q_from = t, q_where = None, q_order = []\<rparr> = Inr u"
        by (auto simp: check_table_def split: sum.splits)
      from prepare_law [OF this] show ?thesis by (auto simp: sql_select_def split: option.splits if_splits)
    qed
    then have "schema_ok (content db)"
      using c unfolding opening_from_def all_created_def by (intro checked_schema) blast+
    with Inr c rest db' show ?thesis by simp
  qed
qed

lemma initialize_run:
  assumes "rows_ok E c0" and "tick_readable c0"
  shows "auto_run (\<lambda>c. openable c \<and> table_rows c = table_rows c0) (initialize E)
    (when_ok (\<lambda>c. db_ok E c \<and> sql_ledger E c = opened_ledger E c0))"
proof -
  have version: "auto_run (\<lambda>c. opened c0 c \<and> schema_ok c) (run_statement E (Inr (SetUserVersion v)))
      (when_ok (\<lambda>c. opened c0 c \<and> schema_ok c))" for v
  proof (rule auto_statement)
    fix c n c'
    assume c: "opened c0 c \<and> schema_ok c" and run: "sql_run (SetUserVersion v) c = Some (n, c')"
    note eff = run_version [OF run]
    show "opened c0 c' \<and> schema_ok c'" using c by (simp add: opening_from_def all_created_def eff)
  qed
  have checked: "auto_run (opened c0) (cmd_bind (cmd_read (\<lambda>db. res_each (check_table E db) checked_tables))
      (\<lambda>_. run_statement E (Inr (SetUserVersion schema_version)))) (when_ok (\<lambda>c. opened c0 c \<and> schema_ok c))"
    by (rule auto_then [OF check_run version])
  have migrated: "auto_run (opened c0) (if b then m else cmd_return ()) (when_ok (opened c0))"
    if "auto_run (opened c0) m (when_ok (opened c0))" for b m
    using that by (auto intro: tx_triple_return)
  have ensured: "auto_run (opened c0) (ensure_current_schema E) (when_ok (\<lambda>c. opened c0 c \<and> schema_ok c))"
    unfolding ensure_current_schema_def
  proof (rule auto_after_read)
    show "\<exists>msg. e = Storage msg" if "map_err E (eng_version E db) = Inl e" for db e
      by (rule version_storage [OF that])
    fix v
    have refused: "auto_run (opened c0) (cmd_fail (Storage m)) (when_ok (\<lambda>c. opened c0 c \<and> schema_ok c))" for m
      by (auto simp: tx_triple_def)
    show "auto_run (opened c0) (if schema_version < v
        then cmd_fail (Storage (''unsupported sqlite schema version: '' @ show_nat (nat v)))
        else cmd_bind (if v < 2 then migrate_to_2 E else cmd_return ()) (\<lambda>_.
          cmd_bind (if v < 3 then migrate_to_3 E else cmd_return ()) (\<lambda>_.
          cmd_bind (cmd_read (\<lambda>db. res_each (check_table E db) checked_tables)) (\<lambda>_.
          run_statement E (Inr (SetUserVersion schema_version))))))
      (when_ok (\<lambda>c. opened c0 c \<and> schema_ok c))"
      by (rule auto_if [OF refused auto_then [OF migrated [OF migrate_run(1)]
        auto_then [OF migrated [OF migrate_run(2)] checked]]])
  qed
  have tick: "auto_run (\<lambda>c. opened c0 c \<and> schema_ok c)
      (run_statement E (Inr (InsertOrIgnore ''meta'' [(''key'', SqlText ''tick''), (''value'', SqlText ''0'')])))
      (when_ok (\<lambda>c. db_ok E c \<and> sql_ledger E c = opened_ledger E c0))"
  proof (rule auto_statement)
    fix c n c'
    assume c: "opened c0 c \<and> schema_ok c"
      and run: "sql_run (InsertOrIgnore ''meta'' [(''key'', SqlText ''tick''), (''value'', SqlText ''0'')]) c = Some (n, c')"
    have rows: "table_rows c = table_rows c0" using c by (simp add: opening_from_def)
    have "rows_ok E c" and "tick_readable c" and "opened_ledger E c = opened_ledger E c0"
      using assms by (simp_all add: same_rows [OF rows] tick_readable_def opened_ledger_def rows)
    then show "db_ok E c' \<and> sql_ledger E c' = opened_ledger E c0"
      using run_first_tick [where E = E, OF _ _ _ run] c by simp
  qed
  show ?thesis
    unfolding initialize_def by (rule auto_then [OF create_run auto_then [OF ensured tick]])
qed

text \<open>A connection that opened its database is a store at rest.\<close>

lemma initialize_opens:
  assumes "\<not> open_tx db" and "content db = committed db"
    and "openable (content db)" and "rows_ok E (content db)" and "tick_readable (content db)"
    and "ledger_wf (stored db)" and "initialize E db = (Inr (), db')"
  shows "at_rest db' \<and> stored db' = opened_ledger E (content db)"
proof -
  have rest: "\<not> open_tx db \<and> content db = committed db" using assms(1,2) by blast
  have P: "openable (content db) \<and> table_rows (content db) = table_rows (content db)" using assms(3) by simp
  have run: "(\<not> open_tx db' \<and> content db' = committed db') \<and> db_ok E (content db') \<and>
      stored db' = opened_ledger E (content db)"
    using tx_tripleD(2) [OF initialize_run [OF assms(4,5)] rest P assms(7)] by fastforce
  have "ledger_wf (opened_ledger E (content db))"
    using assms(6) by (simp add: opened_ledger_def ledger_wf_def)
  with run show ?thesis unfolding sql_inv_def by (metis (no_types, lifting))
qed

end

end
