(* ===== verification/Sqlite_Sessions.thy ===== *)
theory Sqlite_Sessions
  imports Sqlite_Opening Service_Safety
begin

text \<open>
  The life of a database file: it is created, used by a service, and opened again by a new process after
  the last one stopped or crashed. Opening a file that a store left keeps its ledger, a refused opening
  keeps its rows, and the service over SQLite stays safe across all of it. A crash is a connection that
  is lost at some call (\<open>crashing\<close>) and a restart.
\<close>

section \<open>Opening what a store left\<close>

definition settled :: "sql_database \<Rightarrow> sql_database \<Rightarrow> bool" where
  "settled c0 c \<longleftrightarrow> schema_ok c \<and> table_rows c = table_rows c0"

lemma settled_columns:
  assumes "schema_ok c"
  shows "''conflict_message'' \<in> set (case db_tables c ''utxos'' of None \<Rightarrow> [] | Some tb \<Rightarrow> tb_columns tb)"
    and "''conflict_recorded_at'' \<in> set (case db_tables c ''utxos'' of None \<Rightarrow> [] | Some tb \<Rightarrow> tb_columns tb)"
    and "t \<in> {''locks'', ''operations'', ''intents''} \<Longrightarrow>
      ''expires_at'' \<in> set (case db_tables c t of None \<Rightarrow> [] | Some tb \<Rightarrow> tb_columns tb)"
proof -
  have declared: "set columns \<subseteq> set (case db_tables c t of None \<Rightarrow> [] | Some tb \<Rightarrow> tb_columns tb)"
    if "CreateTableIfNotExists t columns key ref \<in> set create_tables" for t columns key ref
    using assms that by (force simp: schema_ok_def)
  show "''conflict_message'' \<in> set (case db_tables c ''utxos'' of None \<Rightarrow> [] | Some tb \<Rightarrow> tb_columns tb)"
    and "''conflict_recorded_at'' \<in> set (case db_tables c ''utxos'' of None \<Rightarrow> [] | Some tb \<Rightarrow> tb_columns tb)"
    using declared [of "''utxos''" utxo_columns "[''outpoint'']" None] by (simp_all add: create_tables_def)
  show "''expires_at'' \<in> set (case db_tables c t of None \<Rightarrow> [] | Some tb \<Rightarrow> tb_columns tb)"
    if "t \<in> {''locks'', ''operations'', ''intents''}"
    using that declared [of "''locks''" lock_columns "[''outpoint'']" None]
      declared [of "''operations''" operation_columns "[''operation_id'']" None]
      declared [of "''intents''" intent_columns "[''operation_id'']" None]
    by (auto simp: create_tables_def)
qed

context sqlite_engine
begin

lemma auto_read_then:
  assumes "\<And>db e. m db = Inl e \<Longrightarrow> \<exists>msg. e = Storage msg"
    and "\<And>db x. P (content db) \<Longrightarrow> m db = Inr x \<Longrightarrow> auto_run P (f x) Q"
  shows "auto_run P (cmd_bind (cmd_read m) f) Q"
proof (rule tx_tripleI)
  fix db r db'
  assume db: "\<not> open_tx db \<and> content db = committed db" "P (content db)"
    and run: "cmd_bind (cmd_read m) f db = (r, db')"
  show "\<lparr>db_tables = Map.empty, db_version = 0\<rparr> = \<lparr>db_tables = Map.empty, db_version = 0\<rparr> \<and>
      ((\<exists>msg. r = Inl (Storage msg)) \<or> Q r (content db') \<and>
        (\<forall>x. r = Inr x \<longrightarrow> \<not> open_tx db' \<and> content db' = committed db'))"
  proof (cases "m db")
    case (Inl e)
    with run assms(1) [OF Inl] show ?thesis by auto
  next
    case (Inr x)
    with run have "f x db = (r, db')" by simp
    from tx_tripleD(2) [OF assms(2) [OF db(2) Inr] db this] show ?thesis by simp
  qed
qed

lemma check_storage: "res_each (check_table E db) ts = Inl e \<Longrightarrow> \<exists>msg. e = Storage msg"
  by (auto simp: check_table_def dest!: res_each_Inl split: sum.splits)

lemma settled_columns_read:
  assumes "settled c0 (content db)" and "table_columns E t db = Inr columns"
  shows "t = ''utxos'' \<Longrightarrow> ''conflict_message'' \<in> set columns \<and> ''conflict_recorded_at'' \<in> set columns"
    and "t \<in> {''locks'', ''operations'', ''intents''} \<Longrightarrow> ''expires_at'' \<in> set columns"
proof -
  have "eng_columns E db t = Inr columns" using assms(2) by (simp add: table_columns_def)
  from columns_law [OF this] have columns: "columns = (case db_tables (content db) t of None \<Rightarrow> [] | Some tb \<Rightarrow> tb_columns tb)" .
  have schema: "schema_ok (content db)" using assms(1) by (simp add: settled_def)
  show "t = ''utxos'' \<Longrightarrow> ''conflict_message'' \<in> set columns \<and> ''conflict_recorded_at'' \<in> set columns"
    and "t \<in> {''locks'', ''operations'', ''intents''} \<Longrightarrow> ''expires_at'' \<in> set columns"
    unfolding columns using settled_columns(1,2) [OF schema] by blast (rule settled_columns(3) [OF schema])
qed

lemma settled_version: "auto_run (settled c0) (run_statement E (Inr (SetUserVersion v))) (when_ok (settled c0))"
proof (rule auto_statement)
  fix c n c'
  assume c: "settled c0 c" and run: "sql_run (SetUserVersion v) c = Some (n, c')"
  from c run_version(2,4) [OF run] show "settled c0 c'" by (simp add: settled_def)
qed

lemma settled_create:
  "auto_run (settled c0) (cmd_each (\<lambda>st. run_statement E (Inr st)) initialize_batch) (when_ok (settled c0))"
proof (rule auto_each, rule auto_statement)
  fix st c n c'
  assume st: "st \<in> set initialize_batch" and c: "settled c0 c" and run: "sql_run st c = Some (n, c')"
  from st consider name setting where "st = Pragma name setting"
    | t columns key ref where "st = CreateTableIfNotExists t columns key ref" "st \<in> set create_tables"
    by (auto simp: initialize_batch_def create_tables_def)
  then have "c' = c"
  proof cases
    case 1
    with run show ?thesis by simp
  next
    case 2
    have "declared c st" using c st 2 unfolding settled_def schema_ok_def by blast
    then show ?thesis using run by (auto simp: 2(1))
  qed
  with c show "settled c0 c'" by simp
qed

lemma settled_migrate:
  "auto_run (settled c0) (migrate_to_2 E) (when_ok (settled c0))"
  "auto_run (settled c0) (migrate_to_3 E) (when_ok (settled c0))"
proof -
  show "auto_run (settled c0) (migrate_to_2 E) (when_ok (settled c0))"
    unfolding migrate_to_2_def
  proof (rule auto_read_then)
    fix db columns
    assume "settled c0 (content db)" and "table_columns E ''utxos'' db = Inr columns"
    moreover have "cmd_bind (cmd_return ()) f = f ()" for f :: "unit \<Rightarrow> ('db, unit) command"
      by (simp add: fun_eq_iff cmd_bind_def)
    ultimately
    show "auto_run (settled c0) (cmd_bind (add_column E columns ''utxos'' ''conflict_message'') (\<lambda>_.
        cmd_bind (add_column E columns ''utxos'' ''conflict_recorded_at'') (\<lambda>_.
        run_statement E (Inr (SetUserVersion 2))))) (when_ok (settled c0))"
      using settled_columns_read(1) settled_version [of c0 2] by (simp add: add_column_def)
  qed (rule columns_storage)
  show "auto_run (settled c0) (migrate_to_3 E) (when_ok (settled c0))"
    unfolding migrate_to_3_def
  proof (rule auto_each, rule auto_read_then)
    fix t db columns
    assume "t \<in> set [''locks'', ''operations'', ''intents'']" and "settled c0 (content db)"
      and "table_columns E t db = Inr columns"
    then have "''expires_at'' \<in> set columns" using settled_columns_read(2) by fastforce
    then show "auto_run (settled c0) (add_column E columns t ''expires_at'') (when_ok (settled c0))"
      by (auto simp: add_column_def intro: tx_triple_return)
  qed (rule columns_storage)
qed

lemma settled_ensure: "auto_run (settled c0) (ensure_current_schema E) (when_ok (settled c0))"
  unfolding ensure_current_schema_def
proof (rule auto_after_read)
  show "\<exists>msg. e = Storage msg" if "map_err E (eng_version E db) = Inl e" for db e
    by (rule version_storage [OF that])
  fix v
  have migrated: "auto_run (settled c0) (if b then m else cmd_return ()) (when_ok (settled c0))"
    if "auto_run (settled c0) m (when_ok (settled c0))" for b m
    using that by (auto intro: tx_triple_return)
  have checked: "auto_run (settled c0) (cmd_bind (cmd_read (\<lambda>db. res_each (check_table E db) checked_tables))
      (\<lambda>_. run_statement E (Inr (SetUserVersion schema_version)))) (when_ok (settled c0))"
    by (rule auto_after_read [OF check_storage settled_version])
  have refused: "auto_run (settled c0) (cmd_fail (Storage m)) (when_ok (settled c0))" for m
    by (auto simp: tx_triple_def)
  show "auto_run (settled c0) (if schema_version < v
      then cmd_fail (Storage (''unsupported sqlite schema version: '' @ show_nat (nat v)))
      else cmd_bind (if v < 2 then migrate_to_2 E else cmd_return ()) (\<lambda>_.
        cmd_bind (if v < 3 then migrate_to_3 E else cmd_return ()) (\<lambda>_.
        cmd_bind (cmd_read (\<lambda>db. res_each (check_table E db) checked_tables)) (\<lambda>_.
        run_statement E (Inr (SetUserVersion schema_version))))))
    (when_ok (settled c0))"
    by (rule auto_if [OF refused auto_then [OF migrated [OF settled_migrate(1)]
      auto_then [OF migrated [OF settled_migrate(2)] checked]]])
qed

lemma reopen_run:
  assumes "db_ok E c0"
  shows "auto_run (settled c0) (initialize E) (when_ok (\<lambda>c. db_ok E c \<and> sql_ledger E c = sql_ledger E c0))"
proof -
  have "auto_run (settled c0)
      (run_statement E (Inr (InsertOrIgnore ''meta'' [(''key'', SqlText ''tick''), (''value'', SqlText ''0'')])))
      (when_ok (\<lambda>c. db_ok E c \<and> sql_ledger E c = sql_ledger E c0))"
  proof (rule auto_statement)
    fix c n c'
    assume c: "settled c0 c"
      and run: "sql_run (InsertOrIgnore ''meta'' [(''key'', SqlText ''tick''), (''value'', SqlText ''0'')]) c = Some (n, c')"
    have rows: "table_rows c = table_rows c0" and schema: "schema_ok c" using c by (simp_all add: settled_def)
    have "rows_ok E c" and "stored_tick c \<noteq> None"
      using assms same_rows(1) [OF rows, where E = E] same_rows(2) [OF rows] by (simp_all add: db_ok_rows)
    moreover from this have "tick_readable c" and "opened_ledger E c = sql_ledger E c"
      by (auto simp: tick_readable_def opened_ledger_def)
    ultimately show "db_ok E c' \<and> sql_ledger E c' = sql_ledger E c0"
      using run_first_tick [where E = E, OF schema _ _ run] same_rows(3) [OF rows, where E = E]
      by simp
  qed
  then show ?thesis
    unfolding initialize_def by (rule auto_then [OF settled_create auto_then [OF settled_ensure]])
qed

lemma reopen_keeps:
  assumes "at_rest db" and "initialize E db = (Inr (), db')"
  shows "at_rest db' \<and> stored db' = stored db"
proof -
  have ok: "db_ok E (content db)" and rest: "\<not> open_tx db \<and> content db = committed db"
    and wf: "ledger_wf (stored db)"
    using assms(1) unfolding sql_inv_def by blast+
  have "settled (content db) (content db)" using db_okD(1) [OF ok] by (simp add: settled_def)
  from tx_tripleD(2) [OF reopen_run [OF ok] rest this assms(2)] wf
  show ?thesis unfolding sql_inv_def by fastforce
qed

text \<open>An opening that fails reports a storage error and leaves every row; one that succeeds sets the version.\<close>

abbreviation same_file :: "sql_database \<Rightarrow> 'db \<Rightarrow> bool" where
  "same_file c0 db \<equiv> \<not> open_tx db \<and> content db = committed db \<and> opening_from c0 (content db)"

lemma keeps_statement:
  assumes "\<And>c n c'. opening_from c0 c \<Longrightarrow> sql_run s c = Some (n, c') \<Longrightarrow> opening_from c0 c'"
  shows "keeps (same_file c0) (run_statement E (Inr s))"
proof (rule keepsI)
  fix db r db'
  assume db: "same_file c0 db" and run: "run_statement E (Inr s) db = (r, db')"
  obtain r1 db1 where started: "eng_execute E s db = (r1, db1)" by fastforce
  then have db': "db' = db1"
    using run by (cases r1) (auto simp: run_statement_def execute_sql_def cmd_bind_def)
  show "same_file c0 db'"
  proof (cases r1)
    case (Inl e)
    with execute_fault [OF started [unfolded Inl]] db db' show ?thesis by auto
  next
    case (Inr n)
    with execute_law [OF started [unfolded Inr]] db db' assms show ?thesis by auto
  qed
qed

lemma keeps_add_column: "keeps (same_file c0) (add_column E present t c)"
proof -
  have "keeps (same_file c0) (run_statement E (Inr (AlterTableAddColumn t c)))"
    by (rule keeps_statement) (auto simp: opening_from_def simp del: sql_run.simps dest: run_alter)
  then show ?thesis by (simp add: add_column_def)
qed

lemma keeps_version: "keeps (same_file c0) (run_statement E (Inr (SetUserVersion v)))"
  by (rule keeps_statement) (auto simp: opening_from_def simp del: sql_run.simps dest: run_version)

lemma keeps_create:
  "keeps (same_file c0) (cmd_each (\<lambda>st. run_statement E (Inr st)) initialize_batch)"
proof (rule keeps_each, rule keeps_statement)
  fix st c n c'
  assume st: "st \<in> set initialize_batch" and c: "opening_from c0 c" and run: "sql_run st c = Some (n, c')"
  from st consider name setting where "st = Pragma name setting"
    | t columns key ref where "st = CreateTableIfNotExists t columns key ref" "st \<in> set create_tables"
    by (auto simp: initialize_batch_def create_tables_def)
  then show "opening_from c0 c'"
  proof cases
    case 1
    with run c show ?thesis by simp
  next
    case 2
    with c run show ?thesis by (auto simp: opening_from_def simp del: sql_run.simps dest: run_create)
  qed
qed

lemma keeps_ensure: "keeps (same_file c0) (ensure_current_schema E)"
  unfolding ensure_current_schema_def migrate_to_2_def migrate_to_3_def
  by (intro keeps_bind keeps_basic(3) impI keeps_each) (auto intro!: keeps_bind keeps_add_column keeps_version keeps_each)

lemma initialize_refused:
  assumes "\<not> open_tx db" and "content db = committed db" and "openable (content db)"
    and "initialize E db = (Inl e, db')"
  shows "table_rows (content db') = table_rows (content db)"
proof -
  let ?c0 = "content db"
  have start: "same_file ?c0 db" using assms(1-3) by (simp add: opening_from_def)
  obtain r1 db1 where created: "cmd_each (\<lambda>st. run_statement E (Inr st)) initialize_batch db = (r1, db1)" by fastforce
  obtain r2 db2 where ensured: "ensure_current_schema E db1 = (r2, db2)" by fastforce
  have one: "same_file ?c0 db1" by (rule keepsD [OF keeps_create start created])
  have two: "same_file ?c0 db2" by (rule keepsD [OF keeps_ensure one ensured])
  consider "r1 = Inl e" "db' = db1" | "r2 = Inl e" "db' = db2" | "run_statement E (Inr (InsertOrIgnore ''meta''
      [(''key'', SqlText ''tick''), (''value'', SqlText ''0'')])) db2 = (Inl e, db')"
    using assms(4) created ensured by (cases r1; cases r2) (auto simp: initialize_def cmd_bind_run)
  then show ?thesis
  proof cases
    case 1
    with one show ?thesis unfolding opening_from_def by blast
  next
    case 2
    with two show ?thesis unfolding opening_from_def by blast
  next
    case 3
    obtain r3 db3 where started: "eng_execute E (InsertOrIgnore ''meta''
      [(''key'', SqlText ''tick''), (''value'', SqlText ''0'')]) db2 = (r3, db3)" by fastforce
    with 3 have "db' = db3" and "\<exists>e. r3 = Inl e"
      by (cases r3; auto simp: run_statement_def execute_sql_def cmd_bind_def)+
    then show ?thesis using execute_fault started two by (auto simp: opening_from_def)
  qed
qed

text \<open>Statements whose effect on the contents does not matter.\<close>

lemma auto_any: "auto_run (\<lambda>_. True) (run_statement E (Inr s)) (when_ok (\<lambda>_. True))"
  by (rule auto_statement) simp

lemma any_migration:
  "auto_run (\<lambda>_. True) (migrate_to_2 E) (when_ok (\<lambda>_. True))"
  "auto_run (\<lambda>_. True) (migrate_to_3 E) (when_ok (\<lambda>_. True))"
proof -
  have add: "auto_run (\<lambda>_. True) (add_column E present t c) (when_ok (\<lambda>_. True))" for present t c
    using auto_any by (auto simp: add_column_def intro: tx_triple_return)
  show "auto_run (\<lambda>_. True) (migrate_to_2 E) (when_ok (\<lambda>_. True))"
    unfolding migrate_to_2_def by (rule auto_after_read [OF columns_storage auto_then [OF add auto_then [OF add auto_any]]])
  show "auto_run (\<lambda>_. True) (migrate_to_3 E) (when_ok (\<lambda>_. True))"
    unfolding migrate_to_3_def by (rule auto_each, rule auto_after_read [OF columns_storage add])
qed

lemma create_version:
  "st \<in> set initialize_batch \<Longrightarrow> sql_run st c = Some (n, c') \<Longrightarrow> db_version c' = db_version c"
  by (auto simp: initialize_batch_def create_tables_def split: option.splits)

lemma initialize_version:
  "auto_run (\<lambda>c. db_version c = v) (initialize E) (when_ok (\<lambda>c. v \<le> schema_version \<and> db_version c = schema_version))"
proof -
  let ?Q = "\<lambda>c. v \<le> schema_version \<and> db_version c = schema_version"
  have create: "auto_run (\<lambda>c. db_version c = v)
      (cmd_each (\<lambda>st. run_statement E (Inr st)) initialize_batch) (when_ok (\<lambda>c. db_version c = v))"
    by (rule auto_each, rule auto_statement) (simp add: create_version)
  have set: "auto_run (\<lambda>_. True) (run_statement E (Inr (SetUserVersion schema_version)))
      (when_ok (\<lambda>c. db_version c = schema_version))"
    by (rule auto_statement) auto
  have step: "auto_run (\<lambda>_. True) (if b then m else cmd_return ()) (when_ok (\<lambda>_. True))"
    if "auto_run (\<lambda>_. True) m (when_ok (\<lambda>_. True))" for b m
    using that by (auto intro: tx_triple_return)
  have ensure: "auto_run (\<lambda>c. db_version c = v) (ensure_current_schema E) (when_ok ?Q)"
    unfolding ensure_current_schema_def
  proof (rule auto_read_then)
    fix db x
    assume v: "db_version (content db) = v" and x: "map_err E (eng_version E db) = Inr x"
    have "x = v" using version_law x v by simp
    show "auto_run (\<lambda>c. db_version c = v) (if schema_version < x
        then cmd_fail (Storage (''unsupported sqlite schema version: '' @ show_nat (nat x)))
        else cmd_bind (if x < 2 then migrate_to_2 E else cmd_return ()) (\<lambda>_.
          cmd_bind (if x < 3 then migrate_to_3 E else cmd_return ()) (\<lambda>_.
          cmd_bind (cmd_read (\<lambda>db. res_each (check_table E db) checked_tables)) (\<lambda>_.
          run_statement E (Inr (SetUserVersion schema_version))))))
      (when_ok ?Q)"
    proof (cases "schema_version < x")
      case True
      then show ?thesis by (auto simp: tx_triple_def)
    next
      case False
      have "auto_run (\<lambda>_. True) (cmd_bind (if x < 2 then migrate_to_2 E else cmd_return ()) (\<lambda>_.
          cmd_bind (if x < 3 then migrate_to_3 E else cmd_return ()) (\<lambda>_.
          cmd_bind (cmd_read (\<lambda>db. res_each (check_table E db) checked_tables)) (\<lambda>_.
          run_statement E (Inr (SetUserVersion schema_version)))))) (when_ok (\<lambda>c. db_version c = schema_version))"
        by (rule auto_then [OF step [OF any_migration(1)] auto_then [OF step [OF any_migration(2)]
          auto_after_read [OF check_storage set]]])
      with False \<open>x = v\<close> show ?thesis by (auto elim!: tx_triple_conseq split: sum.splits)
    qed
  qed (rule version_storage)
  have tick: "auto_run ?Q (run_statement E (Inr (InsertOrIgnore ''meta''
      [(''key'', SqlText ''tick''), (''value'', SqlText ''0'')]))) (when_ok ?Q)"
    by (rule auto_statement) (auto simp: Let_def set_rows_def split: option.splits if_splits)
  show ?thesis
    unfolding initialize_def by (rule auto_then [OF create auto_then [OF ensure tick]])
qed

end

section \<open>Crashes\<close>

text \<open>
  A connection that is lost after a number of calls: from then on every call fails, and what was not
  committed is gone. A crash of the process is such a loss and a restart; the connection keeps the laws,
  so what is proved of the service covers a crash at any call of the driver.
\<close>

definition connection_lost :: sql_error where
  "connection_lost = EngineFailure ''connection lost''"

definition until_lost :: "('db, sql_error, 'a) cmd \<Rightarrow> ('db \<times> nat, sql_error, 'a) cmd" where
  "until_lost m c =
     (if snd c = 0 then (Inl connection_lost, c)
      else case m (fst c) of (r, db) \<Rightarrow> (r, (db, snd c - 1)))"

definition unless_lost :: "('db \<Rightarrow> sql_error + 'a) \<Rightarrow> 'db \<times> nat \<Rightarrow> sql_error + 'a" where
  "unless_lost g c = (if snd c = 0 then Inl connection_lost else g (fst c))"

definition crashing :: "'db sql_engine \<Rightarrow> ('db \<times> nat) sql_engine" where
  "crashing E =
     \<lparr>eng_execute = (\<lambda>st. until_lost (eng_execute E st)), eng_query = (\<lambda>c q. unless_lost (\<lambda>db. eng_query E db q) c),
      eng_begin = until_lost (eng_begin E), eng_commit = until_lost (eng_commit E),
      eng_rollback = (\<lambda>c. (eng_rollback E (fst c), snd c)), eng_version = unless_lost (eng_version E),
      eng_columns = (\<lambda>c t. unless_lost (\<lambda>db. eng_columns E db t) c),
      eng_prepare = (\<lambda>c q. unless_lost (\<lambda>db. eng_prepare E db q) c),
      eng_show = eng_show E, eng_quote = eng_quote E\<rparr>"

lemma unless_lost_eq:
  "unless_lost g c = Inr x \<Longrightarrow> g (fst c) = Inr x"
  "unless_lost g c = Inl e \<Longrightarrow> engine_fault e \<or> g (fst c) = Inl e"
  by (auto simp: unless_lost_def connection_lost_def split: if_splits)

lemma until_lost_Inr: "until_lost m c = (Inr x, c') \<Longrightarrow> m (fst c) = (Inr x, fst c')"
  by (auto simp: until_lost_def split: if_splits prod.splits)

lemma until_lost_Inl:
  assumes "until_lost m c = (Inl e, c')"
  obtains "engine_fault e" and "fst c' = fst c" | "m (fst c) = (Inl e, fst c')"
  using assms by (auto simp: until_lost_def connection_lost_def split: if_splits prod.splits)

context sqlite_engine
begin

lemma crashing_laws:
  "sqlite_engine (crashing E) (\<lambda>c. content (fst c)) (\<lambda>c. committed (fst c)) (\<lambda>c. open_tx (fst c))"
  apply unfold_locales
  unfolding crashing_def sql_engine.simps
  subgoal by (rule query_law [OF unless_lost_eq(1)])
  subgoal by (drule unless_lost_eq(2)) (blast intro: query_fault)
  subgoal by (rule version_law [OF unless_lost_eq(1)])
  subgoal by (drule unless_lost_eq(2)) (blast intro: version_fault)
  subgoal by (rule columns_law [OF unless_lost_eq(1)])
  subgoal by (drule unless_lost_eq(2)) (blast intro: columns_fault)
  subgoal by (rule prepare_law [OF unless_lost_eq(1)])
  subgoal by (rule execute_law [OF until_lost_Inr])
  subgoal by (erule until_lost_Inl) (simp, blast dest: execute_fault)
  subgoal by (rule begin_law [OF _ until_lost_Inr])
  subgoal by (erule until_lost_Inl) (simp, blast dest: begin_fault)
  subgoal by (rule commit_law [OF _ until_lost_Inr])
  subgoal by (erule until_lost_Inl) (simp, blast dest: commit_fault)
  subgoal using rollback_law by simp
  done

end

interpretation crashing_plain: sqlite_engine "crashing plain_engine" "\<lambda>c. pc_content (fst c)"
  "\<lambda>c. pc_committed (fst c)" "\<lambda>c. pc_open (fst c)"
  by (rule plain.crashing_laws)

section \<open>Files in use\<close>

text \<open>A store opened on an empty database.\<close>

definition sqlite_created ::
  "'db sql_engine \<Rightarrow> ('db \<Rightarrow> sql_database) \<Rightarrow> ('db \<Rightarrow> sql_database) \<Rightarrow> ('db \<Rightarrow> bool) \<Rightarrow> 'db \<Rightarrow> bool" where
  "sqlite_created E content committed open_tx db \<longleftrightarrow>
     (\<exists>db0. \<not> open_tx db0 \<and> content db0 = committed db0 \<and> db_tables (content db0) = Map.empty \<and>
        initialize E db0 = (Inr (), db))"

text \<open>
  The states of a service over one file: on a new file; after any step of the service; and in a new
  process, whose connection sees what the last one had committed.
\<close>

inductive sqlite_reachable ::
  "'db sql_engine \<Rightarrow> ('db \<Rightarrow> sql_database) \<Rightarrow> ('db \<Rightarrow> sql_database) \<Rightarrow> ('db \<Rightarrow> bool) \<Rightarrow> dependencies \<Rightarrow>
   'db service \<Rightarrow> bool"
  for E content committed open_tx dp where
  file_created: "sqlite_created E content committed open_tx db \<Longrightarrow>
    sqlite_reachable E content committed open_tx dp (service_with_store db)"
| service_stepped: "sqlite_reachable E content committed open_tx dp sv \<Longrightarrow>
    service_step (sqlite_ops E) dp sv sv' \<Longrightarrow> sqlite_reachable E content committed open_tx dp sv'"
| process_restarted: "sqlite_reachable E content committed open_tx dp sv \<Longrightarrow>
    \<not> open_tx db \<Longrightarrow> content db = committed db \<Longrightarrow>
    content db = committed (orch_store (sv_orchestrator sv)) \<Longrightarrow> initialize E db = (Inr (), db') \<Longrightarrow>
    sqlite_reachable E content committed open_tx dp (service_with_store db')"

definition sqlite_view :: "'db sql_engine \<Rightarrow> ('db \<Rightarrow> sql_database) \<Rightarrow> 'db service \<Rightarrow> ledger" where
  "sqlite_view E content sv = service_ledger (\<lambda>db. sql_ledger E (content db)) sv"

lemma empty_rows: "db_tables c = Map.empty \<Longrightarrow> table_rows c t = []"
  by (simp add: table_rows_def)

lemma empty_database:
  assumes "db_tables c = Map.empty"
  shows "openable c" and "rows_ok E c" and "tick_readable c" and "opened_ledger E c = mem_ledger memory_default"
proof -
  have "openable_table c st" for st by (cases st) (simp_all add: assms)
  then show "openable c" by (simp add: openable_def cascades_ok_def rows_declared_def assms)
  show "rows_ok E c" and "tick_readable c"
    by (simp_all add: rows_ok_def tick_readable_def empty_rows [OF assms])
  have "stored_tick c = None" by (simp add: stored_tick_def empty_rows [OF assms])
  then show "opened_ledger E c = mem_ledger memory_default"
    by (simp add: opened_ledger_def sql_ledger_def mem_ledger_def memory_default_def by_outpoint_def
        empty_rows [OF assms] fun_eq_iff)
qed

context sqlite_engine
begin

lemma created_at_rest:
  assumes "sqlite_created E content committed open_tx db"
  shows "at_rest db" and "stored db = mem_ledger memory_default"
proof -
  obtain db0 where db0: "\<not> open_tx db0" "content db0 = committed db0" "db_tables (content db0) = Map.empty"
    and run: "initialize E db0 = (Inr (), db)"
    using assms unfolding sqlite_created_def by blast
  note blank = empty_database [OF db0(3)]
  have "ledger_wf (opened_ledger E (content db0))"
    using ledger_ok_empty by (simp add: blank(4) ledger_ok_def)
  then have "ledger_wf (stored db0)" by (simp add: opened_ledger_def ledger_wf_def split: if_splits)
  from initialize_opens [OF db0(1,2) blank(1-3) this run] blank(4)
  show "at_rest db" and "stored db = mem_ledger memory_default" by simp_all
qed

text \<open>What \<open>open\<close> hands out is a store at rest with the ledger the file had.\<close>

lemma open_hands_out:
  assumes "sqlite_open E (Inr conn) = Inr db" and "at_rest conn"
  shows "at_rest db" and "stored db = stored conn"
proof -
  have "initialize E conn = (Inr (), db)"
    using assms(1) by (auto simp: sqlite_open_def map_err_def split: prod.splits sum.splits)
  with reopen_keeps [OF assms(2) this] show "at_rest db" and "stored db = stored conn" by blast+
qed

text \<open>A new database in memory is an empty ledger.\<close>

lemma open_in_memory_empty:
  assumes "sqlite_open_in_memory E (Inr conn) = Inr db"
    and "\<not> open_tx conn" and "content conn = committed conn" and "db_tables (content conn) = Map.empty"
  shows "at_rest db" and "stored db = mem_ledger memory_default"
proof -
  have "initialize E conn = (Inr (), db)"
    using assms(1) by (auto simp: sqlite_open_in_memory_def map_err_def split: prod.splits sum.splits)
  with assms(2-4) have "sqlite_created E content committed open_tx db" unfolding sqlite_created_def by blast
  from created_at_rest [OF this] show "at_rest db" and "stored db = mem_ledger memory_default" by blast+
qed

text \<open>A restart: the new connection sees what the last one committed.\<close>

lemma restart_keeps:
  assumes "service_ok at_rest (\<lambda>db. stored db) sv" and "\<not> open_tx db" and "content db = committed db"
    and "content db = committed (orch_store (sv_orchestrator sv))" and "initialize E db = (Inr (), db')"
  shows "service_ok at_rest (\<lambda>db. stored db) (service_with_store db')"
    and "sqlite_view E content (service_with_store db') = sqlite_view E content sv"
proof -
  let ?last = "orch_store (sv_orchestrator sv)"
  have last: "at_rest ?last" and ok: "ledger_ok (stored ?last)"
    using assms(1) by (simp_all add: service_ok_def orch_ok_def store_ok_def)
  have same: "content db = content ?last" using last assms(4) unfolding sql_inv_def by metis
  then have "at_rest db" using last assms(2,3) unfolding sql_inv_def by metis
  note kept = reopen_keeps [OF this assms(5)]
  from kept ok same show "service_ok at_rest (\<lambda>db. stored db) (service_with_store db')"
    by (simp add: service_ok_def orch_ok_def store_ok_def service_with_store_def orch_with_store_def)
  from kept same show "sqlite_view E content (service_with_store db') = sqlite_view E content sv"
    by (simp add: sqlite_view_def service_ledger_def orch_ledger_def service_with_store_def orch_with_store_def)
qed

lemma reachable_at_rest:
  "sqlite_reachable E content committed open_tx dp sv \<Longrightarrow>
    service_ok at_rest (\<lambda>db. stored db) sv"
proof (induction rule: sqlite_reachable.induct)
  case (file_created db)
  from created_at_rest [OF this] ledger_ok_empty
  show ?case by (simp add: service_ok_def orch_ok_def store_ok_def service_with_store_def orch_with_store_def)
next
  case (service_stepped sv sv')
  with sqlite.service_step_safe show ?case by blast
next
  case (process_restarted sv db db')
  then show ?case by (rule_tac restart_keeps(1))
qed

end

lemma sqlite_reachable_ledger:
  assumes "sqlite_engine E content committed open_tx" and "sqlite_reachable E content committed open_tx dp sv"
  shows "ledger_ok (sqlite_view E content sv)"
  using sqlite_engine.reachable_at_rest [OF assms]
  by (simp add: service_ok_def orch_ok_def store_ok_def sqlite_view_def service_ledger_def orch_ledger_def)

end
