(* ===== verification/Sqlite_Demo.thy ===== *)
theory Sqlite_Demo
  imports Sqlite_Sessions Store_Calls Demo
begin

text \<open>
  The SQLite backend on the connection that never fails: a new file, and on it the run of the service
  that the other witnesses make on the memory backend, up to the plan.
\<close>

section \<open>Files\<close>

text \<open>A file of the current schema with the given rows, in the order the tables are created.\<close>

definition plain_file ::
  "sql_row list \<Rightarrow> sql_row list \<Rightarrow> sql_row list \<Rightarrow> sql_row list \<Rightarrow> sql_row list \<Rightarrow> sql_row list \<Rightarrow>
   sql_row list \<Rightarrow> sql_row list \<Rightarrow> sql_row list \<Rightarrow> sql_database" where
  "plain_file m a s u l x n ni ne = \<lparr>db_tables = map_of
     [(''meta'', \<lparr>tb_columns = [''key'', ''value''], tb_key = [''key''], tb_reference = None, tb_rows = m\<rparr>),
      (''accounts'', \<lparr>tb_columns = [''account_id'', ''name'', ''capabilities''], tb_key = [''account_id''],
         tb_reference = None, tb_rows = a\<rparr>),
      (''scopes'', \<lparr>tb_columns = [''scope_id'', ''account_id'', ''descriptor_ref'', ''derivation_scope'',
         ''capabilities'', ''priority''], tb_key = [''scope_id''], tb_reference = Some account_reference, tb_rows = s\<rparr>),
      (''utxos'', \<lparr>tb_columns = utxo_columns, tb_key = [''outpoint''], tb_reference = None, tb_rows = u\<rparr>),
      (''locks'', \<lparr>tb_columns = lock_columns, tb_key = [''outpoint''], tb_reference = None, tb_rows = l\<rparr>),
      (''operations'', \<lparr>tb_columns = operation_columns, tb_key = [''operation_id''], tb_reference = None, tb_rows = x\<rparr>),
      (''intents'', \<lparr>tb_columns = intent_columns, tb_key = [''operation_id''], tb_reference = None, tb_rows = n\<rparr>),
      (''intent_inputs'', \<lparr>tb_columns = [''operation_id'', ''position'', ''outpoint''],
         tb_key = [''operation_id'', ''position''], tb_reference = Some intent_reference, tb_rows = ni\<rparr>),
      (''intent_effects'', \<lparr>tb_columns = [''operation_id'', ''position'', ''effect_kind'', ''outpoint'', ''purpose''],
         tb_key = [''operation_id'', ''position''], tb_reference = Some intent_reference, tb_rows = ne\<rparr>)],
     db_version = 3\<rparr>"

definition plain_rest :: "sql_database \<Rightarrow> plain_connection" where
  "plain_rest c = \<lparr>pc_content = c, pc_committed = c, pc_open = False\<rparr>"

definition blank_database :: sql_database where
  "blank_database = \<lparr>db_tables = Map.empty, db_version = 0\<rparr>"

definition tick_at :: "nat \<Rightarrow> sql_row" where
  "tick_at k = row_of [(''key'', SqlText ''tick''), (''value'', SqlText (show_nat k))]"

definition plain_opened :: plain_connection where
  "plain_opened = plain_rest (plain_file [tick_at 0] [] [] [] [] [] [] [] [])"

lemma plain_file_tables [simp]:
  "db_tables (plain_file m a s u l x n ni ne) ''meta'' = Some \<lparr>tb_columns = [''key'', ''value''],
     tb_key = [''key''], tb_reference = None, tb_rows = m\<rparr>"
  "db_tables (plain_file m a s u l x n ni ne) ''accounts'' = Some \<lparr>tb_columns = [''account_id'', ''name'',
     ''capabilities''], tb_key = [''account_id''], tb_reference = None, tb_rows = a\<rparr>"
  "db_tables (plain_file m a s u l x n ni ne) ''scopes'' = Some \<lparr>tb_columns = [''scope_id'', ''account_id'',
     ''descriptor_ref'', ''derivation_scope'', ''capabilities'', ''priority''], tb_key = [''scope_id''],
     tb_reference = Some account_reference, tb_rows = s\<rparr>"
  "db_tables (plain_file m a s u l x n ni ne) ''utxos'' = Some \<lparr>tb_columns = utxo_columns,
     tb_key = [''outpoint''], tb_reference = None, tb_rows = u\<rparr>"
  "db_tables (plain_file m a s u l x n ni ne) ''locks'' = Some \<lparr>tb_columns = lock_columns,
     tb_key = [''outpoint''], tb_reference = None, tb_rows = l\<rparr>"
  "db_tables (plain_file m a s u l x n ni ne) ''operations'' = Some \<lparr>tb_columns = operation_columns,
     tb_key = [''operation_id''], tb_reference = None, tb_rows = x\<rparr>"
  "db_tables (plain_file m a s u l x n ni ne) ''intents'' = Some \<lparr>tb_columns = intent_columns,
     tb_key = [''operation_id''], tb_reference = None, tb_rows = n\<rparr>"
  "db_tables (plain_file m a s u l x n ni ne) ''intent_inputs'' = Some \<lparr>tb_columns = [''operation_id'',
     ''position'', ''outpoint''], tb_key = [''operation_id'', ''position''],
     tb_reference = Some intent_reference, tb_rows = ni\<rparr>"
  "db_tables (plain_file m a s u l x n ni ne) ''intent_effects'' = Some \<lparr>tb_columns = [''operation_id'',
     ''position'', ''effect_kind'', ''outpoint'', ''purpose''], tb_key = [''operation_id'', ''position''],
     tb_reference = Some intent_reference, tb_rows = ne\<rparr>"
  by (simp_all add: plain_file_def)

lemma plain_file_rows [simp]:
  "set_rows ''meta'' rs (plain_file m a s u l x n ni ne) = plain_file rs a s u l x n ni ne"
  "set_rows ''accounts'' rs (plain_file m a s u l x n ni ne) = plain_file m rs s u l x n ni ne"
  "set_rows ''scopes'' rs (plain_file m a s u l x n ni ne) = plain_file m a rs u l x n ni ne"
  "set_rows ''utxos'' rs (plain_file m a s u l x n ni ne) = plain_file m a s rs l x n ni ne"
  "set_rows ''locks'' rs (plain_file m a s u l x n ni ne) = plain_file m a s u rs x n ni ne"
  "set_rows ''operations'' rs (plain_file m a s u l x n ni ne) = plain_file m a s u l rs n ni ne"
  "set_rows ''intents'' rs (plain_file m a s u l x n ni ne) = plain_file m a s u l x rs ni ne"
  "set_rows ''intent_inputs'' rs (plain_file m a s u l x n ni ne) = plain_file m a s u l x n rs ne"
  "set_rows ''intent_effects'' rs (plain_file m a s u l x n ni ne) = plain_file m a s u l x n ni rs"
  unfolding set_rows_def plain_file_tables by (simp_all add: plain_file_def del: map_of.simps flip: update_conv')

lemma plain_file_cascade [simp]:
  "t \<noteq> ''intents'' \<or> ds = [] \<Longrightarrow> cascade t ds (plain_file m a s u l x n ni ne) = plain_file m a s u l x n ni ne"
  by (rule cascade_none) (auto simp: cascades_ok_def plain_file_def account_reference_def intent_reference_def split: if_splits)

section \<open>Opening\<close>

lemma plain_execute_eval:
  "eng_execute plain_engine st c = (case sql_run st (pc_content c) of
     None \<Rightarrow> (Inl (EngineFailure ''statement refused''), c)
   | Some (n, db) \<Rightarrow> (Inr n, c\<lparr>pc_content := db, pc_committed := if pc_open c then pc_committed c else db\<rparr>))"
  by (simp add: plain_engine_def plain_execute_def)

lemma plain_rest_simps [simp]:
  "pc_content (plain_rest c) = c" "pc_committed (plain_rest c) = c" "\<not> pc_open (plain_rest c)"
  by (simp_all add: plain_rest_def)

lemma plain_run:
  "sql_run st c = Some (n, c') \<Longrightarrow> run_statement plain_engine (Inr st) (plain_rest c) = (Inr (), plain_rest c')"
  by (simp add: run_statement_def execute_sql_def cmd_bind_apply plain_execute_eval plain_rest_def)

text \<open>A file in which some of the tables exist.\<close>

definition partial_file :: "string set \<Rightarrow> sql_database" where
  "partial_file names =
     \<lparr>db_tables = (\<lambda>t. if t \<in> names then db_tables (plain_file [] [] [] [] [] [] [] [] []) t else None), db_version = 0\<rparr>"

lemma create_partial:
  "t \<notin> names \<Longrightarrow>
    db_tables (plain_file [] [] [] [] [] [] [] [] []) t =
      Some \<lparr>tb_columns = columns, tb_key = key, tb_reference = ref, tb_rows = []\<rparr> \<Longrightarrow>
    run_statement plain_engine (Inr (CreateTableIfNotExists t columns key ref)) (plain_rest (partial_file names)) =
      (Inr (), plain_rest (partial_file (insert t names)))"
  by (rule plain_run) (auto simp: partial_file_def fun_eq_iff)

lemma plain_created_tables:
  "cmd_each (\<lambda>st. run_statement plain_engine (Inr st)) initialize_batch (plain_rest blank_database) =
     (Inr (), plain_rest ((plain_file [] [] [] [] [] [] [] [] [])\<lparr>db_version := 0\<rparr>))"
proof -
  have blank: "blank_database = partial_file {}" by (simp add: blank_database_def partial_file_def)
  have all: "(plain_file [] [] [] [] [] [] [] [] [])\<lparr>db_version := 0\<rparr> = partial_file {''intent_effects'',
      ''intent_inputs'', ''intents'', ''operations'', ''locks'', ''utxos'', ''scopes'', ''accounts'', ''meta''}"
    by (auto simp: partial_file_def plain_file_def fun_eq_iff)
  show ?thesis
    unfolding blank all
    by (simp add: initialize_batch_def create_tables_def cmd_bind_apply create_partial plain_run)
qed

lemma plain_ensured:
  "ensure_current_schema plain_engine (plain_rest ((plain_file [] [] [] [] [] [] [] [] [])\<lparr>db_version := 0\<rparr>)) =
     (Inr (), plain_rest (plain_file [] [] [] [] [] [] [] [] []))"
proof -
  have current: "(plain_file m a s u l x n ni ne)\<lparr>db_version := 3\<rparr> = plain_file m a s u l x n ni ne"
    for m a s u l x n ni ne by (simp add: plain_file_def)
  have reads: "eng_version plain_engine (plain_rest c) = Inr (db_version c)"
    "eng_columns plain_engine (plain_rest c) t = Inr (case db_tables c t of None \<Rightarrow> [] | Some tb \<Rightarrow> tb_columns tb)"
    "eng_prepare plain_engine (plain_rest c) q = res_map (\<lambda>_. ()) (plain_query (plain_rest c) q)" for c t q
    by (simp_all add: plain_engine_def plain_rest_def)
  show ?thesis
    by (simp add: ensure_current_schema_def migrate_to_2_def migrate_to_3_def table_columns_def add_column_def
        checked_tables_def check_table_def schema_version_def plain_run reads plain_query_def
        sql_select_def cmd_bind_apply current)
qed

lemma first_tick: "show_nat 0 = ''0''"
  by code_simp

lemma plain_initialize: "initialize plain_engine (plain_rest blank_database) = (Inr (), plain_opened)"
  by (simp add: initialize_def cmd_bind_apply plain_created_tables plain_ensured plain_run plain_opened_def
      has_parent_def Let_def tick_at_def first_tick)

lemma plain_created [simp]: "sqlite_created plain_engine pc_content pc_committed pc_open plain_opened"
  unfolding sqlite_created_def
  by (rule exI [of _ "plain_rest blank_database"]) (simp add: plain_initialize, simp add: blank_database_def)

section \<open>Evaluation of the store\<close>

definition plain_in :: "sql_database \<Rightarrow> sql_database \<Rightarrow> plain_connection" where
  "plain_in c0 c = \<lparr>pc_content = c, pc_committed = c0, pc_open = True\<rparr>"

lemma plain_calls [simp]:
  "eng_begin plain_engine (plain_rest c) = (Inr (), plain_in c c)"
  "eng_commit plain_engine (plain_in c0 c) = (Inr (), plain_rest c)"
  "eng_rollback plain_engine (plain_in c0 c) = plain_rest c0"
  "eng_execute plain_engine st (plain_in c0 c) = (case sql_run st c of
     None \<Rightarrow> (Inl (EngineFailure ''statement refused''), plain_in c0 c)
   | Some (n, c') \<Rightarrow> (Inr n, plain_in c0 c'))"
  "eng_execute plain_engine st (plain_rest c) = (case sql_run st c of
     None \<Rightarrow> (Inl (EngineFailure ''statement refused''), plain_rest c)
   | Some (n, c') \<Rightarrow> (Inr n, plain_rest c'))"
  "eng_query plain_engine (plain_in c0 c) q =
     (case sql_select q c of None \<Rightarrow> Inl (EngineFailure ''query refused'') | Some rows \<Rightarrow> Inr rows)"
  "eng_query plain_engine (plain_rest c) q =
     (case sql_select q c of None \<Rightarrow> Inl (EngineFailure ''query refused'') | Some rows \<Rightarrow> Inr rows)"
  by (simp_all add: plain_engine_def plain_execute_def plain_query_def plain_rest_def plain_in_def split: option.split)

lemma sqlite_ops_simps [simp]:
  "get_account (sqlite_ops E) = sqlite_read_account E" "get_scope (sqlite_ops E) = sqlite_read_scope E"
  "get_utxo (sqlite_ops E) = sqlite_read_utxo E" "get_lock (sqlite_ops E) = sqlite_read_lock E"
  "get_operation (sqlite_ops E) = sqlite_read_operation E" "get_intent (sqlite_ops E) = sqlite_read_intent E"
  "list_utxos (sqlite_ops E) = sqlite_list_utxos E" "list_operations (sqlite_ops E) = sqlite_list_operations E"
  "list_pending_intents (sqlite_ops E) = sqlite_list_pending_intents E"
  "current_tick (sqlite_ops E) = sqlite_read_tick E"
  "put_account (sqlite_ops E) = sqlite_put_account E" "put_scope (sqlite_ops E) = sqlite_put_scope E"
  "put_utxo (sqlite_ops E) = sqlite_put_utxo E" "advance_tick (sqlite_ops E) = sqlite_advance_tick E"
  "persist_intent (sqlite_ops E) = sqlite_persist_intent E"
  "mark_intent_committed (sqlite_ops E) = sqlite_mark_intent_committed E"
  "mark_intent_failed (sqlite_ops E) = sqlite_mark_intent_failed E"
  "apply_batch (sqlite_ops E) = sqlite_apply_batch E"
  "apply_reconciliation (sqlite_ops E) = sqlite_apply_reconciliation E"
  "release_selected_operation (sqlite_ops E) = sqlite_release_selected_operation E"
  "release_operation (sqlite_ops E) = sqlite_release_operation E"
  "complete_operation (sqlite_ops E) = sqlite_complete_operation E"
  by (simp_all add: sqlite_ops_def)

lemma tick_at_simps [simp]:
  "tick_at k ''key'' = SqlText ''tick''" "tick_at k ''value'' = SqlText (show_nat k)"
  "(tick_at k)(''value'' := SqlText (show_nat j)) = tick_at j"
  by (simp_all add: tick_at_def row_of_def fun_eq_iff)

lemma plain_tick [simp]:
  assumes "k < 2 ^ 64 - 1"
  shows "sqlite_read_tick plain_engine (plain_in c0 (plain_file [tick_at k] a s u l x n ni ne)) = Inr (of_nat k)"
    and "sqlite_read_tick plain_engine (plain_rest (plain_file [tick_at k] a s u l x n ni ne)) = Inr (of_nat k)"
    and "next_tick_tx plain_engine (plain_in c0 (plain_file [tick_at k] a s u l x n ni ne)) =
      (Inr (of_nat (Suc k)), plain_in c0 (plain_file [tick_at (Suc k)] a s u l x n ni ne))"
    and "sqlite_advance_tick plain_engine 1 (plain_rest (plain_file [tick_at k] a s u l x n ni ne)) =
      (Inr (), plain_rest (plain_file [tick_at (Suc k)] a s u l x n ni ne))"
proof -
  have unat: "unat (of_nat k :: u64) = k" using assms by (simp add: unat_of_nat take_bit_nat_eq_self)
  have next_unat: "unat (sat_add (of_nat k :: u64) 1) = Suc k" using assms by (simp add: unat_sat_add unat)
  have next_tick: "sat_add (of_nat k :: u64) 1 = of_nat (Suc k)"
    by (rule word_unat_eq_iff [THEN iffD2]) (use assms in \<open>simp add: next_unat unat_of_nat take_bit_nat_eq_self del: of_nat_add of_nat_Suc\<close>)
  show one: "sqlite_read_tick plain_engine (plain_in c0 (plain_file [tick_at k] a s u l x n ni ne)) = Inr (of_nat k)"
    and two: "sqlite_read_tick plain_engine (plain_rest (plain_file [tick_at k] a s u l x n ni ne)) = Inr (of_nat k)"
    using assms parse_uint_show_nat [of "2 ^ 64 - 1" k]
    by (simp_all add: sqlite_read_tick_def query_row_def tick_query_def sql_select_def meets_def)
  show "next_tick_tx plain_engine (plain_in c0 (plain_file [tick_at k] a s u l x n ni ne)) =
      (Inr (of_nat (Suc k)), plain_in c0 (plain_file [tick_at (Suc k)] a s u l x n ni ne))"
    by (simp add: next_tick_tx_def cmd_bind_apply one next_tick next_unat write_tick_def run_statement_def execute_sql_def
        meets_def Let_def unat_of_nat take_bit_nat_eq_self del: of_nat_add of_nat_Suc) (use assms in simp)
  show "sqlite_advance_tick plain_engine 1 (plain_rest (plain_file [tick_at k] a s u l x n ni ne)) =
      (Inr (), plain_rest (plain_file [tick_at (Suc k)] a s u l x n ni ne))"
    by (simp add: sqlite_advance_tick_def cmd_bind_apply two next_unat write_tick_def run_statement_def execute_sql_def
        meets_def Let_def)
qed

lemmas sqlite_eval = in_transaction_def commit_with_def run_statement_def execute_sql_def cmd_bind_apply
  sqlite_put_account_def sqlite_put_scope_def query_row_def query_optional_def collect_rows_def sql_select_def
  meets_def same_key_def has_parent_def account_reference_def intent_reference_def Let_def encode_capabilities_def capability_order_def

lemma run_at_connection: "c = c' \<Longrightarrow> in_transaction E m c = in_transaction E m c'"
  by simp

lemma conj_left: "P = P' \<Longrightarrow> (P \<and> Q) = (P' \<and> Q)"
  by simp

lemmas sqlite_order = run_order run_at_connection conj_left

section \<open>The run\<close>

definition held_caps :: sql_value where
  "held_caps = SqlText ''btc_spend,fee_support,reserve_support,single_target_reserve''"

definition account_cells :: sql_row where
  "account_cells = row_of [(''account_id'', SqlText ''a''), (''name'', SqlText ''n''), (''capabilities'', held_caps)]"

definition scope_cells :: sql_row where
  "scope_cells = row_of [(''scope_id'', SqlText ''s''), (''account_id'', SqlText ''a''), (''descriptor_ref'', SqlText ''d''),
     (''derivation_scope'', SqlText ''e''), (''capabilities'', held_caps), (''priority'', SqlInteger 0)]"

lemma held_caps_back [simp]:
  "decode_capabilities ''btc_spend,fee_support,reserve_support,single_target_reserve'' = Inr demo_caps"
proof -
  have "encode_capabilities demo_caps = ''btc_spend,fee_support,reserve_support,single_target_reserve''"
    by (simp add: encode_capabilities_def capability_order_def demo_caps_def)
  with decode_capabilities_encode [of demo_caps] show ?thesis by simp
qed

definition sqlite_service :: "sql_database \<Rightarrow> plain_connection service" where
  "sqlite_service c =
     \<lparr>sv_orchestrator = \<lparr>orch_store = plain_rest c, orch_owner = ''w''\<rparr>, sv_clock_reads = 0, sv_ids_generated = 0\<rparr>"

definition sq1 :: "plain_connection service" where
  "sq1 = sqlite_service (plain_file [tick_at (Suc (Suc 0))] [account_cells] [scope_cells] [] [] [] [] [] [])"

lemma sqlite_bootstrap:
  "bootstrap (sqlite_ops plain_engine) demo_config (service_with_store plain_opened) = (Inr (), sq1)"
  by (simp add: service_eval orchestrator_eval demo_config_def plain_opened_def sqlite_eval demo_account_def demo_scope_def
      demo_caps_def sq1_def sqlite_service_def account_cells_def scope_cells_def held_caps_def sql_of_u32_def
      cong: sqlite_order)

text \<open>One confirmed output is observed.\<close>

definition one_snapshot :: observation_snapshot where
  "one_snapshot = \<lparr>sn_timestamp = 5, sn_scope = FullScope, sn_utxos = [demo_observed demo_p 1000]\<rparr>"

lemma demo_text [simp]: "outpoint_string (OutPoint ''t'' 0) = ''t:0''"
  by (simp add: outpoint_string_def first_tick)

lemma demo_text_back [simp]: "decode_outpoint E ''t:0'' = Inr (OutPoint ''t'' 0)"
  using decode_outpoint_string [of E "OutPoint ''t'' 0"] by simp

definition utxo_cells :: "string \<Rightarrow> sql_value \<Rightarrow> sql_value \<Rightarrow> sql_row" where
  "utxo_cells av i ph = row_of [(''outpoint'', SqlText ''t:0''), (''txid'', SqlText ''t''), (''vout'', SqlInteger 0),
     (''account_id'', SqlText ''a''), (''scope_id'', SqlText ''s''), (''value_sats'', SqlInteger 1000),
     (''onchain_state'', SqlText ''confirmed''), (''availability'', SqlText av), (''role'', SqlText ''general''),
     (''binding_operation_id'', i), (''binding_phase'', ph), (''conflict_message'', SqlNull),
     (''conflict_recorded_at'', SqlNull)]"

definition sq2 :: "plain_connection service" where
  "sq2 = sqlite_service (plain_file [tick_at 4] [account_cells] [scope_cells]
     [utxo_cells ''selectable'' SqlNull SqlNull] [] [] [] [] [])"

lemmas row_eval = sqlite_read_utxo_def sqlite_read_lock_def sqlite_read_account_def sqlite_read_scope_def
  sqlite_read_intent_def sqlite_read_operation_def read_phase_def read_intent_header_def read_intent_selection_def
  utxo_from_row_def lock_from_row_def account_from_row_def account_scopes_def scope_from_row_def
  operation_from_row_def header_from_row_def input_from_row_def effect_from_row_def
  inputs_query_def effects_query_def binding_of_columns_def conflict_of_columns_def
  write_utxo_tx_def write_lock_tx_def write_operation_tx_def utxo_statement_def lock_statement_def
  operation_statement_def sql_of_u64_def sql_of_u32_def

lemma sqlite_reconcile:
  "reconcile_snapshot (sqlite_ops plain_engine) one_snapshot sq1 =
     (Inr \<lparr>rc_tick = 4, rc_observed_utxos = 1, rc_actions_applied = 1, rc_scope = FullScope\<rparr>, sq2)"
  by (simp add: service_eval orchestrator_eval sq1_def sqlite_service_def sqlite_eval demo_account_def demo_scope_def
      one_snapshot_def demo_observed_def demo_p_def sqlite_list_utxos_def sqlite_apply_reconciliation_def row_eval
      discover_from_observed_def sq2_def utxo_cells_def utxo_op_defs
      cong: sqlite_order) (simp add: eval_nat_numeral)

text \<open>The plan in its two steps: the selection is recorded, then committed.\<close>

definition intent_cells :: "string \<Rightarrow> sql_row" where
  "intent_cells st = row_of [(''operation_id'', SqlText ''o''), (''change_scope_id'', SqlText ''s''),
     (''status'', SqlText st), (''recorded_at'', SqlInteger 5), (''expires_at'', SqlNull)]"

definition input_cells :: sql_row where
  "input_cells = row_of [(''operation_id'', SqlText ''o''), (''position'', SqlInteger 0), (''outpoint'', SqlText ''t:0'')]"

definition effect_cells :: sql_row where
  "effect_cells = row_of [(''operation_id'', SqlText ''o''), (''position'', SqlInteger 0),
     (''effect_kind'', SqlText ''lock_utxo''), (''outpoint'', SqlText ''t:0''), (''purpose'', SqlText ''planned_selection'')]"

definition lock_cells :: sql_row where
  "lock_cells = row_of [(''outpoint'', SqlText ''t:0''), (''operation_id'', SqlText ''o''),
     (''account_id'', SqlText ''a''), (''scope_id'', SqlText ''s''), (''purpose'', SqlText ''planned_selection''),
     (''owner'', SqlText ''w''), (''created_at'', SqlInteger 6), (''expires_at'', SqlNull)]"

definition operation_cells :: sql_row where
  "operation_cells = row_of [(''operation_id'', SqlText ''o''), (''phase'', SqlText ''selected''),
     (''updated_at'', SqlInteger 6), (''expires_at'', SqlNull)]"

definition sq_pending :: "plain_connection service" where
  "sq_pending = sqlite_service (plain_file [tick_at 5] [account_cells] [scope_cells]
     [utxo_cells ''selectable'' SqlNull SqlNull] [] [] [intent_cells ''pending''] [input_cells] [effect_cells])"

definition sq3 :: "plain_connection service" where
  "sq3 = sqlite_service (plain_file [tick_at 7] [account_cells] [scope_cells]
     [utxo_cells ''reserved'' (SqlText ''o'') (SqlText ''selected'')] [lock_cells] [operation_cells]
     [intent_cells ''committed''] [input_cells] [effect_cells])"

text \<open>Rows stay folded: a column is read off, and a written row is recognised.\<close>

lemma cells_at:
  "account_cells ''account_id'' = SqlText ''a''"
  "account_cells ''name'' = SqlText ''n''"
  "account_cells ''capabilities'' = SqlText ''btc_spend,fee_support,reserve_support,single_target_reserve''"
  "scope_cells ''scope_id'' = SqlText ''s''"
  "scope_cells ''account_id'' = SqlText ''a''"
  "scope_cells ''descriptor_ref'' = SqlText ''d''"
  "scope_cells ''derivation_scope'' = SqlText ''e''"
  "scope_cells ''capabilities'' = SqlText ''btc_spend,fee_support,reserve_support,single_target_reserve''"
  "scope_cells ''priority'' = SqlInteger 0"
  "utxo_cells av i ph ''outpoint'' = SqlText ''t:0''"
  "utxo_cells av i ph ''txid'' = SqlText ''t''"
  "utxo_cells av i ph ''vout'' = SqlInteger 0"
  "utxo_cells av i ph ''account_id'' = SqlText ''a''"
  "utxo_cells av i ph ''scope_id'' = SqlText ''s''"
  "utxo_cells av i ph ''value_sats'' = SqlInteger 1000"
  "utxo_cells av i ph ''onchain_state'' = SqlText ''confirmed''"
  "utxo_cells av i ph ''availability'' = SqlText av"
  "utxo_cells av i ph ''role'' = SqlText ''general''"
  "utxo_cells av i ph ''binding_operation_id'' = i"
  "utxo_cells av i ph ''binding_phase'' = ph"
  "utxo_cells av i ph ''conflict_message'' = SqlNull"
  "utxo_cells av i ph ''conflict_recorded_at'' = SqlNull"
  "intent_cells st ''operation_id'' = SqlText ''o''"
  "intent_cells st ''change_scope_id'' = SqlText ''s''"
  "intent_cells st ''status'' = SqlText st"
  "intent_cells st ''recorded_at'' = SqlInteger 5"
  "intent_cells st ''expires_at'' = SqlNull"
  "input_cells ''operation_id'' = SqlText ''o''"
  "input_cells ''position'' = SqlInteger 0"
  "input_cells ''outpoint'' = SqlText ''t:0''"
  "effect_cells ''operation_id'' = SqlText ''o''"
  "effect_cells ''position'' = SqlInteger 0"
  "effect_cells ''effect_kind'' = SqlText ''lock_utxo''"
  "effect_cells ''outpoint'' = SqlText ''t:0''"
  "effect_cells ''purpose'' = SqlText ''planned_selection''"
  "lock_cells ''outpoint'' = SqlText ''t:0''"
  "lock_cells ''operation_id'' = SqlText ''o''"
  "lock_cells ''account_id'' = SqlText ''a''"
  "lock_cells ''scope_id'' = SqlText ''s''"
  "lock_cells ''purpose'' = SqlText ''planned_selection''"
  "lock_cells ''owner'' = SqlText ''w''"
  "lock_cells ''created_at'' = SqlInteger 6"
  "lock_cells ''expires_at'' = SqlNull"
  "operation_cells ''operation_id'' = SqlText ''o''"
  "operation_cells ''phase'' = SqlText ''selected''"
  "operation_cells ''updated_at'' = SqlInteger 6"
  "operation_cells ''expires_at'' = SqlNull"
  by (simp_all add: account_cells_def scope_cells_def utxo_cells_def intent_cells_def input_cells_def
      effect_cells_def lock_cells_def operation_cells_def held_caps_def row_of_def)

lemma status_written: "(intent_cells st)(''status'' := SqlText st') = intent_cells st'"
  by (simp add: intent_cells_def row_of_def fun_eq_iff)

lemmas cell_eval = cells_at status_written account_cells_def [symmetric] scope_cells_def [symmetric]
  utxo_cells_def [symmetric] intent_cells_def [symmetric] input_cells_def [symmetric] effect_cells_def [symmetric]
  lock_cells_def [symmetric] operation_cells_def [symmetric]

lemmas decode_eval = decode_def onchain_names_def availability_names_def role_names_def purpose_names_def
  phase_names_def status_names_def get_u32_def get_u64_def get_u64_option_def get_text_option_def unsigned_of_sql_def

lemmas name_eval = demo_account_def demo_scope_def demo_p_def demo_id_def demo_caps_def

lemma sqlite_record:
  "on_orchestrator (prepare_pending_operation (sqlite_ops plain_engine)
     (PlannedExactOutpoints (exact_of_plan_request demo_request))) sq2 = (Inr demo_selection, sq_pending)"
  by (simp add: service_eval orchestrator_eval sq2_def sq_pending_def sqlite_service_def sqlite_eval name_eval
      demo_request_def demo_selection_def row_eval selection_eval sqlite_persist_intent_def persist_intent_tx_def
      header_statement_def insert_input_def insert_effect_def decode_eval cell_eval
      cong: sqlite_order)

lemma later_tick [simp]: "sat_add (5 :: u64) 1 = 6"
  by (simp add: sat_add_def)

lemma sqlite_commit:
  "on_orchestrator (commit_recorded_intent (sqlite_ops plain_engine) demo_id) sq_pending = (Inr (), sq3)"
  by (simp add: service_eval orchestrator_eval sq3_def sq_pending_def sqlite_service_def sqlite_eval name_eval
      row_eval selection_eval sqlite_apply_batch_def sqlite_mark_intent_committed_def apply_batch_tx_def
      check_batch_intent_def check_batch_phase_def apply_effect_tx_def validate_lock_effect_tx_def update_status_def
      decode_eval cell_eval
      cong: sqlite_order)

text \<open>Every state of the run is reachable, and its ledger holds the reservation.\<close>

abbreviation "sqlite_reaches \<equiv> sqlite_reachable plain_engine pc_content pc_committed pc_open demo_deps"

lemma sqlite_reached [simp]:
  "sqlite_reaches (service_with_store plain_opened)" "sqlite_reaches sq1" "sqlite_reaches sq2"
  "sqlite_reaches sq_pending" "sqlite_reaches sq3"
proof -
  show r0: "sqlite_reaches (service_with_store plain_opened)" by (rule file_created [OF plain_created])
  show r1: "sqlite_reaches sq1" by (rule service_stepped [OF r0 step_bootstrap [OF sqlite_bootstrap]])
  show r2: "sqlite_reaches sq2" by (rule service_stepped [OF r1 snapshot_step [OF sqlite_reconcile]])
  show r3: "sqlite_reaches sq_pending" by (rule service_stepped [OF r2 step_record [OF sqlite_record]])
  show "sqlite_reaches sq3" by (rule service_stepped [OF r3 step_commit [OF sqlite_commit]])
qed

abbreviation "plain_view \<equiv> sqlite_view plain_engine pc_content"

lemma plain_at_rest:
  "sqlite_reaches sv \<Longrightarrow> sql_inv plain_engine pc_content pc_committed pc_open (orch_store (sv_orchestrator sv))"
  using plain.reachable_at_rest by (fastforce simp: service_ok_def orch_ok_def store_ok_def)

lemma plain_view_reads:
  assumes "sqlite_reaches sv"
  shows "sqlite_read_utxo plain_engine (orch_store (sv_orchestrator sv)) p = Inr x \<Longrightarrow> lg_utxos (plain_view sv) p = x"
    and "sqlite_read_lock plain_engine (orch_store (sv_orchestrator sv)) p = Inr y \<Longrightarrow> lg_locks (plain_view sv) p = y"
    and "sqlite_read_operation plain_engine (orch_store (sv_orchestrator sv)) i = Inr z \<Longrightarrow> lg_operations (plain_view sv) i = z"
    and "sqlite_read_intent plain_engine (orch_store (sv_orchestrator sv)) i = Inr n \<Longrightarrow> lg_intents (plain_view sv) i = n"
proof -
  note rest = plain_at_rest [OF assms]
  note reads = plain.sqlite.get_utxo_law [OF rest, of p] plain.sqlite.get_lock_law [OF rest, of p]
    plain.sqlite.get_operation_law [OF rest, of i] plain.sqlite.get_intent_law [OF rest, of i]
  note views = reads_as_def sqlite_view_def service_ledger_def orch_ledger_def
  show "sqlite_read_utxo plain_engine (orch_store (sv_orchestrator sv)) p = Inr x \<Longrightarrow> lg_utxos (plain_view sv) p = x"
    using reads(1) by (simp add: views)
  show "sqlite_read_lock plain_engine (orch_store (sv_orchestrator sv)) p = Inr y \<Longrightarrow> lg_locks (plain_view sv) p = y"
    using reads(2) by (simp add: views)
  show "sqlite_read_operation plain_engine (orch_store (sv_orchestrator sv)) i = Inr z \<Longrightarrow> lg_operations (plain_view sv) i = z"
    using reads(3) by (simp add: views)
  show "sqlite_read_intent plain_engine (orch_store (sv_orchestrator sv)) i = Inr n \<Longrightarrow> lg_intents (plain_view sv) i = n"
    using reads(4) by (simp add: views)
qed

lemma sqlite_lookups:
  "lg_utxos (plain_view sq3) demo_p = Some (demo_held PhSelected)"
  "lg_locks (plain_view sq3) demo_p = Some demo_lock"
  "lg_operations (plain_view sq3) demo_id = Some (demo_operation PhSelected 6)"
  "lg_intents (plain_view sq3) demo_id = Some (demo_intent Committed)"
  "lg_intents (plain_view sq2) demo_id = None"
  by (rule plain_view_reads, simp,
      simp add: sq2_def sq3_def sqlite_service_def sqlite_eval row_eval decode_eval cell_eval name_eval
        demo_held_def demo_utxo_def demo_lock_def demo_operation_def demo_intent_def demo_selection_def utxo_op_defs
        managed_utxo_new_def)+

end
