(* ===== verification/Sqlite_Properties.thy ===== *)
theory Sqlite_Properties
  imports Sqlite_Demo Registration
begin

text \<open>
  Properties of the SQLite backend, over every connection that behaves as SQLite documents: it refines
  the ledger, agrees with the memory backend, keeps its rows typed, is safe across restarts of the
  service, bounds the integers it stores, and opens older files without losing anything.
\<close>

section \<open>Refinement\<close>

definition sql_refines ::
  "'db sql_engine \<Rightarrow> ('db \<Rightarrow> sql_database) \<Rightarrow> ('db \<Rightarrow> sql_database) \<Rightarrow> ('db \<Rightarrow> bool) \<Rightarrow> ('a \<Rightarrow> 'b) \<Rightarrow>
   ('db, 'a) command \<Rightarrow> (ledger, 'b) command \<Rightarrow> bool" where
  "sql_refines E content committed open_tx =
     implements (sql_inv E content committed open_tx) (\<lambda>db. sql_ledger E (content db))"

text \<open>C20: over SQLite every write transaction refines the ledger: it leaves a store at rest with readable
  tables, and either returns what the ledger's operation returns and leaves the ledger that operation
  gives, or reports a failure of the storage and leaves the ledger as it was. Registering an account or a scope
  moreover lists the scopes of every account by priority and id.\<close>

theorem sqlite_refines_ledger:
  assumes "sqlite_engine E content committed open_tx"
  shows "sql_refines E content committed open_tx id (sqlite_persist_intent E sel) (ledger_persist_intent sel) \<and>
    sql_refines E content committed open_tx id (sqlite_mark_intent_committed E i) (ledger_mark_committed i) \<and>
    sql_refines E content committed open_tx id (sqlite_mark_intent_failed E i) (ledger_mark_failed i) \<and>
    sql_refines E content committed open_tx id (sqlite_apply_batch E b) (ledger_apply_batch b) \<and>
    sql_refines E content committed open_tx id (sqlite_apply_reconciliation E plan) (ledger_apply_reconciliation plan) \<and>
    sql_refines E content committed open_tx (map_option set) (sqlite_release_selected_operation E i)
      (ledger_release_selected i) \<and>
    sql_refines E content committed open_tx set (sqlite_release_operation E i ph) (ledger_release i ph) \<and>
    sql_refines E content committed open_tx set (sqlite_complete_operation E i ph) (ledger_complete i ph) \<and>
    sql_refines E content committed open_tx id (sqlite_put_utxo E u) (ledger_put_utxo u) \<and>
    sql_refines E content committed open_tx id (sqlite_advance_tick E d) (ledger_advance_tick d) \<and>
    sql_refines E content committed open_tx id (sqlite_put_account E a) (ledger_list_account a) \<and>
    sql_refines E content committed open_tx id (sqlite_put_scope E sc) (ledger_list_scope sc)"
  unfolding sql_refines_def
  by (intro conjI sqlite_engine.sqlite_commands [OF assms] sqlite_engine.put_account_implements [OF assms]
      sqlite_engine.put_scope_implements [OF assms])

theorem sqlite_refines_ledger_witness:
  "\<exists>c. sqlite_advance_tick plain_engine 1 plain_opened = (Inr (), c) \<and>
    lg_tick (sql_ledger plain_engine (pc_content c)) = 1"
proof -
  obtain c where run: "sqlite_advance_tick plain_engine 1 plain_opened = (Inr (), c)" by (simp add: plain_opened_def)
  note rest = plain.created_at_rest [OF plain_created]
  have "implements (sql_inv plain_engine pc_content pc_committed pc_open) (\<lambda>db. sql_ledger plain_engine (pc_content db))
      id (sqlite_advance_tick plain_engine 1) (ledger_advance_tick 1)"
    using sqlite_refines_ledger [OF plain.sqlite_engine_axioms] unfolding sql_refines_def by blast
  from implements_Inr(2) [OF this rest(1) run]
  have "sql_ledger plain_engine (pc_content c) = (mem_ledger memory_default)\<lparr>lg_tick := sat_add 0 1\<rparr>"
    by (simp add: rest(2) ledger_advance_tick_def mem_ledger_def memory_default_def)
  with run show ?thesis by (simp add: sat_add_def)
qed

section \<open>The two backends\<close>

context sqlite_engine
begin

lemma keeps_contract: "state_store_contract (sqlite_ops E) at_rest (\<lambda>db. stored db)"
  by (rule sqlite.state_store_contract_axioms)

text \<open>No read of a store at rest finds a row it cannot decode.\<close>

lemma stored_reads:
  assumes "at_rest db"
  shows "sqlite_read_account E db a = Inl e \<Longrightarrow> is_storage e" and "sqlite_read_scope E db sc = Inl e \<Longrightarrow> is_storage e"
    and "sqlite_read_utxo E db p = Inl e \<Longrightarrow> is_storage e" and "sqlite_read_lock E db p = Inl e \<Longrightarrow> is_storage e"
    and "sqlite_read_operation E db i = Inl e \<Longrightarrow> is_storage e" and "sqlite_read_intent E db i = Inl e \<Longrightarrow> is_storage e"
    and "sqlite_read_tick E db = Inl e \<Longrightarrow> is_storage e" and "sqlite_list_utxos E db = Inl e \<Longrightarrow> is_storage e"
    and "sqlite_list_operations E db = Inl e \<Longrightarrow> is_storage e"
    and "sqlite_list_pending_intents E db = Inl e \<Longrightarrow> is_storage e"
  using sqlite.get_account_law [OF assms, of a] sqlite.get_scope_law [OF assms, of sc]
    sqlite.get_utxo_law [OF assms, of p] sqlite.get_lock_law [OF assms, of p]
    sqlite.get_operation_law [OF assms, of i] sqlite.get_intent_law [OF assms, of i]
    sqlite.current_tick_law [OF assms] sqlite.list_utxos_law [OF assms]
    sqlite.list_operations_law [OF assms] sqlite.list_pending_law [OF assms]
  by (simp_all add: sqlite_ops_def reads_as_def lists_as_def is_storage_iff)

end

lemma replies_reliable: "no_storage_error (fst (m s)) \<Longrightarrow> no_storage_error (fst (replies f m s))"
  by (cases "fst (m s)") (auto simp: replies_def no_storage_error_def)

lemma memory_call_reliable: "no_storage_error (fst (run_call (memory_ops hu ho hi) call s))"
proof (cases call)
  case (CallPutScope sc)
  then show ?thesis by (simp add: replies_def mem_put_scope_def no_storage_error_def split: option.split)
next
  case (CallPutAccount a)
  then show ?thesis by (simp add: replies_def mem_put_account_def no_storage_error_def)
next
  case (CallPutUtxo u)
  then show ?thesis by (simp add: replies_def mem_put_utxo_def no_storage_error_def)
qed (simp_all add: replies_reliable mem_commands_reliable mem_apply_batch_reliable mem_complete_reliable)

lemma memory_calls_reliable: "run_calls (memory_ops hu ho hi) calls s = (rs, s') \<Longrightarrow> \<not> storage_failed rs"
proof (induction calls arbitrary: s rs)
  case Nil
  then show ?case by (simp add: storage_failed_def)
next
  case (Cons call calls)
  obtain r s1 rs1 where "run_call (memory_ops hu ho hi) call s = (r, s1)"
    and "run_calls (memory_ops hu ho hi) calls s1 = (rs1, s')" and "rs = r # rs1"
    using Cons.prems by (auto split: prod.splits)
  with Cons.IH memory_call_reliable [of hu ho hi call s] show ?case
    by (auto simp: storage_failed_def no_storage_error_def)
qed

text \<open>C21: the two backends are interchangeable once the accounts and scopes are registered: from the same
  ledger, any sequence of the other write operations gives the same replies and the same final ledger
  on both, whatever the iteration order of the memory tables, as long as SQLite reports no failure of
  its storage; the memory backend never does. (Registrations are excepted: the backends order and reset the
  scopes of an account differently, see the theory Registration.)\<close>

theorem backends_agree:
  assumes "sqlite_engine E content committed open_tx"
    and "\<forall>call\<in>set calls. \<not> registers call"
    and "mem_inv s" and "sql_inv E content committed open_tx db" and "mem_ledger s = sql_ledger E (content db)"
    and "run_calls (memory_ops hu ho hi) calls s = (rs, s')" and "run_calls (sqlite_ops E) calls db = (ts, db')"
    and "\<not> storage_failed ts"
  shows "rs = ts \<and> mem_ledger s' = sql_ledger E (content db')"
  by (rule contracts_agree [OF mem.state_store_contract_axioms sqlite_engine.keeps_contract [OF assms(1)] assms(2-7)
        memory_calls_reliable [OF assms(6)] assms(8)])

lemma plain_opened_rest:
  "sql_inv plain_engine pc_content pc_committed pc_open plain_opened"
  "mem_ledger memory_default = sql_ledger plain_engine (pc_content plain_opened)"
  using plain.created_at_rest [OF plain_created] by simp_all

text \<open>One output on both backends: a selection is recorded and committed; failing it is refused.\<close>

lemma old_utxo: "utxo_from_row E (utxo_cells ''selectable'' SqlNull SqlNull) = Inr (demo_utxo demo_p 1000)"
  by (simp add: utxo_from_row_def utxo_cells_def decode_eval name_eval binding_of_columns_def conflict_of_columns_def
      demo_utxo_def managed_utxo_new_def)

definition one_store :: memory_store where
  "one_store = demo_store [demo_utxo demo_p 1000] [] [] [] 4"

definition one_file :: sql_database where
  "one_file = plain_file [tick_at 4] [account_cells] [scope_cells] [utxo_cells ''selectable'' SqlNull SqlNull] [] [] [] [] []"

lemma one_tables:
  "table_rows one_file ''meta'' = [tick_at 4]" "table_rows one_file ''accounts'' = [account_cells]"
  "table_rows one_file ''scopes'' = [scope_cells]" "table_rows one_file ''utxos'' = [utxo_cells ''selectable'' SqlNull SqlNull]"
  "table_rows one_file ''locks'' = []" "table_rows one_file ''operations'' = []" "table_rows one_file ''intents'' = []"
  "table_rows one_file ''intent_inputs'' = []" "table_rows one_file ''intent_effects'' = []"
  by (simp_all add: table_rows_def one_file_def)

lemma one_ledger: "mem_ledger one_store = sql_ledger plain_engine one_file"
proof -
  have tick: "stored_tick one_file = Some 4"
    using parse_uint_show_nat [of "2 ^ 64 - 1" 4]
    by (simp add: stored_tick_def one_tables table_map_def table_values_of_def meta_entry_def)
  have account: "account_entry account_cells = Inr \<lparr>ac_id = demo_account, ac_name = ''n'', ac_scopes = [], ac_capabilities = demo_caps\<rparr>"
    by (simp add: account_entry_def account_from_row_def account_cells_def held_caps_def demo_account_def)
  have scope: "scope_from_row scope_cells = Inr \<lparr>ws_id = demo_scope, ws_account_id = demo_account, ws_descriptor_ref = ''d'',
      ws_derivation_scope = ''e'', ws_capabilities = demo_caps, ws_priority = 0\<rparr>"
    by (simp add: scope_from_row_def scope_cells_def held_caps_def demo_account_def demo_scope_def get_u32_def unsigned_of_sql_def)
  have cells: "scope_cells ''account_id'' = SqlText ''a''" "get_text scope_cells ''scope_id'' = Inr ''s''"
    "account_id_str demo_account = ''a''" "demo_scope = WalletScopeId ''s''"
    by (simp_all add: scope_cells_def demo_account_def demo_scope_def)
  show ?thesis
    by (simp add: cells sql_ledger_def one_tables table_map_def table_values_of_def account scope old_utxo tick
      mem_ledger_def one_store_def demo_store_def by_outpoint_def fun_eq_iff scope_ids_def)
qed

lemma one_rest:
  "sql_inv plain_engine pc_content pc_committed pc_open (plain_rest one_file)" "mem_inv one_store"
  using plain_at_rest [OF sqlite_reached(3)]
  by (simp_all add: sq2_def sqlite_service_def one_file_def one_store_def demo_store_def mem_inv_def keyed_by_def
      demo_utxo_def managed_utxo_new_def)

definition demo_calls :: "store_call list" where
  "demo_calls =
     [CallPersistIntent demo_selection, CallMarkCommitted demo_id, CallMarkFailed demo_id, CallAdvanceTick 1]"

lemma demo_calls_run:
  "fst (run_calls (sqlite_ops plain_engine) demo_calls (plain_rest one_file)) =
     [Inr (Recorded (demo_intent Pending)), Inr Finished, Inl (IntentNotPending demo_id), Inr Finished]"
  by (simp add: demo_calls_def replies_def one_file_def sqlite_mark_intent_committed_def
      sqlite_mark_intent_failed_def sqlite_persist_intent_def persist_intent_tx_def header_statement_def
      insert_input_def insert_effect_def sqlite_eval row_eval update_status_def decode_eval cell_eval
      demo_selection_def demo_intent_def name_eval cong: sqlite_order)

theorem backends_agree_witness:
  "fst (run_calls (memory_ops insertion_order insertion_order insertion_order) demo_calls one_store) =
     [Inr (Recorded (demo_intent Pending)), Inr Finished, Inl (IntentNotPending demo_id), Inr Finished]"
proof -
  obtain ts c where run: "run_calls (sqlite_ops plain_engine) demo_calls (plain_rest one_file) = (ts, c)" by fastforce
  then have ts: "ts = [Inr (Recorded (demo_intent Pending)), Inr Finished, Inl (IntentNotPending demo_id), Inr Finished]"
    using demo_calls_run by simp
  obtain rs s' where mem: "run_calls (memory_ops insertion_order insertion_order insertion_order) demo_calls one_store
      = (rs, s')" by fastforce
  have "mem_ledger one_store = sql_ledger plain_engine (pc_content (plain_rest one_file))" by (simp add: one_ledger)
  from backends_agree [OF plain.sqlite_engine_axioms _ one_rest(2,1) this mem run]
  have "rs = ts" by (simp add: ts storage_failed_def demo_calls_def)
  with mem ts show ?thesis by simp
qed

section \<open>Types\<close>

text \<open>C22: the store stays typed: whatever calls are made and whatever they return, every row of every table
  decodes to the value it stands for, no transaction is left open, and no later read ever reports
  corrupted state: it succeeds unless the connection fails.\<close>

theorem sqlite_stays_typed:
  assumes "sqlite_engine E content committed open_tx" and "sql_inv E content committed open_tx db"
    and "run_calls (sqlite_ops E) calls db = (rs, db')"
  shows "schema_ok (content db') \<and> rows_ok E (content db') \<and> \<not> open_tx db' \<and>
    (\<forall>e. (\<exists>a. sqlite_read_account E db' a = Inl e) \<or> (\<exists>sc. sqlite_read_scope E db' sc = Inl e) \<or>
       (\<exists>p. sqlite_read_utxo E db' p = Inl e) \<or> (\<exists>p. sqlite_read_lock E db' p = Inl e) \<or>
       (\<exists>i. sqlite_read_operation E db' i = Inl e) \<or> (\<exists>i. sqlite_read_intent E db' i = Inl e) \<or>
       sqlite_read_tick E db' = Inl e \<or> sqlite_list_utxos E db' = Inl e \<or>
       sqlite_list_operations E db' = Inl e \<or> sqlite_list_pending_intents E db' = Inl e \<longrightarrow> is_storage e)"
proof -
  have rest: "sql_inv E content committed open_tx db'"
    by (rule state_store_contract.run_calls_inv [OF sqlite_engine.keeps_contract [OF assms(1)] assms(2,3)])
  then have "db_ok E (content db')" and "\<not> open_tx db'" unfolding sql_inv_def by blast+
  with sqlite_engine.stored_reads [OF assms(1) rest] show ?thesis by (auto simp: db_ok_rows)
qed

theorem sqlite_stays_typed_witness:
  "\<exists>ts db'. run_calls (sqlite_ops plain_engine) demo_calls (plain_rest one_file) = (ts, db') \<and> ts \<noteq> [] \<and>
    rows_ok plain_engine (pc_content db') \<and> \<not> pc_open db'"
proof -
  obtain ts db' where run: "run_calls (sqlite_ops plain_engine) demo_calls (plain_rest one_file) = (ts, db')" by fastforce
  then have "ts \<noteq> []" using demo_calls_run by auto
  with sqlite_stays_typed [OF plain.sqlite_engine_axioms one_rest(1) run] run show ?thesis by blast
qed

section \<open>Safety across restarts\<close>

text \<open>C8: the service over SQLite is safe in every state it can reach, restarts of the process and
  connections that fail at any call included: no transaction is left open, two live operations never
  claim the same output, and a lock stands for a live owner that holds the output and has not failed.\<close>

theorem sqlite_never_double_claims:
  assumes "sqlite_engine E content committed open_tx"
    and "sqlite_reachable E content committed open_tx dp sv" and "L = sqlite_view E content sv"
  shows "\<not> open_tx (orch_store (sv_orchestrator sv)) \<and>
    (\<forall>i j p. live L i \<and> live L j \<and> claims L i p \<and> claims L j p \<longrightarrow> i = j) \<and>
    (\<forall>p l. lg_locks L p = Some l \<longrightarrow>
      (\<exists>u x n. lg_utxos L p = Some u \<and> \<not> is_policy_spendable u \<and>
        lg_operations L (lk_operation_id l) = Some x \<and> bound_in_phase (lk_operation_id l) (po_phase x) u \<and>
        po_phase x \<noteq> PhRollingBack \<and> lg_intents L (lk_operation_id l) = Some n \<and> oi_status n \<noteq> Failed))"
proof (intro conjI allI impI)
  have ok: "holdings_ok L" "claims_ok L"
    using sqlite_reachable_ledger [OF assms(1,2)] by (simp_all add: assms(3) ledger_ok_def)
  have "service_ok (sql_inv E content committed open_tx) (\<lambda>db. sql_ledger E (content db)) sv"
    by (rule sqlite_engine.reachable_at_rest [OF assms(1,2)])
  then show "\<not> open_tx (orch_store (sv_orchestrator sv))"
    by (simp add: service_ok_def orch_ok_def store_ok_def sql_inv_def)
  show "i = j" if "live L i \<and> live L j \<and> claims L i p \<and> claims L j p" for i j p
    using claims_okD(3) [OF ok(2)] that by blast
  show "\<exists>u x n. lg_utxos L p = Some u \<and> \<not> is_policy_spendable u \<and>
      lg_operations L (lk_operation_id l) = Some x \<and> bound_in_phase (lk_operation_id l) (po_phase x) u \<and>
      po_phase x \<noteq> PhRollingBack \<and> lg_intents L (lk_operation_id l) = Some n \<and> oi_status n \<noteq> Failed"
    if l: "lg_locks L p = Some l" for p l
  proof -
    obtain u where u: "lg_utxos L p = Some u" "bound_to (lk_operation_id l) u"
      using lock_iff_bound [OF ok(1), of p "lk_operation_id l"] l by blast
    moreover from u(2) have "\<not> is_policy_spendable u" using spendable_not_bound by blast
    ultimately show ?thesis by (rule_tac owner_live [OF ok(1) u]) blast
  qed
qed

theorem sqlite_never_double_claims_witness:
  "sqlite_reaches sq3 \<and> live (plain_view sq3) demo_id \<and> claims (plain_view sq3) demo_id demo_p \<and>
    (\<exists>u. lg_utxos (plain_view sq3) demo_p = Some u \<and> bound_in_phase demo_id PhSelected u)"
proof -
  have x: "lk_operation_id demo_lock = demo_id" "po_phase (demo_operation PhSelected 6) = PhSelected"
    by (simp_all add: demo_lock_def demo_operation_def)
  have "\<exists>u x n. lg_utxos (plain_view sq3) demo_p = Some u \<and> \<not> is_policy_spendable u \<and>
      lg_operations (plain_view sq3) (lk_operation_id demo_lock) = Some x \<and>
      bound_in_phase (lk_operation_id demo_lock) (po_phase x) u \<and> po_phase x \<noteq> PhRollingBack \<and>
      lg_intents (plain_view sq3) (lk_operation_id demo_lock) = Some n \<and> oi_status n \<noteq> Failed"
    using sqlite_never_double_claims [OF plain.sqlite_engine_axioms sqlite_reached(5) refl] sqlite_lookups(2) by blast
  then show ?thesis
    by (auto simp: x sqlite_lookups live_def claims_def demo_intent_def demo_selection_def demo_operation_def)
qed

section \<open>Bounds\<close>

context sqlite_engine
begin

lemma unsendable_utxo:
  assumes "at_rest db" and "utxo_statement u = Inl e" and "sqlite_put_utxo E u db = (r, db')"
  shows "(\<exists>m. r = Inl (Storage m)) \<and> content db' = content db"
proof -
  have rest: "\<not> open_tx db" "content db = committed db" using assms(1) unfolding sql_inv_def by blast+
  obtain r1 db1 where started: "eng_begin E db = (r1, db1)" by fastforce
  show ?thesis
  proof (cases r1)
    case (Inl e')
    with begin_fault [OF rest(1) started [unfolded Inl]] assms(3) started engine_fault_storage [of e' E]
    show ?thesis by (auto simp: sqlite_put_utxo_def in_transaction_def)
  next
    case (Inr u')
    have "e = ToSqlConversionFailure"
      using assms(2) by (auto simp: utxo_statement_def Let_def res_bind_eq_Inl dest: sql_of_u64_Inl sql_of_u64_option_Inl)
    with begin_law [OF rest(1) started [unfolded Inr]] assms(2,3) started Inr rollback_law [of db1] rest(2)
    show ?thesis
      by (auto simp: sqlite_put_utxo_def in_transaction_def write_utxo_tx_def run_statement_def execute_sql_def cmd_bind_apply)
  qed
qed

lemma put_utxo_stores:
  assumes "at_rest db" and "sqlite_put_utxo E u db = (Inr (), db')"
  shows "lg_utxos (stored db') (mu_outpoint u) = Some u"
proof -
  have "stored db' = snd (ledger_put_utxo u (stored db))"
    using implements_Inr(2) [OF put_utxo_implements assms] by simp
  then show ?thesis by (simp add: ledger_put_utxo_def bump_tick_def)
qed

end

text \<open>C24: SQLite stores the integers of an output exactly or not at all: an output it accepts has an amount (and
  a conflict time) below 2^63 and is read back unchanged; one with a larger amount is refused as a
  storage error and nothing changes. The memory backend accepts every output.\<close>

theorem sqlite_integer_bounds:
  assumes "sqlite_engine E content committed open_tx" and "sql_inv E content committed open_tx db"
    and "sqlite_put_utxo E u db = (r, db')"
  shows "(r = Inr () \<longrightarrow> unat (mu_value_sats u) < 2 ^ 63 \<and>
      (\<forall>c. mu_observation_conflict u = Some c \<longrightarrow> unat (oc_recorded_at c) < 2 ^ 63) \<and>
      lg_utxos (sql_ledger E (content db')) (mu_outpoint u) = Some u) \<and>
    (2 ^ 63 \<le> unat (mu_value_sats u) \<longrightarrow> (\<exists>m. r = Inl (Storage m)) \<and> content db' = content db) \<and>
    fst (mem_put_utxo u s) = Inr ()"
proof -
  note refused = sqlite_engine.unsendable_utxo [OF assms(1,2) _ assms(3)]
  note exact = sqlite_engine.put_utxo_stores [OF assms(1,2)]
  have sent: "unat (mu_value_sats u) < 2 ^ 63 \<and> (\<forall>c. mu_observation_conflict u = Some c \<longrightarrow> unat (oc_recorded_at c) < 2 ^ 63)"
    if "utxo_statement u = Inr st" for st
    using that by (auto simp: utxo_statement_def Let_def res_bind_eq_Inr sql_of_u64_Inr)
  show ?thesis
  proof (cases "utxo_statement u")
    case (Inl e)
    with refused show ?thesis by (auto simp: mem_put_utxo_def)
  next
    case (Inr st)
    with sent exact assms(3) show ?thesis by (auto simp: mem_put_utxo_def)
  qed
qed

theorem sqlite_integer_bounds_witness:
  "\<exists>m c. sqlite_put_utxo plain_engine (demo_utxo demo_p (2 ^ 63)) plain_opened = (Inl (Storage m), c) \<and>
    pc_content c = pc_content plain_opened"
proof -
  obtain r c where run: "sqlite_put_utxo plain_engine (demo_utxo demo_p (2 ^ 63)) plain_opened = (r, c)" by fastforce
  have "2 ^ 63 \<le> unat (mu_value_sats (demo_utxo demo_p (2 ^ 63)))" by (simp add: demo_utxo_def managed_utxo_new_def)
  with sqlite_integer_bounds [OF plain.sqlite_engine_axioms plain_opened_rest(1) run] run show ?thesis by auto
qed

section \<open>Opening\<close>

text \<open>C23: opening a file of this or an older schema keeps its ledger: when it succeeds, the file has the
  current version, the store is at rest and holds exactly what the rows recorded, with the clock at
  zero if none was stored; a file of a newer version is never opened. When it fails, it reports a
  storage error and every row stays as it was.\<close>

theorem opening_keeps_ledger:
  assumes "sqlite_engine E content committed open_tx" and "\<not> open_tx db" and "content db = committed db"
    and "openable (content db)" and "rows_ok E (content db)" and "tick_readable (content db)"
    and "ledger_wf (sql_ledger E (content db))" and "initialize E db = (r, db')"
  shows "(r = Inr () \<longrightarrow> sql_inv E content committed open_tx db' \<and> db_version (content db') = schema_version \<and>
      db_version (content db) \<le> schema_version \<and> sql_ledger E (content db') = opened_ledger E (content db)) \<and>
    (\<forall>e. r = Inl e \<longrightarrow> is_storage e \<and> table_rows (content db') = table_rows (content db))"
proof (intro conjI impI allI)
  have rest: "\<not> open_tx db \<and> content db = committed db" using assms(2,3) by blast
  { assume r: "r = Inr ()"
    note run = assms(8) [unfolded r]
    from sqlite_engine.initialize_opens [OF assms(1-7) run]
    show "sql_inv E content committed open_tx db'" and "sql_ledger E (content db') = opened_ledger E (content db)" by blast+
    from tx_tripleD(2) [OF sqlite_engine.initialize_version [OF assms(1)] rest refl run]
    show "db_version (content db') = schema_version" and "db_version (content db) \<le> schema_version" by auto }
  { fix e
    assume r: "r = Inl e"
    note run = assms(8) [unfolded r]
    show "table_rows (content db') = table_rows (content db)"
      by (rule sqlite_engine.initialize_refused [OF assms(1-4) run])
    from tx_tripleD(2) [OF sqlite_engine.initialize_run [OF assms(1,5,6)] rest _ run] assms(4)
    show "is_storage e" by (auto simp: is_storage_iff) }
qed

text \<open>A file of the first schema version with one output, before conflicts and expiries had columns.\<close>

definition old_database :: sql_database where
  "old_database = \<lparr>db_tables = [
     ''meta'' \<mapsto> \<lparr>tb_columns = [''key'', ''value''], tb_key = [''key''], tb_reference = None, tb_rows = [tick_at 7]\<rparr>,
     ''utxos'' \<mapsto> \<lparr>tb_columns = [''outpoint'', ''txid'', ''vout'', ''account_id'', ''scope_id'', ''value_sats'',
        ''onchain_state'', ''availability'', ''role'', ''binding_operation_id'', ''binding_phase''],
       tb_key = [''outpoint''], tb_reference = None, tb_rows = [utxo_cells ''selectable'' SqlNull SqlNull]\<rparr>],
     db_version = 1\<rparr>"

lemma old_rows:
  "table_rows old_database ''meta'' = [tick_at 7]"
  "table_rows old_database ''utxos'' = [utxo_cells ''selectable'' SqlNull SqlNull]"
  "t \<notin> {''meta'', ''utxos''} \<Longrightarrow> table_rows old_database t = []"
  by (auto simp: table_rows_def old_database_def)

lemma old_tick: "stored_tick old_database = Some 7"
  using parse_uint_show_nat [of "2 ^ 64 - 1" 7]
  by (simp add: stored_tick_def old_rows table_map_def table_values_of_def meta_entry_def)

lemma old_openable: "openable old_database" "rows_ok E old_database" "tick_readable old_database"
proof -
  show "openable old_database"
    by (auto simp: openable_def create_tables_def cascades_ok_def rows_declared_def old_database_def later_columns_def
        tick_at_def utxo_cells_def split: if_splits)
  show "rows_ok E old_database"
    by (simp add: rows_ok_def old_rows table_ok_def old_utxo meta_entry_def)
  show "tick_readable old_database" by (simp add: tick_readable_def old_tick)
qed

lemma old_ledger:
  "sql_ledger E old_database = (mem_ledger memory_default)\<lparr>lg_utxos := [demo_p \<mapsto> demo_utxo demo_p 1000], lg_tick := 7\<rparr>"
  by (simp add: sql_ledger_def old_rows mem_ledger_def memory_default_def by_outpoint_def table_map_def
      table_values_of_def old_utxo old_tick fun_eq_iff demo_utxo_def managed_utxo_new_def)

lemma old_opens: "\<exists>c. initialize plain_engine (plain_rest old_database) = (Inr (), c)"
proof -
  have "fst (initialize plain_engine (plain_rest old_database)) = Inr ()" by code_simp
  then show ?thesis by (metis prod.collapse)
qed

theorem opening_keeps_ledger_witness:
  "\<exists>c. initialize plain_engine (plain_rest old_database) = (Inr (), c) \<and> db_version (pc_content c) = 3 \<and>
    lg_utxos (sql_ledger plain_engine (pc_content c)) demo_p = Some (demo_utxo demo_p 1000) \<and>
    lg_tick (sql_ledger plain_engine (pc_content c)) = 7"
proof -
  obtain c where run: "initialize plain_engine (plain_rest old_database) = (Inr (), c)" using old_opens by blast
  have "ledger_wf (sql_ledger plain_engine old_database)"
    by (simp add: old_ledger ledger_wf_def mem_ledger_def memory_default_def by_outpoint_def demo_utxo_def managed_utxo_new_def)
  with opening_keeps_ledger [OF plain.sqlite_engine_axioms _ _ _ _ _ _ run] old_openable(1,3) old_openable(2) [of plain_engine]
  have "db_version (pc_content c) = schema_version"
    and "sql_ledger plain_engine (pc_content c) = opened_ledger plain_engine old_database" by simp_all
  with run show ?thesis by (simp add: schema_version_def opened_ledger_def old_tick old_ledger)
qed

end
