(* ===== verification/Sqlite_Durability.thy ===== *)
theory Sqlite_Durability
  imports Sqlite_Properties
begin

text \<open>
  What a database file keeps over the life of the processes that use it: no step of a service and no
  restart takes back what was recorded, and the recovery a process runs after a crash settles what the
  last one left pending.
\<close>

section \<open>The history of a file\<close>

text \<open>From one state of a service over a file to a later one, steps and restarts in any order.\<close>

inductive sqlite_history ::
  "'db sql_engine \<Rightarrow> ('db \<Rightarrow> sql_database) \<Rightarrow> ('db \<Rightarrow> sql_database) \<Rightarrow> ('db \<Rightarrow> bool) \<Rightarrow> dependencies \<Rightarrow>
   'db service \<Rightarrow> 'db service \<Rightarrow> bool"
  for E content committed open_tx dp where
  history_none: "sqlite_history E content committed open_tx dp sv sv"
| history_stepped: "sqlite_history E content committed open_tx dp sv sv1 \<Longrightarrow>
    service_step (sqlite_ops E) dp sv1 sv2 \<Longrightarrow> sqlite_history E content committed open_tx dp sv sv2"
| history_restarted: "sqlite_history E content committed open_tx dp sv sv1 \<Longrightarrow>
    \<not> open_tx db \<Longrightarrow> content db = committed db \<Longrightarrow>
    content db = committed (orch_store (sv_orchestrator sv1)) \<Longrightarrow> initialize E db = (Inr (), db') \<Longrightarrow>
    sqlite_history E content committed open_tx dp sv (service_with_store db')"

lemma sqlite_history_reachable:
  "sqlite_history E content committed open_tx dp sv sv' \<Longrightarrow> sqlite_reachable E content committed open_tx dp sv \<Longrightarrow>
    sqlite_reachable E content committed open_tx dp sv'"
  by (induction rule: sqlite_history.induct) (auto intro: service_stepped process_restarted)

context sqlite_engine
begin

abbreviation "sview \<equiv> sqlite_view E content"

lemma history_extends_view:
  "sqlite_history E content committed open_tx dp sv sv' \<Longrightarrow> sqlite_reachable E content committed open_tx dp sv \<Longrightarrow>
    ledger_extends (sview sv) (sview sv')"
proof (induction rule: sqlite_history.induct)
  case (history_none sv)
  then show ?case by simp
next
  case (history_stepped sv sv1 sv2)
  have ok: "service_ok at_rest (\<lambda>db. stored db) sv1"
    by (rule reachable_at_rest [OF sqlite_history_reachable [OF history_stepped.hyps(1) history_stepped.prems]])
  from sqlite.service_step_safe [OF history_stepped.hyps(2) ok] history_stepped show ?case
    unfolding sqlite_view_def using ledger_extends_trans by blast
next
  case (history_restarted sv sv1 db db')
  have ok: "service_ok at_rest (\<lambda>db. stored db) sv1"
    by (rule reachable_at_rest [OF sqlite_history_reachable [OF history_restarted.hyps(1) history_restarted.prems]])
  from restart_keeps [OF ok history_restarted.hyps(2-5)] history_restarted show ?case by simp
qed

end


context state_store_contract
begin

text \<open>What the service's query says of an output over any store that keeps the contract.\<close>

lemma query_selectable:
  assumes "service_ok sinv ledger_of sv" and "is_outpoint_selectable ops p sv = (Inr b, sv')"
  shows "b \<longleftrightarrow> (\<exists>u. lg_utxos (service_ledger ledger_of sv) p = Some u \<and> is_policy_spendable u)"
proof -
  let ?s = "orch_store (sv_orchestrator sv)"
  have s: "sinv ?s" and h: "holdings_ok (ledger_of ?s)"
    using assms(1) by (simp_all add: service_ok_def orch_ok_def store_ok_def ledger_ok_def)
  have status: "res_map (\<lambda>st. is_some_and st status_is_selectable) (read_utxo_status ops ?s p) = Inr b"
    using assms(2)
    by (auto simp: is_outpoint_selectable_def on_orchestrator_def orch_is_outpoint_selectable_def from_store_def
        split: prod.splits sum.splits)
  show ?thesis
    using status read_Inr(3,4) [OF s] spendable_unlocked [OF h, of p]
    by (cases "lg_utxos (ledger_of ?s) p")
      (fastforce simp: read_utxo_status_def res_map_eq res_bind_eq_Inr service_ledger_def orch_ledger_def
        status_selectable_iff)+
qed

end

lemma sqlite_query:
  assumes "sqlite_engine E content committed open_tx" and "sqlite_reachable E content committed open_tx dp sv"
    and "is_outpoint_selectable (sqlite_ops E) p sv = (Inr b, sv')"
  shows "b \<longleftrightarrow> (\<exists>u. lg_utxos (sqlite_view E content sv) p = Some u \<and> is_policy_spendable u)"
  unfolding sqlite_view_def
  by (rule state_store_contract.query_selectable [OF sqlite_engine.keeps_contract [OF assms(1)]
        sqlite_engine.reachable_at_rest [OF assms(1,2)] assms(3)])

text \<open>C9: what a database file records survives every later step of the service and every restart of its
  process, crashes and all snapshots included: an output keeps its identity and, once its spending has
  started or been observed, stays in flight or spent and is never called selectable again; no operation
  moves backwards, a recorded selection never changes, and an intent that is committed or failed stays so.\<close>

theorem sqlite_history_survives:
  assumes "sqlite_engine E content committed open_tx" and "sqlite_reachable E content committed open_tx dp sv"
    and "sqlite_history E content committed open_tx dp sv sv'"
    and "L = sqlite_view E content sv" and "L' = sqlite_view E content sv'"
  shows "(\<forall>p u. lg_utxos L p = Some u \<longrightarrow> (\<exists>u'. lg_utxos L' p = Some u' \<and> utxo_identity u' = utxo_identity u \<and>
      (mu_onchain_state u \<in> {SpendingInFlight, Spent} \<longrightarrow>
        mu_onchain_state u' \<in> {SpendingInFlight, Spent} \<and> \<not> is_policy_spendable u' \<and>
        fst (is_outpoint_selectable (sqlite_ops E) p sv') \<noteq> Inr True))) \<and>
    (\<forall>i x. lg_operations L i = Some x \<longrightarrow> (\<exists>x'. lg_operations L' i = Some x' \<and>
      (po_phase x' = po_phase x \<or> valid_transition (po_phase x) (po_phase x') \<or> po_phase x' = PhRollingBack))) \<and>
    (\<forall>i n. lg_intents L i = Some n \<longrightarrow> (\<exists>n'. lg_intents L' i = Some n' \<and> oi_selection n' = oi_selection n \<and>
      (oi_status n \<noteq> Pending \<longrightarrow> oi_status n' = oi_status n)))"
proof -
  have ext: "ledger_extends L L'"
    using sqlite_engine.history_extends_view [OF assms(1,3,2)] by (simp add: assms(4,5))
  have refused: "fst (is_outpoint_selectable (sqlite_ops E) p sv') \<noteq> Inr True"
    if "lg_utxos L' p = Some u" "\<not> is_policy_spendable u" for p u
    using sqlite_query [OF assms(1) sqlite_history_reachable [OF assms(3,2)], of p True] that
    by (cases "is_outpoint_selectable (sqlite_ops E) p sv'") (auto simp: assms(5))
  have outputs: "\<exists>u'. lg_utxos L' p = Some u' \<and> utxo_identity u' = utxo_identity u \<and>
      (mu_onchain_state u \<in> {SpendingInFlight, Spent} \<longrightarrow>
        mu_onchain_state u' \<in> {SpendingInFlight, Spent} \<and> \<not> is_policy_spendable u' \<and>
        fst (is_outpoint_selectable (sqlite_ops E) p sv') \<noteq> Inr True)"
    if "lg_utxos L p = Some u" for p u
    using advanced_output [OF ext that] refused by blast
  have ops: "\<exists>x'. lg_operations L' i = Some x' \<and>
      (po_phase x' = po_phase x \<or> valid_transition (po_phase x) (po_phase x') \<or> po_phase x' = PhRollingBack)"
    if "lg_operations L i = Some x" for i x
    using ledger_extendsD(2) [OF ext that] phase_advances by blast
  show ?thesis
    by (intro conjI allI impI) (blast intro: outputs, blast intro: ops, rule ledger_extendsD(3) [OF ext])
qed

section \<open>Restarts on the plain connection\<close>

lemma plain_reopen:
  "initialize plain_engine (plain_rest (plain_file [tick_at k] a s u l x n ni ne)) =
     (Inr (), plain_rest (plain_file [tick_at k] a s u l x n ni ne))"
proof -
  let ?c = "plain_file [tick_at k] a s u l x n ni ne"
  have created: "cmd_each (\<lambda>st. run_statement plain_engine (Inr st)) initialize_batch (plain_rest ?c) = (Inr (), plain_rest ?c)"
    by (simp add: initialize_batch_def create_tables_def plain_run cmd_bind_apply)
  have version: "?c\<lparr>db_version := 3\<rparr> = ?c" "db_version ?c = 3" by (simp_all add: plain_file_def)
  have reads: "eng_version plain_engine (plain_rest c) = Inr (db_version c)"
    "eng_columns plain_engine (plain_rest c) t = Inr (case db_tables c t of None \<Rightarrow> [] | Some tb \<Rightarrow> tb_columns tb)"
    "eng_prepare plain_engine (plain_rest c) q = res_map (\<lambda>_. ()) (plain_query (plain_rest c) q)" for c t q
    by (simp_all add: plain_engine_def plain_rest_def)
  have ensured: "ensure_current_schema plain_engine (plain_rest ?c) = (Inr (), plain_rest ?c)"
    by (simp add: ensure_current_schema_def migrate_to_2_def migrate_to_3_def table_columns_def add_column_def
        checked_tables_def check_table_def schema_version_def plain_run reads plain_query_def
        sql_select_def cmd_bind_apply version)
  show ?thesis
    by (simp add: initialize_def cmd_bind_apply created ensured) (simp add: sqlite_eval)
qed

text \<open>The process stops after the plan is committed, and another one opens the file.\<close>

definition sq_reopened :: "plain_connection service" where
  "sq_reopened = service_with_store (orch_store (sv_orchestrator sq3))"

lemma sqlite_reopened:
  "sqlite_history plain_engine pc_content pc_committed pc_open demo_deps sq3 sq_reopened"
  unfolding sq_reopened_def
  by (rule history_restarted [OF history_none, where db = "orch_store (sv_orchestrator sq3)"])
    (simp_all add: sq3_def sqlite_service_def plain_reopen)

theorem sqlite_history_survives_witness:
  "\<exists>x' n'. lg_operations (plain_view sq_reopened) demo_id = Some x' \<and>
    (po_phase x' = PhSelected \<or> valid_transition PhSelected (po_phase x') \<or> po_phase x' = PhRollingBack) \<and>
    lg_intents (plain_view sq_reopened) demo_id = Some n' \<and> oi_status n' = Committed"
proof -
  have "po_phase (demo_operation PhSelected 6) = PhSelected" "oi_status (demo_intent Committed) = Committed"
    by (simp_all add: demo_operation_def demo_intent_def)
  with sqlite_history_survives [OF plain.sqlite_engine_axioms sqlite_reached(5) sqlite_reopened refl refl]
    sqlite_lookups(3,4) show ?thesis by (metis intent_status.distinct(1))
qed

section \<open>Recovery after a crash\<close>

text \<open>C10: the recovery of a process over a database file, in any state the file can be in after crashes and
  restarts: when it returns, no intent is left pending, every one it reports as replayed is committed and
  its operation holds all its inputs, every one it reports as failed owns nothing, and every intent that
  was pending is in the report; when it does not return, the storage failed, and the file is in a state
  from which recovery can be run again.\<close>

theorem sqlite_recovery_settles:
  assumes "sqlite_engine E content committed open_tx" and "sqlite_reachable E content committed open_tx dp sv"
    and "on_orchestrator (recover_pending_intents (sqlite_ops E)) sv = (r, sv')"
    and "L = sqlite_view E content sv" and "L' = sqlite_view E content sv'"
  shows "(\<forall>report. r = Inr report \<longrightarrow> unsettled L' = {} \<and>
      report_ok L' (rr_replayed_operations report) (rr_failed_operations report) \<and>
      (\<lambda>n. os_operation_id (oi_selection n)) ` unsettled L \<subseteq>
        set (rr_replayed_operations report) \<union> set (rr_failed_operations report)) \<and>
    (\<forall>e. r = Inl e \<longrightarrow> is_storage e) \<and> sqlite_reachable E content committed open_tx dp sv'"
proof -
  have ok: "orch_ok (sql_inv E content committed open_tx) (\<lambda>db. sql_ledger E (content db)) (sv_orchestrator sv)"
    using sqlite_engine.reachable_at_rest [OF assms(1,2)] by (simp add: service_ok_def)
  have run: "recover_pending_intents (sqlite_ops E) (sv_orchestrator sv) = (r, sv_orchestrator sv')"
    using assms(3) by (auto elim: on_orchestrator_run)
  note result = state_store_contract.recover_result [OF sqlite_engine.keeps_contract [OF assms(1)] ok run]
  show ?thesis
    using result(2,3) service_stepped [OF assms(2) step_recover [OF assms(3)]]
    unfolding assms(4,5) sqlite_view_def service_ledger_def by blast
qed

text \<open>The process stops after the selection is recorded; the next one recovers it.\<close>

definition sq_crashed :: "plain_connection service" where
  "sq_crashed = service_with_store (orch_store (sv_orchestrator sq_pending))"

lemma crashed_restarted:
  "initialize plain_engine (orch_store (sv_orchestrator sq_pending)) = (Inr (), orch_store (sv_orchestrator sq_pending))"
  by (simp add: sq_pending_def sqlite_service_def plain_reopen)

lemma crashed_recovers:
  "fst (on_orchestrator (recover_pending_intents (sqlite_ops plain_engine)) sq_crashed) =
     Inr \<lparr>rr_replayed_operations = [demo_id], rr_failed_operations = []\<rparr>"
  by (simp add: service_eval orchestrator_eval sq_crashed_def sq_pending_def sqlite_service_def sqlite_eval name_eval
      row_eval selection_eval sqlite_apply_batch_def sqlite_mark_intent_committed_def apply_batch_tx_def
      check_batch_intent_def check_batch_phase_def apply_effect_tx_def validate_lock_effect_tx_def update_status_def
      decode_eval cell_eval service_with_store_def orch_with_store_def
      recover_pending_intents_def recovery_loop.simps recover_one_def recovery_start_def sqlite_list_pending_intents_def pending_query_def pending_from_row_def
      cong: sqlite_order)

lemma crashed_reached: "sqlite_reaches sq_crashed"
  unfolding sq_crashed_def
  by (rule process_restarted [OF sqlite_reached(4) _ _ _ crashed_restarted]) (simp_all add: sq_pending_def sqlite_service_def)

theorem sqlite_recovery_settles_witness:
  "\<exists>sv'. on_orchestrator (recover_pending_intents (sqlite_ops plain_engine)) sq_crashed =
      (Inr \<lparr>rr_replayed_operations = [demo_id], rr_failed_operations = []\<rparr>, sv') \<and>
    is_some_and (lg_intents (plain_view sv') demo_id) (\<lambda>n. holds_selection (plain_view sv') (oi_selection n))"
proof -
  obtain sv' where run: "on_orchestrator (recover_pending_intents (sqlite_ops plain_engine)) sq_crashed =
      (Inr \<lparr>rr_replayed_operations = [demo_id], rr_failed_operations = []\<rparr>, sv')"
    using crashed_recovers by (metis prod.collapse)
  have "report_ok (plain_view sv') [demo_id] []"
    using sqlite_recovery_settles [OF plain.sqlite_engine_axioms crashed_reached run refl refl] by simp
  with run show ?thesis by (simp add: report_ok_def)
qed

end
