(* ===== verification/Simulation_Checks.thy ===== *)
theory Simulation_Checks
  imports Memory_Service
begin

text \<open>
  The invariant checker of the simulation crate (\<open>txoscope-sim/src/invariants.rs\<close>): it reads the outputs, the
  locks and the operations through the orchestrator and lists what looks wrong. In a state the service
  reaches it finds nothing, unless it is told that an operation was released which was not.
\<close>

section \<open>The checker\<close>

datatype invariant_violation_kind =
    ReservedWithoutLock
  | ReservedWithoutBinding
  | SelectableWithLock
  | SelectableWithBinding
  | SelectableWithConflict
  | SelectableWhileUnconfirmed
  | ReleasedOperationStillBound
  | LifecycleStateMismatch

record invariant_violation =
  iv_step :: nat
  iv_kind :: invariant_violation_kind
  iv_detail :: string

definition violation_if :: "bool \<Rightarrow> nat \<Rightarrow> invariant_violation_kind \<Rightarrow> string \<Rightarrow> invariant_violation list" where
  "violation_if b step kind detail =
     (if b then [\<lparr>iv_step = step, iv_kind = kind, iv_detail = detail\<rparr>] else [])"

text \<open>The loops: what each round pushes, until the first error.\<close>

fun collect_violations ::
  "('b \<Rightarrow> ('s, invariant_violation list) orch_command) \<Rightarrow> 'b list \<Rightarrow> ('s, invariant_violation list) orch_command"
  where
  "collect_violations f [] = cmd_return []"
| "collect_violations f (x # xs) =
     cmd_bind (f x) (\<lambda>vs. cmd_bind (collect_violations f xs) (\<lambda>ws. cmd_return (vs @ ws)))"

definition check_utxo :: "'s state_store \<Rightarrow> nat \<Rightarrow> managed_utxo \<Rightarrow> ('s, invariant_violation list) orch_command" where
  "check_utxo ops step utxo =
     (let p = mu_outpoint utxo in
      case mu_availability utxo of
        Reserved \<Rightarrow>
          cmd_bind (orch_get_lock ops p) (\<lambda>lock.
          cmd_return
            (violation_if (mu_operation_binding utxo = None) step ReservedWithoutBinding (outpoint_string p) @
             violation_if (lock = None) step ReservedWithoutLock (outpoint_string p)))
      | Selectable \<Rightarrow>
          cmd_bind (orch_get_lock ops p) (\<lambda>lock.
          cmd_return
            (violation_if (lock \<noteq> None) step SelectableWithLock (outpoint_string p) @
             violation_if (mu_operation_binding utxo \<noteq> None) step SelectableWithBinding (outpoint_string p) @
             violation_if (mu_observation_conflict utxo \<noteq> None) step SelectableWithConflict (outpoint_string p) @
             violation_if (mu_onchain_state utxo \<noteq> Confirmed) step SelectableWhileUnconfirmed
               (outpoint_string p @ '':'' @ onchain_debug (mu_onchain_state utxo))))
      | _ \<Rightarrow> cmd_return [])"

definition check_released ::
  "'s state_store \<Rightarrow> nat \<Rightarrow> operation_id \<Rightarrow> ('s, invariant_violation list) orch_command" where
  "check_released ops step i =
     cmd_bind (orch_list_utxos ops) (\<lambda>utxos.
     cmd_bind (orch_get_operation ops i) (\<lambda>operation.
     cmd_return
       (concat (map (\<lambda>utxo.
          violation_if (is_some_and (mu_operation_binding utxo) (\<lambda>b. bd_operation_id b = i)) step
            ReleasedOperationStillBound (operation_id_str i @ '':'' @ outpoint_string (mu_outpoint utxo))) utxos) @
        (case operation of
           None \<Rightarrow> []
         | Some x \<Rightarrow> violation_if (po_phase x \<noteq> PhRollingBack) step ReleasedOperationStillBound
             (operation_id_str i @ '':phase='' @ phase_debug (po_phase x))))))"

definition checker_check ::
  "'s state_store \<Rightarrow> nat \<Rightarrow> operation_id list \<Rightarrow> ('s, invariant_violation list) orch_command" where
  "checker_check ops step released =
     cmd_bind (orch_list_utxos ops) (\<lambda>utxos.
     cmd_bind (collect_violations (check_utxo ops step) utxos) (\<lambda>vs.
     cmd_bind (collect_violations (check_released ops step) released) (\<lambda>ws.
     cmd_return (vs @ ws))))"

text \<open>The deprecated free function.\<close>

definition check_invariants ::
  "nat \<Rightarrow> 's state_store \<Rightarrow> operation_id list \<Rightarrow> ('s, invariant_violation list) orch_command" where
  "check_invariants step ops released = checker_check ops step released"

section \<open>What it finds\<close>

text \<open>A loop whose rounds read without failing pushes what the rounds push, in order.\<close>

lemma collect_violations_reads:
  assumes "\<And>x. x \<in> set xs \<Longrightarrow> f x orch = (Inr (g x), orch)"
  shows "collect_violations f xs orch = (Inr (concat (map g xs)), orch)"
  using assms by (induction xs) (simp_all add: cmd_bind_apply)

text \<open>
  The report on an operation that was said to be released and is not: every output it still holds, in the order
  the store lists them, and the phase it is in.
\<close>

definition still_bound :: "nat \<Rightarrow> string \<Rightarrow> invariant_violation" where
  "still_bound step detail = \<lparr>iv_step = step, iv_kind = ReleasedOperationStillBound, iv_detail = detail\<rparr>"

definition false_release :: "ledger \<Rightarrow> managed_utxo list \<Rightarrow> nat \<Rightarrow> operation_id \<Rightarrow> invariant_violation list" where
  "false_release L us step i =
     (case lg_operations L i of
        None \<Rightarrow> []
      | Some x \<Rightarrow>
          if po_phase x = PhRollingBack then []
          else map (\<lambda>u. still_bound step (operation_id_str i @ '':'' @ outpoint_string (mu_outpoint u)))
                 (filter (bound_to i) us) @
               [still_bound step (operation_id_str i @ '':phase='' @ phase_debug (po_phase x))])"

context reliable_store
begin

lemma check_utxo_silent:
  assumes ok: "ook orch" and records: "records_ok (olg orch)" and u: "u \<in> ran (lg_utxos (olg orch))"
  shows "check_utxo ops step u orch = (Inr [], orch)"
proof -
  have wf: "ledger_wf (olg orch)" and h: "holdings_ok (olg orch)"
    using orch_ok_parts [OF ok] by blast+
  obtain p where p: "lg_utxos (olg orch) p = Some u" using u by (auto simp: ran_def)
  have "mu_outpoint u = p" using ledger_wfD(1) [OF wf p] .
  moreover have "availability_ok u" using records u by (simp add: records_ok_def)
  ultimately show ?thesis
    using slot_okD [OF h, of p] p reliable_read_eqs [of "orch_store orch"] ok
    by (auto simp: check_utxo_def Let_def cmd_bind_apply orch_get_lock_def from_store_def orch_ledger_def
        orch_ok_def store_ok_def slot_ok_def custody_ok_def availability_ok_def is_policy_spendable_def
        violation_if_def split: availability.splits option.splits)
qed

lemma utxos_listed:
  assumes "ook orch"
  obtains us where "orch_list_utxos ops orch = (Inr us, orch)" and "distinct us"
    and "set us = ran (lg_utxos (olg orch))"
  using list_utxos_law [of "orch_store orch"] reliable_reads(7) [of "orch_store orch"] assms that
  by (auto simp: lists_as_def no_storage_error_def orch_list_utxos_def from_store_def orch_ledger_def
      orch_ok_def store_ok_def)

lemma check_released_reports:
  assumes ok: "ook orch" and us: "orch_list_utxos ops orch = (Inr us, orch)"
    and listed: "set us = ran (lg_utxos (olg orch))"
  shows "check_released ops step i orch = (Inr (false_release (olg orch) us step i), orch)"
proof -
  have h: "holdings_ok (olg orch)" using orch_ok_parts [OF ok] by blast
  have op: "orch_get_operation ops i orch = (Inr (lg_operations (olg orch) i), orch)"
    using reliable_read_eqs(5) ok
    by (simp add: orch_get_operation_def from_store_def orch_ledger_def orch_ok_def store_ok_def)
  have gone: "\<not> bound_to i u"
    if "\<And>x. lg_operations (olg orch) i = Some x \<Longrightarrow> po_phase x = PhRollingBack" "u \<in> set us" for u
    using no_owner_without_operation [OF h _ that(1)] that(2) listed by (auto simp: ran_def)
  have found: "concat (map (\<lambda>u. if is_some_and (mu_operation_binding u) (\<lambda>b. bd_operation_id b = i)
        then [still_bound step (d u)] else []) us) = map (\<lambda>u. still_bound step (d u)) (filter (bound_to i) us)" for d us
    by (induction us) (simp_all add: bound_to_def)
  have phase: "violation_if b step ReleasedOperationStillBound d = (if b then [still_bound step d] else [])" for b d
    by (simp add: violation_if_def still_bound_def)
  have none: "filter (bound_to i) us = []"
    if "\<And>x. lg_operations (olg orch) i = Some x \<Longrightarrow> po_phase x = PhRollingBack"
    using gone [OF that] by (auto simp: filter_empty_conv)
  show ?thesis
    using none
    by (auto simp: check_released_def cmd_bind_apply us op found phase false_release_def simp del: concat_eq_Nil_conv filter_empty_conv
        split: option.split)
qed

text \<open>A state that keeps the invariant shows nothing but releases that did not happen.\<close>

lemma checker_of_invariant:
  assumes ok: "ook orch" and records: "records_ok (olg orch)"
  shows "\<exists>us. distinct us \<and> set us = ran (lg_utxos (olg orch)) \<and>
    checker_check ops step released orch = (Inr (concat (map (false_release (olg orch) us step) released)), orch)"
proof -
  obtain us where us: "orch_list_utxos ops orch = (Inr us, orch)" "distinct us" "set us = ran (lg_utxos (olg orch))"
    by (rule utxos_listed [OF ok])
  have silent: "collect_violations (check_utxo ops step) us orch = (Inr (concat (map (\<lambda>_. []) us)), orch)"
    by (rule collect_violations_reads) (simp add: check_utxo_silent [OF ok records] us(3))
  have reports: "collect_violations (check_released ops step) released orch =
      (Inr (concat (map (false_release (olg orch) us step) released)), orch)"
    by (rule collect_violations_reads) (rule check_released_reports [OF ok us(1,3)])
  from us silent reports show ?thesis
    by (intro exI [of _ us]) (simp add: checker_check_def cmd_bind_apply)
qed

end

section \<open>The property\<close>

text \<open>C37: while every snapshot that was reconciled named each output once, the checker runs without failing,
  changes nothing, and never reports a broken reservation. Its report is, for each operation it is told was
  released, in order: nothing when the operation is rolled back or unknown; otherwise one violation for every
  output the operation still holds, in the order the store lists them, and one for the phase it is in.\<close>

theorem checker_reports_false_releases:
  assumes "orderly_reachable hu ho hi dp sv"
  shows "\<exists>us. distinct us \<and> set us = ran (lg_utxos (ledger_view sv)) \<and>
    checker_check (memory_ops hu ho hi) step released (sv_orchestrator sv) =
      (Inr (concat (map (false_release (ledger_view sv) us step) released)), sv_orchestrator sv)"
  using mem.checker_of_invariant [OF reachable_orch [OF orderly_reachable_reachable [OF assms]]]
    orderly_records [OF assms]
  unfolding view_orch by blast

theorem checker_reports_false_releases_witness:
  "checker_check demo_ops 0 [demo_id] (sv_orchestrator demo4) = (Inr [], sv_orchestrator demo4) \<and>
   (\<exists>vs. checker_check demo_ops 0 [demo_id] (sv_orchestrator demo3) = (Inr vs, sv_orchestrator demo3) \<and>
     still_bound 0 (operation_id_str demo_id @ '':phase='' @ phase_debug PhSelected) \<in> set vs)"
proof -
  have "lg_operations (ledger_view demo4) demo_id = Some (demo_operation PhRollingBack 8)"
    and "lg_operations (ledger_view demo3) demo_id = Some (demo_operation PhSelected 6)"
    by (simp_all add: demo_views)
  with checker_reports_false_releases [OF demo_orderly(7), of 0 "[demo_id]"]
    checker_reports_false_releases [OF demo_orderly(5), of 0 "[demo_id]"]
  show ?thesis by (auto simp: demo_ops_def demo_operation_def false_release_def)
qed

end
