(* ===== verification/Simulation_Metrics.thy ===== *)
theory Simulation_Metrics
  imports Prelude "HOL-Library.Monad_Syntax"
begin

text \<open>
  The counters of a simulation run (\<open>txoscope-sim/src/metrics.rs\<close>). Every step adds a delta to the totals;
  the additions are checked, as Rust's \<open>+=\<close> is outside of release builds, and \<open>None\<close> stands for the panic
  of one that overflows. The step counter is a \<open>usize\<close> of 64 bits.
\<close>

section \<open>Counters\<close>

record metrics_delta =
  md_prepare_successes :: u64
  md_prepare_failures :: u64
  md_committed_operations :: u64
  md_failed_operations :: u64
  md_cleanup_release_count :: u64
  md_replay_successes :: u64
  md_replay_failures :: u64
  md_lock_conflicts :: u64
  md_crash_count :: u64
  md_selected_input_count :: u64

record sim_metrics =
  sm_prepare_successes :: u64
  sm_prepare_failures :: u64
  sm_committed_operations :: u64
  sm_failed_operations :: u64
  sm_cleanup_release_count :: u64
  sm_replay_successes :: u64
  sm_replay_failures :: u64
  sm_lock_conflicts :: u64
  sm_crash_count :: u64
  sm_total_selected_input_count :: u64
  sm_steps :: u64

definition metrics_default :: sim_metrics where
  "metrics_default =
     \<lparr>sm_prepare_successes = 0, sm_prepare_failures = 0, sm_committed_operations = 0, sm_failed_operations = 0,
      sm_cleanup_release_count = 0, sm_replay_successes = 0, sm_replay_failures = 0, sm_lock_conflicts = 0,
      sm_crash_count = 0, sm_total_selected_input_count = 0, sm_steps = 0\<rparr>"

definition checked_plus :: "u64 \<Rightarrow> u64 \<Rightarrow> u64 option" where
  "checked_plus a b = (if unat a + unat b < 2 ^ 64 then Some (a + b) else None)"

definition apply_delta :: "metrics_delta \<Rightarrow> sim_metrics \<Rightarrow> sim_metrics option" where
  "apply_delta d m = do {
     prepared \<leftarrow> checked_plus (sm_prepare_successes m) (md_prepare_successes d);
     unprepared \<leftarrow> checked_plus (sm_prepare_failures m) (md_prepare_failures d);
     committed \<leftarrow> checked_plus (sm_committed_operations m) (md_committed_operations d);
     failed \<leftarrow> checked_plus (sm_failed_operations m) (md_failed_operations d);
     released \<leftarrow> checked_plus (sm_cleanup_release_count m) (md_cleanup_release_count d);
     replayed \<leftarrow> checked_plus (sm_replay_successes m) (md_replay_successes d);
     unreplayed \<leftarrow> checked_plus (sm_replay_failures m) (md_replay_failures d);
     conflicts \<leftarrow> checked_plus (sm_lock_conflicts m) (md_lock_conflicts d);
     crashes \<leftarrow> checked_plus (sm_crash_count m) (md_crash_count d);
     inputs \<leftarrow> checked_plus (sm_total_selected_input_count m) (md_selected_input_count d);
     steps \<leftarrow> checked_plus (sm_steps m) 1;
     Some \<lparr>sm_prepare_successes = prepared, sm_prepare_failures = unprepared,
       sm_committed_operations = committed, sm_failed_operations = failed,
       sm_cleanup_release_count = released, sm_replay_successes = replayed,
       sm_replay_failures = unreplayed, sm_lock_conflicts = conflicts, sm_crash_count = crashes,
       sm_total_selected_input_count = inputs, sm_steps = steps\<rparr> }"

text \<open>A run: the deltas of its steps, one after another.\<close>

fun apply_deltas :: "metrics_delta list \<Rightarrow> sim_metrics \<Rightarrow> sim_metrics option" where
  "apply_deltas [] m = Some m"
| "apply_deltas (d # ds) m = apply_delta d m \<bind> apply_deltas ds"

section \<open>Totals\<close>

text \<open>The counters as mathematical integers, in one order for totals and deltas.\<close>

definition total_counts :: "sim_metrics \<Rightarrow> nat list" where
  "total_counts m = map unat [sm_prepare_successes m, sm_prepare_failures m, sm_committed_operations m,
     sm_failed_operations m, sm_cleanup_release_count m, sm_replay_successes m, sm_replay_failures m,
     sm_lock_conflicts m, sm_crash_count m, sm_total_selected_input_count m, sm_steps m]"

definition delta_counts :: "metrics_delta \<Rightarrow> nat list" where
  "delta_counts d = map unat [md_prepare_successes d, md_prepare_failures d, md_committed_operations d,
     md_failed_operations d, md_cleanup_release_count d, md_replay_successes d, md_replay_failures d,
     md_lock_conflicts d, md_crash_count d, md_selected_input_count d, 1]"

definition plus_counts :: "nat list \<Rightarrow> nat list \<Rightarrow> nat list" where
  "plus_counts xs ys = map2 (+) xs ys"

definition fits :: "nat list \<Rightarrow> bool" where
  "fits xs \<longleftrightarrow> (\<forall>x\<in>set xs. x < 2 ^ 64)"

lemma counts_length [simp]: "length (total_counts m) = 11" "length (delta_counts d) = 11"
  by (simp_all add: total_counts_def delta_counts_def)

lemma plus_counts_length [simp]: "length (plus_counts xs ys) = min (length xs) (length ys)"
  by (simp add: plus_counts_def)

lemma total_counts_fit: "fits (total_counts m)"
proof -
  have "unat w < 2 ^ 64" for w :: u64 using unsigned_less [of w] by simp
  then show ?thesis by (simp add: fits_def total_counts_def)
qed

lemma checked_plus_Some: "checked_plus a b = Some c \<longleftrightarrow> unat a + unat b < 2 ^ 64 \<and> unat c = unat a + unat b"
  by (auto simp: checked_plus_def word_unat_eq_iff unat_word_ariths split: if_splits)

lemma apply_delta_Some:
  "apply_delta d m = Some m' \<longleftrightarrow>
     fits (plus_counts (total_counts m) (delta_counts d)) \<and>
     total_counts m' = plus_counts (total_counts m) (delta_counts d)"
  by (cases m') (auto simp: apply_delta_def bind_eq_Some_conv checked_plus_Some fits_def plus_counts_def
      total_counts_def delta_counts_def)

lemma fold_grows:
  assumes "length xs = 11"
  shows "list_all2 (\<le>) xs (foldl plus_counts xs (map delta_counts ds))"
  using assms
proof (induction ds arbitrary: xs)
  case Nil
  then show ?case by (simp add: list_all2_refl)
next
  case (Cons d ds)
  have "list_all2 (\<le>) xs (plus_counts xs (delta_counts d))"
    using Cons.prems by (auto simp: plus_counts_def list_all2_conv_all_nth)
  moreover have "list_all2 (\<le>) (plus_counts xs (delta_counts d))
      (foldl plus_counts (plus_counts xs (delta_counts d)) (map delta_counts ds))"
    using Cons.prems by (intro Cons.IH) simp
  ultimately show ?case by (auto intro: list_all2_trans [OF order_trans])
qed

lemma fits_smaller: "list_all2 (\<le>) xs ys \<Longrightarrow> fits ys \<Longrightarrow> fits xs"
  unfolding fits_def by (metis (no_types) in_set_conv_nth le_less_trans list_all2_conv_all_nth)

text \<open>
  A run of any length either panics or reports the exact sum of every counter and the number of its steps; it
  panics exactly when some sum does not fit in 64 bits.
\<close>

lemma metrics_exact:
  "apply_deltas ds m = Some m' \<longleftrightarrow>
     fits (foldl plus_counts (total_counts m) (map delta_counts ds)) \<and>
     total_counts m' = foldl plus_counts (total_counts m) (map delta_counts ds)"
proof (induction ds arbitrary: m)
  case Nil
  have "m = m' \<longleftrightarrow> total_counts m' = total_counts m"
    by (cases m; cases m') (auto simp: total_counts_def simp flip: word_unat_eq_iff)
  then show ?case by (simp add: total_counts_fit)
next
  case (Cons d ds)
  let ?next = "plus_counts (total_counts m) (delta_counts d)"
  show ?case
  proof (cases "apply_delta d m")
    case (Some m1)
    then have "total_counts m1 = ?next" by (simp add: apply_delta_Some)
    with Some Cons.IH [of m1] show ?thesis by simp
  next
    case None
    have unfit: "\<not> fits ?next"
    proof
      assume fit: "fits ?next"
      define m1 where "m1 = \<lparr>sm_prepare_successes = sm_prepare_successes m + md_prepare_successes d,
        sm_prepare_failures = sm_prepare_failures m + md_prepare_failures d,
        sm_committed_operations = sm_committed_operations m + md_committed_operations d,
        sm_failed_operations = sm_failed_operations m + md_failed_operations d,
        sm_cleanup_release_count = sm_cleanup_release_count m + md_cleanup_release_count d,
        sm_replay_successes = sm_replay_successes m + md_replay_successes d,
        sm_replay_failures = sm_replay_failures m + md_replay_failures d,
        sm_lock_conflicts = sm_lock_conflicts m + md_lock_conflicts d,
        sm_crash_count = sm_crash_count m + md_crash_count d,
        sm_total_selected_input_count = sm_total_selected_input_count m + md_selected_input_count d,
        sm_steps = sm_steps m + 1\<rparr>"
      have "total_counts m1 = ?next"
        using fit by (simp add: m1_def total_counts_def delta_counts_def plus_counts_def fits_def unat_word_ariths)
      with fit have "apply_delta d m = Some m1" by (simp add: apply_delta_Some)
      with None show False by simp
    qed
    then have "\<not> fits (foldl plus_counts ?next (map delta_counts ds))"
      using fits_smaller fold_grows [of ?next ds] by auto
    with None show ?thesis by simp
  qed
qed

text \<open>So the order of the steps does not matter.\<close>

lemma plus_counts_swap:
  "plus_counts (plus_counts xs (delta_counts a)) (delta_counts b) = plus_counts (plus_counts xs (delta_counts b)) (delta_counts a)"
  by (rule nth_equalityI) (auto simp: plus_counts_def)

lemma metrics_any_order:
  assumes "mset ds = mset es"
  shows "apply_deltas ds m = apply_deltas es m"
proof -
  have "fold (\<lambda>d xs. plus_counts xs (delta_counts d)) ds = fold (\<lambda>d xs. plus_counts xs (delta_counts d)) es"
    by (rule fold_multiset_equiv [OF _ assms]) (simp add: fun_eq_iff plus_counts_swap)
  then have "foldl plus_counts xs (map delta_counts ds) = foldl plus_counts xs (map delta_counts es)" for xs
    by (simp add: foldl_conv_fold fold_map comp_def)
  then have "apply_deltas ds m = Some m' \<longleftrightarrow> apply_deltas es m = Some m'" for m'
    by (simp add: metrics_exact)
  then show ?thesis by (metis not_Some_eq)
qed

end
