(* ===== verification/Core_Tests.thy ===== *)
theory Core_Tests
  imports Reconciliation Selection_Request Sqlite_Codec
begin

text \<open>
  The unit tests of the repository that exercise pure code, on the model: outputs and their text form,
  requests, the reconciliation planner over a fixed list of outputs, and the names of the SQLite codec.
  A test is a proposition, its loops range over the listed values, and each holds of the model.
\<close>

section \<open>Outputs\<close>

definition outpoints_round_trip_opaque_transaction_ids :: "(string \<Rightarrow> string) \<Rightarrow> bool" where
  "outpoints_round_trip_opaque_transaction_ids str_debug \<longleftrightarrow>
     (\<forall>txid \<in> set [[], '' '', map char_of [228 :: nat, 186, 164, 230, 152, 147] @ '':opaque:tx'', ''txid'', ''x:y:''].
      \<forall>vout \<in> set [0, 2, 10, 4294967295].
        let outpoint = OutPoint txid vout in outpoint_from_str str_debug (outpoint_string outpoint) = Inr outpoint)"

lemma outpoints_round_trip_opaque_transaction_ids: "outpoints_round_trip_opaque_transaction_ids str_debug"
  by (simp add: outpoints_round_trip_opaque_transaction_ids_def outpoint_from_str_roundtrip)

definition outpoint_parse_rejects_missing_or_invalid_output_index :: "(string \<Rightarrow> string) \<Rightarrow> bool" where
  "outpoint_parse_rejects_missing_or_invalid_output_index str_debug \<longleftrightarrow>
     (\<forall>value \<in> set [[], ''txid'', ''txid:'', ''txid:-1'', ''txid:4294967296'', ''txid:no'', ''txid: 1''].
        case outpoint_from_str str_debug value of Inl (InvalidRequest _) \<Rightarrow> True | _ \<Rightarrow> False)"

lemma outpoint_parse_rejects_missing_or_invalid_output_index:
  "outpoint_parse_rejects_missing_or_invalid_output_index str_debug"
proof -
  have "list_all (\<lambda>value. parse_outpoint value = None)
      [[], ''txid'', ''txid:'', ''txid:-1'', ''txid:4294967296'', ''txid:no'', ''txid: 1'']"
    by (simp add: parse_outpoint_def rsplit_once_def parse_uint_def digit_val_def Let_def)
  then show ?thesis
    by (simp add: outpoint_parse_rejects_missing_or_invalid_output_index_def outpoint_from_str_def ok_or_def)
qed

definition discovered_utxos_follow_confirmation_spendability_rules :: bool where
  "discovered_utxos_follow_confirmation_spendability_rules \<longleftrightarrow>
     (let confirmed = discover_from_observed (OutPoint ''tx-confirmed'' 0) (AccountId ''acct'')
            (WalletScopeId ''scope'') 1000 (ConfConfirmed 1 2);
          mempool = discover_from_observed (OutPoint ''tx-mempool'' 0) (AccountId ''acct'')
            (WalletScopeId ''scope'') 1000 ConfMempool;
          unknown = discover_from_observed (OutPoint ''tx-unknown'' 0) (AccountId ''acct'')
            (WalletScopeId ''scope'') 1000 ConfUnknown
      in is_policy_spendable confirmed \<and> can_be_locked confirmed False \<and>
         mu_onchain_state mempool = UnconfirmedIncoming \<and>
         \<not> is_policy_spendable mempool \<and> \<not> can_be_locked mempool False \<and>
         mu_onchain_state unknown = OsUnknown \<and>
         \<not> is_policy_spendable unknown \<and> \<not> can_be_locked unknown False)"

lemma discovered_utxos_follow_confirmation_spendability_rules:
  "discovered_utxos_follow_confirmation_spendability_rules"
  by (simp add: discovered_utxos_follow_confirmation_spendability_rules_def utxo_op_defs)

definition reserve_mark_spent_and_mark_missing_follow_core_rules :: bool where
  "reserve_mark_spent_and_mark_missing_follow_core_rules \<longleftrightarrow>
     (let fresh = managed_utxo_new (OutPoint ''tx'' 0) (AccountId ''acct'') (WalletScopeId ''scope'') 1000;
          reserved = reserve_utxo (OperationId ''op1'') PhSelected fresh;
          missing = mark_missing reserved;
          spent = mark_spent missing
      in can_be_locked fresh False \<and>
         mu_availability reserved = Reserved \<and>
         is_some_and (mu_operation_binding reserved) (\<lambda>b. bd_operation_id b = OperationId ''op1'') \<and>
         mu_availability missing = Recovering \<and>
         mu_onchain_state spent = Spent \<and> mu_availability spent = BlockedByL2 \<and>
         mu_operation_binding spent = None)"

lemma reserve_mark_spent_and_mark_missing_follow_core_rules:
  "reserve_mark_spent_and_mark_missing_follow_core_rules"
  by (simp add: reserve_mark_spent_and_mark_missing_follow_core_rules_def utxo_op_defs managed_utxo_new_def Let_def)

definition release_binding_restores_selectable_or_policy_blocked :: bool where
  "release_binding_restores_selectable_or_policy_blocked \<longleftrightarrow>
     (let new = (\<lambda>txid. managed_utxo_new (OutPoint txid 0) (AccountId ''acct'') (WalletScopeId ''scope'') 1000);
          healthy = release_binding (reserve_utxo (OperationId ''op1'') PhSelected (new ''tx-healthy''));
          conflicted = release_binding ((reserve_utxo (OperationId ''op1'') PhSelected (new ''tx-conflict''))
            \<lparr>mu_observation_conflict := Some \<lparr>oc_message = ''mismatch'', oc_recorded_at = 1\<rparr>\<rparr>);
          recovering = release_binding (mark_missing (reserve_utxo (OperationId ''op1'') PhSelected
            ((new ''tx-recovering'')\<lparr>mu_availability := Recovering\<rparr>)))
      in mu_availability healthy = Selectable \<and> mu_operation_binding healthy = None \<and>
         mu_availability conflicted = BlockedByPolicy \<and> mu_operation_binding conflicted = None \<and>
         mu_availability recovering = Recovering)"

lemma release_binding_restores_selectable_or_policy_blocked: "release_binding_restores_selectable_or_policy_blocked"
  by (simp add: release_binding_restores_selectable_or_policy_blocked_def utxo_op_defs managed_utxo_new_def Let_def)

definition advancing_binding_retains_ownership_until_observed_spent :: bool where
  "advancing_binding_retains_ownership_until_observed_spent \<longleftrightarrow>
     (let selected = reserve_utxo (OperationId ''op1'') PhSelected
            (managed_utxo_new (OutPoint ''tx-complete'' 0) (AccountId ''acct'') (WalletScopeId ''scope'') 1000);
          advanced = (\<lambda>u phase. mu_onchain_state u = Confirmed \<and> mu_availability u = Reserved \<and>
            is_some_and (mu_operation_binding u) (\<lambda>b. bd_phase b = phase) \<and> \<not> is_policy_spendable u);
          constructing = advance_binding PhConstructing selected;
          signed = advance_binding PhSigned constructing;
          broadcast = advance_binding PhBroadcast signed;
          spent = advance_binding PhAwaitingConfirmation (mark_spent broadcast)
      in advanced constructing PhConstructing \<and> advanced signed PhSigned \<and>
         mu_onchain_state broadcast = SpendingInFlight \<and> mu_availability broadcast = BlockedByL2 \<and>
         is_some_and (mu_operation_binding broadcast) (\<lambda>b. bd_phase b = PhBroadcast) \<and>
         mu_onchain_state spent = Spent \<and> mu_availability spent = BlockedByL2 \<and>
         mu_operation_binding spent = None)"

lemma advancing_binding_retains_ownership_until_observed_spent:
  "advancing_binding_retains_ownership_until_observed_spent"
  by (simp add: advancing_binding_retains_ownership_until_observed_spent_def utxo_op_defs managed_utxo_new_def
      spending_phase_def Let_def)

section \<open>Requests\<close>

definition btc_send_request_derives_btc_send_locking_and_capabilities :: bool where
  "btc_send_request_derives_btc_send_locking_and_capabilities \<longleftrightarrow>
     (let request = into_operation_request (BtcSendReq (btc_send_new (OperationId ''op-btc'') (AccountId ''btc'') 50000))
      in or_operation_id request = OperationId ''op-btc'' \<and>
         isr_account_id (or_selection request) = AccountId ''btc'' \<and>
         isr_required_capabilities (or_selection request) = capability_set_new [BtcSpend] \<and>
         lock_purpose_of (slp_purpose (or_locking request)) = BtcSendLock \<and>
         slp_expires_at (or_locking request) = None \<and>
         isr_spec (or_selection request) = TargetValue 50000)"

lemma btc_send_request_derives_btc_send_locking_and_capabilities:
  "btc_send_request_derives_btc_send_locking_and_capabilities"
  by (simp add: btc_send_request_derives_btc_send_locking_and_capabilities_def btc_send_new_def
      operation_request_new_def capability_set_new_def)

definition planned_specific_outpoint_request_keeps_optional_expiry :: bool where
  "planned_specific_outpoint_request_keeps_optional_expiry \<longleftrightarrow>
     (let request = into_operation_request (PlannedSpecificOutpoint (planned_specific_expires_at 42
            (planned_specific_outpoint_new (OperationId ''op-plan'') (AccountId ''rgb'') (OutPoint ''txid'' 1))))
      in or_operation_id request = OperationId ''op-plan'' \<and>
         isr_account_id (or_selection request) = AccountId ''rgb'' \<and>
         lock_purpose_of (slp_purpose (or_locking request)) = PlannedSelectionLock \<and>
         slp_expires_at (or_locking request) = Some 42 \<and>
         isr_spec (or_selection request) = ExactOutpoints [OutPoint ''txid'' 1])"

lemma planned_specific_outpoint_request_keeps_optional_expiry:
  "planned_specific_outpoint_request_keeps_optional_expiry"
  by (simp add: planned_specific_outpoint_request_keeps_optional_expiry_def planned_specific_outpoint_new_def
      planned_specific_expires_at_def operation_request_new_def)

definition manual_candidate_order_preserves_serialized_lexical_order :: bool where
  "manual_candidate_order_preserves_serialized_lexical_order \<longleftrightarrow>
     isr_spec (or_selection (into_operation_request (ManualReservationFirstAvailable
       (manual_reservation_first_available_new (OperationId ''manual'') (AccountId ''account'')
         [OutPoint ''x'' 2, OutPoint ''x:'' 0, OutPoint ''x'' 10] 42)))) =
     FirstSelectable [OutPoint ''x'' 10, OutPoint ''x'' 2, OutPoint ''x:'' 0]"

lemma manual_candidate_order_preserves_serialized_lexical_order:
  "manual_candidate_order_preserves_serialized_lexical_order"
proof -
  have "sort_key outpoint_string [OutPoint ''x'' 2, OutPoint ''x:'' 0, OutPoint ''x'' 10] =
      [OutPoint ''x'' 10, OutPoint ''x'' 2, OutPoint ''x:'' 0]"
    by code_simp
  then show ?thesis
    by (simp add: manual_candidate_order_preserves_serialized_lexical_order_def
        manual_reservation_first_available_new_def operation_request_new_def)
qed

definition manual_first_available_request_sorts_candidates_and_sets_expiry :: bool where
  "manual_first_available_request_sorts_candidates_and_sets_expiry \<longleftrightarrow>
     (let request = into_operation_request (ManualReservationFirstAvailable
            (manual_reservation_first_available_new (OperationId ''manual-1'') (AccountId ''rgb'')
              [OutPoint ''tx-b'' 1, OutPoint ''tx-a'' 0] 1234))
      in or_operation_id request = OperationId ''manual-1'' \<and>
         isr_account_id (or_selection request) = AccountId ''rgb'' \<and>
         lock_purpose_of (slp_purpose (or_locking request)) = ManualReservation \<and>
         slp_expires_at (or_locking request) = Some 1234 \<and>
         isr_spec (or_selection request) = FirstSelectable [OutPoint ''tx-a'' 0, OutPoint ''tx-b'' 1])"

lemma manual_first_available_request_sorts_candidates_and_sets_expiry:
  "manual_first_available_request_sorts_candidates_and_sets_expiry"
proof -
  have "sort_key outpoint_string [OutPoint ''tx-b'' 1, OutPoint ''tx-a'' 0] = [OutPoint ''tx-a'' 0, OutPoint ''tx-b'' 1]"
    by code_simp
  then show ?thesis
    by (simp add: manual_first_available_request_sorts_candidates_and_sets_expiry_def
        manual_reservation_first_available_new_def operation_request_new_def)
qed

section \<open>The planner\<close>

text \<open>\<open>StaticState\<close>: a state that holds nothing but a list of outputs.\<close>

definition static_state :: "managed_utxo list state_read" where
  "static_state =
     \<lparr>get_account = (\<lambda>_ _. Inr None), get_scope = (\<lambda>_ _. Inr None),
      get_utxo = (\<lambda>utxos outpoint. Inr (find (\<lambda>utxo. mu_outpoint utxo = outpoint) utxos)),
      get_lock = (\<lambda>_ _. Inr None), get_operation = (\<lambda>_ _. Inr None), get_intent = (\<lambda>_ _. Inr None),
      list_utxos = Inr, list_operations = (\<lambda>_. Inr []), list_pending_intents = (\<lambda>_. Inr []),
      current_tick = (\<lambda>_. Inr 0)\<rparr>"

definition static_utxo :: "outpoint \<Rightarrow> managed_utxo" where
  "static_utxo p = managed_utxo_new p (AccountId ''acct'') (WalletScopeId ''scope'') 1000"

definition static_observed :: "outpoint \<Rightarrow> observed_utxo" where
  "static_observed p = observed_utxo_new p (AccountId ''acct'') (WalletScopeId ''scope'') 1000"

definition mempool_observation_restores_policy_block_and_unconfirmed_state :: bool where
  "mempool_observation_restores_policy_block_and_unconfirmed_state \<longleftrightarrow>
     (let outpoint = OutPoint ''tx-mempool'' 0;
          snapshot = add_observed (observed_mempool (static_observed outpoint)) (observation_snapshot_new 42 Incremental)
      in case plan_reconciliation static_state [static_utxo outpoint] snapshot of
           Inl _ \<Rightarrow> False
         | Inr plan \<Rightarrow>
             UpdateAvailability outpoint BlockedByPolicy \<in> set (rp_actions plan) \<and>
             UpdateOnchainState outpoint UnconfirmedIncoming \<in> set (rp_actions plan))"

lemmas plan_eval = plan_reconciliation_def plan_actions_def static_state_def static_utxo_def static_observed_def
  observation_actions_def unspent_actions_def restored_unspent_availability_def observed_mismatch_message_def
  observation_snapshot_new_def add_observed_def observed_utxo_new_def observed_mempool_def observed_confirmed_def
  managed_utxo_new_def then_some_def utxo_op_defs Let_def

lemma mempool_observation_restores_policy_block_and_unconfirmed_state:
  "mempool_observation_restores_policy_block_and_unconfirmed_state"
  by (simp add: mempool_observation_restores_policy_block_and_unconfirmed_state_def plan_eval)

definition spent_utxos_do_not_reopen_on_unspent_observation :: bool where
  "spent_utxos_do_not_reopen_on_unspent_observation \<longleftrightarrow>
     (let outpoint = OutPoint ''tx-spent'' 0;
          snapshot = add_observed (observed_confirmed 101 43 (static_observed outpoint))
            (observation_snapshot_new 43 Incremental)
      in case plan_reconciliation static_state [mark_spent (static_utxo outpoint)] snapshot of
           Inl _ \<Rightarrow> False
         | Inr plan \<Rightarrow>
             \<not> list_ex (\<lambda>action. case action of UpdateOnchainState candidate _ \<Rightarrow> candidate = outpoint | _ \<Rightarrow> False)
                 (rp_actions plan) \<and>
             \<not> list_ex (\<lambda>action. case action of UpdateAvailability candidate _ \<Rightarrow> candidate = outpoint | _ \<Rightarrow> False)
                 (rp_actions plan))"

lemma spent_utxos_do_not_reopen_on_unspent_observation: "spent_utxos_do_not_reopen_on_unspent_observation"
  by (simp add: spent_utxos_do_not_reopen_on_unspent_observation_def plan_eval)

definition spent_utxos_keep_existing_conflicts_on_unspent_observation :: bool where
  "spent_utxos_keep_existing_conflicts_on_unspent_observation \<longleftrightarrow>
     (let outpoint = OutPoint ''tx-spent-conflict'' 0;
          spent = (mark_spent (static_utxo outpoint))\<lparr>mu_observation_conflict :=
            Some \<lparr>oc_message = ''reserved utxo spent by tx-ext'', oc_recorded_at = 42\<rparr>\<rparr>;
          snapshot = add_observed (observed_confirmed 101 44 (static_observed outpoint))
            (observation_snapshot_new 44 Incremental)
      in case plan_reconciliation static_state [spent] snapshot of
           Inl _ \<Rightarrow> False
         | Inr plan \<Rightarrow>
             \<not> list_ex (\<lambda>action. case action of ClearConflict candidate \<Rightarrow> candidate = outpoint | _ \<Rightarrow> False)
                 (rp_actions plan))"

lemma spent_utxos_keep_existing_conflicts_on_unspent_observation:
  "spent_utxos_keep_existing_conflicts_on_unspent_observation"
  by (simp add: spent_utxos_keep_existing_conflicts_on_unspent_observation_def plan_eval)

section \<open>The codec\<close>

abbreviation "decode_capability \<equiv> decode ''txoscope_core::capability::Capability'' capability_names"

definition capability_codec_round_trips_current_names :: bool where
  "capability_codec_round_trips_current_names \<longleftrightarrow>
     (\<forall>(capability, encoded) \<in> set [(BtcSpend, ''btc_spend''), (BtcReceive, ''btc_receive''),
        (FeeSupport, ''fee_support''), (ReserveSupport, ''reserve_support''),
        (SingleTargetReserve, ''single_target_reserve''), (L2Settlement, ''l2_settlement''),
        (ConsolidationSource, ''consolidation_source''), (ConsolidationTarget, ''consolidation_target'')].
        encode_capability capability = encoded \<and> decode_capability encoded = Inr capability) \<and>
     (let capabilities = capability_set_new [BtcSpend, SingleTargetReserve, L2Settlement]
      in decode_capabilities (encode_capabilities capabilities) = Inr capabilities)"

lemma capability_codec_round_trips_current_names: "capability_codec_round_trips_current_names"
  by (simp add: capability_codec_round_trips_current_names_def decode_capabilities_encode decode_def capability_names_def)

definition capability_codec_preserves_legacy_names :: bool where
  "capability_codec_preserves_legacy_names \<longleftrightarrow> decode_capability ''rgb_receive'' = Inr SingleTargetReserve"

lemma capability_codec_preserves_legacy_names: "capability_codec_preserves_legacy_names"
  by (simp add: capability_codec_preserves_legacy_names_def decode_def capability_names_def)

definition state_codec_round_trips_current_names :: bool where
  "state_codec_round_trips_current_names \<longleftrightarrow>
     (\<forall>(value, encoded) \<in> set [(OsUnknown, ''unknown''), (UnconfirmedIncoming, ''unconfirmed_incoming''),
        (Confirmed, ''confirmed''), (SpendingInFlight, ''spending_in_flight''), (Spent, ''spent'')].
        encode_onchain value = encoded \<and> decode_onchain encoded = Inr value) \<and>
     (\<forall>(value, encoded) \<in> set [(AvUnknown, ''unknown''), (Selectable, ''selectable''), (Reserved, ''reserved''),
        (Locked, ''locked''), (BlockedByPolicy, ''blocked_by_policy''), (BlockedByL2, ''blocked_by_l2''),
        (Recovering, ''recovering'')].
        encode_availability value = encoded \<and> decode_availability encoded = Inr value) \<and>
     (\<forall>(value, encoded) \<in> set [(RoleUnknown, ''unknown''), (General, ''general''),
        (SpendPreferred, ''spend_preferred''), (Reserve, ''reserve''), (RecoveryOutput, ''recovery_output''),
        (ConsolidationCandidate, ''consolidation_candidate'')].
        encode_role value = encoded \<and> decode_role encoded = Inr value)"

lemma state_codec_round_trips_current_names: "state_codec_round_trips_current_names"
  by (simp add: state_codec_round_trips_current_names_def decode_def onchain_names_def availability_names_def role_names_def)

definition operation_codec_round_trips_current_names :: bool where
  "operation_codec_round_trips_current_names \<longleftrightarrow>
     (\<forall>(value, encoded) \<in> set [(ManualReservation, ''manual_reservation''), (BtcSendLock, ''btc_send''),
        (FeeSupportLock, ''fee_support''), (PlannedSelectionLock, ''planned_selection'')].
        encode_purpose value = encoded \<and> decode_purpose encoded = Inr value) \<and>
     (\<forall>(value, encoded) \<in> set [(PhSelected, ''selected''), (PhConstructing, ''constructing''),
        (PhSigned, ''signed''), (PhBroadcast, ''broadcast''), (PhAwaitingConfirmation, ''awaiting_confirmation''),
        (PhAwaitingL2Finality, ''awaiting_l2_finality''), (PhRollingBack, ''rolling_back'')].
        encode_phase value = encoded \<and> decode_phase encoded = Inr value) \<and>
     (\<forall>(value, encoded) \<in> set [(Pending, ''pending''), (Committed, ''committed''), (Failed, ''failed'')].
        encode_status value = encoded \<and> decode_status encoded = Inr value)"

lemma operation_codec_round_trips_current_names: "operation_codec_round_trips_current_names"
  by (simp add: operation_codec_round_trips_current_names_def decode_def purpose_names_def phase_names_def status_names_def)

definition lock_purpose_codec_preserves_legacy_aliases :: bool where
  "lock_purpose_codec_preserves_legacy_aliases \<longleftrightarrow>
     (\<forall>alias \<in> set [''single_target_reserve'', ''anchor_with_fee_support'', ''rgb_receive_preparation'',
        ''rgb_l1_send'', ''channel_funding''].
        decode_purpose alias = Inr PlannedSelectionLock)"

lemma lock_purpose_codec_preserves_legacy_aliases: "lock_purpose_codec_preserves_legacy_aliases"
  by (simp add: lock_purpose_codec_preserves_legacy_aliases_def decode_def purpose_names_def)

end
