(* ===== verification/Scenarios.thy ===== *)
theory Scenarios
  imports Memory_Service "HOL-Library.Sublist"
begin

text \<open>
  The vocabulary of the service's own unit tests (\<open>txoscope/src/lib.rs\<close>), and the service they start
  from. A test is a script of calls over the memory backend and of what it expects of their replies; it
  passes when no call it unwraps fails and no expectation is missed. Clock and nonce stand still, except
  where a test sets the clock; a call changes the state also when its reply is an error the test expects.
\<close>

section \<open>Scripts\<close>

definition attempt :: "('s, 'a) command \<Rightarrow> ('s, 'a result) command" where
  "attempt m s = (case m s of (r, s') \<Rightarrow> (Inr r, s'))"

definition assertion :: "bool \<Rightarrow> ('s, unit) command" where
  "assertion b = (if b then cmd_return () else cmd_fail (CorruptedState ''assertion failed''))"

definition expect :: "('s, 'a) command \<Rightarrow> ('a result \<Rightarrow> bool) \<Rightarrow> ('s, unit) command" where
  "expect m P = cmd_bind (attempt m) (\<lambda>r. assertion (P r))"

definition unwrapped :: "('s, 'a) command \<Rightarrow> ('s, unit) command" where
  "unwrapped m = cmd_bind m (\<lambda>_. cmd_return ())"

fun script :: "('s, unit) command list \<Rightarrow> ('s, unit) command" where
  "script [] = cmd_return ()"
| "script (m # ms) = cmd_bind m (\<lambda>_. script ms)"

definition passes :: "('s, unit) command \<Rightarrow> 's \<Rightarrow> bool" where
  "passes m s \<longleftrightarrow> fst (m s) = Inr ()"

text \<open>What an expectation says of a reply.\<close>

definition ok_with :: "('a \<Rightarrow> bool) \<Rightarrow> 'a result \<Rightarrow> bool" where
  "ok_with P r = (case r of Inl _ \<Rightarrow> False | Inr x \<Rightarrow> P x)"

definition fails_as :: "(domain_error \<Rightarrow> bool) \<Rightarrow> 'a result \<Rightarrow> bool" where
  "fails_as P r = (case r of Inl e \<Rightarrow> P e | Inr _ \<Rightarrow> False)"

fun is_invalid_request :: "domain_error \<Rightarrow> bool" where
  "is_invalid_request (InvalidRequest _) = True"
| "is_invalid_request _ = False"

fun is_policy_blocked :: "domain_error \<Rightarrow> bool" where
  "is_policy_blocked (UtxoPolicyBlocked _ _) = True"
| "is_policy_blocked _ = False"

fun is_insufficient_value :: "domain_error \<Rightarrow> bool" where
  "is_insufficient_value (InsufficientValue _ _) = True"
| "is_insufficient_value _ = False"

fun is_insufficient_asset :: "domain_error \<Rightarrow> bool" where
  "is_insufficient_asset (InsufficientAsset _ _) = True"
| "is_insufficient_asset _ = False"

fun candidate_rejections :: "domain_error \<Rightarrow> asset_candidate_rejection list option" where
  "candidate_rejections (NoEligibleAssetCandidates rejections) = Some rejections"
| "candidate_rejections _ = None"

fun invalid_reason :: "domain_error \<Rightarrow> string option" where
  "invalid_reason (InvalidRequest reason) = Some reason"
| "invalid_reason _ = None"

fun corrupted_reason :: "domain_error \<Rightarrow> string option" where
  "corrupted_reason (CorruptedState message) = Some message"
| "corrupted_reason _ = None"

section \<open>The calls of the tests\<close>

abbreviation "get_lock_of p \<equiv> on_orchestrator (orch_get_lock demo_ops p)"
abbreviation "get_utxo_of p \<equiv> on_orchestrator (orch_get_utxo demo_ops p)"
abbreviation "get_intent_of i \<equiv> on_orchestrator (orch_get_intent demo_ops i)"
abbreviation "get_operation_of i \<equiv> on_orchestrator (orch_get_operation demo_ops i)"
abbreviation "all_operations \<equiv> on_orchestrator (orch_list_operations demo_ops)"
abbreviation "selectable p \<equiv> expect (is_outpoint_selectable demo_ops p) (ok_with id)"
abbreviation "unlocked p \<equiv> expect (get_lock_of p) (ok_with (\<lambda>lock. lock = None))"
abbreviation "no_plan i \<equiv> expect (cmd_read (\<lambda>sv. read_planned_selection demo_ops (orch_store (sv_orchestrator sv)) i))
  (ok_with (\<lambda>plan. plan = None))"
abbreviation "no_operation i \<equiv> expect (get_operation_of i) (ok_with (\<lambda>operation. operation = None))"
abbreviation "preview req \<equiv> preview_asset_selection demo_ops demo_deps req"
abbreviation "plan_assets i req \<equiv> plan_asset_selection demo_ops demo_deps \<lparr>pa_operation_id = i, pa_selection = req\<rparr>"

definition add_account_call :: "string \<Rightarrow> string \<Rightarrow> string list \<Rightarrow> capability list \<Rightarrow> (memory_store service, unit) command" where
  "add_account_call i n scopes caps = on_orchestrator (orch_add_account demo_ops
     (account_new (AccountId i) n (map WalletScopeId scopes) (capability_set_new caps)))"

definition add_scope_call :: "string \<Rightarrow> string \<Rightarrow> capability list \<Rightarrow> (memory_store service, unit) command" where
  "add_scope_call i account caps = on_orchestrator (orch_add_scope demo_ops
     (wallet_scope_new (WalletScopeId i) (AccountId account) ''descriptor'' ''external'' (capability_set_new caps) 0))"

definition add_utxo_call :: "outpoint \<Rightarrow> string \<Rightarrow> string \<Rightarrow> u64 \<Rightarrow> (memory_store service, unit) command" where
  "add_utxo_call p account scope sats = on_orchestrator (orch_add_utxo demo_ops
     (managed_utxo_new p (AccountId account) (WalletScopeId scope) sats))"

section \<open>The service the tests start from\<close>

definition btc_capabilities :: "capability list" where
  "btc_capabilities = [BtcSpend, ReserveSupport, BtcReceive, FeeSupport]"

definition rgb_capabilities :: "capability list" where
  "rgb_capabilities = [BtcReceive, FeeSupport, L2Settlement, ReserveSupport, SingleTargetReserve]"

definition mixed_config :: bootstrap_config where
  "mixed_config =
     \<lparr>bc_owner = ''test-owner'',
      bc_accounts =
        [\<lparr>bac_id = AccountId ''btc'', bac_name = ''BTC'', bac_capabilities = capability_set_new btc_capabilities\<rparr>,
         \<lparr>bac_id = AccountId ''rgb'', bac_name = ''RGB'', bac_capabilities = capability_set_new rgb_capabilities\<rparr>],
      bc_scopes =
        [\<lparr>bsc_id = WalletScopeId ''btc-scope'', bsc_account_id = AccountId ''btc'', bsc_descriptor_ref = ''bdk'',
           bsc_derivation_scope = ''external'', bsc_capabilities = capability_set_new btc_capabilities, bsc_priority = 0\<rparr>,
         \<lparr>bsc_id = WalletScopeId ''rgb-scope'', bsc_account_id = AccountId ''rgb'', bsc_descriptor_ref = ''rgb'',
           bsc_derivation_scope = ''rgb'', bsc_capabilities = capability_set_new rgb_capabilities, bsc_priority = 0\<rparr>]\<rparr>"

abbreviation "tx_rgb \<equiv> OutPoint ''tx-rgb'' 0"
abbreviation "tx_btc \<equiv> OutPoint ''tx-btc'' 1"
abbreviation "fee_0 \<equiv> OutPoint ''fee'' 0"

definition service_with_mixed_utxos :: "memory_store service result" where
  "service_with_mixed_utxos =
     (case script
        [bootstrap demo_ops mixed_config,
         add_utxo_call tx_rgb ''rgb'' ''rgb-scope'' 25000,
         add_utxo_call tx_btc ''btc'' ''btc-scope'' 40000] (service_with_store memory_default) of
        (Inl e, _) \<Rightarrow> Inl e
      | (Inr _, sv) \<Rightarrow> Inr sv)"

text \<open>A test over that service.\<close>

definition with_mixed_utxos :: "(memory_store service, unit) command \<Rightarrow> bool" where
  "with_mixed_utxos m \<longleftrightarrow> ok_with (passes m) service_with_mixed_utxos"

section \<open>Evaluation\<close>

lemma run_script:
  "s = s' \<Longrightarrow> attempt m s = attempt m s'"
  "s = s' \<Longrightarrow> expect m P s = expect m P s'"
  "s = s' \<Longrightarrow> unwrapped m s = unwrapped m s'"
  "s = s' \<Longrightarrow> script ms s = script ms s'"
  "s = s' \<Longrightarrow> passes m s = passes m s'"
  by simp_all

lemma script_append [simp]: "script (ms @ ns) s = cmd_bind (script ms) (\<lambda>_. script ns) s"
  by (induction ms arbitrary: s) (auto simp: cmd_bind_apply split: prod.splits sum.splits)

lemmas script_order = run_order run_script

lemma reservation_id_eq:
  "random_reservation_id n t = OperationId s \<longleftrightarrow> ''manual-reservation-'' @ show_nat (unat t) @ ''-'' @ n = s"
  "OperationId s = random_reservation_id n t \<longleftrightarrow> ''manual-reservation-'' @ show_nat (unat t) @ ''-'' @ n = s"
  by (auto simp: random_reservation_id_def)

lemmas script_eval = attempt_def assertion_def expect_def unwrapped_def passes_def ok_with_def fails_as_def
  with_mixed_utxos_def add_account_call_def add_scope_call_def add_utxo_call_def demo_ops_def demo_deps_def

lemmas domain_eval = mixed_config_def btc_capabilities_def rgb_capabilities_def capability_set_new_def
  account_new_def wallet_scope_new_def manual_reservation_exact_new_def orch_add_utxo_def mem_put_utxo_def

lemmas asset_eval = preview_asset_selection_def plan_asset_selection_def asset_selection_of_def validate_inputs_def
  expire_stale_candidate_reservations_def read_asset_preview_def add_asset_scope_def fee_input_error_def candidate_error_def
  check_rejections_def select_assets_def auto_select_def check_exact_def carrier_order_def

lemmas query_eval = get_active_manual_reservation_def get_manual_reservation_def read_manual_reservation_def
  cmd_read_def orch_get_utxo_def orch_get_lock_def orch_get_intent_def orch_get_operation_def status_from_records_def status_is_selectable_def
  now_utc_unix_secs_def generate_id_def is_outpoint_selectable_def orch_is_outpoint_selectable_def
  read_planned_selection_def apply_explicit_selection_def check_explicit_request_def explicit_selection_def
  reserve_manual_utxo_def next_manual_reservation_def manual_reservation_from_selection_def reservation_expiry_def
  reserve_first_available_manual_utxo_def clamp_word_def verify_planned_inputs_def

lemmas scenario_eval = sublist_code script_eval domain_eval run_eval asset_eval query_eval reservation_id_eq

definition mixed_service :: "memory_store service" where
  "mixed_service = \<lparr>sv_orchestrator = \<lparr>orch_store =
     \<lparr>ms_accounts =
        [(AccountId ''btc'', account_new (AccountId ''btc'') ''BTC'' [WalletScopeId ''btc-scope''] (set btc_capabilities)),
         (AccountId ''rgb'', account_new (AccountId ''rgb'') ''RGB'' [WalletScopeId ''rgb-scope''] (set rgb_capabilities))],
      ms_scopes =
        [(WalletScopeId ''btc-scope'', wallet_scope_new (WalletScopeId ''btc-scope'') (AccountId ''btc'') ''bdk'' ''external''
           (set btc_capabilities) 0),
         (WalletScopeId ''rgb-scope'', wallet_scope_new (WalletScopeId ''rgb-scope'') (AccountId ''rgb'') ''rgb'' ''rgb''
           (set rgb_capabilities) 0)],
      ms_utxos =
        [(outpoint_string tx_rgb, managed_utxo_new tx_rgb (AccountId ''rgb'') (WalletScopeId ''rgb-scope'') 25000),
         (outpoint_string tx_btc, managed_utxo_new tx_btc (AccountId ''btc'') (WalletScopeId ''btc-scope'') 40000)],
      ms_locks = [], ms_operations = [], ms_intents = [], ms_tick = 6\<rparr>, orch_owner = ''test-owner''\<rparr>,
      sv_clock_reads = 0, sv_ids_generated = 0\<rparr>"

lemma mixed_setup [simp]: "service_with_mixed_utxos = Inr mixed_service"
  by (simp add: scenario_eval service_with_mixed_utxos_def mixed_service_def split del: if_split cong: script_order)

end
