(* ===== verification/Asset_Tests.thy ===== *)
theory Asset_Tests
  imports Scenarios
begin

text \<open>The unit tests of asset selection (\<open>txoscope/src/lib.rs\<close>): previews and plans over the memory backend.\<close>

section \<open>Requests\<close>

abbreviation "rgb \<equiv> AccountId ''rgb''"

definition candidate :: "outpoint \<Rightarrow> u64 \<Rightarrow> asset_input_candidate" where
  "candidate p amount = \<lparr>ai_outpoint = p, ai_asset_amount = amount\<rparr>"

definition asset_request ::
  "asset_input_candidate list \<Rightarrow> u64 \<Rightarrow> u64 \<Rightarrow> outpoint list option \<Rightarrow> bool \<Rightarrow> bool \<Rightarrow> asset_selection_request" where
  "asset_request candidates amount sats exact merge fee =
     \<lparr>ar_target_account_id = rgb, ar_candidates = candidates, ar_asset_amount = amount,
      ar_required_value_sats = sats,
      ar_constraints = \<lparr>co_exact_outpoints = exact, co_allow_asset_merge = merge, co_allow_fee_support = fee\<rparr>\<rparr>"

lemmas request_eval = candidate_def asset_request_def

lemma outpoint_order [simp]:
  "outpoint_string tx_rgb \<le> outpoint_string fee_0 \<longleftrightarrow> False"
  "outpoint_string fee_0 \<le> outpoint_string tx_rgb \<longleftrightarrow> True"
  "outpoint_string tx_rgb \<le> outpoint_string (OutPoint ''blocked'' 0) \<longleftrightarrow> False"
  "outpoint_string (OutPoint ''blocked'' 0) \<le> outpoint_string tx_rgb \<longleftrightarrow> True"
  "outpoint_string tx_rgb \<le> outpoint_string (OutPoint ''small'' 0) \<longleftrightarrow> False"
  "outpoint_string (OutPoint ''small'' 0) \<le> outpoint_string tx_rgb \<longleftrightarrow> True"
  "outpoint_string (OutPoint ''anchor2'' 0) \<le> outpoint_string (OutPoint ''support'' 0) \<longleftrightarrow> True"
  "outpoint_string (OutPoint ''support'' 0) \<le> outpoint_string (OutPoint ''anchor2'' 0) \<longleftrightarrow> False"
  "outpoint_string tx_rgb \<le> outpoint_string (OutPoint ''anchor2'' 0) \<longleftrightarrow> False"
  "outpoint_string tx_rgb \<le> outpoint_string (OutPoint ''support'' 0) \<longleftrightarrow> False"
  "outpoint_string (OutPoint ''support'' 0) \<le> outpoint_string tx_rgb \<longleftrightarrow> True"
  "outpoint_string (OutPoint ''anchor2'' 0) \<le> outpoint_string tx_rgb \<longleftrightarrow> True"
  "outpoint_string (OutPoint ''same'' 2) \<le> outpoint_string (OutPoint ''same'' 10) \<longleftrightarrow> False"
  "outpoint_string (OutPoint ''same'' 10) \<le> outpoint_string (OutPoint ''same'' 2) \<longleftrightarrow> True"
  by code_simp+

section \<open>Fee inputs\<close>

definition asset_plan_preserves_fee_role_without_requiring_it_on_carrier_change :: bool where
  "asset_plan_preserves_fee_role_without_requiring_it_on_carrier_change \<longleftrightarrow>
     (let candidates = [candidate tx_rgb 10000, candidate fee_0 0];
          exact = asset_request candidates 1 40000 (Some [tx_rgb, fee_0]) False False;
          automatic = asset_request candidates 1 40000 None False True
      in with_mixed_utxos (script
       [add_scope_call ''rgb-scope'' ''rgb'' [ReserveSupport],
        add_scope_call ''fee'' ''rgb'' [ReserveSupport, FeeSupport],
        add_utxo_call fee_0 ''rgb'' ''fee'' 50000,
        expect (preview exact) (fails_as is_policy_blocked),
        expect (preview automatic) (\<lambda>r. r = Inr [tx_rgb, fee_0]),
        expect (plan_assets (OperationId ''fee-plan'') automatic)
          (ok_with (\<lambda>planned. pl_change_scope_id planned = WalletScopeId ''rgb-scope'')),
        expect (get_lock_of fee_0) (ok_with (\<lambda>lock. is_some_and lock (\<lambda>l. lk_purpose l = FeeSupportLock))),
        expect (get_intent_of (OperationId ''fee-plan'')) (ok_with (\<lambda>intent. is_some_and intent
          (\<lambda>n. os_effects (oi_selection n) ! 1 = LockUtxo fee_0 FeeSupportLock)))]))"

lemma asset_plan_preserves_fee_role_without_requiring_it_on_carrier_change:
  "asset_plan_preserves_fee_role_without_requiring_it_on_carrier_change"
  by (simp add: asset_plan_preserves_fee_role_without_requiring_it_on_carrier_change_def request_eval scenario_eval
      mixed_service_def split del: if_split cong: script_order)

text \<open>An input without an asset needs fee support on its account and on its scope.\<close>

definition asset_fee_inputs_require_fee_support_on_account_and_scope :: bool where
  "asset_fee_inputs_require_fee_support_on_account_and_scope \<longleftrightarrow>
     (\<forall>missing_on_account \<in> set [False, True].
       let candidates = [candidate tx_rgb 10000, candidate fee_0 0];
           automatic = asset_request candidates 1 40000 None False True;
           exact = asset_request candidates 1 40000 (Some [tx_rgb, fee_0]) False True;
           expected = (if missing_on_account then MissingAccountCapabilities rgb
             else MissingCapabilities (WalletScopeId ''fee''))
       in with_mixed_utxos (script
        [add_scope_call ''fee'' ''rgb'' [ReserveSupport, FeeSupport],
         add_utxo_call fee_0 ''rgb'' ''fee'' 50000,
         if missing_on_account
         then add_account_call ''rgb'' ''RGB'' [''rgb-scope'', ''fee''] [ReserveSupport]
         else add_scope_call ''fee'' ''rgb'' [ReserveSupport],
         expect (preview automatic) (\<lambda>r. r = Inl (InsufficientValue 40000 25000)),
         expect (plan_assets (OperationId ''auto-denied'') automatic) (fails_as is_insufficient_value),
         expect (preview exact) (\<lambda>r. r = Inl expected),
         expect (plan_assets (OperationId ''exact-denied'') exact) (\<lambda>r. r = Inl expected),
         unlocked tx_rgb, unlocked fee_0]))"

lemma asset_fee_inputs_require_fee_support_on_account_and_scope:
  "asset_fee_inputs_require_fee_support_on_account_and_scope"
  by (simp add: asset_fee_inputs_require_fee_support_on_account_and_scope_def request_eval scenario_eval
      mixed_service_def split del: if_split cong: script_order)

section \<open>Capabilities of accounts and scopes\<close>

definition asset_preview_validates_duplicates_and_expires_locks_before_capability_denial :: bool where
  "asset_preview_validates_duplicates_and_expires_locks_before_capability_denial \<longleftrightarrow>
     (\<forall>revoke_account \<in> set [False, True].
       let c = candidate tx_rgb 10000;
           expected = (if revoke_account then MissingAccountCapabilities rgb else NoEligibleScope rgb)
       in with_mixed_utxos (script
        [unwrapped (on_orchestrator (prepare_operation demo_ops (ManualReservationExact
           (manual_reservation_exact_new (OperationId ''expired'') rgb tx_rgb 0)))),
         if revoke_account then add_account_call ''rgb'' ''RGB'' [''rgb-scope''] []
         else add_scope_call ''rgb-scope'' ''rgb'' [],
         expect (preview (asset_request [c, c] 1 1 None False False))
           (\<lambda>r. r = Inl (InvalidRequest ''duplicate asset candidate'')),
         expect (get_lock_of tx_rgb) (ok_with (\<lambda>lock. lock \<noteq> None)),
         expect (preview (asset_request [c] 1 1 None False False)) (\<lambda>r. r = Inl expected),
         unlocked tx_rgb, selectable tx_rgb,
         expect (preview (asset_request [c] 1 1 (Some [tx_rgb, tx_rgb]) False False))
           (\<lambda>r. r = Inl (InvalidRequest ''duplicate exact input''))]))"

lemma asset_preview_validates_duplicates_and_expires_locks_before_capability_denial:
  "asset_preview_validates_duplicates_and_expires_locks_before_capability_denial"
  by (simp add: asset_preview_validates_duplicates_and_expires_locks_before_capability_denial_def request_eval
      scenario_eval mixed_service_def split del: if_split cong: script_order)

definition asset_preview_and_plan_report_no_capable_scopes :: bool where
  "asset_preview_and_plan_report_no_capable_scopes \<longleftrightarrow>
     (let req = (\<lambda>exact. asset_request [candidate tx_rgb 10000] 1 1 exact False False);
          empty = InvalidRequest ''exact asset selection requires at least one outpoint''
      in with_mixed_utxos (script
       [add_scope_call ''rgb-scope'' ''rgb'' [],
        expect (preview (req None)) (\<lambda>r. r = Inl (NoEligibleScope rgb)),
        expect (plan_assets (OperationId ''denied'') (req None)) (\<lambda>r. r = Inl (NoEligibleScope rgb)),
        expect (preview (req (Some []))) (\<lambda>r. r = Inl empty),
        expect (plan_assets (OperationId ''empty-denied'') (req (Some []))) (\<lambda>r. r = Inl empty),
        expect (preview (req (Some [tx_rgb]))) (\<lambda>r. r = Inl (MissingCapabilities (WalletScopeId ''rgb-scope''))),
        unlocked tx_rgb, no_plan (OperationId ''denied'')]))"

lemma asset_preview_and_plan_report_no_capable_scopes: "asset_preview_and_plan_report_no_capable_scopes"
  by (simp add: asset_preview_and_plan_report_no_capable_scopes_def request_eval scenario_eval
      mixed_service_def split del: if_split cong: script_order)

definition asset_preview_and_plan_exclude_unauthorized_scopes :: bool where
  "asset_preview_and_plan_exclude_unauthorized_scopes \<longleftrightarrow>
     (let blocked = OutPoint ''blocked'' 0;
          candidates = [candidate blocked 10000, candidate tx_rgb 10000];
          automatic = asset_request candidates 5000 10000 None False True;
          exact = asset_request candidates 5000 10000 (Some [blocked]) False True;
          support = asset_request [candidate blocked 0, candidate tx_rgb 10000] 5000 40000 None False True;
          expected = MissingCapabilities (WalletScopeId ''blocked'')
      in with_mixed_utxos (script
       [add_scope_call ''blocked'' ''rgb'' [],
        add_utxo_call blocked ''rgb'' ''blocked'' 50000,
        expect (preview automatic) (\<lambda>r. r = Inr [tx_rgb]),
        expect (plan_assets (OperationId ''authorized'') automatic) (ok_with (\<lambda>planned.
          pl_selected_outpoints planned = [tx_rgb] \<and> pl_change_scope_id planned = WalletScopeId ''rgb-scope'')),
        unlocked blocked,
        unwrapped (release_operation_service demo_ops (OperationId ''authorized'')),
        expect (preview exact) (\<lambda>r. r = Inl expected),
        expect (plan_assets (OperationId ''denied'') exact) (\<lambda>r. r = Inl expected),
        no_plan (OperationId ''denied''),
        expect (preview support) (\<lambda>r. r = Inl (InsufficientValue 40000 25000)),
        expect (plan_assets (OperationId ''no-support'') support) (fails_as is_insufficient_value)]))"

lemma asset_preview_and_plan_exclude_unauthorized_scopes: "asset_preview_and_plan_exclude_unauthorized_scopes"
  by (simp add: asset_preview_and_plan_exclude_unauthorized_scopes_def request_eval scenario_eval
      mixed_service_def split del: if_split cong: script_order)

definition asset_preview_and_plan_require_account_reserve_support :: bool where
  "asset_preview_and_plan_require_account_reserve_support \<longleftrightarrow>
     (let req = asset_request [candidate tx_rgb 10000] 5000 10000 None False False;
          expected = MissingAccountCapabilities rgb
      in with_mixed_utxos (script
       [add_account_call ''rgb'' ''RGB'' [''rgb-scope''] [],
        expect (preview req) (\<lambda>r. r = Inl expected),
        expect (plan_assets (OperationId ''denied'') req) (\<lambda>r. r = Inl expected),
        unlocked tx_rgb, no_plan (OperationId ''denied'')]))"

lemma asset_preview_and_plan_require_account_reserve_support: "asset_preview_and_plan_require_account_reserve_support"
  by (simp add: asset_preview_and_plan_require_account_reserve_support_def request_eval scenario_eval
      mixed_service_def split del: if_split cong: script_order)

section \<open>The choice of carriers\<close>

definition asset_selection_skips_reserved_anchor_and_locks_the_available_one :: bool where
  "asset_selection_skips_reserved_anchor_and_locks_the_available_one \<longleftrightarrow>
     (let small = OutPoint ''small'' 0;
          request = asset_request [candidate tx_rgb 20000, candidate small 10000] 5000 10000 None False False
      in with_mixed_utxos (script
       [add_utxo_call small ''rgb'' ''rgb-scope'' 15000,
        unwrapped (reserve_manual_utxo demo_ops demo_deps
          \<lparr>rmr_target_account_id = rgb, rmr_outpoint = tx_rgb, rmr_ttl_secs = 600\<rparr>),
        expect (preview request) (\<lambda>r. r = Inr [small]),
        selectable small,
        expect (plan_assets (OperationId ''funding'') request) (ok_with (\<lambda>plan. pl_selected_outpoints plan = [small])),
        expect (plan_assets (OperationId ''other'') request) (fails_as (\<lambda>e. candidate_rejections e \<noteq> None)),
        no_operation (OperationId ''other'')]))"

lemma asset_selection_skips_reserved_anchor_and_locks_the_available_one:
  "asset_selection_skips_reserved_anchor_and_locks_the_available_one"
  by (simp add: asset_selection_skips_reserved_anchor_and_locks_the_available_one_def request_eval scenario_eval
      mixed_service_def split del: if_split cong: script_order)

definition asset_selection_merges_anchors_with_allocation_free_support :: bool where
  "asset_selection_merges_anchors_with_allocation_free_support \<longleftrightarrow>
     (let anchor2 = OutPoint ''anchor2'' 0; support = OutPoint ''support'' 0;
          request = (\<lambda>merge sats. asset_request
            [candidate tx_rgb 3000, candidate anchor2 2000, candidate support 0] 5000 sats None merge True)
      in with_mixed_utxos (script
       [add_utxo_call anchor2 ''rgb'' ''rgb-scope'' 15000,
        add_utxo_call support ''rgb'' ''rgb-scope'' 30000,
        expect (preview (request False 60000)) (fails_as is_insufficient_asset),
        expect (preview (request True 60000)) (\<lambda>r. r = Inr [tx_rgb, anchor2, support]),
        expect (preview (request True 70001)) (fails_as is_insufficient_value)]))"

lemma asset_selection_merges_anchors_with_allocation_free_support:
  "asset_selection_merges_anchors_with_allocation_free_support"
  by (simp add: asset_selection_merges_anchors_with_allocation_free_support_def request_eval scenario_eval
      mixed_service_def split del: if_split cong: script_order)

text \<open>Carriers of one value are taken in the order of their text, in which \<open>same:10\<close> comes before \<open>same:2\<close>.\<close>

definition asset_selection_keeps_serialized_outpoint_order_for_equal_value_carriers :: bool where
  "asset_selection_keeps_serialized_outpoint_order_for_equal_value_carriers \<longleftrightarrow>
     (let same = OutPoint ''same'';
          request = asset_request (map (\<lambda>vout. candidate (same vout) 10) [2, 10]) 1 1 None False False
      in with_mixed_utxos (script
       [add_utxo_call (same 2) ''rgb'' ''rgb-scope'' 50000,
        add_utxo_call (same 10) ''rgb'' ''rgb-scope'' 50000,
        expect (preview request) (\<lambda>r. r = Inr [same 10]),
        expect (plan_assets (OperationId ''ordered'') request) (ok_with (\<lambda>plan. pl_selected_outpoints plan = [same 10])),
        selectable (same 2)]))"

lemma asset_selection_keeps_serialized_outpoint_order_for_equal_value_carriers:
  "asset_selection_keeps_serialized_outpoint_order_for_equal_value_carriers"
  by (simp add: asset_selection_keeps_serialized_outpoint_order_for_equal_value_carriers_def request_eval scenario_eval
      mixed_service_def split del: if_split cong: script_order)

lemma sublist_later: "sublist pat s \<Longrightarrow> sublist pat (front @ s)"
  unfolding sublist_def by (metis append.assoc)

definition asset_selection_rejects_duplicates_and_foreign_accounts_without_locks :: bool where
  "asset_selection_rejects_duplicates_and_foreign_accounts_without_locks \<longleftrightarrow>
     (let missing = OutPoint ''missing'' 0;
          request = (\<lambda>candidates exact. asset_request candidates 1 1 exact False False)
      in with_mixed_utxos (script
       [expect (preview (request [candidate tx_btc 10] None)) (fails_as (\<lambda>e. is_some_and (candidate_rejections e)
          (\<lambda>rejections. length rejections = 1 \<and> rejected_outpoint (hd rejections) = tx_btc \<and>
             sublist ''belongs to account btc'' (error_text (rejection_reason (hd rejections)))))),
        expect (preview (request [candidate missing 10] None)) (fails_as (\<lambda>e. is_some_and (candidate_rejections e)
          (\<lambda>rejections. rejection_reason (hd rejections) = UtxoNotFound missing))),
        expect (preview (request [candidate missing 10] (Some [missing]))) (\<lambda>r. r = Inl (UtxoNotFound missing)),
        expect (plan_assets (OperationId ''invalid'') (request [candidate missing 10, candidate missing 10] None))
          (fails_as is_invalid_request),
        no_operation (OperationId ''invalid''),
        selectable tx_btc]))"

lemma asset_selection_rejects_duplicates_and_foreign_accounts_without_locks:
  "asset_selection_rejects_duplicates_and_foreign_accounts_without_locks"
  by (simp add: asset_selection_rejects_duplicates_and_foreign_accounts_without_locks_def request_eval scenario_eval sublist_later
      mixed_service_def split del: if_split cong: script_order)

end
