(* ===== verification/Service_Tests.thy ===== *)
theory Service_Tests
  imports Scenarios
begin

text \<open>
  The service's unit tests of explicit selections, of the guards of a request, and of manual reservations
  (\<open>txoscope/src/lib.rs\<close>), over the memory backend.
\<close>

section \<open>Explicit selections\<close>

abbreviation "explicit i ps scope \<equiv> apply_explicit_selection demo_ops
  \<lparr>esr_operation_id = OperationId i, esr_selected_outpoints = ps, esr_change_scope_id = WalletScopeId scope,
   esr_expires_at = None\<rparr>"

definition apply_explicit_selection_locks_mixed_account_inputs :: bool where
  "apply_explicit_selection_locks_mixed_account_inputs \<longleftrightarrow>
     (let i = OperationId ''mixed-top-up'';
          held = (\<lambda>p.
           [expect (get_utxo_of p) (ok_with (\<lambda>utxo. is_some_and utxo (\<lambda>u. mu_availability u = Reserved \<and>
              is_some_and (mu_operation_binding u) (\<lambda>b. bd_operation_id b = i \<and> bd_phase b = PhSelected)))),
            expect (get_lock_of p) (ok_with (\<lambda>lock. is_some_and lock
              (\<lambda>l. lk_operation_id l = i \<and> lk_purpose l = PlannedSelectionLock)))])
      in with_mixed_utxos (script
       ([expect (explicit ''mixed-top-up'' [tx_rgb, tx_btc] ''btc-scope'') (ok_with (\<lambda>selection.
           pl_selected_outpoints selection = [tx_rgb, tx_btc] \<and>
           pl_change_scope_id selection = WalletScopeId ''btc-scope'')),
         unwrapped (verify_planned_inputs demo_ops i [tx_rgb, tx_btc])] @ held tx_rgb @ held tx_btc)))"

lemma apply_explicit_selection_locks_mixed_account_inputs: "apply_explicit_selection_locks_mixed_account_inputs"
  by (simp add: apply_explicit_selection_locks_mixed_account_inputs_def scenario_eval mixed_service_def
      split del: if_split cong: script_order)

definition apply_explicit_selection_rejects_empty_inputs :: bool where
  "apply_explicit_selection_rejects_empty_inputs \<longleftrightarrow> with_mixed_utxos (script
     [expect (explicit ''empty-top-up'' [] ''btc-scope'') (fails_as (\<lambda>e. is_some_and (invalid_reason e)
        (\<lambda>message. sublist ''explicit selection'' message \<and> sublist ''at least one outpoint'' message))),
      no_operation (OperationId ''empty-top-up'')])"

lemma apply_explicit_selection_rejects_empty_inputs: "apply_explicit_selection_rejects_empty_inputs"
  by (simp add: apply_explicit_selection_rejects_empty_inputs_def scenario_eval mixed_service_def
      split del: if_split cong: script_order)

definition apply_explicit_selection_rejects_duplicate_inputs :: bool where
  "apply_explicit_selection_rejects_duplicate_inputs \<longleftrightarrow> with_mixed_utxos (script
     [expect (explicit ''duplicate-top-up'' [tx_rgb, tx_rgb] ''btc-scope'') (fails_as (\<lambda>e. is_some_and (invalid_reason e)
        (\<lambda>message. sublist ''duplicate outpoint'' message \<and> sublist ''tx-rgb:0'' message))),
      no_operation (OperationId ''duplicate-top-up'')])"

lemma tx_rgb_text [simp]: "outpoint_string tx_rgb = ''tx-rgb:0''"
  by code_simp

lemma apply_explicit_selection_rejects_duplicate_inputs: "apply_explicit_selection_rejects_duplicate_inputs"
  by (simp add: apply_explicit_selection_rejects_duplicate_inputs_def scenario_eval mixed_service_def
      split del: if_split cong: script_order)

declare tx_rgb_text [simp del]

definition apply_explicit_selection_rejects_unknown_change_scope :: bool where
  "apply_explicit_selection_rejects_unknown_change_scope \<longleftrightarrow> with_mixed_utxos (script
     [expect (explicit ''unknown-change-scope'' [tx_rgb] ''missing-scope'')
        (\<lambda>r. r = Inl (ScopeNotFound (WalletScopeId ''missing-scope''))),
      no_operation (OperationId ''unknown-change-scope'')])"

lemma apply_explicit_selection_rejects_unknown_change_scope: "apply_explicit_selection_rejects_unknown_change_scope"
  by (simp add: apply_explicit_selection_rejects_unknown_change_scope_def scenario_eval mixed_service_def
      split del: if_split cong: script_order)

text \<open>
  An input or a change scope without the capabilities refuses the whole selection: on the account or the
  scope of an input, and on the scope or the account of the change.
\<close>

definition denied_explicit_selection ::
  "(memory_store service, unit) command list \<Rightarrow> string \<Rightarrow> domain_error \<Rightarrow> bool" where
  "denied_explicit_selection preparation change_scope expected \<longleftrightarrow>
     (let untouched = (\<lambda>p. [unlocked p, expect (get_utxo_of p)
            (ok_with (\<lambda>utxo. is_some_and utxo (\<lambda>u. mu_availability u = Selectable)))])
      in with_mixed_utxos (script
       (preparation @ [expect (explicit ''denied'' [tx_btc, tx_rgb] change_scope) (\<lambda>r. r = Inl expected)] @
        untouched tx_btc @ untouched tx_rgb @ [expect all_operations (\<lambda>r. r = Inr [])])))"

definition explicit_selection_enforces_input_and_change_capabilities_atomically :: bool where
  "explicit_selection_enforces_input_and_change_capabilities_atomically \<longleftrightarrow>
     denied_explicit_selection [add_account_call ''rgb'' ''RGB'' [''rgb-scope''] []] ''btc-scope''
       (MissingAccountCapabilities (AccountId ''rgb'')) \<and>
     denied_explicit_selection [add_scope_call ''rgb-scope'' ''rgb'' []] ''btc-scope''
       (MissingCapabilities (WalletScopeId ''rgb-scope'')) \<and>
     denied_explicit_selection [add_scope_call ''change'' ''btc'' []] ''change''
       (MissingCapabilities (WalletScopeId ''change'')) \<and>
     denied_explicit_selection
       [add_account_call ''change-account'' ''Change'' [] [],
        add_scope_call ''change'' ''change-account'' [ReserveSupport]] ''change''
       (MissingAccountCapabilities (AccountId ''change-account''))"

lemma explicit_selection_enforces_input_and_change_capabilities_atomically:
  "explicit_selection_enforces_input_and_change_capabilities_atomically"
  by (simp add: explicit_selection_enforces_input_and_change_capabilities_atomically_def
      denied_explicit_selection_def scenario_eval mixed_service_def split del: if_split cong: script_order)

section \<open>Requests refused before anything changes\<close>

text \<open>A request the service refuses by its form leaves even an expired reservation of its input alone.\<close>

definition preserves_state :: "(memory_store service, planned_selection) command \<Rightarrow> bool" where
  "preserves_state call \<longleftrightarrow> with_mixed_utxos
     (cmd_bind (on_orchestrator (prepare_operation demo_ops (ManualReservationExact
        (manual_reservation_exact_new (OperationId ''expired'') (AccountId ''rgb'') tx_rgb 0)))) (\<lambda>_.
      cmd_bind (on_orchestrator (orch_current_tick demo_ops)) (\<lambda>tick.
      cmd_bind all_operations (\<lambda>operations.
      cmd_bind (get_intent_of (OperationId ''expired'')) (\<lambda>intent.
      cmd_bind (get_utxo_of tx_rgb) (\<lambda>utxo_rgb.
      cmd_bind (get_lock_of tx_rgb) (\<lambda>lock_rgb.
      cmd_bind (get_utxo_of tx_btc) (\<lambda>utxo_btc.
      cmd_bind (get_lock_of tx_btc) (\<lambda>lock_btc.
      script
       [expect call (fails_as is_invalid_request),
        expect (on_orchestrator (orch_current_tick demo_ops)) (\<lambda>r. r = Inr tick),
        expect all_operations (\<lambda>r. r = Inr operations),
        expect (get_intent_of (OperationId ''expired'')) (\<lambda>r. r = Inr intent),
        expect (get_intent_of (OperationId ''invalid'')) (\<lambda>r. r = Inr None),
        expect (get_utxo_of tx_rgb) (\<lambda>r. r = Inr utxo_rgb), expect (get_lock_of tx_rgb) (\<lambda>r. r = Inr lock_rgb),
        expect (get_utxo_of tx_btc) (\<lambda>r. r = Inr utxo_btc), expect (get_lock_of tx_btc) (\<lambda>r. r = Inr lock_btc)])))))))))"

definition refused_asset_plan ::
  "asset_input_candidate list \<Rightarrow> outpoint list option \<Rightarrow> (memory_store service, planned_selection) command" where
  "refused_asset_plan candidates exact =
     (let req = \<lparr>ar_target_account_id = AccountId ''rgb'', ar_candidates = candidates, ar_asset_amount = 1,
            ar_required_value_sats = 1,
            ar_constraints = \<lparr>co_exact_outpoints = exact, co_allow_asset_merge = False,
              co_allow_fee_support = False\<rparr>\<rparr>
      in cmd_bind (expect (preview req) (fails_as is_invalid_request)) (\<lambda>_.
         plan_assets (OperationId ''invalid'') req))"

definition invalid_selection_requests_preserve_expired_reservations_and_state :: bool where
  "invalid_selection_requests_preserve_expired_reservations_and_state \<longleftrightarrow>
     (let c = \<lparr>ai_outpoint = tx_rgb, ai_asset_amount = 10\<rparr>;
          planned = (\<lambda>ps. plan_exact_outpoints demo_ops
            \<lparr>per_operation_id = OperationId ''invalid'', per_target_account_id = AccountId ''rgb'',
             per_selected_outpoints = ps\<rparr>)
      in preserves_state (explicit ''invalid'' [] ''rgb-scope'') \<and>
         preserves_state (explicit ''invalid'' [tx_rgb, tx_rgb] ''rgb-scope'') \<and>
         preserves_state (planned []) \<and>
         preserves_state (planned [tx_rgb, tx_rgb]) \<and>
         preserves_state (refused_asset_plan [c, c] None) \<and>
         preserves_state (refused_asset_plan [c] (Some [tx_rgb, tx_rgb])) \<and>
         preserves_state (refused_asset_plan [c] (Some [])))"

lemma invalid_selection_requests_preserve_expired_reservations_and_state:
  "invalid_selection_requests_preserve_expired_reservations_and_state"
  by (simp add: invalid_selection_requests_preserve_expired_reservations_and_state_def preserves_state_def
      refused_asset_plan_def scenario_eval mixed_service_def split del: if_split cong: script_order)

section \<open>Manual reservations\<close>

text \<open>A reservation whose operation has advanced is no longer one, whatever the clock says.\<close>

definition fixed_clock :: "u64 \<Rightarrow> dependencies" where
  "fixed_clock now = demo_deps\<lparr>dp_now := \<lambda>_. now\<rparr>"

definition advanced_reservation :: "operation_phase \<Rightarrow> (memory_store service, unit) command" where
  "advanced_reservation phase =
     (let p = tx_rgb; later = fixed_clock 1002
      in cmd_bind (reserve_manual_utxo demo_ops (fixed_clock 1000)
            \<lparr>rmr_target_account_id = AccountId ''rgb'', rmr_outpoint = p, rmr_ttl_secs = 1\<rparr>) (\<lambda>reservation.
         let i = mr_reservation_id reservation
         in script
          [assertion (mr_expires_at reservation = 1001),
           expect (get_active_manual_reservation demo_ops (fixed_clock 1000) p) (\<lambda>r. r = Inr (Some reservation)),
           unwrapped (complete_operation_service demo_ops i phase [p]),
           expect (get_manual_reservation demo_ops p) (\<lambda>r. r = Inr None),
           expect (get_active_manual_reservation demo_ops later p) (\<lambda>r. r = Inr None),
           expect (reserve_first_available_manual_utxo demo_ops later
             \<lparr>rfr_target_account_id = AccountId ''rgb'', rfr_candidate_outpoints = [p], rfr_ttl_secs = 1\<rparr>)
             (\<lambda>r. r = Inr None),
           expect (cleanup_stale_reservations demo_ops 0) (ok_with (\<lambda>report. cr_released_operations report = [])),
           expect (is_outpoint_selectable demo_ops p) (\<lambda>r. r = Inr False),
           expect (get_operation_of i) (ok_with (\<lambda>operation. is_some_and operation
             (\<lambda>x. po_phase x = phase \<and> po_expires_at x = None))),
           expect (get_lock_of p) (ok_with (\<lambda>lock. is_some_and lock
             (\<lambda>l. lk_operation_id l = i \<and> lk_expires_at l = None))),
           expect (get_utxo_of p) (ok_with (\<lambda>utxo. is_some_and (Option.bind utxo mu_operation_binding)
             (\<lambda>b. bd_operation_id b = i \<and> bd_phase b = phase)))]))"

definition advanced_manual_operations_survive_the_original_reservation_expiry :: bool where
  "advanced_manual_operations_survive_the_original_reservation_expiry \<longleftrightarrow>
     (\<forall>phase \<in> set [PhConstructing, PhSigned, PhBroadcast, PhAwaitingConfirmation, PhAwaitingL2Finality].
        with_mixed_utxos (advanced_reservation phase))"

lemma advanced_manual_operations_survive_the_original_reservation_expiry:
  "advanced_manual_operations_survive_the_original_reservation_expiry"
  by (simp add: advanced_manual_operations_survive_the_original_reservation_expiry_def advanced_reservation_def
      fixed_clock_def scenario_eval mixed_service_def split del: if_split cong: script_order)

text \<open>A manual lock without an expiry is reported as corrupted state.\<close>

definition manual_config :: bootstrap_config where
  "manual_config =
     (let capabilities = capability_set_new [BtcSpend, ReserveSupport, SingleTargetReserve, BtcReceive]
      in \<lparr>bc_owner = ''test-owner'',
          bc_accounts = [\<lparr>bac_id = AccountId ''btc'', bac_name = ''BTC'', bac_capabilities = capabilities\<rparr>],
          bc_scopes = [\<lparr>bsc_id = WalletScopeId ''btc-scope'', bsc_account_id = AccountId ''btc'',
            bsc_descriptor_ref = ''bdk'', bsc_derivation_scope = ''external'', bsc_capabilities = capabilities,
            bsc_priority = 0\<rparr>]\<rparr>)"

definition get_manual_reservation_reports_missing_expiry_as_corrupted_state :: bool where
  "get_manual_reservation_reports_missing_expiry_as_corrupted_state \<longleftrightarrow>
     (let p = OutPoint ''tx-manual'' 0
      in passes (script
       [bootstrap demo_ops manual_config,
        add_utxo_call p ''btc'' ''btc-scope'' 25000,
        unwrapped (on_orchestrator (apply_selection demo_ops
          \<lparr>os_operation_id = OperationId ''manual-corrupt'', os_selected_outpoints = [p],
           os_change_scope_id = WalletScopeId ''btc-scope'', os_effects = [LockUtxo p ManualReservation],
           os_expires_at = None\<rparr>)),
        expect (get_manual_reservation demo_ops p) (fails_as (\<lambda>e. is_some_and (corrupted_reason e)
          (\<lambda>message. sublist ''manual reservation lock'' message \<and> sublist ''tx-manual:0'' message)))])
       (service_with_store memory_default))"

lemma tx_manual_text [simp]: "outpoint_string (OutPoint ''tx-manual'' 0) = ''tx-manual:0''"
  by code_simp

lemma get_manual_reservation_reports_missing_expiry_as_corrupted_state:
  "get_manual_reservation_reports_missing_expiry_as_corrupted_state"
  by (simp add: get_manual_reservation_reports_missing_expiry_as_corrupted_state_def manual_config_def scenario_eval
      split del: if_split cong: script_order)

end
