(* ===== verification/Example_Run.thy ===== *)
theory Example_Run
  imports Scenarios
begin

text \<open>
  The example program of the repository (\<open>txoscope/examples/observe_and_reserve.rs\<close>): bootstrap a wallet,
  observe one confirmed output, reserve it for an operation, and print what was reserved.
\<close>

section \<open>The program\<close>

definition example_config :: bootstrap_config where
  "example_config =
     (let capabilities = capability_set_new [BtcSpend, BtcReceive, ReserveSupport]
      in \<lparr>bc_owner = ''example-wallet'',
          bc_accounts = [\<lparr>bac_id = AccountId ''alice'', bac_name = ''Alice'', bac_capabilities = capabilities\<rparr>],
          bc_scopes = [\<lparr>bsc_id = WalletScopeId ''alice-btc-main'', bsc_account_id = AccountId ''alice'',
            bsc_descriptor_ref = ''main'', bsc_derivation_scope = ''external'', bsc_capabilities = capabilities,
            bsc_priority = 10\<rparr>]\<rparr>)"

definition example_snapshot :: "outpoint \<Rightarrow> observation_snapshot" where
  "example_snapshot p =
     \<lparr>sn_timestamp = 1735000000, sn_scope = FullScope,
      sn_utxos = [\<lparr>ob_outpoint = p, ob_account_id = AccountId ''alice'', ob_scope_id = WalletScopeId ''alice-btc-main'',
        ob_value_sats = 50000, ob_confirmation = ConfConfirmed 840000 1735000000, ob_spend_status = SpendUnspent\<rparr>]\<rparr>"

definition observe_and_reserve :: "(string \<Rightarrow> string) \<Rightarrow> (memory_store service, string) command" where
  "observe_and_reserve str_debug =
     cmd_bind (cmd_read (\<lambda>_. outpoint_from_str str_debug ''tx1:0'')) (\<lambda>p.
     cmd_bind (bootstrap demo_ops example_config) (\<lambda>_.
     cmd_bind (reconcile_snapshot demo_ops (example_snapshot p)) (\<lambda>_.
     cmd_bind (reserve_specific_utxo demo_ops
       \<lparr>rsr_operation_id = OperationId ''op-1'', rsr_target_account_id = AccountId ''alice'', rsr_outpoint = p,
        rsr_expires_at = Some 1735000300\<rparr>) (\<lambda>planned.
     cmd_return (''reserved '' @ join_with '', '' (map outpoint_string (pl_selected_outpoints planned)))))))"

section \<open>What it prints\<close>

lemma tx1_text: "outpoint_from_str str_debug ''tx1:0'' = Inr (OutPoint ''tx1'' 0)"
  and tx1_string: "outpoint_string (OutPoint ''tx1'' 0) = ''tx1:0''"
proof -
  show shown: "outpoint_string (OutPoint ''tx1'' 0) = ''tx1:0''" by code_simp
  show "outpoint_from_str str_debug ''tx1:0'' = Inr (OutPoint ''tx1'' 0)"
    using outpoint_from_str_roundtrip [of str_debug "OutPoint ''tx1'' 0"] by (simp add: shown)
qed

text \<open>It ends well and reports the output, which is then locked for its operation.\<close>

lemma observe_and_reserve_prints:
  "passes (cmd_bind (observe_and_reserve str_debug) (\<lambda>printed. script
     [assertion (printed = ''reserved tx1:0''),
      expect (get_lock_of (OutPoint ''tx1'' 0)) (ok_with (\<lambda>lock. is_some_and lock (\<lambda>l.
        lk_operation_id l = OperationId ''op-1'' \<and> lk_expires_at l = Some 1735000300)))]))
     (service_with_store memory_default)"
  by (simp add: observe_and_reserve_def example_config_def example_snapshot_def reserve_specific_utxo_def
      specific_of_reserve_request_def planned_specific_outpoint_new_def planned_specific_expires_at_def
      tx1_text tx1_string scenario_eval split del: if_split cong: script_order)

end
