(* ===== verification/Spec2Isabelle.thy ===== *)
theory Spec2Isabelle
  imports Selection_Properties Lifecycle_Properties Core_Properties Sqlite_Durability Simulation_Checks Simulation_Metrics
    Core_Tests Asset_Tests Service_Tests Example_Run
begin

text \<open>
  A model of txoscope, the custody service for a bitcoin wallet's outputs: it registers outputs and
  observations of them, reserves outputs for operations, follows every operation through its
  lifecycle, and recovers what a crash interrupted.

  The program has three layers. The application service (crate \<open>txoscope\<close>) is what a wallet calls; it
  owns an orchestrator, a clock and a generator of identifiers. The orchestrator
  (\<open>txoscope-core/src/orchestrator.rs\<close>) turns a request into a selection, records it as an intent,
  applies it as one batch and marks the intent committed; it owns a store and is generic in the
  traits \<open>StateRead\<close> and \<open>StateStore\<close>. A store keeps accounts, scopes, outputs, locks, operations, intents and
  a logical clock.

  The theories, and the sources they translate (under \<open>src/crates\<close>):

  \<^item> \<open>Prelude\<close>, \<open>Text_Format\<close>: results, commands that keep the state reached when they fail, saturating
    words, hash tables with an arbitrary order, decimal text. They model the standard library.
  \<^item> \<open>Domain\<close>, \<open>Errors\<close>, \<open>Observation\<close>, \<open>Utxo\<close>, \<open>Operation\<close>, \<open>Selection_Request\<close>, \<open>Utxo_Status\<close>: the types and
    pure functions of \<open>txoscope-core/src\<close>: \<open>ids.rs\<close>, \<open>account.rs\<close>, \<open>scope.rs\<close>, \<open>policy.rs\<close>, \<open>capability.rs\<close>,
    \<open>lock.rs\<close>, \<open>state.rs\<close>, \<open>errors.rs\<close>, \<open>observation.rs\<close>, \<open>utxo.rs\<close>, \<open>operation.rs\<close>, \<open>selection_request.rs\<close>,
    \<open>utxo_status.rs\<close>.
  \<^item> \<open>Store_Interface\<close> (\<open>store.rs\<close>): the traits as a record of functions, and their contract: the
    abstract \<open>ledger\<close>, what every operation does to it, and the locales \<open>state_read_contract\<close>,
    \<open>state_store_contract\<close> and \<open>reliable_store\<close>.
  \<^item> \<open>Memory_Store\<close> (\<open>txoscope-store-memory/src/memory.rs\<close>): the in-memory backend, which interprets
    \<open>reliable_store\<close> for every iteration order of its tables.
  \<^item> \<open>Sql_Engine\<close>: the tables, statements and queries of SQL that the SQLite backend uses, and the locale
    \<open>sqlite_engine\<close> of what a connection promises; it is interpreted on \<open>plain_engine\<close>, a connection that
    never fails on its own.
  \<^item> \<open>Sqlite_Codec\<close> (\<open>txoscope-store-sqlite/src/codec.rs\<close>), \<open>Sqlite_Store\<close> and \<open>Sqlite_Schema\<close>
    (\<open>txoscope-store-sqlite/src/sqlite.rs\<close>): the SQLite backend, with every statement, query and
    transaction, opening a connection (\<open>sqlite_open\<close>, given the driver's attempt to connect), the creation of the
    tables and the migration of older files.
  \<^item> \<open>Selector\<close> (\<open>selector.rs\<close>), \<open>Asset_Policy\<close> (\<open>asset_selection.rs\<close>), \<open>Reconciliation\<close> (\<open>reconciliation.rs\<close>):
    choosing inputs, and the plan that an observation snapshot gives.
  \<^item> \<open>Orchestrator\<close> (\<open>orchestrator.rs\<close>), \<open>Facade\<close> (\<open>txoscope/src/lib.rs\<close>, \<open>mapper.rs\<close>, \<open>clock.rs\<close>,
    \<open>reservation_id.rs\<close>), \<open>Asset_Facade\<close> (\<open>txoscope/src/asset_selection.rs\<close>): the operations of the two upper
    layers, over any store.
  \<^item> \<open>Simulation_Checks\<close> (\<open>txoscope-sim/src/invariants.rs\<close>): the invariant checker; \<open>Simulation_Metrics\<close>
    (\<open>txoscope-sim/src/metrics.rs\<close>): the counters of a run, with their overflow checks.
  \<^item> \<open>Core_Tests\<close>, \<open>Scenarios\<close>, \<open>Asset_Tests\<close>, \<open>Service_Tests\<close>, \<open>Example_Run\<close>: the unit tests of the crates
    \<open>txoscope-core\<close>, \<open>txoscope-store-sqlite\<close> and \<open>txoscope\<close> and the example program, as scripts over the model
    that are evaluated and pass.

  The lemmas, from the ledger up:

  \<^item> \<open>Ledger_Invariants\<close>: \<open>ledger_ok\<close>, the invariant of a ledger under every specified operation (a lock
    stands for a binding of a live operation and its intent), and \<open>history_extends\<close>, what never goes back.
  \<^item> \<open>Orchestrator_Safety\<close>, \<open>Service_Safety\<close>: over every store that meets the contract, each operation
    keeps the invariant, extends the history and leaves the other operations alone. \<open>service_step_over\<close> is the
    step relation, with the snapshots that may be reconciled as its parameter: \<open>reachable\<close> admits every snapshot,
    \<open>orderly_reachable\<close> those that name every output once. Almost every property is about \<open>reachable\<close>; the few
    that read the recorded availability alone need \<open>orderly_reachable\<close> and say so, since a snapshot that names
    an output twice can leave it spent and selectable (\<open>duplicate_report_leaves_selectable\<close>).
  \<^item> \<open>Orchestrator_Outcomes\<close>, \<open>Service_Outcomes\<close>, \<open>Proposal_Outcomes\<close>, \<open>Reservation_Outcomes\<close>,
    \<open>Asset_Outcomes\<close>, \<open>Recovery_Outcomes\<close>: what each operation achieves when it succeeds and what remains when
    it fails.
  \<^item> \<open>Sqlite_Tables\<close>, \<open>Sqlite_Ledger\<close>, \<open>Sqlite_Statements\<close>: rows as tables of values, the ledger the tables
    record, and what each statement does to it. \<open>Sqlite_Reads\<close>, \<open>Sqlite_Transactions\<close>,
    \<open>Sqlite_Operations\<close>, \<open>Sqlite_Commands\<close>, \<open>Sqlite_Intents\<close>: the rules that compose reads and commands inside
    a transaction, and every operation against a program over ledgers. \<open>Sqlite_Contract\<close>: a connection of
    \<open>sqlite_engine\<close> gives a store of \<open>state_store_contract\<close> (a \<open>sublocale\<close>), so that the layers above are
    proved for it at once.
  \<^item> \<open>Sqlite_Opening\<close>, \<open>Sqlite_Sessions\<close>: opening a new, an older or a used file; \<open>sqlite_reachable\<close> is the relation
    of the states the service reaches over one file, restarts of the process included; \<open>crashing\<close> shows that a
    connection lost at any call keeps the laws, so that crashes are covered. \<open>Sqlite_Durability\<close>: what a file
    keeps over its whole history, and the recovery after a crash.
  \<^item> \<open>Store_Calls\<close>: the write operations as data; two backends of the contract run them alike. \<open>Registration\<close>: what
    each backend does to the ledger when an account or a scope is registered, which the contract leaves open.
  \<^item> \<open>Demo\<close>, \<open>Sqlite_Demo\<close>: a small concrete run on which hypotheses are discharged.
  \<^item> \<open>Memory_Service\<close>, \<open>Core_Properties\<close>, \<open>Selection_Properties\<close>, \<open>Lifecycle_Properties\<close>, \<open>Sqlite_Properties\<close>,
    \<open>Simulation_Checks\<close> and this theory: the properties, read off the layers above for the two backends.

  Recovery is a loop over the intents of a pass; \<open>recovery_loop\<close> terminates because a pass that makes
  progress leaves fewer intents, so no definition of the model needs fuel; \<open>recovery_within\<close> bounds the number
  of passes by the number of pending intents and one. Integers have the width the source gives
  them (\<open>u32\<close>, \<open>u64\<close>, \<open>u128\<close>) and saturate or wrap as it does; strings are lists of bytes.

  Parameters of the model: the iteration order of each hash table, the readings of the clock and the
  identifiers the generator returns (\<open>dependencies\<close>), the quoting of a string by \<open>Debug\<close>, and the SQLite
  connection (\<open>sql_engine\<close>), which may fail at any call. What the code relies on of the connection is
  \<open>sqlite_engine\<close>: a call that succeeds does what SQL says, one that fails outside a transaction changes
  nothing, a transaction is visible to others only once it is committed, and a rollback returns to the
  committed database. The connection is the only writer while a service holds it.

  Not modelled: what the driver does to connect to a file or to memory (its outcome is an argument of \<open>sqlite_open\<close>
  and \<open>sqlite_open_in_memory\<close>) and its busy timeout; types and constraints SQL declares for a column beyond its
  name, its key and its reference; and the module lists of the crate roots.
\<close>

section \<open>Ownership\<close>

text \<open>C1: two live operations never claim the same output, in any state the service can reach.\<close>

theorem no_double_claim:
  assumes "reachable hu ho hi dp sv" and "live (ledger_view sv) i" and "live (ledger_view sv) j"
    and "claims (ledger_view sv) i p" and "claims (ledger_view sv) j p"
  shows "i = j"
  using claims_okD(3) [OF reachable_ledger(4) [OF assms(1)] assms(2-5)] .

theorem no_double_claim_witness:
  "demo_reaches demo3 \<and> live (ledger_view demo3) demo_id \<and> claims (ledger_view demo3) demo_id demo_p \<and>
    demo_id = demo_id"
proof -
  have "live (ledger_view demo3) demo_id" and "claims (ledger_view demo3) demo_id demo_p"
    by (simp_all add: live_def claims_def demo_views)
  with no_double_claim [OF demo_reached(5) this(1,1,2,2)] show ?thesis by simp
qed

text \<open>C5: in every reachable state a lock stands for exactly one live owner: the locked output is bound to
  the lock's operation in that operation's current phase, the operation is not rolling back, its intent
  names the output and is not failed, and the output is not selectable.\<close>

theorem lock_has_live_owner:
  assumes "reachable hu ho hi dp sv" and "lg_locks (ledger_view sv) p = Some l"
  shows "\<exists>u x n. lg_utxos (ledger_view sv) p = Some u \<and> \<not> is_policy_spendable u \<and>
    lg_operations (ledger_view sv) (lk_operation_id l) = Some x \<and> po_phase x \<noteq> PhRollingBack \<and>
    bound_in_phase (lk_operation_id l) (po_phase x) u \<and>
    lg_intents (ledger_view sv) (lk_operation_id l) = Some n \<and> oi_status n \<noteq> Failed \<and>
    p \<in> set (os_selected_outpoints (oi_selection n))"
proof -
  note h = reachable_ledger(3) [OF assms(1)]
  obtain u where u: "lg_utxos (ledger_view sv) p = Some u" "bound_to (lk_operation_id l) u"
    using lock_iff_bound [OF h, of p "lk_operation_id l"] assms(2) by blast
  moreover from u(2) have "\<not> is_policy_spendable u" using spendable_not_bound by blast
  ultimately show ?thesis by (rule_tac owner_live [OF h u]) blast
qed

theorem lock_has_live_owner_witness:
  "\<exists>u x n. lg_utxos (ledger_view demo3) demo_p = Some u \<and> \<not> is_policy_spendable u \<and>
    lg_operations (ledger_view demo3) (lk_operation_id demo_lock) = Some x \<and> po_phase x \<noteq> PhRollingBack \<and>
    bound_in_phase (lk_operation_id demo_lock) (po_phase x) u \<and>
    lg_intents (ledger_view demo3) (lk_operation_id demo_lock) = Some n \<and> oi_status n \<noteq> Failed \<and>
    demo_p \<in> set (os_selected_outpoints (oi_selection n))"
  by (rule lock_has_live_owner [OF demo_reached(5)]) (simp add: demo_views)

text \<open>C6: an output never changes its identity, and once its spending has started or been observed it
  stays in flight or spent and the service never calls it selectable again, whatever is done afterwards,
  whatever snapshots are reconciled.\<close>

theorem spent_never_selectable:
  assumes "reachable hu ho hi dp sv" and "service_steps (memory_ops hu ho hi) dp sv sv'"
    and "lg_utxos (ledger_view sv) p = Some u"
  shows "\<exists>u'. lg_utxos (ledger_view sv') p = Some u' \<and> utxo_identity u' = utxo_identity u \<and>
    (mu_onchain_state u \<in> {SpendingInFlight, Spent} \<longrightarrow>
      mu_onchain_state u' \<in> {SpendingInFlight, Spent} \<and> \<not> is_policy_spendable u' \<and>
      is_outpoint_selectable (memory_ops hu ho hi) p sv' = (Inr False, sv'))"
proof -
  have ext: "ledger_extends (ledger_view sv) (ledger_view sv')"
    using mem.service_steps_safe [OF assms(2) reachable_ok [OF assms(1)]] by (simp add: ledger_view_def)
  have "reachable hu ho hi dp sv'"
    using assms(1,2) unfolding reachable_def by (rule service_steps_trans)
  from selectable_query [OF this, of p] advanced_output [OF ext assms(3)] show ?thesis by auto
qed

theorem spent_never_selectable_witness:
  "\<exists>u'. lg_utxos (ledger_view demo_aborted) demo_p = Some u' \<and> \<not> is_policy_spendable u' \<and>
    is_outpoint_selectable demo_ops demo_p demo_aborted = (Inr False, demo_aborted)"
  using spent_never_selectable [OF demo_reached(6) steps_more [OF steps_none step_release
      [OF demo_abort [unfolded demo_ops_def]]] demo_lookups(3)]
  by (auto simp: demo_in_flight_def demo_ops_def)

text \<open>C18: no operation ever moves backwards in its lifecycle (a rolled back one stays rolled back), a recorded
  selection never changes, and an intent that is committed or failed stays so.\<close>

theorem operations_never_go_back:
  assumes "reachable hu ho hi dp sv" and "service_steps (memory_ops hu ho hi) dp sv sv'"
  shows "(\<forall>x. lg_operations (ledger_view sv) i = Some x \<longrightarrow>
      (\<exists>x'. lg_operations (ledger_view sv') i = Some x' \<and>
        (po_phase x' = po_phase x \<or> valid_transition (po_phase x) (po_phase x') \<or> po_phase x' = PhRollingBack))) \<and>
    (\<forall>n. lg_intents (ledger_view sv) i = Some n \<longrightarrow>
      (\<exists>n'. lg_intents (ledger_view sv') i = Some n' \<and> oi_selection n' = oi_selection n \<and>
        (oi_status n \<noteq> Pending \<longrightarrow> oi_status n' = oi_status n)))"
proof -
  have ext: "ledger_extends (ledger_view sv) (ledger_view sv')"
    using mem.service_steps_safe [OF assms(2) reachable_ok [OF assms(1)]] by (simp add: ledger_view_def)
  show ?thesis
    using ledger_extendsD(2,3) [OF ext] phase_advances by metis
qed

theorem operations_never_go_back_witness:
  "\<exists>x'. lg_operations (ledger_view demo4) demo_id = Some x' \<and>
    (po_phase x' = PhSelected \<or> valid_transition PhSelected (po_phase x') \<or> po_phase x' = PhRollingBack)"
proof -
  have "lg_operations (ledger_view demo3) demo_id = Some (demo_operation PhSelected 6)"
    and "po_phase (demo_operation PhSelected 6) = PhSelected" by (simp_all add: demo_views)
  then show ?thesis
    using operations_never_go_back [OF demo_reached(5) steps_more [OF steps_none step_release
      [OF demo_release [unfolded demo_ops_def]]], of demo_id] by force
qed

section \<open>Planning\<close>

text \<open>C2: planning exact outputs under a fresh operation id either reserves all of them or none: on success
  every requested output was free, in the requested account and in a scope with the required capability,
  and is now reserved for and locked by the operation, whose intent is committed; nothing else changes.\<close>

theorem plan_reserves_all:
  assumes "reachable hu ho hi dp sv" and "lg_intents (ledger_view sv) (per_operation_id req) = None"
    and "plan_exact_outpoints (memory_ops hu ho hi) req sv = (Inr planned, sv')"
  shows "\<exists>sel. holds_selection (ledger_view sv') sel \<and> os_operation_id sel = per_operation_id req \<and>
    os_selected_outpoints sel = per_selected_outpoints req \<and> planned = planned_of_selection sel \<and>
    per_selected_outpoints req \<noteq> [] \<and>
    (\<forall>p\<in>set (per_selected_outpoints req). free_for (ledger_view sv)
       \<lparr>isr_account_id = per_target_account_id req, isr_spec = ExactOutpoints (per_selected_outpoints req),
        isr_required_capabilities = {ReserveSupport}\<rparr> p) \<and>
    (\<forall>p. p \<notin> set (per_selected_outpoints req) \<longrightarrow>
       lg_utxos (ledger_view sv') p = lg_utxos (ledger_view sv) p \<and>
       lg_locks (ledger_view sv') p = lg_locks (ledger_view sv) p)"
proof -
  let ?req = "PlannedExactOutpoints (exact_of_plan_request req)"
  obtain sel where "on_orchestrator (prepare_operation (memory_ops hu ho hi) ?req) sv = (Inr sel, sv')"
    and planned: "planned = planned_of_selection sel"
    using assms(3) by (auto simp: plan_exact_outpoints_def cmd_bind_eq)
  then have run: "prepare_operation (memory_ops hu ho hi) ?req (sv_orchestrator sv) =
      (Inr sel, sv_orchestrator sv')"
    by (auto elim: on_orchestrator_run)
  note ok = reachable_orch [OF assms(1)]
  have fresh: "lg_intents (orch_ledger mem_ledger (sv_orchestrator sv))
      (or_operation_id (into_operation_request ?req)) = None"
    using assms(2) by (simp add: view_orch operation_request_new_def exact_of_plan_request_def)
  obtain mid where "prepare_pending_operation (memory_ops hu ho hi) ?req (sv_orchestrator sv) = (Inr sel, mid)"
    using run by (auto simp: prepare_operation_def cmd_bind_eq)
  from mem.prepare_pending_Inr(5) [OF ok this fresh]
  have "os_operation_id sel = per_operation_id req"
    and "os_selected_outpoints sel = per_selected_outpoints req"
    using mem.propose_operation_id mem.propose_Inr(4) [OF orch_ok_parts(1) [OF ok]]
    by (simp_all add: operation_request_new_def exact_of_plan_request_def)
  with mem.prepare_Inr [OF ok run fresh] planned show ?thesis
    by (auto simp: view_orch operation_request_new_def exact_of_plan_request_def intro!: exI [of _ sel])
qed

theorem plan_reserves_all_witness:
  "\<exists>sel. holds_selection (ledger_view demo3) sel \<and> os_selected_outpoints sel = [demo_p]"
proof -
  have "lg_intents (ledger_view demo2) (per_operation_id demo_request) = None"
    and "per_selected_outpoints demo_request = [demo_p]"
    using demo_lookups(7) by (simp_all add: demo_request_def)
  with plan_reserves_all [OF demo_reached(2) _ demo_plan [unfolded demo_ops_def]] show ?thesis by auto
qed

text \<open>C17: a plan that fails under a fresh operation id leaves every output and every lock as it was.\<close>

theorem failed_plan_changes_nothing:
  assumes "reachable hu ho hi dp sv" and "lg_intents (ledger_view sv) (per_operation_id req) = None"
    and "plan_exact_outpoints (memory_ops hu ho hi) req sv = (Inl e, sv')"
  shows "same_outputs (ledger_view sv) (ledger_view sv')"
proof -
  let ?req = "PlannedExactOutpoints (exact_of_plan_request req)"
  have "on_orchestrator (prepare_operation (memory_ops hu ho hi) ?req) sv = (Inl e, sv')"
    using assms(3) by (auto simp: plan_exact_outpoints_def cmd_bind_eq)
  then have run: "prepare_operation (memory_ops hu ho hi) ?req (sv_orchestrator sv) =
      (Inl e, sv_orchestrator sv')"
    by (auto elim: on_orchestrator_run)
  have "lg_intents (orch_ledger mem_ledger (sv_orchestrator sv))
      (or_operation_id (into_operation_request ?req)) = None"
    using assms(2) by (simp add: view_orch operation_request_new_def exact_of_plan_request_def)
  from mem.prepare_Inl [OF reachable_orch [OF assms(1)] run this] show ?thesis by (simp add: view_orch)
qed

theorem failed_plan_changes_nothing_witness:
  "\<exists>e sv'. plan_exact_outpoints demo_ops (demo_request\<lparr>per_operation_id := OperationId ''x''\<rparr>) demo3 =
      (Inl e, sv') \<and> same_outputs (ledger_view demo3) (ledger_view sv')"
proof -
  let ?req = "demo_request\<lparr>per_operation_id := OperationId ''x''\<rparr>"
  obtain e sv' where run: "plan_exact_outpoints demo_ops ?req demo3 = (Inl e, sv')"
    by (simp add: demo_records run_eval)
  have "lg_intents (ledger_view demo3) (per_operation_id ?req) = None" by (simp add: demo_views)
  from failed_plan_changes_nothing [OF demo_reached(5) this run [unfolded demo_ops_def]] run
  show ?thesis by blast
qed

text \<open>Planning touches nothing other operations own: whatever it returns, the outputs, locks,
  lifecycle and intent of every other operation stay as they were.\<close>

theorem plan_leaves_others:
  assumes "reachable hu ho hi dp sv" and "plan_exact_outpoints (memory_ops hu ho hi) req sv = (r, sv')"
    and "j \<noteq> per_operation_id req"
  shows "lg_operations (ledger_view sv') j = lg_operations (ledger_view sv) j \<and>
    lg_intents (ledger_view sv') j = lg_intents (ledger_view sv) j \<and>
    (\<forall>p u. lg_utxos (ledger_view sv) p = Some u \<longrightarrow> bound_to j u \<longrightarrow>
       lg_utxos (ledger_view sv') p = Some u \<and> lg_locks (ledger_view sv') p = lg_locks (ledger_view sv) p)"
proof -
  have "frame {per_operation_id req} (ledger_view sv) (ledger_view sv')"
    using safe_runD [OF mem.safe_plan reachable_ok [OF assms(1)] assms(2)] by (simp add: ledger_view_def)
  from frameD(2,4,5) [OF this] assms(3) show ?thesis by auto
qed

theorem plan_leaves_others_witness:
  "lg_operations (ledger_view demo3) (OperationId ''z'') = lg_operations (ledger_view demo2) (OperationId ''z'')"
  using plan_leaves_others [OF demo_reached(2) demo_plan [unfolded demo_ops_def], of "OperationId ''z''"]
  by (simp add: demo_request_def demo_id_def)

section \<open>Recovery\<close>

text \<open>C3: recovery always ends with a report and leaves no intent pending: every intent it replays holds
  all its inputs, every other one is failed and owns nothing, and every intent that was pending is in
  the report.\<close>

theorem recovery_settles_everything:
  assumes "reachable hu ho hi dp sv"
  shows "\<exists>report sv'. on_orchestrator (recover_pending_intents (memory_ops hu ho hi)) sv = (Inr report, sv') \<and>
    unsettled (ledger_view sv') = {} \<and>
    report_ok (ledger_view sv') (rr_replayed_operations report) (rr_failed_operations report) \<and>
    (\<lambda>n. os_operation_id (oi_selection n)) ` unsettled (ledger_view sv) \<subseteq>
      set (rr_replayed_operations report) \<union> set (rr_failed_operations report)"
proof -
  obtain report orch' where
    run: "recover_pending_intents (memory_ops hu ho hi) (sv_orchestrator sv) = (Inr report, orch')"
    and rest: "unsettled (orch_ledger mem_ledger orch') = {}"
      "report_ok (orch_ledger mem_ledger orch') (rr_replayed_operations report) (rr_failed_operations report)"
      "(\<lambda>n. os_operation_id (oi_selection n)) ` unsettled (orch_ledger mem_ledger (sv_orchestrator sv)) \<subseteq>
        set (rr_replayed_operations report) \<union> set (rr_failed_operations report)"
    by (rule mem.recover_outcome [OF reachable_orch [OF assms]])
  have "on_orchestrator (recover_pending_intents (memory_ops hu ho hi)) sv =
      (Inr report, sv\<lparr>sv_orchestrator := orch'\<rparr>)"
    using run by (simp add: on_orchestrator_def)
  with rest show ?thesis by (auto simp: view_orch)
qed

theorem recovery_settles_everything_witness:
  "\<exists>report sv'. on_orchestrator (recover_pending_intents demo_ops) demo_interrupted = (Inr report, sv') \<and>
    unsettled (ledger_view sv') = {}"
  using recovery_settles_everything [OF demo_reached(4)] unfolding demo_ops_def by blast

text \<open>C7: a crash between applying a selection and marking its intent committed is harmless: committing
  again succeeds, changes no output and no lock, and the operation holds its selection.\<close>

theorem interrupted_commit_completes:
  assumes "reachable hu ho hi dp sv"
    and "lg_intents (ledger_view sv) i = Some n" and "oi_status n = Pending"
    and "on_orchestrator (commit_selection (memory_ops hu ho hi) (oi_selection n)) sv = (Inr (), mid)"
  shows "\<exists>sv'. on_orchestrator (commit_recorded_intent (memory_ops hu ho hi) i) mid = (Inr (), sv') \<and>
    same_outputs (ledger_view mid) (ledger_view sv') \<and> holds_selection (ledger_view sv') (oi_selection n)"
proof -
  have run: "commit_selection (memory_ops hu ho hi) (oi_selection n) (sv_orchestrator sv) =
      (Inr (), sv_orchestrator mid)"
    using assms(4) by (auto elim: on_orchestrator_run)
  obtain orch' where "commit_recorded_intent (memory_ops hu ho hi) i (sv_orchestrator mid) = (Inr (), orch')"
    and "same_outputs (orch_ledger mem_ledger (sv_orchestrator mid)) (orch_ledger mem_ledger orch')"
    and "holds_selection (orch_ledger mem_ledger orch') (oi_selection n)"
    by (rule mem.recommit [OF reachable_orch [OF assms(1)] assms(2) [unfolded view_orch] assms(3) run])
  then show ?thesis
    by (intro exI [of _ "mid\<lparr>sv_orchestrator := orch'\<rparr>"]) (simp add: on_orchestrator_def view_orch)
qed

theorem interrupted_commit_completes_witness:
  "\<exists>sv'. on_orchestrator (commit_recorded_intent demo_ops demo_id) demo_interrupted = (Inr (), sv') \<and>
    holds_selection (ledger_view sv') demo_selection"
proof -
  have "lg_intents (ledger_view demo_pending) demo_id = Some (demo_intent Pending)"
    and n: "oi_status (demo_intent Pending) = Pending" "oi_selection (demo_intent Pending) = demo_selection"
    by (simp_all add: demo_views)
  from interrupted_commit_completes [OF demo_reached(3) this(1,2)
      demo_interrupt [folded n(2), unfolded demo_ops_def]]
  show ?thesis by (auto simp: n(2) demo_ops_def)
qed

section \<open>The memory backend against the ledger\<close>

text \<open>C19: the memory backend refines the abstract ledger: every write transaction, the registration of accounts,
  scopes and outputs included, keeps its invariant, returns what the ledger's operation returns and leaves the
  ledger that operation gives, whatever the iteration order of its tables.\<close>

theorem memory_refines_ledger:
  "refines id (mem_persist_intent sel) (ledger_persist_intent sel) \<and>
   refines id (mem_mark_intent_committed i) (ledger_mark_committed i) \<and>
   refines id (mem_mark_intent_failed hu i) (ledger_mark_failed i) \<and>
   refines id (mem_apply_batch b) (ledger_apply_batch b) \<and>
   refines id (mem_apply_reconciliation plan) (ledger_apply_reconciliation plan) \<and>
   refines (map_option set) (mem_release_selected_operation hu i) (ledger_release_selected i) \<and>
   refines set (mem_release_operation hu i ph) (ledger_release i ph) \<and>
   refines set (mem_complete_operation hu i ph) (ledger_complete i ph) \<and>
   refines id (mem_advance_tick d) (ledger_advance_tick d) \<and>
   refines id (mem_put_account a) (ledger_put_account a) \<and>
   refines id (mem_put_scope sc) (ledger_put_scope sc) \<and>
   refines id (mem_put_utxo u) (ledger_put_utxo u)"
  by (intro conjI implements_refines mem_put_account_implements mem_put_scope_implements mem_put_utxo_implements
      mem_registration_reliable mem_persist_intent_implements mem_mark_committed_implements
      mem_mark_failed_implements mem_apply_batch_implements mem_apply_reconciliation_implements
      mem_release_selected_implements mem_release_implements mem_complete_implements
      mem_advance_tick_implements mem_commands_reliable mem_apply_batch_reliable mem_complete_reliable)

text \<open>A write transaction of the memory backend that fails changes nothing, not even the clock.\<close>

theorem memory_writes_atomic:
  "(mem_apply_batch b s = (Inl e, s') \<longrightarrow> s' = s) \<and>
   (mem_complete_operation hu i ph s = (Inl e, s') \<longrightarrow> s' = s) \<and>
   (mem_mark_intent_committed i s = (Inl e, s') \<longrightarrow> s' = s) \<and>
   (mem_mark_intent_failed hu i s = (Inl e, s') \<longrightarrow> s' = s) \<and>
   (mem_persist_intent sel s = (Inl e, s') \<longrightarrow> s' = s)"
proof (intro conjI impI)
  show "s' = s" if "mem_apply_batch b s = (Inl e, s')"
    using that by (auto simp: mem_apply_batch_def Let_def split: if_splits sum.splits prod.splits)
  show "s' = s" if "mem_complete_operation hu i ph s = (Inl e, s')"
    using that by (auto simp: mem_complete_operation_def Let_def
        split: if_splits option.splits sum.splits bool.splits)
  show "s' = s" if "mem_mark_intent_committed i s = (Inl e, s')"
    using that by (auto simp: mem_mark_intent_committed_def Let_def split: if_splits option.splits)
  show "s' = s" if "mem_mark_intent_failed hu i s = (Inl e, s')"
    using that
    by (auto simp: mem_mark_intent_failed_def mem_release_operation_def cmd_bind_apply Let_def
        split: if_splits option.splits intent_status.splits operation_phase.splits)
  show "s' = s" if "mem_persist_intent sel s = (Inl e, s')"
    using that by (auto simp: mem_persist_intent_def Let_def split: if_splits option.splits)
qed

theorem memory_writes_atomic_witness:
  "\<exists>e. mem_mark_intent_committed demo_id memory_default = (Inl e, memory_default)"
proof -
  obtain e s' where run: "mem_mark_intent_committed demo_id memory_default = (Inl e, s')"
    by (simp add: mem_mark_intent_committed_def memory_default_def)
  have "s' = memory_default"
    using memory_writes_atomic [where s = memory_default and i = demo_id and e = e and s' = s'] run by blast
  with run show ?thesis by blast
qed

section \<open>Findings\<close>

text \<open>C39: planning under an id whose intent is committed already, when it succeeds, reserves nothing: there is no
  live operation behind the id (it was released), no output, lock or record changes, and every output that
  is returned as planned is still unlocked and selectable for anyone.\<close>

theorem replanning_reserves_nothing:
  assumes "reachable hu ho hi dp sv" and "lg_intents (ledger_view sv) (per_operation_id req) = Some n"
    and "oi_status n = Committed" and "plan_exact_outpoints (memory_ops hu ho hi) req sv = (Inr planned, sv')"
  shows "ledger_view sv' = ledger_view sv \<and> planned = planned_of_selection (oi_selection n) \<and>
    pl_selected_outpoints planned \<noteq> [] \<and> \<not> live (ledger_view sv) (per_operation_id req) \<and>
    (\<forall>p\<in>set (pl_selected_outpoints planned). lg_locks (ledger_view sv') p = None \<and>
      is_outpoint_selectable (memory_ops hu ho hi) p sv' = (Inr True, sv'))"
proof -
  let ?req = "PlannedExactOutpoints (exact_of_plan_request req)"
  obtain sel where prepare: "on_orchestrator (prepare_operation (memory_ops hu ho hi) ?req) sv = (Inr sel, sv')"
    and planned: "planned = planned_of_selection sel"
    using assms(4) by (auto simp: plan_exact_outpoints_def cmd_bind_eq)
  then have run: "prepare_operation (memory_ops hu ho hi) ?req (sv_orchestrator sv) =
      (Inr sel, sv_orchestrator sv')"
    by (auto elim: on_orchestrator_run)
  note ok = reachable_orch [OF assms(1)]
  have "lg_intents (orch_ledger mem_ledger (sv_orchestrator sv)) (or_operation_id (into_operation_request ?req)) = Some n"
    using assms(2) by (simp add: view_orch operation_request_new_def exact_of_plan_request_def)
  from mem.prepare_settled [OF ok run this assms(3)]
  have same: "ledger_view sv' = ledger_view sv" and n: "oi_selection n = sel"
    and propose: "propose_operation (memory_ops hu ho hi) (orch_store (sv_orchestrator sv)) ?req = Inr sel"
    by (simp_all add: view_orch)
  note chosen = mem.propose_Inr [OF orch_ok_parts(1) [OF ok] propose, unfolded view_store]
  have free: "\<exists>u. lg_utxos (ledger_view sv) p = Some u \<and> is_policy_spendable u \<and> lg_locks (ledger_view sv) p = None"
    if "p \<in> set (os_selected_outpoints sel)" for p
    using chosen(2) [OF that] by (auto simp: free_for_def)
  have dead: "\<not> live (ledger_view sv) (per_operation_id req)"
  proof
    assume "live (ledger_view sv) (per_operation_id req)"
    moreover obtain p where p: "p \<in> set (os_selected_outpoints sel)" using chosen(1) by (cases "os_selected_outpoints sel") auto
    moreover have "claims (ledger_view sv) (per_operation_id req) p" using assms(2) n p by (simp add: claims_def)
    ultimately show False
      using claims_okD(2) [OF reachable_ledger(4) [OF assms(1)]] free [OF p]
      by (fastforce simp: bound_to_def is_policy_spendable_def)
  qed
  have r': "reachable hu ho hi dp sv'"
    using steps_more [OF assms(1) [unfolded reachable_def] step_prepare [OF prepare]] by (simp add: reachable_def)
  have "is_outpoint_selectable (memory_ops hu ho hi) p sv' = (Inr True, sv')" if "p \<in> set (os_selected_outpoints sel)" for p
    using selectable_query [OF r', of p] free [OF that] same by auto
  moreover have "lg_locks (ledger_view sv) p = None" if "p \<in> set (os_selected_outpoints sel)" for p
    using free [OF that] by blast
  ultimately show ?thesis using same n planned chosen(1) dead by (simp add: planned_of_selection_def)
qed

theorem replanning_reserves_nothing_witness:
  "plan_exact_outpoints demo_ops demo_request demo4 = (Inr demo_planned, demo4) \<and>
   is_outpoint_selectable demo_ops demo_p demo4 = (Inr True, demo4)"
proof -
  have run: "plan_exact_outpoints demo_ops demo_request demo4 = (Inr demo_planned, demo4)"
    by (simp add: demo_records demo_planned_def run_eval)
  have "lg_intents (ledger_view demo4) (per_operation_id demo_request) = Some (demo_intent Committed)"
    and "oi_status (demo_intent Committed) = Committed"
    by (simp_all add: demo_views demo_request_def)
  from replanning_reserves_nothing [OF demo_reached(7) this run [unfolded demo_ops_def]] run
  show ?thesis by (simp add: demo_planned_def demo_ops_def)
qed





end
